(* ===== verification/Go_Prelude.thy ===== *)
theory Go_Prelude
  imports Main "HOL-Library.Word" "HOL-Library.List_Lexorder" "HOL-Library.Signed_Division"
    "HOL-Library.Multiset"
begin

text \<open>
  What the components share: the value types of the Go code (bytes, 64-bit integers with
  their wrap-around, results that may panic), the parts of the Go standard library that the
  code calls (slice indexing, \<^verbatim>\<open>sort.Search\<close>), and the generic lemmas on lists, sums and
  runs of operations. A value of a Go integer type (\<^verbatim>\<open>int\<close>, \<^verbatim>\<open>int64\<close>) is an \<open>int\<close>, and
  every arithmetic operation of the source is followed by \<open>wrap64\<close> where it can overflow.
\<close>

named_theorems go_simps \<open>rewriting through results that may panic\<close>
named_theorems i64_simps \<open>wrap-around of 64-bit integers\<close>

section \<open>Types and results\<close>

type_synonym byte = "8 word"
type_synonym bytes = "byte list"

text \<open>
  Keys and signatures of \<^verbatim>\<open>go-crypto\<close> are their byte strings (the empty one is the zero value
  of the interface wrapper); the cryptographic functions on them are parameters of the model.
\<close>

type_synonym pub_key = bytes
type_synonym signature = bytes

text \<open>A Go call either returns or panics; the string names the reason of the panic.\<close>

datatype 'a go = Ret 'a | Panic string

definition go_bind :: "'a go \<Rightarrow> ('a \<Rightarrow> 'b go) \<Rightarrow> 'b go" where
  "go_bind m f = (case m of Ret a \<Rightarrow> f a | Panic p \<Rightarrow> Panic p)"

definition returns :: "'a go \<Rightarrow> bool" where
  "returns m \<longleftrightarrow> (\<exists>a. m = Ret a)"

lemma go_bind_simps [simp, go_simps]:
  "go_bind (Ret a) f = f a" "go_bind (Panic p) f = Panic p"
  by (simp_all add: go_bind_def)

lemma go_bind_eq_Ret [go_simps]:
  "go_bind m f = Ret b \<longleftrightarrow> (\<exists>a. m = Ret a \<and> f a = Ret b)"
  by (cases m) auto

lemma go_bind_assoc: "go_bind (go_bind m f) g = go_bind m (\<lambda>a. go_bind (f a) g)"
  by (cases m) auto

lemma returns_simps [simp, go_simps]: "returns (Ret a)" "\<not> returns (Panic p)"
  by (simp_all add: returns_def)

text \<open>Reading and writing \<^verbatim>\<open>xs[i]\<close>: an index out of range is a run-time panic.\<close>

definition slice_get :: "'a list \<Rightarrow> int \<Rightarrow> 'a go" where
  "slice_get xs i =
     (if 0 \<le> i \<and> i < int (length xs) then Ret (xs ! nat i)
      else Panic ''index out of range'')"

definition slice_set :: "'a list \<Rightarrow> int \<Rightarrow> 'a \<Rightarrow> 'a list go" where
  "slice_set xs i v =
     (if 0 \<le> i \<and> i < int (length xs) then Ret (xs[nat i := v])
      else Panic ''index out of range'')"

text \<open>\<open>go_slice xs a b\<close> is \<^verbatim>\<open>xs[a:b]\<close>.\<close>

definition go_slice :: "'a list \<Rightarrow> int \<Rightarrow> int \<Rightarrow> 'a list go" where
  "go_slice xs a b =
     (if 0 \<le> a \<and> a \<le> b \<and> b \<le> int (length xs) then Ret (take (nat b - nat a) (drop (nat a) xs))
      else Panic ''slice bounds out of range'')"

text \<open>\<open>copy_at xs off n v\<close>: the copy of \<open>v\<close> into the \<open>n\<close> places of \<open>xs\<close> from \<open>off\<close> on.\<close>

definition copy_at :: "'a list \<Rightarrow> nat \<Rightarrow> nat \<Rightarrow> 'a list \<Rightarrow> 'a list" where
  "copy_at xs off n v = (let w = take n v in take off xs @ w @ drop (off + length w) xs)"

lemma slice_get_in [simp]: "0 \<le> i \<Longrightarrow> i < int (length xs) \<Longrightarrow> slice_get xs i = Ret (xs ! nat i)"
  by (simp add: slice_get_def)

lemma slice_set_in [simp]:
  "0 \<le> i \<Longrightarrow> i < int (length xs) \<Longrightarrow> slice_set xs i v = Ret (xs[nat i := v])"
  by (simp add: slice_set_def)

lemma slice_get_Ret [go_simps]:
  "slice_get xs i = Ret v \<longleftrightarrow> 0 \<le> i \<and> i < int (length xs) \<and> v = xs ! nat i"
  by (auto simp: slice_get_def)

lemma slice_set_Ret [go_simps]:
  "slice_set xs i v = Ret ys \<longleftrightarrow> 0 \<le> i \<and> i < int (length xs) \<and> ys = xs[nat i := v]"
  by (auto simp: slice_set_def)

section \<open>64-bit signed integers\<close>

definition wrap64 :: "int \<Rightarrow> int" where
  "wrap64 x = (x + 2 ^ 63) mod 2 ^ 64 - 2 ^ 63"

abbreviation i64 :: "int \<Rightarrow> bool" where
  "i64 x \<equiv> - (2 ^ 63) \<le> x \<and> x < 2 ^ 63"

lemma wrap64_id [simp, i64_simps]: "- (2 ^ 63) \<le> x \<Longrightarrow> x < 2 ^ 63 \<Longrightarrow> wrap64 x = x"
  by (simp add: wrap64_def)

lemma wrap64_range: "i64 (wrap64 x)"
proof -
  have "0 \<le> (x + 2 ^ 63) mod 2 ^ 64" "(x + 2 ^ 63) mod 2 ^ 64 < 2 ^ 64" by simp_all
  then show ?thesis by (simp add: wrap64_def)
qed

lemma wrap64_idem [simp, i64_simps]: "wrap64 (wrap64 x) = wrap64 x"
  using wrap64_range [of x] by (simp only: wrap64_id)

lemma wrap64_mod: "wrap64 x mod 2 ^ 64 = x mod 2 ^ 64"
  by (simp add: wrap64_def mod_diff_left_eq)

lemma wrap64_cong: "x mod 2 ^ 64 = y mod 2 ^ 64 \<Longrightarrow> wrap64 x = wrap64 y"
  unfolding wrap64_def by (metis mod_add_cong)

lemma wrap64_add_left [simp, i64_simps]: "wrap64 (wrap64 x + y) = wrap64 (x + y)"
  by (rule wrap64_cong) (metis mod_add_left_eq wrap64_mod)

lemma wrap64_add_right [simp, i64_simps]: "wrap64 (x + wrap64 y) = wrap64 (x + y)"
  by (rule wrap64_cong) (metis mod_add_right_eq wrap64_mod)

lemma wrap64_diff_left [simp, i64_simps]: "wrap64 (wrap64 x - y) = wrap64 (x - y)"
  by (rule wrap64_cong) (metis mod_diff_left_eq wrap64_mod)

lemma wrap64_minus [simp, i64_simps]: "wrap64 (- wrap64 x) = wrap64 (- x)"
  by (rule wrap64_cong) (metis mod_minus_eq wrap64_mod)

text \<open>The quorum arithmetic of the code: \<^verbatim>\<open>x*2/3\<close> on \<^verbatim>\<open>int64\<close>, which truncates.\<close>

definition two_thirds :: "int \<Rightarrow> int" where
  "two_thirds x = wrap64 (x * 2) sdiv 3"

lemma two_thirds_eq: "0 \<le> x \<Longrightarrow> x < 2 ^ 62 \<Longrightarrow> two_thirds x = x * 2 div 3"
  by (cases "x = 0") (simp_all add: two_thirds_def signed_divide_int_def sgn_if)

section \<open>Binary search of the standard library\<close>

text \<open>
  \<^verbatim>\<open>sort.Search(n, f)\<close>: the smallest index in \<open>[0, n)\<close> where the monotone predicate holds,
  \<open>n\<close> if there is none.
\<close>

function search_loop :: "(nat \<Rightarrow> bool) \<Rightarrow> nat \<Rightarrow> nat \<Rightarrow> nat" where
  "search_loop f i j =
     (if i < j then
        (let h = (i + j) div 2 in
         if \<not> f h then search_loop f (h + 1) j else search_loop f i h)
      else i)"
  by pat_completeness auto
termination
  by (relation "measure (\<lambda>(f, i, j). j - i)") auto

declare search_loop.simps [simp del]

definition sort_Search :: "nat \<Rightarrow> (nat \<Rightarrow> bool) \<Rightarrow> nat" where
  "sort_Search n f = search_loop f 0 n"

lemma search_loop_spec:
  assumes "i \<le> j"
    and "\<And>a b. a \<le> b \<Longrightarrow> b < n \<Longrightarrow> f a \<Longrightarrow> f b" and "j \<le> n"
    and "\<And>k. k < i \<Longrightarrow> \<not> f k" and "\<And>k. j \<le> k \<Longrightarrow> k < n \<Longrightarrow> f k"
  shows "search_loop f i j \<le> n \<and> (\<forall>k < search_loop f i j. \<not> f k)
    \<and> (\<forall>k. search_loop f i j \<le> k \<longrightarrow> k < n \<longrightarrow> f k)"
  using assms
proof (induction f i j rule: search_loop.induct)
  case (1 f i j)
  let ?h = "(i + j) div 2"
  show ?case
  proof (cases "i < j")
    case True
    then have h: "?h < j" "i \<le> ?h" by auto
    show ?thesis
    proof (cases "f ?h")
      case False
      have below: "\<not> f k" if "k < ?h + 1" for k
        using False "1.prems"(2) [of k ?h] that h "1.prems"(3) by auto
      have le: "?h + 1 \<le> j" using h by simp
      have "search_loop f (?h + 1) j \<le> n \<and> (\<forall>k < search_loop f (?h + 1) j. \<not> f k)
          \<and> (\<forall>k. search_loop f (?h + 1) j \<le> k \<longrightarrow> k < n \<longrightarrow> f k)"
        by (rule "1.IH"(1) [OF True refl False le "1.prems"(2,3) below "1.prems"(5)])
      with True False show ?thesis by (simp add: search_loop.simps [of f i j] Let_def)
    next
      case T: True
      have above: "f k" if "?h \<le> k" "k < n" for k
        using T "1.prems"(2) [of ?h k] that by blast
      have nn: "\<not> \<not> f ?h" and le: "?h \<le> n" using T h "1.prems"(3) by simp_all
      have "search_loop f i ?h \<le> n \<and> (\<forall>k < search_loop f i ?h. \<not> f k)
          \<and> (\<forall>k. search_loop f i ?h \<le> k \<longrightarrow> k < n \<longrightarrow> f k)"
        by (rule "1.IH"(2) [OF True refl nn h(2) "1.prems"(2) le "1.prems"(4) above])
      with True T show ?thesis by (simp add: search_loop.simps [of f i j] Let_def)
    qed
  next
    case False
    then have "search_loop f i j = i" by (simp add: search_loop.simps [of f i j])
    with "1.prems" False show ?thesis by auto
  qed
qed

lemma sort_Search_spec:
  assumes "\<And>a b. a \<le> b \<Longrightarrow> b < n \<Longrightarrow> f a \<Longrightarrow> f b"
  shows "sort_Search n f \<le> n" and "k < sort_Search n f \<Longrightarrow> \<not> f k"
    and "sort_Search n f \<le> k \<Longrightarrow> k < n \<Longrightarrow> f k"
  using search_loop_spec [of 0 n n f] assms unfolding sort_Search_def by auto

section \<open>Runs of operations\<close>

text \<open>A component's operations as one step function on events, run over a list of events.\<close>

fun go_run :: "('s \<Rightarrow> 'e \<Rightarrow> 's go) \<Rightarrow> 's \<Rightarrow> 'e list \<Rightarrow> 's go" where
  "go_run step s [] = Ret s"
| "go_run step s (e # es) = go_bind (step s e) (\<lambda>s'. go_run step s' es)"

lemma go_run_append: "go_run step s (xs @ ys) = go_bind (go_run step s xs) (\<lambda>t. go_run step t ys)"
  by (induction xs arbitrary: s) (auto simp: go_bind_assoc)

text \<open>
  The contract of a component with an invariant: every operation that returns keeps it. Where
  the operations never panic from a state that satisfies it, every run returns.
\<close>

locale go_machine =
  fixes step :: "'s \<Rightarrow> 'e \<Rightarrow> 's go" and inv :: "'s \<Rightarrow> bool"
  assumes step_inv: "inv s \<Longrightarrow> step s e = Ret s' \<Longrightarrow> inv s'"
begin

lemma run_inv: "inv s \<Longrightarrow> go_run step s es = Ret t \<Longrightarrow> inv t"
  by (induction es arbitrary: s) (auto simp: go_bind_eq_Ret dest: step_inv)

end

locale total_machine = go_machine +
  assumes step_returns: "inv s \<Longrightarrow> returns (step s e)"
begin

lemma run_returns: "inv s \<Longrightarrow> \<exists>t. go_run step s es = Ret t \<and> inv t"
proof (induction es arbitrary: s)
  case Nil
  then show ?case by simp
next
  case (Cons e es)
  from step_returns [OF Cons.prems] obtain s' where s': "step s e = Ret s'"
    by (auto simp: returns_def)
  with step_inv [OF Cons.prems] have "inv s'" by blast
  from Cons.IH [OF this] s' show ?case by simp
qed

end

section \<open>Lists and sums\<close>

lemma sum_list_update_int:
  "k < length xs \<Longrightarrow> sum_list (xs[k := v]) = sum_list xs - xs ! k + (v :: int)"
  by (induction xs arbitrary: k) (auto split: nat.split)

lemma sum_list_map_update:
  "k < length xs \<Longrightarrow>
    sum_list (map g (xs[k := v])) = sum_list (map g xs) - g (xs ! k) + (g v :: int)"
  by (simp add: map_update sum_list_update_int)

lemma distinct_map_nth_eq:
  "distinct (map g xs) \<Longrightarrow> i < length xs \<Longrightarrow> j < length xs \<Longrightarrow> g (xs ! i) = g (xs ! j) \<longleftrightarrow> i = j"
  by (metis length_map nth_eq_iff_index_eq nth_map)

lemma map_update_same: "k < length xs \<Longrightarrow> g v = g (xs ! k) \<Longrightarrow> map g (xs[k := v]) = map g xs"
  by (metis list_update_id map_update)

lemma nonneg_elem_le_sum_list:
  "(\<And>x. x \<in> set xs \<Longrightarrow> 0 \<le> x) \<Longrightarrow> y \<in> set xs \<Longrightarrow> y \<le> sum_list (xs :: int list)"
proof (induction xs)
  case (Cons x xs)
  then have "0 \<le> sum_list xs" "0 \<le> x" by (auto intro: sum_list_nonneg)
  with Cons show ?case by fastforce
qed simp

lemma sum_list_le_length_times:
  "(\<And>x. x \<in> set xs \<Longrightarrow> x \<le> c) \<Longrightarrow> sum_list xs \<le> int (length xs) * (c :: int)"
proof (induction xs)
  case (Cons x xs)
  then have "x \<le> c" "sum_list xs \<le> int (length xs) * c" by simp_all
  then show ?case by (simp add: algebra_simps)
qed simp

lemma sum_list_add_const:
  "sum_list (map (\<lambda>x. g x + c) xs) = sum_list (map g xs) + int (length xs) * (c :: int)"
  by (induction xs) (simp_all add: algebra_simps)

end
