(* ===== verification/Container_Heap.thy ===== *)
theory Container_Heap
  imports Go_Prelude
begin

text \<open>
  The priority queue behind proposer selection: \<^verbatim>\<open>tmlibs/common/heap.go\<close> over the standard
  library's \<^verbatim>\<open>container/heap\<close> (Go 1.9). The heap array is a list, the comparison a call that
  may panic. The locale \<open>heap_order\<close> is the contract a comparison has to meet; inside it the
  sift operations are shown to return and to keep the array a heap over the same elements.
\<close>

section \<open>The operations of container/heap\<close>

definition heap_swap :: "'a list \<Rightarrow> nat \<Rightarrow> nat \<Rightarrow> 'a list" where
  "heap_swap h i j = h[i := h ! j, j := h ! i]"

definition parent :: "nat \<Rightarrow> nat" where
  "parent j = (j - 1) div 2"

text \<open>\<^verbatim>\<open>up(h, j)\<close>: at the root \<^verbatim>\<open>(j-1)/2\<close> is 0, which ends the loop.\<close>

function heap_up :: "('a \<Rightarrow> 'a \<Rightarrow> bool go) \<Rightarrow> 'a list \<Rightarrow> nat \<Rightarrow> 'a list go" where
  "heap_up lt h j =
     (let i = parent j in
      if i = j then Ret h
      else go_bind (lt (h ! j) (h ! i)) (\<lambda>b.
        if \<not> b then Ret h else heap_up lt (heap_swap h i j) i))"
  by pat_completeness auto
termination
  by (relation "measure (\<lambda>(lt, h, j). j)") (auto simp: parent_def)

text \<open>\<^verbatim>\<open>down(h, i, n)\<close>: the final position of the element; the code returns \<^verbatim>\<open>i > i0\<close>.\<close>

function heap_down :: "('a \<Rightarrow> 'a \<Rightarrow> bool go) \<Rightarrow> 'a list \<Rightarrow> nat \<Rightarrow> nat \<Rightarrow> ('a list \<times> nat) go" where
  "heap_down lt h i n =
     (let j1 = 2 * i + 1; j2 = j1 + 1 in
      if j1 \<ge> n then Ret (h, i)
      else go_bind (if j2 < n then lt (h ! j1) (h ! j2) else Ret True) (\<lambda>b.
        let j = (if b then j1 else j2) in
        go_bind (lt (h ! j) (h ! i)) (\<lambda>c.
          if \<not> c then Ret (h, i) else heap_down lt (heap_swap h i j) j n)))"
  by pat_completeness auto
termination
  by (relation "measure (\<lambda>(lt, h, i, n). n - i)") (auto split: if_splits)

declare heap_up.simps [simp del] heap_down.simps [simp del]

text \<open>\<^verbatim>\<open>heap.Fix(h, i)\<close>.\<close>

definition heap_fix :: "('a \<Rightarrow> 'a \<Rightarrow> bool go) \<Rightarrow> 'a list \<Rightarrow> nat \<Rightarrow> 'a list go" where
  "heap_fix lt h i =
     go_bind (heap_down lt h i (length h)) (\<lambda>(h', i').
       if i' > i then Ret h' else heap_up lt h' i)"

section \<open>The wrapper of tmlibs/common/heap.go\<close>

definition Heap_Push :: "('a \<Rightarrow> 'a \<Rightarrow> bool go) \<Rightarrow> 'a list \<Rightarrow> 'a \<Rightarrow> 'a list go" where
  "Heap_Push lt h v = heap_up lt (h @ [v]) (length h)"

definition Heap_Peek :: "'a list \<Rightarrow> 'a option" where
  "Heap_Peek h = (if length h = 0 then None else Some (h ! 0))"

text \<open>\<^verbatim>\<open>Update(value, priority)\<close> replaces the root item and fixes the heap there.\<close>

definition Heap_Update :: "('a \<Rightarrow> 'a \<Rightarrow> bool go) \<Rightarrow> 'a list \<Rightarrow> 'a \<Rightarrow> 'a list go" where
  "Heap_Update lt h v =
     (if h = [] then Panic ''index out of range'' else heap_fix lt (h[0 := v]) 0)"

section \<open>Contract of the comparison, and correctness of the heap\<close>

lemma length_heap_swap [simp]: "length (heap_swap h i j) = length h"
  by (simp add: heap_swap_def)

lemma nth_heap_swap:
  "i < length h \<Longrightarrow> j < length h \<Longrightarrow>
    k < length h \<Longrightarrow> heap_swap h i j ! k = (if k = j then h ! i else if k = i then h ! j else h ! k)"
  by (auto simp: heap_swap_def nth_list_update)

lemma mset_heap_swap [simp]:
  "i < length h \<Longrightarrow> j < length h \<Longrightarrow> mset (heap_swap h i j) = mset h"
  by (simp add: heap_swap_def mset_swap)

lemma parent_less: "0 < k \<Longrightarrow> parent k < k"
  by (auto simp: parent_def)

lemma parent_fixed [simp]: "parent k = k \<longleftrightarrow> k = 0"
  by (auto simp: parent_def)

lemma parent_eq: "0 < k \<Longrightarrow> parent k = i \<longleftrightarrow> k = 2 * i + 1 \<or> k = 2 * i + 2"
  by (auto simp: parent_def)

locale heap_order =
  fixes lt :: "'a \<Rightarrow> 'a \<Rightarrow> bool go" and dom :: "'a set" and better :: "'a \<Rightarrow> 'a \<Rightarrow> bool"
  assumes less_better: "x \<in> dom \<Longrightarrow> y \<in> dom \<Longrightarrow> x \<noteq> y \<Longrightarrow> lt x y = Ret (better x y)"
    and better_irrefl: "x \<in> dom \<Longrightarrow> \<not> better x x"
    and better_trans: "x \<in> dom \<Longrightarrow> y \<in> dom \<Longrightarrow> z \<in> dom \<Longrightarrow> better x y \<Longrightarrow> better y z \<Longrightarrow> better x z"
    and better_total: "x \<in> dom \<Longrightarrow> y \<in> dom \<Longrightarrow> x \<noteq> y \<Longrightarrow> better x y \<or> better y x"
begin

definition is_heap :: "'a list \<Rightarrow> bool" where
  "is_heap h \<longleftrightarrow> (\<forall>k. 0 < k \<longrightarrow> k < length h \<longrightarrow> \<not> better (h ! k) (h ! parent k))"

definition up_inv :: "'a list \<Rightarrow> nat \<Rightarrow> bool" where
  "up_inv h j \<longleftrightarrow>
     (\<forall>k. 0 < k \<longrightarrow> k < length h \<longrightarrow> k \<noteq> j \<longrightarrow> \<not> better (h ! k) (h ! parent k)) \<and>
     (\<forall>k. 0 < j \<longrightarrow> 0 < k \<longrightarrow> k < length h \<longrightarrow> parent k = j \<longrightarrow> \<not> better (h ! k) (h ! parent j))"

definition down_inv :: "'a list \<Rightarrow> nat \<Rightarrow> bool" where
  "down_inv h i \<longleftrightarrow>
     (\<forall>k. 0 < k \<longrightarrow> k < length h \<longrightarrow> parent k \<noteq> i \<longrightarrow> \<not> better (h ! k) (h ! parent k)) \<and>
     (\<forall>k. 0 < i \<longrightarrow> 0 < k \<longrightarrow> k < length h \<longrightarrow> parent k = i \<longrightarrow> \<not> better (h ! k) (h ! parent i))"

lemma better_asym: "x \<in> dom \<Longrightarrow> y \<in> dom \<Longrightarrow> better x y \<Longrightarrow> \<not> better y x"
  using better_trans better_irrefl by blast

lemma not_better_trans:
  assumes "x \<in> dom" "y \<in> dom" "z \<in> dom" "\<not> better x y" "\<not> better y z"
  shows "\<not> better x z"
proof
  assume xz: "better x z"
  show False
  proof (cases "x = y \<or> y = z")
    case True
    with assms xz show False by auto
  next
    case False
    with assms better_total have "better y x" by blast
    with better_trans [OF assms(2,1,3) _ xz] assms(5) show False by blast
  qed
qed

lemma swap_up_inv:
  assumes h: "set h \<subseteq> dom" and j: "j < length h" "0 < j"
    and b: "better (h ! j) (h ! parent j)" and inv: "up_inv h j"
  shows "up_inv (heap_swap h (parent j) j) (parent j)"
proof -
  let ?i = "parent j" and ?h = "heap_swap h (parent j) j"
  have i: "?i < length h" "?i < j" using parent_less [of j] j by auto
  have D: "h ! k \<in> dom" if "k < length h" for k using h that by auto
  have A: "\<not> better (h ! k) (h ! parent k)" if "0 < k" "k < length h" "k \<noteq> j" for k
    using inv that by (auto simp: up_inv_def)
  have B: "\<not> better (h ! k) (h ! ?i)" if "0 < k" "k < length h" "parent k = j" for k
    using inv that j by (auto simp: up_inv_def)
  have asym: "\<not> better (h ! ?i) (h ! j)" using better_asym [OF D D b] i j by blast
  have sib: "\<not> better (h ! k) (h ! j)" if "0 < k" "k < length h" "parent k = ?i" "k \<noteq> j" for k
    using A [OF that(1,2,4)] better_trans [OF D D D _ b] that i j by metis
  have nn: "\<not> better (h ! k) (h ! parent ?i)"
    if "0 < ?i" "0 < k" "k < length h" "parent k = ?i" "k \<noteq> j" for k
    using not_better_trans [OF D D D A [OF that(2,3,5)]] A [of ?i] that i
      parent_less [of ?i] by auto
  show ?thesis
    unfolding up_inv_def
  proof (intro conjI allI impI)
    fix k assume k: "0 < k" "k < length ?h" "k \<noteq> ?i"
    show "\<not> better (?h ! k) (?h ! parent k)"
      using k asym sib B A parent_less [of k] i j by (auto simp: nth_heap_swap)
  next
    fix k assume k: "0 < ?i" "0 < k" "k < length ?h" "parent k = ?i"
    have "parent ?i \<noteq> j" "parent ?i \<noteq> ?i" "parent ?i < length h"
      using parent_less [of ?i] k i by auto
    then show "\<not> better (?h ! k) (?h ! parent ?i)"
      using k A [of ?i] nn parent_less [of k] i j by (auto simp: nth_heap_swap)
  qed
qed

lemma heap_up_correct:
  assumes "set h \<subseteq> dom" "distinct h" "j < length h" "up_inv h j"
  shows "\<exists>h'. heap_up lt h j = Ret h' \<and> is_heap h' \<and> mset h' = mset h"
  using assms
proof (induction j arbitrary: h rule: less_induct)
  case (less j)
  show ?case
  proof (cases "j = 0")
    case True
    with less.prems show ?thesis
      by (simp add: heap_up.simps [of _ h 0] up_inv_def is_heap_def Let_def)
  next
    case False
    then have i: "parent j < j" "parent j < length h" "parent j \<noteq> j"
      using parent_less [of j] less.prems(3) by auto
    have ne: "h ! j \<noteq> h ! parent j"
      using less.prems i by (simp add: nth_eq_iff_index_eq)
    have lb: "lt (h ! j) (h ! parent j) = Ret (better (h ! j) (h ! parent j))"
      using less.prems(1,3) i ne by (intro less_better) auto
    show ?thesis
    proof (cases "better (h ! j) (h ! parent j)")
      case True
      let ?h = "heap_swap h (parent j) j"
      have m: "mset ?h = mset h" using i less.prems(3) by simp
      have s: "set ?h \<subseteq> dom" "distinct ?h"
        using m less.prems(1,2) by (metis set_mset_mset) (metis m less.prems(2) mset_eq_imp_distinct_iff)
      have "up_inv ?h (parent j)"
        using swap_up_inv less.prems False True by blast
      from less.IH [OF i(1) s _ this] i obtain h'
        where "heap_up lt ?h (parent j) = Ret h'" "is_heap h'" "mset h' = mset ?h"
        by auto
      with True i m show ?thesis
        by (auto simp: heap_up.simps [of _ h j] lb Let_def)
    next
      case f: False
      then have "is_heap h"
        using less.prems(4) unfolding is_heap_def up_inv_def by blast
      with f i show ?thesis by (auto simp: heap_up.simps [of _ h j] lb Let_def)
    qed
  qed
qed

lemma swap_down_inv:
  assumes h: "set h \<subseteq> dom" and i: "0 < j" "j < length h" "parent j = i"
    and best: "\<And>k. 0 < k \<Longrightarrow> k < length h \<Longrightarrow> parent k = i \<Longrightarrow> \<not> better (h ! k) (h ! j)"
    and b: "better (h ! j) (h ! i)" and inv: "down_inv h i"
  shows "down_inv (heap_swap h i j) j"
proof -
  let ?h = "heap_swap h i j"
  have ij: "i < j" "i < length h" using parent_less [of j] i by auto
  have D: "h ! k \<in> dom" if "k < length h" for k using h that by auto
  have A: "\<not> better (h ! k) (h ! parent k)" if "0 < k" "k < length h" "parent k \<noteq> i" for k
    using inv that by (auto simp: down_inv_def)
  have B: "\<not> better (h ! j) (h ! parent i)" if "0 < i"
    using inv that i by (auto simp: down_inv_def)
  have asym: "\<not> better (h ! i) (h ! j)" using better_asym [OF D D b] i ij by blast
  show ?thesis
    unfolding down_inv_def
  proof (intro conjI allI impI)
    fix k assume k: "0 < k" "k < length ?h" "parent k \<noteq> j"
    have "parent k < k" "parent i \<noteq> i \<or> i = 0" "k = i \<Longrightarrow> parent i \<noteq> j"
      using parent_less [of k] k ij parent_less [of i] by auto
    then show "\<not> better (?h ! k) (?h ! parent k)"
      using k asym best A B i ij by (auto simp: nth_heap_swap)
  next
    fix k assume k: "0 < j" "0 < k" "k < length ?h" "parent k = j"
    then have "k \<noteq> i" "k \<noteq> j" using parent_less [of k] ij by auto
    then show "\<not> better (?h ! k) (?h ! parent j)"
      using k A [of k] i ij by (auto simp: nth_heap_swap)
  qed
qed

lemma heap_down_correct:
  assumes "set h \<subseteq> dom" "distinct h" "i < length h" "down_inv h i"
  shows "\<exists>h' i'. heap_down lt h i (length h) = Ret (h', i') \<and> is_heap h' \<and> mset h' = mset h \<and> i \<le> i'"
  using assms
proof (induction "length h - i" arbitrary: h i rule: less_induct)
  case less
  let ?j1 = "2 * i + 1" and ?j2 = "2 * i + 1 + 1"
  have D: "h ! k \<in> dom" if "k < length h" for k using less.prems(1) that by auto
  have L: "lt (h ! a) (h ! b) = Ret (better (h ! a) (h ! b))"
    if "a < length h" "b < length h" "a \<noteq> b" for a b
    using less_better [OF D D] that less.prems(2) by (simp add: nth_eq_iff_index_eq)
  show ?case
  proof (cases "?j1 \<ge> length h")
    case True
    then have "parent k \<noteq> i" if "0 < k" "k < length h" for k
      using parent_eq [of k i] that by auto
    then have "is_heap h"
      using less.prems(4) unfolding is_heap_def down_inv_def by blast
    with True show ?thesis by (simp add: heap_down.simps [of _ h i] Let_def)
  next
    case False
    define b where "b = (if ?j2 < length h then better (h ! ?j1) (h ! ?j2) else True)"
    define j where "j = (if b then ?j1 else ?j2)"
    have j: "j < length h" "0 < j" "parent j = i" "i < j"
      using False by (auto simp: j_def b_def parent_def split: if_splits)
    have best: "\<not> better (h ! k) (h ! j)" if "0 < k" "k < length h" "parent k = i" for k
      using that parent_eq [of k i] False better_asym [OF D D, of ?j1 ?j2] better_irrefl [OF D, of k]
      by (auto simp: j_def b_def split: if_splits)
    have lb: "(if ?j2 < length h then lt (h ! ?j1) (h ! ?j2) else Ret True) = Ret b"
      using L [of ?j1 ?j2] False by (simp add: b_def)
    have lj: "lt (h ! j) (h ! i) = Ret (better (h ! j) (h ! i))"
      using L [of j i] j by simp
    have e: "heap_down lt h i (length h) = (if \<not> better (h ! j) (h ! i) then Ret (h, i)
        else heap_down lt (heap_swap h i j) j (length h))"
      unfolding heap_down.simps [of _ h i] Let_def
      by (simp only: False if_False lb go_bind_simps j_def [symmetric] lj)
    show ?thesis
    proof (cases "better (h ! j) (h ! i)")
      case True
      let ?h = "heap_swap h i j"
      have m: "mset ?h = mset h" using j by simp
      then have s: "set ?h \<subseteq> dom" "distinct ?h"
        using less.prems(1,2) by (metis set_mset_mset) (metis m less.prems(2) mset_eq_imp_distinct_iff)
      have "down_inv ?h j" using swap_down_inv j best True less.prems by blast
      moreover have "length ?h - j < length h - i" "j < length ?h" using j by auto
      ultimately obtain h' i'
        where "heap_down lt ?h j (length h) = Ret (h', i')" "is_heap h'" "mset h' = mset ?h" "j \<le> i'"
        using less.hyps [of ?h j] s by auto
      with True j e m show ?thesis by auto
    next
      case f: False
      have "\<not> better (h ! k) (h ! i)" if "0 < k" "k < length h" "parent k = i" for k
        using not_better_trans [OF D D D best [OF that] f] that j less.prems(3) by auto
      then have "is_heap h"
        using less.prems(4) unfolding is_heap_def down_inv_def by metis
      with f e show ?thesis by auto
    qed
  qed
qed

text \<open>The facts the clients use.\<close>

lemma Push_correct:
  assumes "set h \<subseteq> dom" "distinct h" "is_heap h" "v \<in> dom" "v \<notin> set h"
  shows "\<exists>h'. Heap_Push lt h v = Ret h' \<and> is_heap h' \<and> mset h' = add_mset v (mset h)"
proof -
  have "up_inv (h @ [v]) (length h)"
    unfolding up_inv_def
  proof (intro conjI allI impI)
    fix k assume "0 < k" "k < length (h @ [v])" "k \<noteq> length h"
    then show "\<not> better ((h @ [v]) ! k) ((h @ [v]) ! parent k)"
      using assms(3) parent_less [of k] by (auto simp: is_heap_def nth_append)
  next
    fix k assume "0 < k" "k < length (h @ [v])" "parent k = length h"
    then show "\<not> better ((h @ [v]) ! k) ((h @ [v]) ! parent (length h))"
      using parent_less [of k] by simp
  qed
  with heap_up_correct [of "h @ [v]" "length h"] assms show ?thesis
    by (auto simp: Heap_Push_def)
qed

lemma Update_correct:
  assumes "set h \<subseteq> dom" "distinct h" "h \<noteq> []"
    and "\<And>k. 0 < parent k \<Longrightarrow> k < length h \<Longrightarrow> \<not> better (h ! k) (h ! parent k)"
  shows "\<exists>h'. Heap_Update lt h (h ! 0) = Ret h' \<and> is_heap h' \<and> mset h' = mset h"
proof -
  have "down_inv h 0" using assms(4) by (auto simp: down_inv_def)
  then obtain h' i' where d: "heap_down lt h 0 (length h) = Ret (h', i')" "is_heap h'"
    "mset h' = mset h"
    using heap_down_correct [of h 0] assms by auto
  have "heap_up lt h' 0 = Ret h'" by (simp add: heap_up.simps [of _ h' 0] Let_def)
  with d assms(3) show ?thesis by (simp add: Heap_Update_def heap_fix_def)
qed

lemma is_heap_root:
  assumes "set h \<subseteq> dom" "is_heap h" "k < length h"
  shows "\<not> better (h ! k) (h ! 0)"
  using assms(3)
proof (induction k rule: less_induct)
  case (less k)
  have D: "h ! i \<in> dom" if "i < length h" for i using assms(1) that by auto
  show ?case
  proof (cases "k = 0")
    case True
    with better_irrefl [OF D] less.prems show ?thesis by auto
  next
    case False
    then have p: "parent k < k" using parent_less by simp
    with False less.prems assms(2) have "\<not> better (h ! k) (h ! parent k)"
      by (auto simp: is_heap_def)
    moreover from p less.prems less.IH [OF p] have "\<not> better (h ! parent k) (h ! 0)" by simp
    moreover from p less.prems have "parent k < length h" "0 < length h" by auto
    ultimately show ?thesis using not_better_trans [OF D D D] less.prems by blast
  qed
qed

end

end
