(* ===== verification/Validator_Set.thy ===== *)
theory Validator_Set
  imports Container_Heap
begin

text \<open>
  \<^verbatim>\<open>types/validator.go\<close> and \<^verbatim>\<open>types/validator_set.go\<close>: validators, the address-ordered set with
  its cached voting power, and proposer selection by accumulated power. The code copies
  validators on every read and write, so the model passes them by value; the one pointer it
  keeps, \<^verbatim>\<open>Proposer\<close>, holds the validator as it is after the last decrement of its
  \<^verbatim>\<open>Accum\<close>, which is what the pointer into the set shows until the next \<^verbatim>\<open>IncrementAccum\<close>,
  which replaces it (\<^verbatim>\<open>times\<close> is positive in every call of the code).
\<close>

section \<open>Validators\<close>

record Validator =
  val_Address :: bytes
  val_PubKey :: pub_key
  val_VotingPower :: int
  val_Accum :: int

definition NewValidator :: "(pub_key \<Rightarrow> bytes) \<Rightarrow> pub_key \<Rightarrow> int \<Rightarrow> Validator" where
  "NewValidator address pubKey votingPower =
     \<lparr>val_Address = address pubKey, val_PubKey = pubKey, val_VotingPower = votingPower,
      val_Accum = 0\<rparr>"

definition CompareAccum :: "Validator option \<Rightarrow> Validator \<Rightarrow> Validator go" where
  "CompareAccum v other =
     (case v of None \<Rightarrow> Ret other
      | Some v \<Rightarrow>
          if val_Accum v > val_Accum other then Ret v
          else if val_Accum v < val_Accum other then Ret other
          else if val_Address v < val_Address other then Ret v
          else if val_Address v > val_Address other then Ret other
          else Panic ''Cannot compare identical validators'')"

text \<open>\<^verbatim>\<open>accumComparable.Less\<close>.\<close>

definition accumComparable_Less :: "Validator \<Rightarrow> Validator \<Rightarrow> bool go" where
  "accumComparable_Less ac other =
     go_bind (CompareAccum (Some ac) other) (\<lambda>larger. Ret (val_Address larger = val_Address ac))"

section \<open>The validator set\<close>

record ValidatorSet =
  Validators :: "Validator list"
  Proposer :: "Validator option"
  totalVotingPower :: int

definition ValidatorSet_Size :: "ValidatorSet \<Rightarrow> int" where
  "ValidatorSet_Size valSet = int (length (Validators valSet))"

text \<open>\<^verbatim>\<open>TotalVotingPower\<close> fills the cache when it reads 0.\<close>

definition TotalVotingPower :: "ValidatorSet \<Rightarrow> ValidatorSet \<times> int" where
  "TotalVotingPower valSet =
     (let valSet' =
        (if totalVotingPower valSet = 0 then
           valSet\<lparr>totalVotingPower :=
             fold (\<lambda>val t. wrap64 (t + val_VotingPower val)) (Validators valSet) 0\<rparr>
         else valSet)
      in (valSet', totalVotingPower valSet'))"

definition accum_less :: "Validator list \<Rightarrow> nat \<Rightarrow> nat \<Rightarrow> bool go" where
  "accum_less vals i j = accumComparable_Less (vals ! i) (vals ! j)"

text \<open>
  \<^verbatim>\<open>IncrementAccum\<close>. The heap holds pointers to the validators of the set, here their
  positions, and compares them by what the set holds at that moment. The first loop adds
  \<^verbatim>\<open>VotingPower * times\<close> and pushes; the second takes the best validator \<open>times\<close> times.
\<close>

definition accum_bump :: "int \<Rightarrow> Validator \<Rightarrow> Validator" where
  "accum_bump tms val =
     val\<lparr>val_Accum := wrap64 (val_Accum val + wrap64 (val_VotingPower val * tms))\<rparr>"

fun ia_push :: "int \<Rightarrow> Validator list \<Rightarrow> nat list \<Rightarrow> nat list \<Rightarrow> (Validator list \<times> nat list) go" where
  "ia_push tms vals h [] = Ret (vals, h)"
| "ia_push tms vals h (i # is) =
     (let vals' = vals[i := accum_bump tms (vals ! i)] in
      go_bind (Heap_Push (accum_less vals') h i) (\<lambda>h'. ia_push tms vals' h' is))"

fun ia_rounds :: "nat \<Rightarrow> ValidatorSet \<Rightarrow> nat list \<Rightarrow> ValidatorSet go" where
  "ia_rounds 0 valSet h = Ret valSet"
| "ia_rounds (Suc r) valSet h =
     (case Heap_Peek h of
        None \<Rightarrow> Panic ''interface conversion: interface is nil, not *types.Validator''
      | Some m \<Rightarrow>
          (let (vs1, power) = TotalVotingPower valSet;
               mostest = (Validators vs1 ! m)\<lparr>val_Accum := wrap64 (val_Accum (Validators vs1 ! m) - power)\<rparr>;
               vs2 = vs1\<lparr>Validators := (Validators vs1)[m := mostest]\<rparr>;
               vs3 = (if r = 0 then vs2\<lparr>Proposer := Some mostest\<rparr> else vs2)
           in go_bind (Heap_Update (accum_less (Validators vs3)) h m) (\<lambda>h'. ia_rounds r vs3 h')))"

definition IncrementAccum :: "ValidatorSet \<Rightarrow> int \<Rightarrow> ValidatorSet go" where
  "IncrementAccum valSet tms =
     go_bind (ia_push tms (Validators valSet) [] [0..<length (Validators valSet)]) (\<lambda>(vals, h).
       ia_rounds (nat tms) (valSet\<lparr>Validators := vals\<rparr>) h)"

text \<open>
  \<^verbatim>\<open>NewValidatorSet\<close>: \<open>None\<close> is the nil slice. The sort is by address; for distinct
  addresses its result does not depend on the sorting algorithm.
\<close>

definition NewValidatorSet :: "Validator list option \<Rightarrow> ValidatorSet go" where
  "NewValidatorSet vals =
     (let validators = sort_key val_Address (case vals of None \<Rightarrow> [] | Some vs \<Rightarrow> vs);
          vs = \<lparr>Validators = validators, Proposer = None, totalVotingPower = 0\<rparr>
      in if vals \<noteq> None then IncrementAccum vs 1 else Ret vs)"

definition addr_search :: "ValidatorSet \<Rightarrow> bytes \<Rightarrow> nat" where
  "addr_search valSet address =
     sort_Search (length (Validators valSet)) (\<lambda>i. address \<le> val_Address (Validators valSet ! i))"

definition addr_found :: "ValidatorSet \<Rightarrow> bytes \<Rightarrow> bool" where
  "addr_found valSet address =
     (let idx = addr_search valSet address in
      idx \<noteq> length (Validators valSet) \<and> val_Address (Validators valSet ! idx) = address)"

definition HasAddress :: "ValidatorSet \<Rightarrow> bytes \<Rightarrow> bool" where
  "HasAddress valSet address = addr_found valSet address"

definition ValidatorSet_GetByAddress :: "ValidatorSet \<Rightarrow> bytes \<Rightarrow> int \<times> Validator option" where
  "ValidatorSet_GetByAddress valSet address =
     (let idx = addr_search valSet address in
      if addr_found valSet address then (int idx, Some (Validators valSet ! idx)) else (0, None))"

definition ValidatorSet_GetByIndex :: "ValidatorSet \<Rightarrow> int \<Rightarrow> bytes \<times> Validator option" where
  "ValidatorSet_GetByIndex valSet index =
     (if index < 0 \<or> index \<ge> int (length (Validators valSet)) then ([], None)
      else (let val = Validators valSet ! nat index in (val_Address val, Some val)))"

fun find_loop :: "Validator option \<Rightarrow> Validator list \<Rightarrow> Validator option go" where
  "find_loop proposer [] = Ret proposer"
| "find_loop proposer (val # vals) =
     (if (case proposer of None \<Rightarrow> True | Some p \<Rightarrow> val_Address val \<noteq> val_Address p)
      then go_bind (CompareAccum proposer val) (\<lambda>p. find_loop (Some p) vals)
      else find_loop proposer vals)"

definition findProposer :: "ValidatorSet \<Rightarrow> Validator option go" where
  "findProposer valSet = find_loop None (Validators valSet)"

definition GetProposer :: "ValidatorSet \<Rightarrow> (ValidatorSet \<times> Validator option) go" where
  "GetProposer valSet =
     (if length (Validators valSet) = 0 then Ret (valSet, None)
      else case Proposer valSet of
          Some p \<Rightarrow> Ret (valSet, Some p)
        | None \<Rightarrow> go_bind (findProposer valSet) (\<lambda>p. Ret (valSet\<lparr>Proposer := p\<rparr>, p)))"

text \<open>The three operations that change membership drop the cached proposer and power.\<close>

definition invalidate :: "ValidatorSet \<Rightarrow> Validator list \<Rightarrow> ValidatorSet" where
  "invalidate valSet vals = valSet\<lparr>Validators := vals, Proposer := None, totalVotingPower := 0\<rparr>"

definition ValidatorSet_Add :: "ValidatorSet \<Rightarrow> Validator \<Rightarrow> ValidatorSet \<times> bool" where
  "ValidatorSet_Add valSet val =
     (let idx = addr_search valSet (val_Address val); vals = Validators valSet in
      if idx = length vals then (invalidate valSet (vals @ [val]), True)
      else if val_Address (vals ! idx) = val_Address val then (valSet, False)
      else (invalidate valSet (take idx vals @ val # drop idx vals), True))"

definition ValidatorSet_Update :: "ValidatorSet \<Rightarrow> Validator \<Rightarrow> ValidatorSet \<times> bool" where
  "ValidatorSet_Update valSet val =
     (case ValidatorSet_GetByAddress valSet (val_Address val) of
        (index, None) \<Rightarrow> (valSet, False)
      | (index, Some sameVal) \<Rightarrow>
          (invalidate valSet ((Validators valSet)[nat index := val]), True))"

definition ValidatorSet_Remove :: "ValidatorSet \<Rightarrow> bytes \<Rightarrow> ValidatorSet \<times> Validator option \<times> bool" where
  "ValidatorSet_Remove valSet address =
     (let idx = addr_search valSet address; vals = Validators valSet in
      if idx = length vals \<or> val_Address (vals ! idx) \<noteq> address then (valSet, None, False)
      else (invalidate valSet
              (if idx + 1 < length vals then take idx vals @ drop (idx + 1) vals else take idx vals),
            Some (vals ! idx), True))"

section \<open>Invariant and abstraction\<close>

text \<open>
  The set abstracts to a map from addresses to validators. The invariant: strictly ordered by
  address, and a cache that is empty or holds the sum of the voting powers.
\<close>

definition vals_map :: "ValidatorSet \<Rightarrow> bytes \<rightharpoonup> Validator" where
  "vals_map valSet = map_of (map (\<lambda>v. (val_Address v, v)) (Validators valSet))"

definition addr_sorted :: "ValidatorSet \<Rightarrow> bool" where
  "addr_sorted valSet = sorted_wrt (<) (map val_Address (Validators valSet))"

definition total_power :: "ValidatorSet \<Rightarrow> int" where
  "total_power valSet = sum_list (map val_VotingPower (Validators valSet))"

definition cache_ok :: "ValidatorSet \<Rightarrow> bool" where
  "cache_ok valSet \<longleftrightarrow> totalVotingPower valSet \<in> {0, wrap64 (total_power valSet)}"

definition valset_inv :: "ValidatorSet \<Rightarrow> bool" where
  "valset_inv valSet \<longleftrightarrow> addr_sorted valSet \<and> cache_ok valSet"

text \<open>Powers that the quorum arithmetic can double without overflow.\<close>

definition powers_ok :: "ValidatorSet \<Rightarrow> bool" where
  "powers_ok valSet \<longleftrightarrow>
     (\<forall>v \<in> set (Validators valSet). 0 \<le> val_VotingPower v) \<and> total_power valSet < 2 ^ 62"

lemma fold_wrap_sum:
  "fold (\<lambda>v t. wrap64 (t + val_VotingPower v)) vals (wrap64 t) =
    wrap64 (t + sum_list (map val_VotingPower vals))"
  by (induction vals arbitrary: t) (simp_all add: add.assoc)

lemma TotalVotingPower_eq:
  assumes "cache_ok valSet"
  shows "snd (TotalVotingPower valSet) = wrap64 (total_power valSet)"
    and "Validators (fst (TotalVotingPower valSet)) = Validators valSet"
    and "Proposer (fst (TotalVotingPower valSet)) = Proposer valSet"
    and "cache_ok (fst (TotalVotingPower valSet))"
  using assms fold_wrap_sum [of "Validators valSet" 0]
  by (auto simp: TotalVotingPower_def cache_ok_def total_power_def Let_def)

lemma total_power_nonneg: "powers_ok valSet \<Longrightarrow> 0 \<le> total_power valSet"
  unfolding powers_ok_def total_power_def by (intro sum_list_nonneg) auto

lemma powers_ok_wrap [simp]: "powers_ok valSet \<Longrightarrow> wrap64 (total_power valSet) = total_power valSet"
  using total_power_nonneg [of valSet] by (simp add: powers_ok_def)

lemma powers_ok_two_thirds:
  "powers_ok valSet \<Longrightarrow> two_thirds (total_power valSet) = total_power valSet * 2 div 3"
  using total_power_nonneg [of valSet] by (simp add: two_thirds_eq powers_ok_def)

lemma powers_ok_cong:
  "map val_VotingPower (Validators a) = map val_VotingPower (Validators b) \<Longrightarrow> powers_ok a = powers_ok b"
proof -
  have "powers_ok vs \<longleftrightarrow> (\<forall>p \<in> set (map val_VotingPower (Validators vs)). 0 \<le> p) \<and>
      sum_list (map val_VotingPower (Validators vs)) < 2 ^ 62" for vs
    by (simp add: powers_ok_def total_power_def)
  then show "map val_VotingPower (Validators a) = map val_VotingPower (Validators b) \<Longrightarrow> ?thesis"
    by (simp only:)
qed

lemma cache_ok_invalidate [simp]: "cache_ok (invalidate valSet vals)"
  by (simp add: cache_ok_def invalidate_def)

lemma Validators_invalidate [simp]: "Validators (invalidate valSet vals) = vals"
  by (simp add: invalidate_def)

section \<open>Lookup by binary search\<close>

lemma addr_sorted_nth:
  "addr_sorted valSet \<Longrightarrow> i < j \<Longrightarrow> j < length (Validators valSet) \<Longrightarrow>
    val_Address (Validators valSet ! i) < val_Address (Validators valSet ! j)"
  by (auto simp: addr_sorted_def sorted_wrt_iff_nth_less)

lemma addr_sorted_distinct: "addr_sorted valSet \<Longrightarrow> distinct (map val_Address (Validators valSet))"
  by (simp add: addr_sorted_def strict_sorted_iff)

lemma addr_search_spec:
  assumes "addr_sorted valSet"
  shows "addr_search valSet a \<le> length (Validators valSet)"
    and "k < addr_search valSet a \<Longrightarrow> val_Address (Validators valSet ! k) < a"
    and "addr_search valSet a \<le> k \<Longrightarrow> k < length (Validators valSet) \<Longrightarrow> a \<le> val_Address (Validators valSet ! k)"
proof -
  have mono: "a \<le> val_Address (Validators valSet ! j)"
    if "i \<le> j" "j < length (Validators valSet)" "a \<le> val_Address (Validators valSet ! i)" for i j
    using addr_sorted_nth [OF assms, of i j] that by (cases "i = j") auto
  show "addr_search valSet a \<le> length (Validators valSet)"
    unfolding addr_search_def by (rule sort_Search_spec(1)) (rule mono)
  show "val_Address (Validators valSet ! k) < a" if "k < addr_search valSet a"
    using sort_Search_spec(2) [OF mono that [unfolded addr_search_def]] by (simp add: not_le)
  show "a \<le> val_Address (Validators valSet ! k)"
    if "addr_search valSet a \<le> k" "k < length (Validators valSet)"
    using sort_Search_spec(3) [OF mono that(1) [unfolded addr_search_def] that(2)] by simp
qed

lemma vals_map_Some:
  "addr_sorted valSet \<Longrightarrow>
    vals_map valSet a = Some v \<longleftrightarrow> v \<in> set (Validators valSet) \<and> val_Address v = a"
  using map_of_eq_Some_iff [of "map (\<lambda>v. (val_Address v, v)) (Validators valSet)" a v]
    addr_sorted_distinct [of valSet] by (auto simp: vals_map_def comp_def)

lemma addr_uniq:
  "addr_sorted valSet \<Longrightarrow> v \<in> set (Validators valSet) \<Longrightarrow> w \<in> set (Validators valSet) \<Longrightarrow>
    val_Address v = val_Address w \<Longrightarrow> v = w"
  using vals_map_Some [of valSet "val_Address v"] by (metis option.inject)

lemma vals_map_None: "vals_map valSet a = None \<longleftrightarrow> (\<forall>v \<in> set (Validators valSet). val_Address v \<noteq> a)"
  by (auto simp: vals_map_def map_of_eq_None_iff image_image)

lemma addr_found_iff:
  assumes "addr_sorted valSet"
  shows "addr_found valSet a \<longleftrightarrow> vals_map valSet a \<noteq> None"
proof
  assume "addr_found valSet a"
  then have "addr_search valSet a < length (Validators valSet)"
      "val_Address (Validators valSet ! addr_search valSet a) = a"
    using addr_search_spec(1) [OF assms, of a] by (auto simp: addr_found_def Let_def)
  then show "vals_map valSet a \<noteq> None" unfolding vals_map_None using nth_mem by blast
next
  assume "vals_map valSet a \<noteq> None"
  then obtain v where "v \<in> set (Validators valSet)" "val_Address v = a"
    unfolding vals_map_None by blast
  then obtain k where k: "k < length (Validators valSet)" "val_Address (Validators valSet ! k) = a"
    unfolding in_set_conv_nth by blast
  have "addr_search valSet a = k"
  proof (rule linorder_cases)
    assume "k < addr_search valSet a"
    then have "val_Address (Validators valSet ! k) < a" by (rule addr_search_spec(2) [OF assms])
    with k show ?thesis by simp
  next
    assume lt: "addr_search valSet a < k"
    then have "a \<le> val_Address (Validators valSet ! addr_search valSet a)"
      using addr_search_spec(3) [OF assms] k by simp
    also have "\<dots> < a" using addr_sorted_nth [OF assms lt k(1)] k(2) by simp
    finally show ?thesis by simp
  qed auto
  with k show "addr_found valSet a" by (simp add: addr_found_def)
qed

lemma addr_found_nth:
  assumes "addr_sorted valSet" "vals_map valSet a = Some v"
  shows "addr_search valSet a < length (Validators valSet)"
    and "Validators valSet ! addr_search valSet a = v"
proof -
  have f: "addr_found valSet a" using assms addr_found_iff by simp
  then show lt: "addr_search valSet a < length (Validators valSet)"
    using addr_search_spec(1) [OF assms(1), of a] by (auto simp: addr_found_def Let_def)
  with f have "vals_map valSet a = Some (Validators valSet ! addr_search valSet a)"
    by (auto simp: vals_map_Some [OF assms(1)] addr_found_def Let_def)
  with assms(2) show "Validators valSet ! addr_search valSet a = v" by simp
qed

lemma GetByAddress_eq:
  assumes "addr_sorted valSet"
  shows "ValidatorSet_GetByAddress valSet a =
    (case vals_map valSet a of None \<Rightarrow> (0, None) | Some v \<Rightarrow> (int (addr_search valSet a), Some v))"
proof (cases "vals_map valSet a")
  case None
  then show ?thesis
    using addr_found_iff [OF assms] by (simp add: ValidatorSet_GetByAddress_def Let_def)
next
  case (Some v)
  then show ?thesis using addr_found_iff [OF assms] addr_found_nth(2) [OF assms Some]
    by (simp add: ValidatorSet_GetByAddress_def Let_def)
qed

section \<open>Membership operations implement a map\<close>

text \<open>
  The contract of a keyed collection with reported success, which the code that applies
  validator updates relies on.
\<close>

locale keyed_set =
  fixes look :: "'s \<Rightarrow> 'k \<rightharpoonup> 'v" and key :: "'v \<Rightarrow> 'k" and inv :: "'s \<Rightarrow> bool"
    and add :: "'s \<Rightarrow> 'v \<Rightarrow> 's \<times> bool" and upd :: "'s \<Rightarrow> 'v \<Rightarrow> 's \<times> bool"
    and rem :: "'s \<Rightarrow> 'k \<Rightarrow> 's \<times> 'v option \<times> bool"
  assumes inv_add: "inv s \<Longrightarrow> inv (fst (add s v))"
    and inv_upd: "inv s \<Longrightarrow> inv (fst (upd s v))"
    and inv_rem: "inv s \<Longrightarrow> inv (fst (rem s k))"
    and look_key: "inv s \<Longrightarrow> look s k = Some v \<Longrightarrow> key v = k"
    and look_add: "inv s \<Longrightarrow> look (fst (add s v)) =
      (if look s (key v) = None then (look s)(key v \<mapsto> v) else look s)"
    and add_ok: "inv s \<Longrightarrow> snd (add s v) \<longleftrightarrow> look s (key v) = None"
    and look_upd: "inv s \<Longrightarrow> look (fst (upd s v)) =
      (if look s (key v) = None then look s else (look s)(key v \<mapsto> v))"
    and upd_ok: "inv s \<Longrightarrow> snd (upd s v) \<longleftrightarrow> look s (key v) \<noteq> None"
    and look_rem: "inv s \<Longrightarrow> look (fst (rem s k)) = (look s)(k := None)"
    and rem_ok: "inv s \<Longrightarrow> snd (rem s k) = (look s k, look s k \<noteq> None)"
begin

lemma rem_add_new: "inv s \<Longrightarrow> look s (key v) = None \<Longrightarrow> look (fst (rem (fst (add s v)) (key v))) = look s"
  by (auto simp: look_rem look_add inv_add)

lemma add_or_update: "inv s \<Longrightarrow>
    look (if snd (upd s v) then fst (upd s v) else fst (add s v)) = (look s)(key v \<mapsto> v)"
  by (simp add: upd_ok look_upd look_add)

end

lemma vals_map_eqI:
  assumes "addr_sorted valSet"
    and "\<And>a v. m a = Some v \<longleftrightarrow> v \<in> set (Validators valSet) \<and> val_Address v = a"
  shows "vals_map valSet = m"
proof
  fix a
  have "vals_map valSet a = Some v \<longleftrightarrow> m a = Some v" for v
    by (simp add: assms(2) vals_map_Some [OF assms(1)])
  then show "vals_map valSet a = m a" by (metis not_None_eq)
qed

text \<open>Inserting at the position the search returns keeps the order.\<close>

lemma insert_sorted:
  assumes "addr_sorted valSet" "vals_map valSet (val_Address val) = None"
  defines "i \<equiv> addr_search valSet (val_Address val)"
  shows "sorted_wrt (<) (map val_Address (take i (Validators valSet) @ val # drop i (Validators valSet)))"
proof -
  let ?vals = "Validators valSet"
  have lo: "val_Address v < val_Address val" if "v \<in> set (take i ?vals)" for v
    using that addr_search_spec(2) [OF assms(1)] by (auto simp: in_set_conv_nth i_def)
  have hi: "val_Address val < val_Address v" if v: "v \<in> set (drop i ?vals)" for v
  proof -
    have "val_Address val \<le> val_Address v"
      using v addr_search_spec(1,3) [OF assms(1)] by (auto simp: in_set_conv_nth i_def)
    moreover have "val_Address v \<noteq> val_Address val"
      using v assms(2) in_set_dropD [OF v] by (auto simp: vals_map_None)
    ultimately show ?thesis by simp
  qed
  have "sorted_wrt (<) (map val_Address (take i ?vals))"
      "sorted_wrt (<) (map val_Address (drop i ?vals))"
    using assms(1) by (simp_all add: addr_sorted_def sorted_wrt_take sorted_wrt_drop
        flip: take_map drop_map)
  then show ?thesis
    using lo hi by (auto simp: sorted_wrt_append dest: order.strict_trans)
qed

lemma Add_eq:
  fixes val :: Validator
  assumes "addr_sorted valSet"
  defines "i \<equiv> addr_search valSet (val_Address val)"
  shows "ValidatorSet_Add valSet val =
    (if vals_map valSet (val_Address val) = None
     then (invalidate valSet (take i (Validators valSet) @ val # drop i (Validators valSet)), True)
     else (valSet, False))"
  using addr_found_iff [OF assms(1), of "val_Address val"]
  by (auto simp: ValidatorSet_Add_def Let_def addr_found_def i_def)

lemma Add_map:
  assumes "addr_sorted valSet"
  shows "addr_sorted (fst (ValidatorSet_Add valSet val))"
    and "vals_map (fst (ValidatorSet_Add valSet val)) =
      (if vals_map valSet (val_Address val) = None
       then (vals_map valSet)(val_Address val \<mapsto> val) else vals_map valSet)"
proof -
  show s: "addr_sorted (fst (ValidatorSet_Add valSet val))"
    using insert_sorted [OF assms] assms by (simp add: Add_eq addr_sorted_def)
  show "vals_map (fst (ValidatorSet_Add valSet val)) =
      (if vals_map valSet (val_Address val) = None
       then (vals_map valSet)(val_Address val \<mapsto> val) else vals_map valSet)"
  proof (rule vals_map_eqI [OF s])
    fix a v
    let ?i = "addr_search valSet (val_Address val)"
    have "set (take ?i (Validators valSet) @ val # drop ?i (Validators valSet)) =
        insert val (set (Validators valSet))"
      by (metis append_take_drop_id list.set(2) set_append Un_insert_right)
    then show "(if vals_map valSet (val_Address val) = None
         then (vals_map valSet)(val_Address val \<mapsto> val) else vals_map valSet) a = Some v \<longleftrightarrow>
        v \<in> set (Validators (fst (ValidatorSet_Add valSet val))) \<and> val_Address v = a"
      using vals_map_Some [OF assms] by (auto simp: Add_eq [OF assms] vals_map_None)
  qed
qed

lemma Update_eq:
  assumes "addr_sorted valSet"
  shows "ValidatorSet_Update valSet val =
    (if vals_map valSet (val_Address val) = None then (valSet, False)
     else (invalidate valSet ((Validators valSet)[addr_search valSet (val_Address val) := val]), True))"
  using assms by (auto simp: ValidatorSet_Update_def GetByAddress_eq split: option.split)

lemma Update_addresses:
  assumes "addr_sorted valSet"
  shows "map val_Address (Validators (fst (ValidatorSet_Update valSet val))) =
    map val_Address (Validators valSet)"
proof (cases "vals_map valSet (val_Address val)")
  case (Some v)
  then have "val_Address v = val_Address val" using vals_map_Some [OF assms] by simp
  with addr_found_nth [OF assms Some] Some show ?thesis
    by (simp add: Update_eq [OF assms] map_update_same)
qed (simp add: Update_eq [OF assms])

lemma Update_map:
  assumes "addr_sorted valSet"
  shows "addr_sorted (fst (ValidatorSet_Update valSet val))"
    and "vals_map (fst (ValidatorSet_Update valSet val)) =
      (if vals_map valSet (val_Address val) = None then vals_map valSet
       else (vals_map valSet)(val_Address val \<mapsto> val))"
proof -
  show s: "addr_sorted (fst (ValidatorSet_Update valSet val))"
    using assms by (simp add: addr_sorted_def Update_addresses [OF assms])
  show "vals_map (fst (ValidatorSet_Update valSet val)) =
      (if vals_map valSet (val_Address val) = None then vals_map valSet
       else (vals_map valSet)(val_Address val \<mapsto> val))"
  proof (cases "vals_map valSet (val_Address val)")
    case (Some w)
    let ?i = "addr_search valSet (val_Address val)" and ?vals = "Validators valSet"
    note nth = addr_found_nth [OF assms Some]
    have w: "w \<in> set ?vals" "val_Address w = val_Address val"
      using vals_map_Some [OF assms] Some by simp_all
    have d: "distinct ?vals" using addr_sorted_distinct [OF assms] by (simp add: distinct_map)
    have "set (?vals[?i := val]) = insert val (set ?vals - {w})"
      using set_update_distinct [OF d nth(1)] nth(2) by simp
    then have "vals_map (fst (ValidatorSet_Update valSet val)) = (vals_map valSet)(val_Address val \<mapsto> val)"
      using addr_uniq [OF assms _ w(1)] w(2)
      by (intro vals_map_eqI [OF s]) (auto simp: Update_eq [OF assms] Some vals_map_Some [OF assms])
    with Some show ?thesis by simp
  qed (simp add: Update_eq [OF assms])
qed

lemma Remove_eq:
  assumes "addr_sorted valSet"
  shows "ValidatorSet_Remove valSet a =
    (case vals_map valSet a of None \<Rightarrow> (valSet, None, False)
     | Some v \<Rightarrow> (invalidate valSet (take (addr_search valSet a) (Validators valSet) @
           drop (addr_search valSet a + 1) (Validators valSet)), Some v, True))"
proof (cases "vals_map valSet a")
  case None
  with addr_found_iff [OF assms, of a] show ?thesis
    by (auto simp: ValidatorSet_Remove_def addr_found_def Let_def)
next
  case (Some v)
  with addr_found_nth [OF assms Some] vals_map_Some [OF assms, of a v] show ?thesis
    by (auto simp: ValidatorSet_Remove_def Let_def)
qed

lemma Remove_map:
  assumes "addr_sorted valSet"
  shows "addr_sorted (fst (ValidatorSet_Remove valSet a))"
    and "vals_map (fst (ValidatorSet_Remove valSet a)) = (vals_map valSet)(a := None)"
proof -
  define xs ys where "xs = take (addr_search valSet a) (Validators valSet)"
    and "ys = drop (addr_search valSet a + 1) (Validators valSet)"
  have split: "Validators valSet = xs @ v # ys" if "vals_map valSet a = Some v" for v
    using id_take_nth_drop [OF addr_found_nth(1) [OF assms that]] addr_found_nth(2) [OF assms that]
    by (simp add: xs_def ys_def)
  have eq: "ValidatorSet_Remove valSet a = (case vals_map valSet a of None \<Rightarrow> (valSet, None, False)
     | Some v \<Rightarrow> (invalidate valSet (xs @ ys), Some v, True))"
    unfolding xs_def ys_def by (rule Remove_eq [OF assms])
  have "sorted_wrt (<) (map val_Address (xs @ ys))" if "vals_map valSet a = Some v" for v
    using assms unfolding addr_sorted_def split [OF that] by (simp add: sorted_wrt_append)
  then show s: "addr_sorted (fst (ValidatorSet_Remove valSet a))"
    using assms by (auto simp: eq addr_sorted_def split: option.split)
  show "vals_map (fst (ValidatorSet_Remove valSet a)) = (vals_map valSet)(a := None)"
  proof (cases "vals_map valSet a")
    case None
    then show ?thesis by (auto simp: eq)
  next
    case (Some v)
    have v: "v \<in> set (Validators valSet)" "val_Address v = a"
      using vals_map_Some [OF assms] Some by simp_all
    have "distinct (Validators valSet)"
      using addr_sorted_distinct [OF assms] by (simp add: distinct_map)
    then have "set (xs @ ys) = set (Validators valSet) - {v}"
      unfolding split [OF Some] by auto
    then show ?thesis
      using addr_uniq [OF assms _ v(1)] v(2)
      by (intro vals_map_eqI [OF s]) (auto simp: eq Some vals_map_Some [OF assms])
  qed
qed

lemma cache_ok_Add [simp]: "cache_ok valSet \<Longrightarrow> cache_ok (fst (ValidatorSet_Add valSet val))"
  by (simp add: ValidatorSet_Add_def Let_def)

lemma cache_ok_Update [simp]: "cache_ok valSet \<Longrightarrow> cache_ok (fst (ValidatorSet_Update valSet val))"
  by (simp add: ValidatorSet_Update_def split: prod.split option.split)

lemma cache_ok_Remove [simp]: "cache_ok valSet \<Longrightarrow> cache_ok (fst (ValidatorSet_Remove valSet a))"
  by (simp add: ValidatorSet_Remove_def Let_def)

interpretation vset: keyed_set vals_map val_Address valset_inv
  ValidatorSet_Add ValidatorSet_Update ValidatorSet_Remove
proof (unfold_locales, goal_cases)
  case (1 s v) then show ?case by (simp add: valset_inv_def Add_map)
next
  case (2 s v) then show ?case by (simp add: valset_inv_def Update_map)
next
  case (3 s k) then show ?case by (simp add: valset_inv_def Remove_map)
next
  case (4 s k v) then show ?case by (simp add: valset_inv_def vals_map_Some)
next
  case (5 s v) then show ?case by (simp add: valset_inv_def Add_map)
next
  case (6 s v) then show ?case by (simp add: valset_inv_def Add_eq)
next
  case (7 s v) then show ?case by (simp add: valset_inv_def Update_map)
next
  case (8 s v) then show ?case by (simp add: valset_inv_def Update_eq)
next
  case (9 s k) then show ?case by (simp add: valset_inv_def Remove_map)
next
  case (10 s k) then show ?case by (simp add: valset_inv_def Remove_eq split: option.split)
qed

section \<open>Quorums by voting power\<close>

text \<open>
  Validators are named by their position. The code compares tallies with \<^verbatim>\<open>TotalVotingPower()*2/3\<close>;
  two sets of validators above it share more than a third of the power.
\<close>

definition val_idxs :: "ValidatorSet \<Rightarrow> nat set" where
  "val_idxs valSet = {..<length (Validators valSet)}"

definition power_of :: "ValidatorSet \<Rightarrow> nat set \<Rightarrow> int" where
  "power_of valSet S = (\<Sum>i \<in> S. val_VotingPower (Validators valSet ! i))"

locale weighted_quorum =
  fixes weight :: "'s \<Rightarrow> nat set \<Rightarrow> int" and total :: "'s \<Rightarrow> int" and idxs :: "'s \<Rightarrow> nat set"
    and ok :: "'s \<Rightarrow> bool"
  assumes weight_idxs: "weight s (idxs s) = total s"
    and weight_mono: "ok s \<Longrightarrow> A \<subseteq> B \<Longrightarrow> B \<subseteq> idxs s \<Longrightarrow> weight s A \<le> weight s B"
    and weight_Un_Int: "A \<subseteq> idxs s \<Longrightarrow> B \<subseteq> idxs s \<Longrightarrow>
      weight s (A \<union> B) + weight s (A \<inter> B) = weight s A + weight s B"
    and weight_empty: "weight s {} = 0"
begin

lemma weight_le_total: "ok s \<Longrightarrow> A \<subseteq> idxs s \<Longrightarrow> weight s A \<le> total s"
  using weight_mono [of s A "idxs s"] weight_idxs by simp

lemma quorums_share_third:
  assumes "ok s" "A \<subseteq> idxs s" "B \<subseteq> idxs s"
    and "total s * 2 div 3 < weight s A" "total s * 2 div 3 < weight s B"
  shows "total s < 3 * weight s (A \<inter> B)"
  using weight_le_total [of s "A \<union> B"] weight_Un_Int [of A s B] assms by auto

lemma quorums_meet:
  assumes "ok s" "A \<subseteq> idxs s" "B \<subseteq> idxs s" "0 \<le> total s"
    and "total s * 2 div 3 < weight s A" "total s * 2 div 3 < weight s B"
  shows "A \<inter> B \<noteq> {}"
  using quorums_share_third [OF assms(1-3,5,6)] assms(4) weight_empty by auto

end

interpretation vquorum: weighted_quorum power_of total_power val_idxs powers_ok
proof (unfold_locales, goal_cases)
  case (1 s)
  show ?case by (simp add: power_of_def val_idxs_def total_power_def sum_list_sum_nth atLeast0LessThan)
next
  case (2 s A B)
  then have "0 \<le> val_VotingPower (Validators s ! i)" if "i \<in> B" for i
    using that by (auto simp: powers_ok_def val_idxs_def)
  with 2 show ?case unfolding power_of_def val_idxs_def
    by (intro sum_mono2) (auto intro: finite_subset)
next
  case (3 A s B)
  then show ?case unfolding power_of_def val_idxs_def
    by (intro sum.union_inter) (auto intro: finite_subset)
next
  case (4 s)
  show ?case by (simp add: power_of_def)
qed

lemma power_of_insert:
  "S \<subseteq> val_idxs valSet \<Longrightarrow> i \<notin> S \<Longrightarrow>
    power_of valSet (insert i S) = power_of valSet S + val_VotingPower (Validators valSet ! i)"
  unfolding power_of_def val_idxs_def by (subst sum.insert) (auto intro: finite_subset)

lemma power_of_range:
  assumes "powers_ok valSet" "S \<subseteq> val_idxs valSet"
  shows "0 \<le> power_of valSet S" "power_of valSet S < 2 ^ 62"
  using vquorum.weight_mono [OF assms(1), of "{}" S] vquorum.weight_le_total [OF assms]
    assms by (auto simp: power_of_def powers_ok_def)

end
