(* ===== verification/Proposer_Selection.thy ===== *)
theory Proposer_Selection
  imports Validator_Set
begin

text \<open>
  What \<^verbatim>\<open>IncrementAccum\<close>, \<^verbatim>\<open>findProposer\<close> and \<^verbatim>\<open>GetProposer\<close> compute. The heap version is shown
  to refine rounds of a plain arg-max (\<open>accum_round\<close>), the linear scan to select the same
  validator, and repeated rotation to keep the accumulated powers in a range that cannot
  overflow.
\<close>

section \<open>The order on validators\<close>

definition accum_better :: "Validator \<Rightarrow> Validator \<Rightarrow> bool" where
  "accum_better a b \<longleftrightarrow>
     val_Accum a > val_Accum b \<or> (val_Accum a = val_Accum b \<and> val_Address a < val_Address b)"

definition is_best :: "Validator list \<Rightarrow> nat \<Rightarrow> bool" where
  "is_best vals m \<longleftrightarrow> m < length vals \<and> (\<forall>k < length vals. \<not> accum_better (vals ! k) (vals ! m))"

fun best_from :: "Validator list \<Rightarrow> nat \<Rightarrow> nat list \<Rightarrow> nat" where
  "best_from vals b [] = b"
| "best_from vals b (i # is) =
     best_from vals (if accum_better (vals ! i) (vals ! b) then i else b) is"

definition best_index :: "Validator list \<Rightarrow> nat" where
  "best_index vals = best_from vals 0 [1..<length vals]"

definition accum_drop :: "int \<Rightarrow> Validator \<Rightarrow> Validator" where
  "accum_drop p v = v\<lparr>val_Accum := wrap64 (val_Accum v - p)\<rparr>"

text \<open>One round: the best validator pays the total power.\<close>

definition accum_round :: "int \<Rightarrow> Validator list \<Rightarrow> Validator list" where
  "accum_round p vals =
     (let m = best_index vals in vals[m := accum_drop p (vals ! m)])"

lemma accum_better_irrefl [simp]: "\<not> accum_better a a"
  by (simp add: accum_better_def)

lemma accum_better_trans: "accum_better a b \<Longrightarrow> accum_better b c \<Longrightarrow> accum_better a c"
  by (auto simp: accum_better_def)

lemma accum_better_total: "val_Address a \<noteq> val_Address b \<Longrightarrow> accum_better a b \<or> accum_better b a"
  by (auto simp: accum_better_def)

lemma accum_not_better_trans: "\<not> accum_better a b \<Longrightarrow> \<not> accum_better b c \<Longrightarrow> \<not> accum_better a c"
  by (auto simp: accum_better_def)

lemma CompareAccum_Some:
  "val_Address a \<noteq> val_Address b \<Longrightarrow> CompareAccum (Some a) b = Ret (if accum_better a b then a else b)"
  by (auto simp: CompareAccum_def accum_better_def)

lemma accumComparable_Less_eq:
  "val_Address a \<noteq> val_Address b \<Longrightarrow> accumComparable_Less a b = Ret (accum_better a b)"
  by (auto simp: accumComparable_Less_def CompareAccum_Some)

lemma best_from_spec:
  "best_from vals b is \<in> insert b (set is) \<and>
    (\<forall>k \<in> insert b (set is). \<not> accum_better (vals ! k) (vals ! best_from vals b is))"
proof (induction "is" arbitrary: b)
  case Nil
  then show ?case by simp
next
  case (Cons i "is")
  let ?b = "if accum_better (vals ! i) (vals ! b) then i else b"
  let ?r = "best_from vals ?b is"
  have r: "?r \<in> insert ?b (set is)" "\<not> accum_better (vals ! ?b) (vals ! ?r)"
      "\<forall>k \<in> set is. \<not> accum_better (vals ! k) (vals ! ?r)"
    using Cons [of ?b] by auto
  have "\<not> accum_better (vals ! b) (vals ! ?b)" "\<not> accum_better (vals ! i) (vals ! ?b)"
    by (auto simp: accum_better_def)
  then have "\<not> accum_better (vals ! b) (vals ! ?r)" "\<not> accum_better (vals ! i) (vals ! ?r)"
    using accum_not_better_trans [OF _ r(2)] by blast+
  with r(1,3) show ?case by (simp only: best_from.simps list.set) auto
qed

lemma best_index_is_best: "vals \<noteq> [] \<Longrightarrow> is_best vals (best_index vals)"
proof -
  assume "vals \<noteq> []"
  then have eq: "insert 0 (set [1..<length vals]) = {..<length vals}" by (auto simp: Suc_le_eq)
  show ?thesis
    using best_from_spec [of vals 0 "[1..<length vals]"] unfolding eq
    by (simp add: is_best_def best_index_def)
qed

lemma is_best_unique:
  assumes "distinct (map val_Address vals)" "is_best vals m" "is_best vals m'"
  shows "m = m'"
  using assms accum_better_total [of "vals ! m" "vals ! m'"]
    distinct_map_nth_eq [OF assms(1), of m m'] by (auto simp: is_best_def)

section \<open>The heap selects the best validator\<close>

definition accum_dom :: "Validator list \<Rightarrow> nat set" where
  "accum_dom vals = {i. distinct (map val_Address vals) \<and> i < length vals}"

interpretation accum_heap: heap_order "accum_less vals" "accum_dom vals"
  "\<lambda>i j. accum_better (vals ! i) (vals ! j)" for vals
proof (unfold_locales, goal_cases)
  case (1 x y)
  then show ?case
    by (auto simp: accum_dom_def accum_less_def accumComparable_Less_eq distinct_map_nth_eq)
next
  case (2 x) show ?case by simp
next
  case (3 x y z) then show ?case by (blast intro: accum_better_trans)
next
  case (4 x y) then show ?case
    by (auto simp: accum_dom_def distinct_map_nth_eq intro!: accum_better_total)
qed

lemma accum_is_heap_cong:
  assumes "\<And>i. i \<in> set h \<Longrightarrow> vals ! i = vals' ! i"
  shows "accum_heap.is_heap vals h \<longleftrightarrow> accum_heap.is_heap vals' h"
proof -
  have "vals ! (h ! k) = vals' ! (h ! k)" "vals ! (h ! parent k) = vals' ! (h ! parent k)"
    if "0 < k" "k < length h" for k
    using assms that parent_less [OF that(1)] by auto
  then show ?thesis unfolding accum_heap.is_heap_def by simp
qed

lemma accum_heap_best:
  assumes "accum_heap.is_heap vals h" "set h = {..<length vals}"
    and "distinct (map val_Address vals)" "vals \<noteq> []"
  shows "h \<noteq> []" and "h ! 0 = best_index vals"
proof -
  have "0 \<in> set h" by (simp add: assms(2,4))
  then show h: "h \<noteq> []" by auto
  then have "h ! 0 \<in> set h" by simp
  then have h0: "h ! 0 < length vals" by (simp add: assms(2))
  have "set h \<subseteq> accum_dom vals" using assms(2,3) by (auto simp: accum_dom_def)
  then have "\<not> accum_better (vals ! (h ! k)) (vals ! (h ! 0))" if "k < length h" for k
    using accum_heap.is_heap_root [OF _ assms(1) that] by simp
  then have "\<forall>i \<in> set h. \<not> accum_better (vals ! i) (vals ! (h ! 0))"
    by (auto simp: in_set_conv_nth)
  then have "\<not> accum_better (vals ! i) (vals ! (h ! 0))" if "i < length vals" for i
    using that by (simp add: assms(2))
  with h0 have "is_best vals (h ! 0)" by (simp add: is_best_def)
  then show "h ! 0 = best_index vals"
    using is_best_unique [OF assms(3)] best_index_is_best [OF assms(4)] by blast
qed

lemma accum_bump_Address [simp]: "val_Address (accum_bump t v) = val_Address v"
  and accum_bump_Power [simp]: "val_VotingPower (accum_bump t v) = val_VotingPower v"
  by (simp_all add: accum_bump_def)

lemma accum_drop_Address [simp]: "val_Address (accum_drop p v) = val_Address v"
  and accum_drop_Power [simp]: "val_VotingPower (accum_drop p v) = val_VotingPower v"
  by (simp_all add: accum_drop_def)

lemma ia_push_correct:
  assumes "distinct (map val_Address vals)" "k \<le> length vals"
    and "accum_heap.is_heap vals h" "set h = {..<k}" "distinct h"
  shows "\<exists>h'. ia_push tms vals h [k..<length vals] =
      Ret (take k vals @ map (accum_bump tms) (drop k vals), h') \<and>
    accum_heap.is_heap (take k vals @ map (accum_bump tms) (drop k vals)) h' \<and>
    set h' = {..<length vals} \<and> distinct h'"
  using assms
proof (induction "length vals - k" arbitrary: k vals h)
  case 0
  then show ?case by simp
next
  case (Suc d)
  then have k: "k < length vals" by simp
  let ?v = "accum_bump tms (vals ! k)"
  let ?vals = "vals[k := ?v]"
  have addr: "map val_Address ?vals = map val_Address vals"
    using k by (simp add: map_update_same)
  have heap: "accum_heap.is_heap ?vals h"
    using Suc.prems(3,4) accum_is_heap_cong [of h ?vals vals] by auto
  have dom: "set h \<subseteq> accum_dom ?vals" "k \<in> accum_dom ?vals" "k \<notin> set h"
    using Suc.prems(1) k by (auto simp: accum_dom_def addr Suc.prems(4))
  from accum_heap.Push_correct [OF dom(1) Suc.prems(5) heap dom(2,3)] obtain h1
    where h1: "Heap_Push (accum_less ?vals) h k = Ret h1" "accum_heap.is_heap ?vals h1"
      "mset h1 = add_mset k (mset h)" by blast
  have s1: "set h1 = {..<Suc k}" "distinct h1"
    using mset_eq_setD [of h1 "k # h"] mset_eq_imp_distinct_iff [of h1 "k # h"] h1(3)
      Suc.prems(4,5) dom(3) by (simp_all add: lessThan_Suc)
  have "take (Suc k) ?vals @ map (accum_bump tms) (drop (Suc k) ?vals) =
      take k vals @ map (accum_bump tms) (drop k vals)"
    using k by (simp add: take_Suc_conv_app_nth take_update_cancel Cons_nth_drop_Suc [symmetric])
  then have "\<exists>h'. ia_push tms ?vals h1 [Suc k..<length vals] =
      Ret (take k vals @ map (accum_bump tms) (drop k vals), h') \<and>
    accum_heap.is_heap (take k vals @ map (accum_bump tms) (drop k vals)) h' \<and>
    set h' = {..<length vals} \<and> distinct h'"
    using Suc.hyps(1) [of ?vals "Suc k" h1] Suc.hyps(2) Suc.prems(1) h1(2) s1 k addr by simp
  with h1(1) k show ?case by (simp add: upt_conv_Cons Let_def)
qed

lemma accum_round_addresses: "map val_Address (accum_round p vals) = map val_Address vals"
  and accum_round_powers: "map val_VotingPower (accum_round p vals) = map val_VotingPower vals"
  and accum_round_length [simp]: "length (accum_round p vals) = length vals"
  by (cases "best_index vals < length vals";
      simp add: accum_round_def Let_def map_update_same list_update_beyond)+

lemma accum_rounds_addresses: "map val_Address ((accum_round p ^^ r) vals) = map val_Address vals"
  and accum_rounds_powers: "map val_VotingPower ((accum_round p ^^ r) vals) = map val_VotingPower vals"
  and accum_rounds_length [simp]: "length ((accum_round p ^^ r) vals) = length vals"
  by (induction r) (simp_all add: accum_round_addresses accum_round_powers)

text \<open>After the root has paid, only the root can violate the heap order.\<close>

lemma round_heap:
  assumes "accum_heap.is_heap vals h" "set h = {..<length vals}" "distinct h"
    and "distinct (map val_Address vals)" "vals \<noteq> []"
  shows "\<exists>h'. Heap_Update (accum_less (accum_round p vals)) h (best_index vals) = Ret h' \<and>
    accum_heap.is_heap (accum_round p vals) h' \<and> set h' = {..<length vals} \<and> distinct h'"
proof -
  let ?vals = "accum_round p vals"
  note root = accum_heap_best [OF assms(1,2,4,5)]
  have dom: "set h \<subseteq> accum_dom ?vals"
    using assms(2,4) by (auto simp: accum_dom_def accum_round_addresses)
  have eq: "?vals ! (h ! k) = vals ! (h ! k)" if "0 < k" "k < length h" for k
    using that root assms(3) by (simp add: accum_round_def Let_def nth_eq_iff_index_eq flip: root(2))
  have "\<not> accum_better (?vals ! (h ! k)) (?vals ! (h ! parent k))"
    if "0 < parent k" "k < length h" for k
  proof -
    have k: "0 < k" "parent k < length h"
      using that parent_less [of k] by (auto simp: parent_def)
    with assms(1) that have "\<not> accum_better (vals ! (h ! k)) (vals ! (h ! parent k))"
      by (simp add: accum_heap.is_heap_def)
    with eq [OF k(1) that(2)] eq [OF that(1) k(2)] show ?thesis by simp
  qed
  then obtain h' where h': "Heap_Update (accum_less ?vals) h (h ! 0) = Ret h'"
      "accum_heap.is_heap ?vals h'" "mset h' = mset h"
    using accum_heap.Update_correct [OF dom assms(3) root(1)] by blast
  then show ?thesis
    using root(2) mset_eq_setD [OF h'(3)] mset_eq_imp_distinct_iff [OF h'(3)] assms(2,3) by simp
qed

lemma ia_rounds_correct:
  assumes "cache_ok valSet" "distinct (map val_Address (Validators valSet))" "Validators valSet \<noteq> []"
    and "accum_heap.is_heap (Validators valSet) h" "set h = {..<length (Validators valSet)}" "distinct h"
  shows "\<exists>vs'. ia_rounds r valSet h = Ret vs' \<and> cache_ok vs' \<and>
    Validators vs' = (accum_round (wrap64 (total_power valSet)) ^^ r) (Validators valSet) \<and>
    (0 < r \<longrightarrow> Proposer vs' =
      Some (Validators vs' ! best_index ((accum_round (wrap64 (total_power valSet)) ^^ (r - 1)) (Validators valSet))))"
  using assms
proof (induction r arbitrary: valSet h)
  case 0
  then show ?case by simp
next
  case (Suc r)
  let ?m = "best_index (Validators valSet)" and ?p = "wrap64 (total_power valSet)"
  define vs1 where "vs1 = fst (TotalVotingPower valSet)"
  define vals' where "vals' = accum_round ?p (Validators valSet)"
  define vs3 where "vs3 = (if r = 0 then vs1\<lparr>Validators := vals', Proposer := Some (vals' ! ?m)\<rparr>
    else vs1\<lparr>Validators := vals'\<rparr>)"
  note root = accum_heap_best [OF Suc.prems(4,5,2,3)]
  note tvp = TotalVotingPower_eq [OF Suc.prems(1)]
  have m: "?m < length (Validators valSet)"
    using best_index_is_best [OF Suc.prems(3)] by (simp add: is_best_def)
  obtain h' where h': "Heap_Update (accum_less vals') h ?m = Ret h'"
      "accum_heap.is_heap vals' h'" "set h' = {..<length vals'}" "distinct h'"
    using round_heap [OF Suc.prems(4,5,6,2,3)] by (auto simp: vals'_def)
  have vs3: "Validators vs3 = vals'" "cache_ok vs3" "total_power vs3 = total_power valSet"
    using tvp unfolding vs3_def vs1_def vals'_def total_power_def cache_ok_def
    by (simp_all add: accum_round_powers total_power_def)
  have ne: "vals' \<noteq> []" "distinct (map val_Address vals')"
    using Suc.prems(2,3) accum_round_length [of ?p "Validators valSet"]
    by (auto simp: vals'_def accum_round_addresses simp del: accum_round_length)
  have step: "ia_rounds (Suc r) valSet h = ia_rounds r vs3 h'"
  proof -
    have peek: "Heap_Peek h = Some ?m" using root by (simp add: Heap_Peek_def)
    have vals': "vals' = (Validators vs1)[?m := (Validators vs1 ! ?m)\<lparr>val_Accum :=
        wrap64 (val_Accum (Validators vs1 ! ?m) - snd (TotalVotingPower valSet))\<rparr>]"
      using tvp(1,2) by (simp add: vals'_def vs1_def accum_round_def accum_drop_def Let_def)
    have nth: "vals' ! ?m = (Validators vs1 ! ?m)\<lparr>val_Accum :=
        wrap64 (val_Accum (Validators vs1 ! ?m) - snd (TotalVotingPower valSet))\<rparr>"
      using m tvp(2) by (simp add: vals' vs1_def)
    have upd: "(Validators vs1)[?m := vals' ! ?m] = vals'" using nth vals' by simp
    show ?thesis
      unfolding ia_rounds.simps(2) peek option.case Let_def case_prod_beta
        vs1_def [symmetric] nth [symmetric] upd
      using h'(1) by (cases "r = 0") (simp_all add: vs3_def)
  qed
  have "\<exists>vs'. ia_rounds r vs3 h' = Ret vs' \<and> cache_ok vs' \<and>
    Validators vs' = (accum_round ?p ^^ r) vals' \<and>
    (0 < r \<longrightarrow> Proposer vs' = Some (Validators vs' ! best_index ((accum_round ?p ^^ (r - 1)) vals')))"
    using Suc.IH [of vs3 h'] ne h'(2-4) by (simp only: vs3 simp_thms)
  then show ?case
    using step by (cases r) (auto simp: vs3_def vals'_def funpow_swap1)
qed

lemma IncrementAccum_eq:
  assumes "addr_sorted valSet" "cache_ok valSet" "Validators valSet \<noteq> []" "0 < tms"
  defines "p \<equiv> wrap64 (total_power valSet)"
    and "vals \<equiv> map (accum_bump tms) (Validators valSet)"
  shows "\<exists>vs'. IncrementAccum valSet tms = Ret vs' \<and> cache_ok vs' \<and>
    Validators vs' = (accum_round p ^^ nat tms) vals \<and>
    Proposer vs' = Some (Validators vs' ! best_index ((accum_round p ^^ (nat tms - 1)) vals))"
proof -
  have d: "distinct (map val_Address (Validators valSet))" by (rule addr_sorted_distinct [OF assms(1)])
  have "accum_heap.is_heap (Validators valSet) []" by (simp add: accum_heap.is_heap_def)
  then obtain h where h: "ia_push tms (Validators valSet) [] [0..<length (Validators valSet)] = Ret (vals, h)"
      "accum_heap.is_heap vals h" "set h = {..<length (Validators valSet)}" "distinct h"
    using ia_push_correct [OF d, of 0 "[]" tms] by (auto simp: vals_def)
  let ?vs = "valSet\<lparr>Validators := vals\<rparr>"
  have c: "cache_ok ?vs" "total_power ?vs = total_power valSet"
    using assms(2) by (simp_all add: cache_ok_def total_power_def vals_def comp_def)
  have "\<exists>vs'. ia_rounds (nat tms) ?vs h = Ret vs' \<and> cache_ok vs' \<and>
    Validators vs' = (accum_round p ^^ nat tms) vals \<and>
    (0 < nat tms \<longrightarrow> Proposer vs' =
      Some (Validators vs' ! best_index ((accum_round p ^^ (nat tms - 1)) vals)))"
    using ia_rounds_correct [of ?vs h "nat tms"] c h d assms(3) by (simp add: p_def vals_def comp_def)
  then show ?thesis using h(1) assms(4) by (auto simp: IncrementAccum_def)
qed

lemma IncrementAccum_addresses:
  assumes "valset_inv valSet" "Validators valSet \<noteq> []" "0 < tms" "IncrementAccum valSet tms = Ret vs'"
  shows "map val_Address (Validators vs') = map val_Address (Validators valSet)"
    and "map val_VotingPower (Validators vs') = map val_VotingPower (Validators valSet)"
    and "valset_inv vs'"
  using IncrementAccum_eq [of valSet tms] assms
  by (auto simp: valset_inv_def addr_sorted_def accum_rounds_addresses accum_rounds_powers comp_def)

section \<open>The linear scan\<close>

lemma find_loop_best:
  assumes "distinct (map val_Address (p # vals))"
  shows "\<exists>q. find_loop (Some p) vals = Ret (Some q) \<and> q \<in> set (p # vals) \<and>
    (\<forall>v \<in> set (p # vals). \<not> accum_better v q)"
  using assms
proof (induction vals arbitrary: p)
  case Nil
  then show ?case by simp
next
  case (Cons v vals)
  define p' where "p' = (if accum_better p v then p else v)"
  have ne: "val_Address p \<noteq> val_Address v" using Cons.prems by simp
  have "distinct (map val_Address (p' # vals))" using Cons.prems by (simp add: p'_def)
  then obtain q where q: "find_loop (Some p') vals = Ret (Some q)" "q \<in> set (p' # vals)"
      "\<forall>v \<in> set (p' # vals). \<not> accum_better v q"
    using Cons.IH by blast
  have "\<not> accum_better p p'" "\<not> accum_better v p'"
    using accum_better_trans [of p v p] by (auto simp: p'_def)
  then have "\<not> accum_better p q" "\<not> accum_better v q"
    using q(3) accum_not_better_trans by (meson list.set_intros(1))+
  moreover have "find_loop (Some p) (v # vals) = find_loop (Some p') vals"
    using ne CompareAccum_Some [OF ne] by (auto simp: p'_def)
  ultimately show ?case using q by (auto simp: p'_def split: if_splits)
qed

lemma findProposer_best:
  assumes "distinct (map val_Address (Validators valSet))" "Validators valSet \<noteq> []"
  shows "findProposer valSet = Ret (Some (Validators valSet ! best_index (Validators valSet)))"
proof -
  obtain p vals where v: "Validators valSet = p # vals" using assms(2) by (cases "Validators valSet") auto
  obtain q where q: "find_loop (Some p) vals = Ret (Some q)" "q \<in> set (p # vals)"
      "\<forall>v \<in> set (p # vals). \<not> accum_better v q"
    using find_loop_best [of p vals] assms(1) v by auto
  then obtain m where m: "m < length (p # vals)" "(p # vals) ! m = q"
    unfolding in_set_conv_nth by blast
  have "is_best (p # vals) m"
    unfolding is_best_def m(2) using m(1) q(3) nth_mem by blast
  then have "m = best_index (p # vals)"
    using is_best_unique [of "p # vals" m] best_index_is_best [of "p # vals"] assms(1) v by simp
  with q(1) m(2) v show ?thesis by (simp add: findProposer_def CompareAccum_def)
qed

section \<open>Rotation keeps the accumulated powers in range\<close>

definition accum_inv :: "ValidatorSet \<Rightarrow> bool" where
  "accum_inv valSet \<longleftrightarrow>
     valset_inv valSet \<and> powers_ok valSet \<and> Validators valSet \<noteq> [] \<and>
     int (length (Validators valSet)) * total_power valSet < 2 ^ 63 \<and>
     sum_list (map val_Accum (Validators valSet)) = 0 \<and>
     (\<forall>v \<in> set (Validators valSet). - total_power valSet \<le> val_Accum v)"

lemma accum_inv_upper:
  assumes "accum_inv valSet" "v \<in> set (Validators valSet)"
  shows "val_Accum v \<le> (int (length (Validators valSet)) - 1) * total_power valSet"
proof -
  let ?T = "total_power valSet" and ?vals = "Validators valSet"
  have "val_Accum v + ?T \<le> sum_list (map (\<lambda>v. val_Accum v + ?T) ?vals)"
    using assms by (intro nonneg_elem_le_sum_list) (auto simp: accum_inv_def)
  also have "\<dots> = int (length ?vals) * ?T"
    using assms(1) by (simp add: sum_list_add_const accum_inv_def)
  finally show ?thesis by (simp add: algebra_simps)
qed

lemma accum_inv_bump:
  assumes "accum_inv valSet" "v \<in> set (Validators valSet)"
  shows "val_Accum (accum_bump 1 v) = val_Accum v + val_VotingPower v"
    and "0 \<le> val_VotingPower v" and "val_VotingPower v \<le> total_power valSet"
proof -
  let ?T = "total_power valSet"
  show p0: "0 \<le> val_VotingPower v" using assms by (auto simp: accum_inv_def powers_ok_def)
  show pT: "val_VotingPower v \<le> ?T"
    using assms unfolding total_power_def
    by (intro nonneg_elem_le_sum_list) (auto simp: accum_inv_def powers_ok_def)
  have T: "?T < 2 ^ 62" "int (length (Validators valSet)) * ?T < 2 ^ 63" "- ?T \<le> val_Accum v"
    using assms by (auto simp: accum_inv_def powers_ok_def)
  have "val_Accum v + val_VotingPower v \<le> int (length (Validators valSet)) * ?T"
    using accum_inv_upper [OF assms] pT by (simp add: algebra_simps)
  with T p0 pT show "val_Accum (accum_bump 1 v) = val_Accum v + val_VotingPower v"
    by (simp add: accum_bump_def)
qed

lemma sum_accum_bump:
  assumes "accum_inv valSet"
  shows "sum_list (map val_Accum (map (accum_bump 1) (Validators valSet))) = total_power valSet"
proof -
  have eq: "map val_Accum (map (accum_bump 1) (Validators valSet)) =
      map (\<lambda>v. val_Accum v + val_VotingPower v) (Validators valSet)"
    using accum_inv_bump(1) [OF assms] by (auto intro!: map_cong)
  show ?thesis
    unfolding eq using assms by (simp add: sum_list_addf accum_inv_def total_power_def)
qed

text \<open>The best validator has at least the average, so it pays out of a non-negative account.\<close>

lemma best_accum:
  assumes "accum_inv valSet"
  defines "vals \<equiv> map (accum_bump 1) (Validators valSet)"
  shows "best_index vals < length vals" and "0 \<le> val_Accum (vals ! best_index vals)"
    and "val_Accum (vals ! best_index vals) < 2 ^ 63"
proof -
  let ?m = "best_index vals" and ?T = "total_power valSet"
  have ne: "vals \<noteq> []" using assms by (simp add: accum_inv_def)
  have best: "is_best vals ?m" by (rule best_index_is_best [OF ne])
  then show m: "?m < length vals" by (simp add: is_best_def)
  have "val_Accum v \<le> val_Accum (vals ! ?m)" if "v \<in> set vals" for v
    using best that by (auto simp: is_best_def accum_better_def in_set_conv_nth not_less)
  then have "sum_list (map val_Accum vals) \<le> int (length (map val_Accum vals)) * val_Accum (vals ! ?m)"
    by (intro sum_list_le_length_times) auto
  then have "?T \<le> int (length vals) * val_Accum (vals ! ?m)"
    using sum_accum_bump [OF assms(1)] by (simp add: vals_def)
  moreover have "0 \<le> ?T" using assms(1) by (intro total_power_nonneg) (simp add: accum_inv_def)
  ultimately have "0 \<le> int (length vals) * val_Accum (vals ! ?m)" by simp
  with ne show "0 \<le> val_Accum (vals ! ?m)" by (simp add: zero_le_mult_iff)
  have "vals ! ?m = accum_bump 1 (Validators valSet ! ?m)" using m by (simp add: vals_def)
  then show "val_Accum (vals ! ?m) < 2 ^ 63"
    using wrap64_range by (simp add: accum_bump_def)
qed

lemma accum_inv_step:
  assumes "accum_inv valSet"
  shows "\<exists>vs'. IncrementAccum valSet 1 = Ret vs' \<and> accum_inv vs'"
proof -
  let ?T = "total_power valSet" and ?vals = "map (accum_bump 1) (Validators valSet)"
  let ?m = "best_index ?vals"
  have inv: "valset_inv valSet" "powers_ok valSet" "Validators valSet \<noteq> []"
    using assms by (simp_all add: accum_inv_def)
  obtain vs' where vs': "IncrementAccum valSet 1 = Ret vs'" "Validators vs' = accum_round ?T ?vals"
    using IncrementAccum_eq [of valSet 1] inv by (auto simp: valset_inv_def)
  note same = IncrementAccum_addresses [OF inv(1,3) _ vs'(1), simplified]
  have T: "total_power vs' = ?T" using same(2) by (simp add: total_power_def)
  have len: "length (Validators vs') = length (Validators valSet)" using vs'(2) by simp
  note best = best_accum [OF assms]
  have T62: "0 \<le> ?T" "?T < 2 ^ 62" using inv(2) total_power_nonneg by (auto simp: powers_ok_def)
  have pay: "val_Accum (accum_drop ?T (?vals ! ?m)) = val_Accum (?vals ! ?m) - ?T"
    unfolding accum_drop_def using best(2,3) T62 by simp
  have "sum_list (map val_Accum (Validators vs')) = 0"
    unfolding vs'(2) accum_round_def Let_def
    by (subst sum_list_map_update [OF best(1)]) (simp only: pay sum_accum_bump [OF assms])
  moreover have "- ?T \<le> val_Accum v" if v: "v \<in> set (Validators vs')" for v
  proof -
    consider "v = accum_drop ?T (?vals ! ?m)" | w where "w \<in> set (Validators valSet)" "v = accum_bump 1 w"
      using v set_update_subset_insert [of ?vals ?m "accum_drop ?T (?vals ! ?m)"]
      unfolding vs'(2) accum_round_def Let_def by auto
    then show ?thesis
    proof cases
      case 1
      then show ?thesis using pay best(2) by simp
    next
      case 2
      have "- ?T \<le> val_Accum w" using assms 2(1) by (simp add: accum_inv_def)
      then show ?thesis using accum_inv_bump(1,2) [OF assms 2(1)] 2(2) by simp
    qed
  qed
  moreover have "powers_ok vs'"
    using inv(2) powers_ok_cong [OF same(2)] by simp
  ultimately have "accum_inv vs'"
    using assms same(3) T len vs'(2) unfolding accum_inv_def by (metis length_0_conv)
  with vs'(1) show ?thesis by blast
qed

interpretation rotation: total_machine "\<lambda>valSet (u :: unit). IncrementAccum valSet 1" accum_inv
proof (unfold_locales, goal_cases)
  case (1 s e s')
  then show ?case using accum_inv_step by fastforce
next
  case (2 s e)
  then show ?case using accum_inv_step by fastforce
qed

lemma sum_list_sort_key: "sum_list (map g (sort_key f xs)) = (sum_list (map g xs) :: int)"
  by (simp add: mset_map flip: sum_mset_sum_list)

text \<open>Freshly made validators: distinct addresses, no accumulated power.\<close>

definition fresh_vals :: "Validator list \<Rightarrow> bool" where
  "fresh_vals vals \<longleftrightarrow>
     vals \<noteq> [] \<and> distinct (map val_Address vals) \<and>
     (\<forall>v \<in> set vals. val_Accum v = 0 \<and> 0 \<le> val_VotingPower v) \<and>
     sum_list (map val_VotingPower vals) < 2 ^ 62 \<and>
     int (length vals) * sum_list (map val_VotingPower vals) < 2 ^ 63"

lemma NewValidatorSet_accum_inv:
  assumes "fresh_vals vals"
  shows "\<exists>valSet. NewValidatorSet (Some vals) = Ret valSet \<and> accum_inv valSet \<and>
    accum_inv \<lparr>Validators = sort_key val_Address vals, Proposer = None, totalVotingPower = 0\<rparr>"
proof -
  let ?vs = "\<lparr>Validators = sort_key val_Address vals, Proposer = None, totalVotingPower = 0\<rparr>"
  have m: "mset (map val_Address (sort_key val_Address vals)) = mset (map val_Address vals)" by simp
  have "distinct (map val_Address (sort_key val_Address vals))"
    unfolding mset_eq_imp_distinct_iff [OF m] using assms by (simp add: fresh_vals_def)
  then have sorted: "addr_sorted ?vs" by (simp add: addr_sorted_def strict_sorted_iff)
  have sums: "total_power ?vs = sum_list (map val_VotingPower vals)"
      "sum_list (map val_Accum (sort_key val_Address vals)) = sum_list (map val_Accum vals)"
    by (simp_all add: total_power_def sum_list_sort_key)
  have "\<forall>v \<in> set vals. val_Accum v = 0" using assms by (simp add: fresh_vals_def)
  then have "sum_list (map val_Accum vals) = 0" by (induction vals) simp_all
  moreover have "sort_key val_Address vals \<noteq> []"
    using assms by (metis fresh_vals_def length_0_conv length_sort)
  moreover have "0 \<le> sum_list (map val_VotingPower vals)"
    using assms by (intro sum_list_nonneg) (auto simp: fresh_vals_def)
  ultimately have "accum_inv ?vs"
    using assms sorted sums
    by (auto simp: accum_inv_def valset_inv_def cache_ok_def powers_ok_def fresh_vals_def)
  from this accum_inv_step [OF this] show ?thesis by (auto simp: NewValidatorSet_def)
qed

section \<open>Every validator gets its turn\<close>

text \<open>The proposer of a rotation is the validator that paid; all others keep what they gained.\<close>

lemma rotation_step:
  assumes inv: "accum_inv valSet" and i: "i < length (Validators valSet)" and step: "IncrementAccum valSet 1 = Ret vs'"
  shows "(\<exists>p. Proposer vs' = Some p \<and> val_Address p = val_Address (Validators valSet ! i)) \<or>
    val_Accum (Validators vs' ! i) = val_Accum (Validators valSet ! i) + val_VotingPower (Validators valSet ! i)"
proof -
  let ?vals = "map (accum_bump 1) (Validators valSet)"
  have v: "valset_inv valSet" "powers_ok valSet" "Validators valSet \<noteq> []" using inv by (simp_all add: accum_inv_def)
  have eq: "Validators vs' = accum_round (wrap64 (total_power valSet)) ?vals" "Proposer vs' = Some (Validators vs' ! best_index ?vals)"
    using IncrementAccum_eq [of valSet 1] v step by (auto simp: valset_inv_def)
  show ?thesis
  proof (cases "i = best_index ?vals")
    case True
    have "val_Address (Validators vs' ! i) = map val_Address (Validators vs') ! i" using eq(1) i by (simp add: accum_round_def Let_def)
    also have "\<dots> = val_Address (Validators valSet ! i)"
      using IncrementAccum_addresses(1) [OF v(1,3) _ step] i by simp
    finally show ?thesis using eq(2) True by simp
  next
    case False
    then have "Validators vs' ! i = accum_bump 1 (Validators valSet ! i)" using eq(1) i by (simp add: accum_round_def Let_def)
    then show ?thesis using accum_inv_bump(1) [OF inv] i by simp
  qed
qed

abbreviation rotate_by :: "ValidatorSet \<Rightarrow> nat \<Rightarrow> ValidatorSet go" where
  "rotate_by valSet k \<equiv> go_run (\<lambda>s (u :: unit). IncrementAccum s 1) valSet (replicate k ())"

text \<open>A validator that does not propose for \<open>k\<close> rotations has gained \<open>k\<close> times its power.\<close>

lemma turn_or_gain:
  assumes "accum_inv valSet" "i < length (Validators valSet)"
  shows "(\<exists>j vs' p. 0 < j \<and> j \<le> k \<and> rotate_by valSet j = Ret vs' \<and> Proposer vs' = Some p \<and> val_Address p = val_Address (Validators valSet ! i)) \<or>
    (\<exists>vs'. accum_inv vs' \<and> length (Validators vs') = length (Validators valSet) \<and> total_power vs' = total_power valSet \<and>
       val_Accum (Validators vs' ! i) = val_Accum (Validators valSet ! i) + int k * val_VotingPower (Validators valSet ! i))"
  using assms
proof (induction k arbitrary: valSet)
  case (Suc k)
  obtain vs1 where s: "IncrementAccum valSet 1 = Ret vs1" "accum_inv vs1" using accum_inv_step [OF Suc.prems(1)] by blast
  have v: "valset_inv valSet" "Validators valSet \<noteq> []" using Suc.prems(1) by (simp_all add: accum_inv_def)
  note same = IncrementAccum_addresses(1,2) [OF v _ s(1), simplified]
  have len: "length (Validators vs1) = length (Validators valSet)" using same(1) by (metis length_map)
  have tot: "total_power vs1 = total_power valSet" using same(2) by (simp add: total_power_def)
  have at: "val_Address (Validators vs1 ! i) = val_Address (Validators valSet ! i)"
      "val_VotingPower (Validators vs1 ! i) = val_VotingPower (Validators valSet ! i)"
    using same len Suc.prems(2) by (metis nth_map)+
  have next_: "rotate_by valSet (Suc j) = rotate_by vs1 j" for j using s(1) by simp
  from rotation_step [OF Suc.prems s(1)] show ?case
  proof
    assume "\<exists>p. Proposer vs1 = Some p \<and> val_Address p = val_Address (Validators valSet ! i)"
    moreover have "rotate_by valSet 1 = Ret vs1" using s(1) by simp
    ultimately show ?thesis by (metis One_nat_def Suc_le_mono le0 zero_less_Suc)
  next
    assume g: "val_Accum (Validators vs1 ! i) = val_Accum (Validators valSet ! i) + val_VotingPower (Validators valSet ! i)"
    from Suc.IH [OF s(2)] Suc.prems(2) len have
      "(\<exists>j vs' p. 0 < j \<and> j \<le> k \<and> rotate_by vs1 j = Ret vs' \<and> Proposer vs' = Some p \<and> val_Address p = val_Address (Validators valSet ! i)) \<or>
       (\<exists>vs'. accum_inv vs' \<and> length (Validators vs') = length (Validators valSet) \<and> total_power vs' = total_power valSet \<and>
         val_Accum (Validators vs' ! i) = val_Accum (Validators vs1 ! i) + int k * val_VotingPower (Validators valSet ! i))"
      unfolding at len tot by simp
    then show ?thesis
    proof
      assume "\<exists>j vs' p. 0 < j \<and> j \<le> k \<and> rotate_by vs1 j = Ret vs' \<and> Proposer vs' = Some p \<and> val_Address p = val_Address (Validators valSet ! i)"
      then show ?thesis using next_ by (metis Suc_le_mono zero_less_Suc)
    qed (auto simp: g algebra_simps)
  qed
qed auto

lemma less_div_Suc_mult:
  assumes "0 < (p :: int)" shows "x < (x div p + 1) * p"
proof -
  have "x = (x div p) * p + x mod p" by simp
  also have "\<dots> < (x div p) * p + p" using pos_mod_bound [OF assms] by (rule add_strict_left_mono)
  finally show ?thesis by (simp only: distrib_right mult_1)
qed

text \<open>The addresses and powers that a rotation keeps.\<close>

definition identities :: "Validator list \<Rightarrow> (bytes \<times> int) list" where
  "identities vals = map (\<lambda>v. (val_Address v, val_VotingPower v)) vals"

lemma identities_same:
  assumes "identities xs = identities ys"
  shows "length xs = length ys" "map val_VotingPower xs = map val_VotingPower ys"
    "i < length ys \<Longrightarrow> val_Address (xs ! i) = val_Address (ys ! i) \<and> val_VotingPower (xs ! i) = val_VotingPower (ys ! i)"
proof -
  show len: "length xs = length ys" using assms by (metis identities_def length_map)
  have "map snd (identities zs) = map val_VotingPower zs" for zs by (simp add: identities_def comp_def)
  then show "map val_VotingPower xs = map val_VotingPower ys" using assms by metis
  assume i: "i < length ys"
  have "identities zs ! i = (val_Address (zs ! i), val_VotingPower (zs ! i))" if "i < length zs" for zs
    using that by (simp add: identities_def)
  then show "val_Address (xs ! i) = val_Address (ys ! i) \<and> val_VotingPower (xs ! i) = val_VotingPower (ys ! i)"
    using i len assms by (metis prod.inject)
qed

lemma identities_step:
  assumes "accum_inv valSet" "IncrementAccum valSet 1 = Ret vs'"
  shows "identities (Validators vs') = identities (Validators valSet)"
proof -
  have v: "valset_inv valSet" "Validators valSet \<noteq> []" using assms(1) by (simp_all add: accum_inv_def)
  have "identities vs = zip (map val_Address vs) (map val_VotingPower vs)" for vs by (induction vs) (simp_all add: identities_def)
  then show ?thesis using IncrementAccum_addresses(1,2) [OF v _ assms(2), simplified] by simp
qed

lemma identities_rotate:
  "accum_inv valSet \<Longrightarrow> \<exists>vs'. rotate_by valSet k = Ret vs' \<and> accum_inv vs' \<and> identities (Validators vs') = identities (Validators valSet)"
proof (induction k arbitrary: valSet)
  case (Suc k)
  then obtain vs1 where "IncrementAccum valSet 1 = Ret vs1" "accum_inv vs1" "identities (Validators vs1) = identities (Validators valSet)"
    using accum_inv_step identities_step by blast
  then show ?case using Suc.IH [of vs1] by simp
qed simp

lemma proposes_within:
  assumes inv: "accum_inv valSet" and i: "i < length (Validators valSet)" and p: "0 < val_VotingPower (Validators valSet ! i)"
  defines "bound \<equiv> nat (int (length (Validators valSet)) * total_power valSet div val_VotingPower (Validators valSet ! i)) + 1"
  shows "\<exists>j vs' p. 0 < j \<and> j \<le> bound \<and> rotate_by valSet j = Ret vs' \<and> Proposer vs' = Some p \<and> val_Address p = val_Address (Validators valSet ! i)"
proof (rule ccontr)
  let ?n = "int (length (Validators valSet))" and ?T = "total_power valSet" and ?p = "val_VotingPower (Validators valSet ! i)"
  assume "\<not> ?thesis"
  then obtain vs' where vs': "accum_inv vs'" "length (Validators vs') = length (Validators valSet)" "total_power vs' = ?T"
      "val_Accum (Validators vs' ! i) = val_Accum (Validators valSet ! i) + int bound * ?p"
    using turn_or_gain [OF inv i, of bound] by blast
  have "0 \<le> ?T" using inv by (intro total_power_nonneg) (simp add: accum_inv_def)
  then have "int bound = ?n * ?T div ?p + 1" using p by (simp add: bound_def pos_imp_zdiv_nonneg_iff)
  then have "?n * ?T < int bound * ?p" using less_div_Suc_mult [OF p] by simp
  moreover have "- ?T \<le> val_Accum (Validators valSet ! i)" using inv i by (simp add: accum_inv_def)
  moreover have "val_Accum (Validators vs' ! i) \<le> (?n - 1) * ?T" using accum_inv_upper [OF vs'(1)] vs'(2,3) i by (metis nth_mem)
  ultimately show False using vs'(4) by (simp add: algebra_simps)
qed

section \<open>Properties\<close>

text \<open>C10: On a well-formed, non-empty validator set, IncrementAccum(times) with times > 0 returns
  without panicking; the heap-based selection equals times rounds of: the validator with the
  highest accumulated power (ties by lower address) pays the total voting power, after every
  validator has gained times its own power. The proposer is the validator chosen in the last
  round, addresses and powers are unchanged, and the set stays well-formed.\<close>

theorem IncrementAccum_refines_rounds:
  assumes "valset_inv valSet" "Validators valSet \<noteq> []" "0 < tms"
  defines "p \<equiv> wrap64 (total_power valSet)"
    and "vals \<equiv> map (accum_bump tms) (Validators valSet)"
  shows "\<exists>vs'. IncrementAccum valSet tms = Ret vs' \<and> valset_inv vs' \<and>
    Validators vs' = (accum_round p ^^ nat tms) vals \<and>
    Proposer vs' = Some (Validators vs' ! best_index ((accum_round p ^^ (nat tms - 1)) vals)) \<and>
    map val_Address (Validators vs') = map val_Address (Validators valSet) \<and>
    map val_VotingPower (Validators vs') = map val_VotingPower (Validators valSet)"
  using IncrementAccum_eq [of valSet tms] IncrementAccum_addresses [OF assms(1-3)] assms
  by (auto simp: valset_inv_def)

definition ex_valset :: ValidatorSet where
  "ex_valset = \<lparr>Validators =
     [\<lparr>val_Address = [1], val_PubKey = [11], val_VotingPower = 10, val_Accum = 0\<rparr>,
      \<lparr>val_Address = [2], val_PubKey = [12], val_VotingPower = 30, val_Accum = 0\<rparr>,
      \<lparr>val_Address = [3], val_PubKey = [13], val_VotingPower = 5, val_Accum = 0\<rparr>],
     Proposer = None, totalVotingPower = 0\<rparr>"

lemma ex_valset_inv: "valset_inv ex_valset" "Validators ex_valset \<noteq> []"
  by (simp_all add: valset_inv_def ex_valset_def addr_sorted_def cache_ok_def)

theorem IncrementAccum_refines_rounds_witness:
  "\<exists>vs'. IncrementAccum ex_valset 2 = Ret vs' \<and> valset_inv vs'"
  using IncrementAccum_refines_rounds [OF ex_valset_inv, of 2] by auto

text \<open>C24: One rotation (IncrementAccum(1)) proposes exactly the validator that the linear scan
  findProposer selects on the set after the powers were added.\<close>

theorem proposer_agrees_with_scan:
  assumes "valset_inv valSet" "Validators valSet \<noteq> []"
  shows "\<exists>vs' p. IncrementAccum valSet 1 = Ret vs' \<and>
    findProposer (valSet\<lparr>Validators := map (accum_bump 1) (Validators valSet)\<rparr>) = Ret (Some p) \<and>
    Proposer vs' = Some (accum_drop (wrap64 (total_power valSet)) p)"
proof -
  let ?vals = "map (accum_bump 1) (Validators valSet)"
  have d: "distinct (map val_Address ?vals)"
    using assms(1) addr_sorted_distinct [of valSet] by (simp add: valset_inv_def comp_def)
  have m: "best_index ?vals < length ?vals"
    using best_index_is_best [of ?vals] assms(2) by (simp add: is_best_def)
  obtain vs' where "IncrementAccum valSet 1 = Ret vs'"
      "Validators vs' = accum_round (wrap64 (total_power valSet)) ?vals"
      "Proposer vs' = Some (Validators vs' ! best_index ?vals)"
    using IncrementAccum_eq [of valSet 1] assms by (auto simp: valset_inv_def)
  with findProposer_best [of "valSet\<lparr>Validators := ?vals\<rparr>"] d m assms(2) show ?thesis
    by (auto simp: accum_round_def Let_def)
qed

theorem proposer_agrees_with_scan_witness:
  "\<exists>vs' p. IncrementAccum ex_valset 1 = Ret vs' \<and>
    findProposer (ex_valset\<lparr>Validators := map (accum_bump 1) (Validators ex_valset)\<rparr>) = Ret (Some p) \<and>
    Proposer vs' = Some (accum_drop (wrap64 (total_power ex_valset)) p)"
  by (rule proposer_agrees_with_scan [OF ex_valset_inv])

text \<open>C25: Starting from NewValidatorSet on validators with no accumulated power, any number of
  rotations returns, the accumulated powers always sum to zero, and each stays between minus the
  total power and (n-1) times the total power, so the int64 additions the code marks with
  TODO never overflow.\<close>

theorem rotation_never_overflows:
  assumes "fresh_vals vals"
  shows "\<exists>valSet vs'. NewValidatorSet (Some vals) = Ret valSet \<and>
    go_run (\<lambda>s (u :: unit). IncrementAccum s 1) valSet (replicate k ()) = Ret vs' \<and>
    sum_list (map val_Accum (Validators vs')) = 0 \<and>
    (\<forall>v \<in> set (Validators vs'). - total_power vs' \<le> val_Accum v \<and>
       val_Accum v \<le> (int (length (Validators vs')) - 1) * total_power vs')"
proof -
  obtain valSet where v: "NewValidatorSet (Some vals) = Ret valSet" "accum_inv valSet"
    using NewValidatorSet_accum_inv [OF assms] by blast
  obtain vs' where "go_run (\<lambda>s (u :: unit). IncrementAccum s 1) valSet (replicate k ()) = Ret vs'"
      "accum_inv vs'"
    using rotation.run_returns [OF v(2)] by blast
  with v accum_inv_upper show ?thesis by (auto simp: accum_inv_def)
qed

theorem rotation_never_overflows_witness:
  "fresh_vals (Validators ex_valset) \<and>
   (\<exists>valSet vs'. NewValidatorSet (Some (Validators ex_valset)) = Ret valSet \<and>
    go_run (\<lambda>s (u :: unit). IncrementAccum s 1) valSet (replicate 1000 ()) = Ret vs' \<and>
    sum_list (map val_Accum (Validators vs')) = 0)"
proof -
  have f: "fresh_vals (Validators ex_valset)" by (simp add: fresh_vals_def ex_valset_def)
  show ?thesis using f rotation_never_overflows [OF f, of 1000] by blast
qed

text \<open>C11: No validator with voting power is starved: from any point of the rotation on, it is the proposer
  again within n times the total power divided by its own power, plus one, rotations.\<close>

theorem every_validator_proposes:
  assumes "fresh_vals vals" "v \<in> set vals" "0 < val_VotingPower v"
  shows "\<exists>valSet. NewValidatorSet (Some vals) = Ret valSet \<and> (\<forall>k. \<exists>j vs' p. 0 < j \<and>
    int j \<le> int (length vals) * sum_list (map val_VotingPower vals) div val_VotingPower v + 1 \<and>
    go_run (\<lambda>s (u :: unit). IncrementAccum s 1) valSet (replicate (k + j) ()) = Ret vs' \<and>
    Proposer vs' = Some p \<and> val_Address p = val_Address v)"
proof -
  let ?vs = "\<lparr>Validators = sort_key val_Address vals, Proposer = None, totalVotingPower = 0\<rparr>"
  obtain valSet where new: "NewValidatorSet (Some vals) = Ret valSet" "accum_inv valSet" "accum_inv ?vs"
    using NewValidatorSet_accum_inv [OF assms(1)] by blast
  then have ids: "identities (Validators valSet) = identities (sort_key val_Address vals)"
    using identities_step [OF new(3)] by (simp add: NewValidatorSet_def)
  obtain i where i: "i < length vals" "sort_key val_Address vals ! i = v"
    using assms(2) by (metis in_set_conv_nth length_sort set_sort)
  have "\<exists>j vs' p. 0 < j \<and> int j \<le> int (length vals) * sum_list (map val_VotingPower vals) div val_VotingPower v + 1 \<and>
      rotate_by valSet (k + j) = Ret vs' \<and> Proposer vs' = Some p \<and> val_Address p = val_Address v" for k
  proof -
    obtain vk where vk: "rotate_by valSet k = Ret vk" "accum_inv vk" "identities (Validators vk) = identities (sort_key val_Address vals)"
      using identities_rotate [OF new(2), of k] ids by auto
    note same = identities_same [OF vk(3)]
    have at: "val_Address (Validators vk ! i) = val_Address v" "val_VotingPower (Validators vk ! i) = val_VotingPower v"
      using same(3) [of i] i by simp_all
    have tot: "total_power vk = sum_list (map val_VotingPower vals)"
      using same(2) by (simp add: total_power_def sum_list_sort_key)
    have "0 \<le> int (length vals) * total_power vk div val_VotingPower v"
      using vk(2) assms(3) total_power_nonneg by (simp add: accum_inv_def pos_imp_zdiv_nonneg_iff)
    moreover obtain j vs' p where j: "0 < j" "j \<le> nat (int (length (Validators vk)) * total_power vk div val_VotingPower (Validators vk ! i)) + 1"
        "rotate_by vk j = Ret vs'" "Proposer vs' = Some p" "val_Address p = val_Address (Validators vk ! i)"
      using proposes_within [OF vk(2), of i] same(1) i(1) at assms(3) by auto
    ultimately have "int j \<le> int (length vals) * sum_list (map val_VotingPower vals) div val_VotingPower v + 1"
      using same(1) at tot by (simp add: le_nat_iff nat_le_iff)
    moreover have "rotate_by valSet (k + j) = Ret vs'" using vk(1) j(3) by (simp add: replicate_add go_run_append)
    ultimately show ?thesis using j(1,4,5) at by metis
  qed
  then show ?thesis using new(1) by blast
qed

theorem every_validator_proposes_witness:
  "\<exists>valSet. NewValidatorSet (Some (Validators ex_valset)) = Ret valSet \<and> (\<forall>k. \<exists>j vs' p. 0 < j \<and>
    int j \<le> int (length (Validators ex_valset)) * sum_list (map val_VotingPower (Validators ex_valset)) div
      val_VotingPower (hd (Validators ex_valset)) + 1 \<and>
    go_run (\<lambda>s (u :: unit). IncrementAccum s 1) valSet (replicate (k + j) ()) = Ret vs' \<and>
    Proposer vs' = Some p \<and> val_Address p = val_Address (hd (Validators ex_valset)))"
  by (rule every_validator_proposes) (simp_all add: fresh_vals_def ex_valset_def)

end
