(* ===== verification/Wire.thy ===== *)
theory Wire
  imports Go_Prelude
begin

text \<open>
  The binary encoding of \<^verbatim>\<open>go-wire\<close> (\<^verbatim>\<open>int.go\<close>, \<^verbatim>\<open>byteslice.go\<close>) that keys and hashes are
  computed over: signed varints, byte slices and lists of byte slices. A writer appends to the
  output, so it is the list of bytes it adds; a reader takes the remaining input and the running
  count \<open>n\<close> of bytes read.
\<close>

section \<open>Big-endian integers\<close>

fun be_octets :: "nat \<Rightarrow> nat \<Rightarrow> bytes" where
  "be_octets 0 v = []"
| "be_octets (Suc k) v = be_octets k (v div 256) @ [word_of_nat v]"

definition be_val :: "bytes \<Rightarrow> nat" where
  "be_val bs = foldl (\<lambda>a b. a * 256 + unat b) 0 bs"

section \<open>Writers\<close>

definition uvarintSize :: "nat \<Rightarrow> nat" where
  "uvarintSize i =
     (if i = 0 then 0 else if i < 2 ^ 8 then 1 else if i < 2 ^ 16 then 2 else if i < 2 ^ 24 then 3
      else if i < 2 ^ 32 then 4 else if i < 2 ^ 40 then 5 else if i < 2 ^ 48 then 6
      else if i < 2 ^ 56 then 7 else 8)"

text \<open>The conversion \<^verbatim>\<open>uint64(i)\<close>.\<close>

definition to_u64 :: "int \<Rightarrow> nat" where
  "to_u64 i = nat (i mod 2 ^ 64)"

definition WriteVarint :: "int \<Rightarrow> bytes" where
  "WriteVarint i =
     (let negate = i < 0;
          i = (if negate then wrap64 (- i) else i);
          size = uvarintSize (to_u64 i)
      in (if negate then word_of_nat (size + 240) else word_of_nat size)
         # (if size > 0 then drop (8 - size) (be_octets 8 (to_u64 i)) else []))"

definition WriteByteSlice :: "bytes \<Rightarrow> bytes" where
  "WriteByteSlice bz = WriteVarint (int (length bz)) @ bz"

definition WriteByteSlices :: "bytes list \<Rightarrow> bytes" where
  "WriteByteSlices bzz = WriteVarint (int (length bzz)) @ concat (map WriteByteSlice bzz)"

section \<open>Readers\<close>

datatype wire_error =
  ErrUnexpectedEOF | ErrVarintOverflow | ErrNegativeZero | ErrBinaryReadInvalidLength
  | ErrBinaryReadOverflow

type_synonym 'a reader = "bytes \<Rightarrow> int \<Rightarrow> wire_error + ('a \<times> bytes \<times> int)"

definition ReadFull :: "nat \<Rightarrow> bytes reader" where
  "ReadFull k r n =
     (if length r < k then Inl ErrUnexpectedEOF else Inr (take k r, drop k r, n + int k))"

definition ReadVarint :: "int reader" where
  "ReadVarint r n =
     (case ReadFull 1 r n of Inl e \<Rightarrow> Inl e
      | Inr (b, r, n) \<Rightarrow>
          (let s = unat (hd b); negate = (s div 16 = 15); size = (if negate then s mod 16 else s) in
           if size > 8 then Inl ErrVarintOverflow
           else if size = 0 then (if negate then Inl ErrNegativeZero else Inr (0, r, n))
           else case ReadFull size r n of Inl e \<Rightarrow> Inl e
             | Inr (buf, r, n) \<Rightarrow>
                 (let i = wrap64 (int (be_val (replicate (8 - size) 0 @ buf)))
                  in Inr (if negate then wrap64 (- i) else i, r, n))))"

definition ReadByteSlice :: "int \<Rightarrow> bytes reader" where
  "ReadByteSlice lmt r n =
     (case ReadVarint r n of Inl e \<Rightarrow> Inl e
      | Inr (len, r, n) \<Rightarrow>
          if len < 0 then Inl ErrBinaryReadInvalidLength
          else if len > 2 ^ 31 - 1 then Inl ErrBinaryReadOverflow
          else if lmt \<noteq> 0 \<and> lmt < max len (wrap64 (n + len)) then Inl ErrBinaryReadOverflow
          else if len = 0 then Inr ([], r, n)
          else ReadFull (nat len) r n)"

fun read_slices :: "nat \<Rightarrow> int \<Rightarrow> bytes list reader" where
  "read_slices 0 lmt r n = Inr ([], r, n)"
| "read_slices (Suc k) lmt r n =
     (case ReadByteSlice lmt r n of Inl e \<Rightarrow> Inl e
      | Inr (bz, r, n) \<Rightarrow>
          (case read_slices k lmt r n of Inl e \<Rightarrow> Inl e
           | Inr (bzz, r, n) \<Rightarrow> Inr (bz # bzz, r, n)))"

definition ReadByteSlices :: "int \<Rightarrow> bytes list reader" where
  "ReadByteSlices lmt r n =
     (case ReadVarint r n of Inl e \<Rightarrow> Inl e
      | Inr (len, r, n) \<Rightarrow>
          if len < 0 then Inl ErrBinaryReadInvalidLength
          else if lmt \<noteq> 0 \<and> lmt < max len (wrap64 (n + len)) then Inl ErrBinaryReadOverflow
          else read_slices (nat len) lmt r n)"

section \<open>Round trips\<close>

lemma length_be_octets [simp]: "length (be_octets k v) = k"
  by (induction k arbitrary: v) simp_all

lemma drop_be_octets: "drop d (be_octets (d + k) v) = be_octets k v"
  by (induction k arbitrary: v) simp_all

lemma be_val_append: "be_val (xs @ [b]) = be_val xs * 256 + unat b"
  by (simp add: be_val_def)

lemma be_val_bytes: "v < 256 ^ k \<Longrightarrow> be_val (be_octets k v) = v"
proof (induction k arbitrary: v)
  case 0
  then show ?case by (simp add: be_val_def)
next
  case (Suc k)
  then have "v div 256 < 256 ^ k" by (simp add: less_mult_imp_div_less mult.commute)
  with Suc.IH show ?case
    by (simp add: be_val_append unat_of_nat)
qed

lemma be_val_zeros: "be_val (replicate k 0 @ bs) = be_val bs"
  by (induction k) (simp_all add: be_val_def)

lemma uvarintSize_le: "uvarintSize i \<le> 8"
  by (simp add: uvarintSize_def)

lemma uvarintSize_bound: "i < 2 ^ 64 \<Longrightarrow> i < 256 ^ uvarintSize i"
  by (auto simp: uvarintSize_def)

lemma uvarintSize_0 [simp]: "uvarintSize i = 0 \<longleftrightarrow> i = 0"
  by (simp add: uvarintSize_def)

lemma ReadFull_append [simp]: "length bs = k \<Longrightarrow> ReadFull k (bs @ r) n = Inr (bs, r, n + int k)"
  by (simp add: ReadFull_def)

lemma ReadFull_Cons [simp]: "ReadFull (Suc 0) (b # r) n = Inr ([b], r, n + 1)"
  by (simp add: ReadFull_def)

lemma to_u64_bound: "to_u64 i < 2 ^ 64"
  by (simp add: to_u64_def nat_less_iff)

lemma wrap64_to_u64: "i64 i \<Longrightarrow> wrap64 (int (to_u64 i)) = i"
  using wrap64_cong [of "int (to_u64 i)" i] by (simp add: to_u64_def)

text \<open>The payload of a varint: the size byte and the minimal big-endian bytes.\<close>

lemma read_payload:
  fixes v :: nat
  assumes "v < 2 ^ 64"
  defines "s \<equiv> uvarintSize v"
  shows "length (drop (8 - s) (be_octets 8 v)) = s"
    and "be_val (replicate (8 - s) 0 @ drop (8 - s) (be_octets 8 v)) = v"
proof -
  have "drop (8 - s) (be_octets 8 v) = be_octets s v"
    using drop_be_octets [of "8 - s" s v] uvarintSize_le [of v] by (simp add: s_def)
  then show "length (drop (8 - s) (be_octets 8 v)) = s"
    and "be_val (replicate (8 - s) 0 @ drop (8 - s) (be_octets 8 v)) = v"
    using uvarintSize_bound [OF assms(1)] by (simp_all add: be_val_zeros be_val_bytes s_def)
qed

lemma read_sized:
  assumes "length buf = s" "0 < s" "s \<le> 8"
  shows "unat b = s + 240 \<Longrightarrow> ReadVarint (b # buf @ r) n =
      Inr (wrap64 (- wrap64 (int (be_val (replicate (8 - s) 0 @ buf)))), r, n + 1 + int s)"
    and "unat b = s \<Longrightarrow> ReadVarint (b # buf @ r) n =
      Inr (wrap64 (int (be_val (replicate (8 - s) 0 @ buf))), r, n + 1 + int s)"
proof -
  have d: "(s + 240) div 16 = 15" "(s + 240) mod 16 = s" "s div 16 = 0"
    using assms(3) by (simp_all add: div_nat_eqI mod_nat_eqI)
  show "unat b = s + 240 \<Longrightarrow> ReadVarint (b # buf @ r) n =
      Inr (wrap64 (- wrap64 (int (be_val (replicate (8 - s) 0 @ buf)))), r, n + 1 + int s)"
    and "unat b = s \<Longrightarrow> ReadVarint (b # buf @ r) n =
      Inr (wrap64 (int (be_val (replicate (8 - s) 0 @ buf))), r, n + 1 + int s)"
    using assms by (simp_all add: ReadVarint_def Let_def d)
qed

lemma varint_roundtrip:
  assumes "i64 i"
  shows "ReadVarint (WriteVarint i @ r) n = Inr (i, r, n + int (length (WriteVarint i)))"
proof -
  define j where "j = (if i < 0 then wrap64 (- i) else i)"
  define s where "s = uvarintSize (to_u64 j)"
  have s8: "s \<le> 8" unfolding s_def by (rule uvarintSize_le)
  have j: "i64 j" using assms wrap64_range [of "- i"] by (auto simp: j_def)
  have s0: "s = 0 \<longleftrightarrow> j = 0"
    using wrap64_to_u64 [OF j] by (auto simp: s_def to_u64_def)
  have j0: "j = 0 \<longleftrightarrow> i = 0"
    using assms by (cases "i = - (2 ^ 63)") (auto simp: j_def wrap64_def)
  have inverse: "(if i < 0 then wrap64 (- j) else j) = i"
    using assms by (simp add: j_def)
  note p = read_payload [OF to_u64_bound [of j], folded s_def]
  have w: "WriteVarint i = (if i < 0 then word_of_nat (s + 240) else word_of_nat s)
      # (if s > 0 then drop (8 - s) (be_octets 8 (to_u64 j)) else [])"
    unfolding WriteVarint_def Let_def s_def j_def by (rule refl)
  have u: "unat (word_of_nat (s + 240) :: byte) = s + 240" "unat (word_of_nat s :: byte) = s"
    using s8 by (simp_all add: unat_of_nat del: of_nat_add)
  show ?thesis
  proof (cases "s = 0")
    case True
    then have "i = 0" using s0 j0 by simp
    with True w show ?thesis by (simp add: ReadVarint_def)
  next
    case False
    then have s: "0 < s" by simp
    note rd = read_sized [OF p(1) s s8] u
    have val: "wrap64 (int (be_val (replicate (8 - s) 0 @ drop (8 - s) (be_octets 8 (to_u64 j))))) = j"
      by (simp only: p(2) wrap64_to_u64 [OF j])
    show ?thesis
    proof (cases "i < 0")
      case True
      then show ?thesis using s s8 rd(1) [OF u(1)] inverse by (simp add: w val p(1))
    next
      case False
      then show ?thesis using s s8 rd(2) [OF u(2)] inverse by (simp add: w val p(1))
    qed
  qed
qed

lemma byteslice_roundtrip:
  assumes "length bz < 2 ^ 31"
  shows "ReadByteSlice 0 (WriteByteSlice bz @ r) n = Inr (bz, r, n + int (length (WriteByteSlice bz)))"
proof -
  have len: "0 \<le> int (length bz)" "int (length bz) \<le> 2 ^ 31 - 1" using assms by simp_all
  then have "i64 (int (length bz))" by simp
  note v = varint_roundtrip [OF this, of "bz @ r" n]
  have "ReadByteSlice 0 (WriteByteSlice bz @ r) n =
      (if int (length bz) = 0 then Inr ([], bz @ r, n + int (length (WriteVarint (int (length bz)))))
       else ReadFull (nat (int (length bz))) (bz @ r) (n + int (length (WriteVarint (int (length bz))))))"
    unfolding ReadByteSlice_def WriteByteSlice_def append_assoc v using len by simp
  also have "\<dots> = Inr (bz, r, n + int (length (WriteByteSlice bz)))"
    by (cases "bz = []") (simp_all add: WriteByteSlice_def)
  finally show ?thesis .
qed

lemma read_slices_roundtrip:
  "\<forall>bz \<in> set bzz. length bz < 2 ^ 31 \<Longrightarrow>
    read_slices (length bzz) 0 (concat (map WriteByteSlice bzz) @ r) n =
      Inr (bzz, r, n + int (length (concat (map WriteByteSlice bzz))))"
proof (induction bzz arbitrary: n)
  case (Cons bz bzz)
  then have b: "length bz < 2 ^ 31" and bs: "\<forall>bz \<in> set bzz. length bz < 2 ^ 31" by simp_all
  show ?case
    by (simp add: byteslice_roundtrip [OF b] Cons.IH [OF bs])
qed simp

text \<open>Reading after writing is what makes the encodings injective and prefix free.\<close>

lemma WriteVarint_inj:
  "i64 i \<Longrightarrow> i64 j \<Longrightarrow> WriteVarint i @ r = WriteVarint j @ r' \<Longrightarrow> i = j \<and> r = r'"
proof -
  assume a: "i64 i" "i64 j" "WriteVarint i @ r = WriteVarint j @ r'"
  from varint_roundtrip [OF a(1), of r 0] varint_roundtrip [OF a(2), of r' 0]
  show "i = j \<and> r = r'" unfolding a(3) by (simp only: sum.inject prod.inject)
qed

lemma WriteByteSlice_inj:
  "length b < 2 ^ 31 \<Longrightarrow> length c < 2 ^ 31 \<Longrightarrow> WriteByteSlice b @ r = WriteByteSlice c @ r' \<Longrightarrow> b = c \<and> r = r'"
proof -
  assume a: "length b < 2 ^ 31" "length c < 2 ^ 31" "WriteByteSlice b @ r = WriteByteSlice c @ r'"
  from byteslice_roundtrip [OF a(1), of r 0] byteslice_roundtrip [OF a(2), of r' 0]
  show "b = c \<and> r = r'" unfolding a(3) by (simp only: sum.inject prod.inject)
qed

section \<open>Property\<close>

text \<open>C26: Decoding what go-wire encoded gives it back: for every int64 the varint reader returns
  the written value and leaves exactly the bytes that follow, and a written list of byte slices
  (each shorter than 2^31) is read back unchanged.\<close>

theorem wire_roundtrip:
  assumes "i64 i" and "\<forall>bz \<in> set bzz. length bz < 2 ^ 31" and "i64 (int (length bzz))"
  shows "ReadVarint (WriteVarint i @ r) n = Inr (i, r, n + int (length (WriteVarint i))) \<and>
    ReadByteSlices 0 (WriteByteSlices bzz @ r) n = Inr (bzz, r, n + int (length (WriteByteSlices bzz)))"
proof -
  note v = varint_roundtrip [OF assms(3), of "concat (map WriteByteSlice bzz) @ r" n]
  show ?thesis
    using varint_roundtrip [OF assms(1)] read_slices_roundtrip [OF assms(2)]
    by (simp add: ReadByteSlices_def WriteByteSlices_def v)
qed

theorem wire_roundtrip_witness:
  "ReadVarint (WriteVarint (- 70000) @ [7]) 0 = Inr (- 70000, [7], 0 + int (length (WriteVarint (- 70000)))) \<and>
    ReadByteSlices 0 (WriteByteSlices [[1, 2], []] @ [9]) 0 =
      Inr ([[1, 2], []], [9], 0 + int (length (WriteByteSlices [[1, 2], []])))"
proof -
  have "i64 (- 70000)" "\<forall>bz \<in> set ([] :: bytes list). length bz < 2 ^ 31"
      "i64 (int (length ([] :: bytes list)))" by simp_all
  note a = wire_roundtrip [OF this, of "[7]" 0]
  have "i64 0" "\<forall>bz \<in> set [[1, 2], [] :: bytes]. length bz < 2 ^ 31"
      "i64 (int (length [[1, 2], [] :: bytes]))" by simp_all
  note b = wire_roundtrip [OF this, of "[9]" 0]
  show ?thesis using a b by blast
qed

end
