(* ===== verification/Bit_Array.thy ===== *)
theory Bit_Array
  imports Go_Prelude
begin

text \<open>
  \<^verbatim>\<open>tmlibs/common/bit_array.go\<close>: bits packed into 64-bit words, \<open>None\<close> for the nil pointer that
  stands for the empty array. The vote sets and part sets record in such an array which entries
  they hold. The locale \<open>bit_vector\<close> is the contract they rely on.
\<close>

unbundle bit_operations_syntax

section \<open>Operations\<close>

record BitArray =
  ba_Bits :: nat
  ba_Elems :: "64 word list"

definition words_for :: "nat \<Rightarrow> nat" where
  "words_for bits = (bits + 63) div 64"

definition NewBitArray :: "nat \<Rightarrow> BitArray option" where
  "NewBitArray bits =
     (if bits = 0 then None else Some \<lparr>ba_Bits = bits, ba_Elems = replicate (words_for bits) 0\<rparr>)"

definition BA_Size :: "BitArray option \<Rightarrow> nat" where
  "BA_Size bA = (case bA of None \<Rightarrow> 0 | Some b \<Rightarrow> ba_Bits b)"

definition BA_getIndex :: "BitArray \<Rightarrow> nat \<Rightarrow> bool go" where
  "BA_getIndex b i =
     (if i \<ge> ba_Bits b then Ret False
      else go_bind (slice_get (ba_Elems b) (int (i div 64))) (\<lambda>e.
        Ret (e AND push_bit (i mod 64) 1 > 0)))"

definition BA_GetIndex :: "BitArray option \<Rightarrow> nat \<Rightarrow> bool go" where
  "BA_GetIndex bA i = (case bA of None \<Rightarrow> Ret False | Some b \<Rightarrow> BA_getIndex b i)"

definition BA_setIndex :: "BitArray \<Rightarrow> nat \<Rightarrow> bool \<Rightarrow> (BitArray \<times> bool) go" where
  "BA_setIndex b i v =
     (if i \<ge> ba_Bits b then Ret (b, False)
      else go_bind (slice_get (ba_Elems b) (int (i div 64))) (\<lambda>e.
        go_bind (slice_set (ba_Elems b) (int (i div 64))
            (if v then e OR push_bit (i mod 64) 1 else e AND NOT (push_bit (i mod 64) 1))) (\<lambda>es.
          Ret (b\<lparr>ba_Elems := es\<rparr>, True))))"

definition BA_SetIndex :: "BitArray option \<Rightarrow> nat \<Rightarrow> bool \<Rightarrow> (BitArray option \<times> bool) go" where
  "BA_SetIndex bA i v =
     (case bA of None \<Rightarrow> Ret (None, False)
      | Some b \<Rightarrow> go_bind (BA_setIndex b i v) (\<lambda>(b', ok). Ret (Some b', ok)))"

definition BA_Copy :: "BitArray option \<Rightarrow> BitArray option" where
  "BA_Copy bA = (case bA of None \<Rightarrow> None | Some b \<Rightarrow> Some \<lparr>ba_Bits = ba_Bits b, ba_Elems = ba_Elems b\<rparr>)"

definition BA_copyBits :: "BitArray \<Rightarrow> nat \<Rightarrow> BitArray" where
  "BA_copyBits b bits =
     (let k = words_for bits; m = min k (length (ba_Elems b)) in
      \<lparr>ba_Bits = bits, ba_Elems = take m (ba_Elems b) @ replicate (k - m) 0\<rparr>)"

text \<open>\<^verbatim>\<open>for i := 0; i < len(c); i++ { c[i] = f(c[i], o[i]) }\<close>.\<close>

fun words_loop :: "(64 word \<Rightarrow> 64 word \<Rightarrow> 64 word) \<Rightarrow> 64 word list \<Rightarrow> 64 word list \<Rightarrow> 64 word list go" where
  "words_loop f [] os = Ret []"
| "words_loop f (c # cs) [] = Panic ''index out of range''"
| "words_loop f (c # cs) (w # os) = go_bind (words_loop f cs os) (\<lambda>r. Ret (f c w # r))"

text \<open>In \<^verbatim>\<open>Or\<close> the nil case evaluates \<^verbatim>\<open>o.Copy()\<close> without returning it.\<close>

definition BA_Or :: "BitArray option \<Rightarrow> BitArray option \<Rightarrow> BitArray option go" where
  "BA_Or bA oA =
     (case bA of None \<Rightarrow> Panic ''nil pointer dereference''
      | Some b \<Rightarrow> (case oA of None \<Rightarrow> Panic ''nil pointer dereference''
        | Some ob \<Rightarrow>
            (let c = BA_copyBits b (max (ba_Bits b) (ba_Bits ob)) in
             go_bind (words_loop (OR) (ba_Elems c) (ba_Elems ob)) (\<lambda>es. Ret (Some (c\<lparr>ba_Elems := es\<rparr>))))))"

definition BA_and :: "BitArray \<Rightarrow> BitArray option \<Rightarrow> BitArray option go" where
  "BA_and b oA =
     (case oA of None \<Rightarrow> Panic ''nil pointer dereference''
      | Some ob \<Rightarrow>
          (let c = BA_copyBits b (min (ba_Bits b) (ba_Bits ob)) in
           go_bind (words_loop (AND) (ba_Elems c) (ba_Elems ob)) (\<lambda>es. Ret (Some (c\<lparr>ba_Elems := es\<rparr>)))))"

definition BA_And :: "BitArray option \<Rightarrow> BitArray option \<Rightarrow> BitArray option go" where
  "BA_And bA oA = (case bA of None \<Rightarrow> Ret None | Some b \<Rightarrow> BA_and b oA)"

definition BA_Not :: "BitArray option \<Rightarrow> BitArray option" where
  "BA_Not bA = (case bA of None \<Rightarrow> None | Some b \<Rightarrow> Some (b\<lparr>ba_Elems := map (\<lambda>e. NOT e) (ba_Elems b)\<rparr>))"

fun sub_tail :: "BitArray \<Rightarrow> BitArray option \<Rightarrow> nat list \<Rightarrow> BitArray go" where
  "sub_tail c oA [] = Ret c"
| "sub_tail c oA (idx # is) =
     go_bind (BA_getIndex c idx) (\<lambda>x.
       go_bind (if x then BA_GetIndex oA idx else Ret True) (\<lambda>y.
         go_bind (BA_setIndex c idx (x \<and> \<not> y)) (\<lambda>(c', ok). sub_tail c' oA is)))"

text \<open>
  \<^verbatim>\<open>Sub\<close>. For a longer receiver every word below the last of \<open>o\<close> is masked with its own
  complement.
\<close>

definition BA_Sub :: "BitArray option \<Rightarrow> BitArray option \<Rightarrow> BitArray option go" where
  "BA_Sub bA oA =
     (case bA of None \<Rightarrow> Ret None
      | Some b \<Rightarrow> (case oA of None \<Rightarrow> Panic ''nil pointer dereference''
        | Some ob \<Rightarrow>
            if ba_Bits b > ba_Bits ob then
              (let k = length (ba_Elems ob);
                   c = b\<lparr>ba_Elems := map (\<lambda>e. e AND NOT e) (take (k - 1) (ba_Elems b))
                          @ drop (k - 1) (ba_Elems b)\<rparr>
               in if k - 1 > length (ba_Elems b) then Panic ''index out of range''
                  else if k = 0 then Ret (Some c)
                  else go_bind (sub_tail c oA [(k - 1) * 64..<ba_Bits ob]) (\<lambda>c'. Ret (Some c')))
            else BA_and b (BA_Not oA)))"

definition BA_IsEmpty :: "BitArray option \<Rightarrow> bool" where
  "BA_IsEmpty bA = (case bA of None \<Rightarrow> True | Some b \<Rightarrow> \<not> (\<exists>e \<in> set (ba_Elems b). e > 0))"

definition BA_IsFull :: "BitArray option \<Rightarrow> bool go" where
  "BA_IsFull bA =
     (case bA of None \<Rightarrow> Ret True
      | Some b \<Rightarrow>
          if ba_Elems b = [] then Panic ''slice bounds out of range''
          else if \<exists>e \<in> set (butlast (ba_Elems b)). NOT e \<noteq> 0 then Ret False
          else (let lastElemBits = (ba_Bits b + 63) mod 64 + 1 in
                Ret ((last (ba_Elems b) + 1) AND (push_bit lastElemBits 1 - 1) = 0)))"

definition BA_Update :: "BitArray option \<Rightarrow> BitArray option \<Rightarrow> BitArray option go" where
  "BA_Update bA oA =
     (case bA of None \<Rightarrow> Ret None
      | Some b \<Rightarrow> (case oA of None \<Rightarrow> Panic ''nil pointer dereference''
        | Some ob \<Rightarrow>
            (let m = min (length (ba_Elems b)) (length (ba_Elems ob)) in
             Ret (Some (b\<lparr>ba_Elems := take m (ba_Elems ob) @ drop m (ba_Elems b)\<rparr>)))))"

section \<open>Abstraction to bits\<close>

definition ba_wf :: "BitArray option \<Rightarrow> bool" where
  "ba_wf bA = (case bA of None \<Rightarrow> True
     | Some b \<Rightarrow> 0 < ba_Bits b \<and> length (ba_Elems b) = words_for (ba_Bits b))"

definition ba_bit :: "BitArray option \<Rightarrow> nat \<Rightarrow> bool" where
  "ba_bit bA i = (case bA of None \<Rightarrow> False
     | Some b \<Rightarrow> i < ba_Bits b \<and> bit (ba_Elems b ! (i div 64)) (i mod 64))"

lemma words_for_index: "i < n \<Longrightarrow> i div 64 < words_for n"
  by (simp add: words_for_def)

lemma bit_test: "(e AND push_bit k 1 > (0 :: 64 word)) \<longleftrightarrow> bit e k"
  by (simp add: word_gt_0 bit_iff_and_push_bit_not_eq_0)

lemma bit_mask1: "k < 64 \<Longrightarrow> bit (push_bit k 1 :: 64 word) m \<longleftrightarrow> m = k"
  by (auto simp: bit_exp_iff possible_bit_def)

lemma getIndex_eq:
  assumes "ba_wf (Some b)"
  shows "BA_getIndex b i = Ret (ba_bit (Some b) i)"
  using assms words_for_index [of i "ba_Bits b"]
  by (simp add: BA_getIndex_def ba_bit_def ba_wf_def bit_test nat_int del: push_bit_of_1)

lemma setIndex_eq:
  assumes "ba_wf (Some b)" "i < ba_Bits b"
  shows "\<exists>b'. BA_setIndex b i v = Ret (b', True) \<and> ba_wf (Some b') \<and> ba_Bits b' = ba_Bits b \<and>
    (\<forall>k. ba_bit (Some b') k = (if k = i then v else ba_bit (Some b) k))"
proof -
  let ?e = "ba_Elems b ! (i div 64)"
  let ?e' = "if v then ?e OR push_bit (i mod 64) 1 else ?e AND NOT (push_bit (i mod 64) 1)"
  let ?b' = "b\<lparr>ba_Elems := (ba_Elems b)[i div 64 := ?e']\<rparr>"
  have i: "i div 64 < length (ba_Elems b)"
    using assms words_for_index by (simp add: ba_wf_def)
  have e': "bit ?e' m = (if m = i mod 64 then v else bit ?e m)" if "m < 64" for m
    using that by (auto simp: bit_and_iff bit_or_iff bit_not_iff bit_mask1 simp del: push_bit_of_1)
  have "ba_bit (Some ?b') k = (if k = i then v else ba_bit (Some b) k)" for k
  proof (cases "k div 64 = i div 64")
    case True
    have "k = i \<longleftrightarrow> k mod 64 = i mod 64" using True by (metis div_mult_mod_eq)
    with True i e' [of "k mod 64"] assms(2) show ?thesis
      by (auto simp: ba_bit_def)
  next
    case False
    then have "k \<noteq> i" by auto
    with False i show ?thesis by (simp add: ba_bit_def)
  qed
  moreover have "BA_setIndex b i v = Ret (?b', True)"
    using i assms(2) by (simp add: BA_setIndex_def nat_int del: push_bit_of_1)
  ultimately show ?thesis using assms(1) by (auto simp: ba_wf_def)
qed

section \<open>The contract of the clients\<close>

locale bit_vector =
  fixes new :: "nat \<Rightarrow> 'b" and get :: "'b \<Rightarrow> nat \<Rightarrow> bool go" and set :: "'b \<Rightarrow> nat \<Rightarrow> bool \<Rightarrow> ('b \<times> bool) go"
    and size :: "'b \<Rightarrow> nat" and wf :: "'b \<Rightarrow> bool" and holds :: "'b \<Rightarrow> nat \<Rightarrow> bool"
  assumes wf_new: "wf (new n)" and size_new: "size (new n) = n" and new_clear: "\<not> holds (new n) i"
    and get_holds: "wf b \<Longrightarrow> get b i = Ret (holds b i)"
    and set_holds: "wf b \<Longrightarrow> i < size b \<Longrightarrow> \<exists>b'. set b i v = Ret (b', True) \<and> wf b' \<and> size b' = size b \<and>
      (\<forall>k. holds b' k = (if k = i then v else holds b k))"
begin

text \<open>Marking the slot that was just filled keeps the array the record of the filled slots.\<close>

lemma mark_slot:
  assumes "wf b" "size b = length xs" "\<forall>k < length xs. holds b k \<longleftrightarrow> xs ! k \<noteq> None" "i < length xs"
  shows "\<exists>b'. set b i True = Ret (b', True) \<and> wf b' \<and> size b' = length xs \<and>
    (\<forall>k < length xs. holds b' k \<longleftrightarrow> xs[i := Some v] ! k \<noteq> None)"
  using set_holds [OF assms(1), of i True] assms(2-4) by (auto simp: nth_list_update)

lemma set_get:
  assumes "wf b" "i < size b"
  shows "\<exists>b'. set b i v = Ret (b', True) \<and> get b' i = Ret v"
  using set_holds [OF assms, of v] get_holds by metis

end

interpretation bitarr: bit_vector NewBitArray BA_GetIndex BA_SetIndex BA_Size ba_wf ba_bit
proof (unfold_locales, goal_cases)
  case (1 n) show ?case by (simp add: NewBitArray_def ba_wf_def)
next
  case (2 n) show ?case by (simp add: NewBitArray_def BA_Size_def)
next
  case (3 n i) show ?case using words_for_index [of i n]
    by (auto simp: NewBitArray_def ba_bit_def)
next
  case (4 b i) then show ?case
    by (cases b) (simp_all add: BA_GetIndex_def getIndex_eq, simp add: ba_bit_def)
next
  case (5 b i v)
  then obtain a where a: "b = Some a" "i < ba_Bits a" by (cases b) (auto simp: BA_Size_def)
  with 5 setIndex_eq [of a i v] obtain b' where "BA_setIndex a i v = Ret (b', True)"
      "ba_wf (Some b')" "ba_Bits b' = ba_Bits a"
      "\<forall>k. ba_bit (Some b') k = (if k = i then v else ba_bit (Some a) k)"
    by auto
  with a show ?case by (auto simp: BA_SetIndex_def BA_Size_def)
qed

text \<open>Which slots of a slice are filled, as the array records it.\<close>

definition tracks :: "BitArray option \<Rightarrow> 'a option list \<Rightarrow> bool" where
  "tracks bA xs \<longleftrightarrow> ba_wf bA \<and> BA_Size bA = length xs \<and> (\<forall>k < length xs. ba_bit bA k \<longleftrightarrow> xs ! k \<noteq> None)"

lemma tracks_new: "tracks (NewBitArray n) (replicate n None)"
  by (simp add: tracks_def bitarr.wf_new bitarr.size_new bitarr.new_clear)

lemma tracks_set:
  "tracks bA xs \<Longrightarrow> i < length xs \<Longrightarrow>
    \<exists>b'. BA_SetIndex bA i True = Ret (b', True) \<and> tracks b' (xs[i := Some v])"
  using bitarr.mark_slot [of bA xs i v] by (auto simp: tracks_def)

section \<open>Word-wise operations\<close>

lemma words_loop_eq:
  "length cs \<le> length os \<Longrightarrow> words_loop f cs os = Ret (map2 f cs os)"
  by (induction f cs os rule: words_loop.induct) auto

lemma words_loop_short:
  "length os < length cs \<Longrightarrow> words_loop f cs os = Panic ''index out of range''"
  by (induction f cs os rule: words_loop.induct) auto

lemma copyBits_bit:
  assumes "ba_wf (Some b)" "bits \<le> ba_Bits b" "0 < bits"
  shows "ba_wf (Some (BA_copyBits b bits))" and "ba_Bits (BA_copyBits b bits) = bits"
    and "length (ba_Elems (BA_copyBits b bits)) = words_for bits"
    and "i < bits \<Longrightarrow> ba_Elems (BA_copyBits b bits) ! (i div 64) = ba_Elems b ! (i div 64)"
proof -
  have k: "words_for bits \<le> length (ba_Elems b)"
    using assms by (simp add: ba_wf_def words_for_def div_le_mono)
  then show "ba_wf (Some (BA_copyBits b bits))" "ba_Bits (BA_copyBits b bits) = bits"
      "length (ba_Elems (BA_copyBits b bits)) = words_for bits"
    using assms(3) by (simp_all add: BA_copyBits_def Let_def ba_wf_def)
  show "ba_Elems (BA_copyBits b bits) ! (i div 64) = ba_Elems b ! (i div 64)" if "i < bits"
    using k words_for_index [OF that] by (simp add: BA_copyBits_def Let_def min_def)
qed

lemma and_bits:
  assumes "ba_wf (Some b)" "ba_wf (Some ob)"
  shows "\<exists>c. BA_and b (Some ob) = Ret (Some c) \<and> ba_wf (Some c) \<and> ba_Bits c = min (ba_Bits b) (ba_Bits ob) \<and>
    (\<forall>i. ba_bit (Some c) i \<longleftrightarrow> ba_bit (Some b) i \<and> ba_bit (Some ob) i)"
proof -
  let ?n = "min (ba_Bits b) (ba_Bits ob)"
  let ?c = "BA_copyBits b ?n"
  have n: "?n \<le> ba_Bits b" "0 < ?n" "?n \<le> ba_Bits ob" using assms by (auto simp: ba_wf_def)
  note c = copyBits_bit [OF assms(1) n(1,2)]
  have le: "length (ba_Elems ?c) \<le> length (ba_Elems ob)"
    using assms(2) n(3) unfolding c(3) by (simp add: ba_wf_def words_for_def div_le_mono)
  let ?r = "?c\<lparr>ba_Elems := map2 (AND) (ba_Elems ?c) (ba_Elems ob)\<rparr>"
  have "BA_and b (Some ob) = Ret (Some ?r)"
    by (simp add: BA_and_def Let_def words_loop_eq [OF le])
  moreover have "ba_wf (Some ?r)" using c(1) le by (simp add: ba_wf_def)
  moreover have "ba_bit (Some ?r) i \<longleftrightarrow> ba_bit (Some b) i \<and> ba_bit (Some ob) i" for i
  proof (cases "i < ?n")
    case True
    then have "i div 64 < length (ba_Elems ?c)" using words_for_index c(3) by simp
    with True le c(2) c(4) [OF True] show ?thesis by (auto simp: ba_bit_def bit_and_iff)
  next
    case False
    with c(2) show ?thesis by (auto simp: ba_bit_def)
  qed
  ultimately show ?thesis using c(2) by auto
qed

lemma not_bits:
  assumes "ba_wf (Some ob)"
  shows "\<exists>c. BA_Not (Some ob) = Some c \<and> ba_wf (Some c) \<and> ba_Bits c = ba_Bits ob \<and>
    (\<forall>i < ba_Bits ob. ba_bit (Some c) i \<longleftrightarrow> \<not> ba_bit (Some ob) i)"
  using assms words_for_index
  by (auto simp: BA_Not_def ba_wf_def ba_bit_def bit_not_iff)

section \<open>Properties\<close>

text \<open>C27: On well-formed bit arrays And returns the intersection of the two arrays' bits, and Sub
  returns the bits of the receiver that the argument does not have, whenever the receiver is not
  longer than the argument; neither panics.\<close>

theorem bitarray_and_sub_bits:
  assumes "ba_wf (Some b)" "ba_wf (Some ob)" "ba_Bits b \<le> ba_Bits ob"
  shows "\<exists>c d. BA_And (Some b) (Some ob) = Ret (Some c) \<and> BA_Sub (Some b) (Some ob) = Ret (Some d) \<and>
    (\<forall>i. ba_bit (Some c) i \<longleftrightarrow> ba_bit (Some b) i \<and> ba_bit (Some ob) i) \<and>
    (\<forall>i. ba_bit (Some d) i \<longleftrightarrow> ba_bit (Some b) i \<and> \<not> ba_bit (Some ob) i)"
proof -
  obtain c where c: "BA_and b (Some ob) = Ret (Some c)"
      "\<forall>i. ba_bit (Some c) i \<longleftrightarrow> ba_bit (Some b) i \<and> ba_bit (Some ob) i"
    using and_bits [OF assms(1,2)] by blast
  obtain n where n: "BA_Not (Some ob) = Some n" "ba_wf (Some n)" "ba_Bits n = ba_Bits ob"
      "\<forall>i < ba_Bits ob. ba_bit (Some n) i \<longleftrightarrow> \<not> ba_bit (Some ob) i"
    using not_bits [OF assms(2)] by blast
  obtain d where d: "BA_and b (Some n) = Ret (Some d)"
      "\<forall>i. ba_bit (Some d) i \<longleftrightarrow> ba_bit (Some b) i \<and> ba_bit (Some n) i"
    using and_bits [OF assms(1) n(2)] by blast
  have "ba_bit (Some d) i \<longleftrightarrow> ba_bit (Some b) i \<and> \<not> ba_bit (Some ob) i" for i
  proof (cases "i < ba_Bits b")
    case True
    with n(4) d(2) assms(3) show ?thesis by auto
  next
    case False
    with d(2) show ?thesis by (auto simp: ba_bit_def)
  qed
  with c d n(1) assms(3) show ?thesis by (auto simp: BA_And_def BA_Sub_def)
qed

definition ex_bits :: "nat \<Rightarrow> 64 word list \<Rightarrow> BitArray" where
  "ex_bits n es = \<lparr>ba_Bits = n, ba_Elems = es\<rparr>"

theorem bitarray_and_sub_bits_witness:
  "\<exists>c d. BA_And (Some (ex_bits 3 [7])) (Some (ex_bits 4 [5])) = Ret (Some c) \<and>
     BA_Sub (Some (ex_bits 3 [7])) (Some (ex_bits 4 [5])) = Ret (Some d)"
  using bitarray_and_sub_bits [of "ex_bits 3 [7]" "ex_bits 4 [5]"]
  by (auto simp: ex_bits_def ba_wf_def words_for_def)

text \<open>The bit-wise tail of \<^verbatim>\<open>Sub\<close> takes the difference at the indices it visits.\<close>

lemma sub_tail_bits:
  assumes "ba_wf (Some c)" "ba_wf oA" "\<forall>i \<in> set is. i < ba_Bits c"
  shows "\<exists>d. sub_tail c oA is = Ret d \<and> ba_wf (Some d) \<and> ba_Bits d = ba_Bits c \<and>
    (\<forall>k. ba_bit (Some d) k \<longleftrightarrow> ba_bit (Some c) k \<and> \<not> (k \<in> set is \<and> ba_bit oA k))"
  using assms
proof (induction "is" arbitrary: c)
  case (Cons i "is")
  let ?v = "ba_bit (Some c) i \<and> \<not> ba_bit oA i"
  obtain c' where c': "BA_setIndex c i ?v = Ret (c', True)" "ba_wf (Some c')" "ba_Bits c' = ba_Bits c"
      "\<forall>k. ba_bit (Some c') k = (if k = i then ?v else ba_bit (Some c) k)"
    using setIndex_eq [of c i ?v] Cons.prems by auto
  have "sub_tail c oA (i # is) = sub_tail c' oA is"
    using getIndex_eq [OF Cons.prems(1), of i] bitarr.get_holds [OF Cons.prems(2), of i] c'(1) by (cases "ba_bit (Some c) i") simp_all
  then show ?case using Cons.IH [of c'] Cons.prems c' by auto
qed simp

text \<open>C28: What \<^verbatim>\<open>Sub\<close> and \<^verbatim>\<open>Or\<close> do when the receiver is longer than the argument, on well-formed arrays. \<^verbatim>\<open>Sub\<close>
  returns, with the size of the receiver, the bits of the receiver that the argument does not have, but only from the
  last word of the argument on: every bit of the receiver below that word is lost, whether the argument has it or not.
  \<^verbatim>\<open>Or\<close> panics exactly if the receiver has more words than the argument.\<close>

theorem bitarray_longer_receiver:
  assumes "ba_wf (Some b)" "ba_wf (Some ob)" "ba_Bits ob < ba_Bits b"
  shows "(\<exists>d. BA_Sub (Some b) (Some ob) = Ret (Some d) \<and> ba_wf (Some d) \<and> ba_Bits d = ba_Bits b \<and>
      (\<forall>i. ba_bit (Some d) i \<longleftrightarrow> ba_bit (Some b) i \<and> \<not> ba_bit (Some ob) i \<and> (words_for (ba_Bits ob) - 1) * 64 \<le> i)) \<and>
    ((\<exists>p. BA_Or (Some b) (Some ob) = Panic p) \<longleftrightarrow> words_for (ba_Bits ob) < words_for (ba_Bits b))"
proof (intro conjI)
  let ?k = "length (ba_Elems ob)"
  let ?c = "b\<lparr>ba_Elems := map (\<lambda>e. e AND NOT e) (take (?k - 1) (ba_Elems b)) @ drop (?k - 1) (ba_Elems b)\<rparr>"
  have len: "?k = words_for (ba_Bits ob)" "length (ba_Elems b) = words_for (ba_Bits b)" "0 < ba_Bits ob" "0 < ba_Bits b"
    using assms(1,2) by (simp_all add: ba_wf_def)
  have k: "0 < ?k" "?k \<le> length (ba_Elems b)"
    using len assms(3) by (simp_all add: words_for_def div_le_mono)
  have k1: "?k - 1 \<le> length (ba_Elems b)" using k(2) by simp
  have c: "ba_wf (Some ?c)" "ba_Bits ?c = ba_Bits b" using assms(1) k1 by (simp_all add: ba_wf_def min_absorb2)
  have bits: "ba_bit (Some ?c) i \<longleftrightarrow> ba_bit (Some b) i \<and> (?k - 1) * 64 \<le> i" for i
    using words_for_index [of i "ba_Bits b"] k len(2)
    by (auto simp: ba_bit_def nth_append min_def bit_and_iff bit_not_iff less_mult_imp_div_less div_less_iff_less_mult not_le)
  obtain d where d: "sub_tail ?c (Some ob) [(?k - 1) * 64..<ba_Bits ob] = Ret d" "ba_wf (Some d)" "ba_Bits d = ba_Bits ?c"
      "\<forall>i. ba_bit (Some d) i \<longleftrightarrow> ba_bit (Some ?c) i \<and> \<not> (i \<in> set [(?k - 1) * 64..<ba_Bits ob] \<and> ba_bit (Some ob) i)"
    using sub_tail_bits [OF c(1) assms(2), of "[(?k - 1) * 64..<ba_Bits ob]"] assms(3) by auto
  have "BA_Sub (Some b) (Some ob) = Ret (Some d)" using assms(3) k d(1) by (simp add: BA_Sub_def Let_def)
  moreover have "ba_bit (Some d) i \<longleftrightarrow> ba_bit (Some b) i \<and> \<not> ba_bit (Some ob) i \<and> (words_for (ba_Bits ob) - 1) * 64 \<le> i" for i
    using d(4) bits len(1) by (auto simp: ba_bit_def [of "Some ob"])
  ultimately show "\<exists>d. BA_Sub (Some b) (Some ob) = Ret (Some d) \<and> ba_wf (Some d) \<and> ba_Bits d = ba_Bits b \<and>
      (\<forall>i. ba_bit (Some d) i \<longleftrightarrow> ba_bit (Some b) i \<and> \<not> ba_bit (Some ob) i \<and> (words_for (ba_Bits ob) - 1) * 64 \<le> i)"
    using d(2,3) by auto
  have "length (ba_Elems (BA_copyBits b (ba_Bits b))) = words_for (ba_Bits b)" using len by (simp add: BA_copyBits_def Let_def)
  then show "(\<exists>p. BA_Or (Some b) (Some ob) = Panic p) \<longleftrightarrow> words_for (ba_Bits ob) < words_for (ba_Bits b)"
    using words_loop_eq [of "ba_Elems (BA_copyBits b (ba_Bits b))" "ba_Elems ob" "(OR)"]
      words_loop_short [of "ba_Elems ob" "ba_Elems (BA_copyBits b (ba_Bits b))" "(OR)"] assms(3) len(1)
    by (cases "words_for (ba_Bits ob) < words_for (ba_Bits b)") (auto simp: BA_Or_def Let_def max_def)
qed

theorem bitarray_longer_receiver_witness:
  "ba_bit (Some (ex_bits 66 [1, 0])) 0 \<and> \<not> ba_bit (Some (ex_bits 65 [0, 0])) 0 \<and>
   (\<exists>d. BA_Sub (Some (ex_bits 66 [1, 0])) (Some (ex_bits 65 [0, 0])) = Ret (Some d) \<and> \<not> ba_bit (Some d) 0)"
proof -
  obtain d where "BA_Sub (Some (ex_bits 66 [1, 0])) (Some (ex_bits 65 [0, 0])) = Ret (Some d)"
      "\<forall>i. ba_bit (Some d) i \<longleftrightarrow> ba_bit (Some (ex_bits 66 [1, 0])) i \<and> \<not> ba_bit (Some (ex_bits 65 [0, 0])) i \<and>
        (words_for (ba_Bits (ex_bits 65 [0, 0])) - 1) * 64 \<le> i"
    using bitarray_longer_receiver [of "ex_bits 66 [1, 0]" "ex_bits 65 [0, 0]"] by (auto simp: ex_bits_def ba_wf_def words_for_def)
  moreover from this have "\<not> ba_bit (Some d) 0" by (simp add: ex_bits_def words_for_def)
  ultimately show ?thesis by (auto simp: ex_bits_def ba_bit_def)
qed

end
