(* ===== verification/Block_Types.thy ===== *)
theory Block_Types
  imports Wire
begin

text \<open>
  The signed data of consensus: \<^verbatim>\<open>BlockID\<close> and \<^verbatim>\<open>PartSetHeader\<close> (\<^verbatim>\<open>types/block.go\<close>,
  \<^verbatim>\<open>types/part_set.go\<close>), votes and proposals (\<^verbatim>\<open>types/vote.go\<close>, \<^verbatim>\<open>types/proposal.go\<close>), their
  canonical form for signing (\<^verbatim>\<open>types/canonical_json.go\<close>), commits, and duplicate-vote evidence
  (\<^verbatim>\<open>types/evidence.go\<close>). The record \<open>crypto_env\<close> holds what \<^verbatim>\<open>go-crypto\<close> and the JSON writer of
  \<^verbatim>\<open>go-wire\<close> provide. Byte slices that the code only compares with \<^verbatim>\<open>bytes.Equal\<close> or \<^verbatim>\<open>len\<close> are
  lists (nil is the empty list); timestamps count nanoseconds.
\<close>

section \<open>Block identifiers\<close>

record PartSetHeader =
  psh_Total :: int
  psh_Hash :: bytes

record BlockID =
  bid_Hash :: bytes
  bid_PartsHeader :: PartSetHeader

definition PartSetHeader_IsZero :: "PartSetHeader \<Rightarrow> bool" where
  "PartSetHeader_IsZero psh \<longleftrightarrow> psh_Total psh = 0"

definition PartSetHeader_Equals :: "PartSetHeader \<Rightarrow> PartSetHeader \<Rightarrow> bool" where
  "PartSetHeader_Equals psh other \<longleftrightarrow> psh_Total psh = psh_Total other \<and> psh_Hash psh = psh_Hash other"

definition BlockID_IsZero :: "BlockID \<Rightarrow> bool" where
  "BlockID_IsZero b \<longleftrightarrow> length (bid_Hash b) = 0 \<and> PartSetHeader_IsZero (bid_PartsHeader b)"

definition BlockID_Equals :: "BlockID \<Rightarrow> BlockID \<Rightarrow> bool" where
  "BlockID_Equals b other \<longleftrightarrow>
     bid_Hash b = bid_Hash other \<and> PartSetHeader_Equals (bid_PartsHeader b) (bid_PartsHeader other)"

text \<open>\<^verbatim>\<open>wire.BinaryBytes\<close> of a part-set header writes its two fields in order.\<close>

definition PartSetHeader_Binary :: "PartSetHeader \<Rightarrow> bytes" where
  "PartSetHeader_Binary psh = WriteVarint (psh_Total psh) @ WriteByteSlice (psh_Hash psh)"

definition BlockID_Key :: "BlockID \<Rightarrow> bytes" where
  "BlockID_Key b = bid_Hash b @ PartSetHeader_Binary (bid_PartsHeader b)"

definition zero_BlockID :: BlockID where
  "zero_BlockID = \<lparr>bid_Hash = [], bid_PartsHeader = \<lparr>psh_Total = 0, psh_Hash = []\<rparr>\<rparr>"

section \<open>Votes and proposals\<close>

definition VoteTypePrevote :: byte where "VoteTypePrevote = 1"
definition VoteTypePrecommit :: byte where "VoteTypePrecommit = 2"

definition IsVoteTypeValid :: "byte \<Rightarrow> bool" where
  "IsVoteTypeValid t = (t = VoteTypePrevote \<or> t = VoteTypePrecommit)"

record Vote =
  vote_ValidatorAddress :: bytes
  vote_ValidatorIndex :: int
  vote_Height :: int
  vote_Round :: int
  vote_Timestamp :: int
  vote_Type :: byte
  vote_BlockID :: BlockID
  vote_Signature :: signature

record Proposal =
  prop_Height :: int
  prop_Round :: int
  prop_Timestamp :: int
  prop_BlockPartsHeader :: PartSetHeader
  prop_POLRound :: int
  prop_POLBlockID :: BlockID
  prop_Signature :: signature

record Heartbeat =
  hb_ValidatorAddress :: bytes
  hb_ValidatorIndex :: int
  hb_Height :: int
  hb_Round :: int
  hb_Sequence :: int
  hb_Signature :: signature

section \<open>Canonical form and sign bytes\<close>

record CanonicalJSONPartSetHeader =
  cpsh_Hash :: bytes
  cpsh_Total :: int

record CanonicalJSONBlockID =
  cbid_Hash :: bytes
  cbid_PartsHeader :: CanonicalJSONPartSetHeader

record CanonicalJSONVote =
  cv_BlockID :: CanonicalJSONBlockID
  cv_Height :: int
  cv_Round :: int
  cv_Timestamp :: int
  cv_Type :: byte

record CanonicalJSONProposal =
  cp_BlockPartsHeader :: CanonicalJSONPartSetHeader
  cp_Height :: int
  cp_POLBlockID :: CanonicalJSONBlockID
  cp_POLRound :: int
  cp_Round :: int
  cp_Timestamp :: int

record CanonicalJSONHeartbeat =
  ch_Height :: int
  ch_Round :: int
  ch_Sequence :: int
  ch_ValidatorAddress :: bytes
  ch_ValidatorIndex :: int

text \<open>The \<^verbatim>\<open>Once\<close> structs: a canonical message of one chain.\<close>

datatype CanonicalJSONOnce =
  CanonicalJSONOnceVote string CanonicalJSONVote
  | CanonicalJSONOnceProposal string CanonicalJSONProposal
  | CanonicalJSONOnceHeartbeat string CanonicalJSONHeartbeat

text \<open>The format is UTC with milliseconds: the model keeps the millisecond count it prints.\<close>

definition CanonicalTime :: "int \<Rightarrow> int" where
  "CanonicalTime t = t div 1000000"

definition CanonicalPartSetHeader :: "PartSetHeader \<Rightarrow> CanonicalJSONPartSetHeader" where
  "CanonicalPartSetHeader psh = \<lparr>cpsh_Hash = psh_Hash psh, cpsh_Total = psh_Total psh\<rparr>"

definition CanonicalBlockID :: "BlockID \<Rightarrow> CanonicalJSONBlockID" where
  "CanonicalBlockID b =
     \<lparr>cbid_Hash = bid_Hash b, cbid_PartsHeader = CanonicalPartSetHeader (bid_PartsHeader b)\<rparr>"

definition CanonicalVote :: "Vote \<Rightarrow> CanonicalJSONVote" where
  "CanonicalVote vote =
     \<lparr>cv_BlockID = CanonicalBlockID (vote_BlockID vote), cv_Height = vote_Height vote,
      cv_Round = vote_Round vote, cv_Timestamp = CanonicalTime (vote_Timestamp vote),
      cv_Type = vote_Type vote\<rparr>"

definition CanonicalProposal :: "Proposal \<Rightarrow> CanonicalJSONProposal" where
  "CanonicalProposal p =
     \<lparr>cp_BlockPartsHeader = CanonicalPartSetHeader (prop_BlockPartsHeader p),
      cp_Height = prop_Height p, cp_POLBlockID = CanonicalBlockID (prop_POLBlockID p),
      cp_POLRound = prop_POLRound p, cp_Round = prop_Round p,
      cp_Timestamp = CanonicalTime (prop_Timestamp p)\<rparr>"

definition CanonicalHeartbeat :: "Heartbeat \<Rightarrow> CanonicalJSONHeartbeat" where
  "CanonicalHeartbeat h =
     \<lparr>ch_Height = hb_Height h, ch_Round = hb_Round h, ch_Sequence = hb_Sequence h,
      ch_ValidatorAddress = hb_ValidatorAddress h, ch_ValidatorIndex = hb_ValidatorIndex h\<rparr>"

record crypto_env =
  env_Address :: "pub_key \<Rightarrow> bytes"
  env_VerifyBytes :: "pub_key \<Rightarrow> bytes \<Rightarrow> signature \<Rightarrow> bool"
  env_WriteJSON :: "CanonicalJSONOnce \<Rightarrow> bytes"

definition Vote_SignBytes :: "crypto_env \<Rightarrow> string \<Rightarrow> Vote \<Rightarrow> bytes" where
  "Vote_SignBytes env chainID vote = env_WriteJSON env (CanonicalJSONOnceVote chainID (CanonicalVote vote))"

definition Proposal_SignBytes :: "crypto_env \<Rightarrow> string \<Rightarrow> Proposal \<Rightarrow> bytes" where
  "Proposal_SignBytes env chainID p = env_WriteJSON env (CanonicalJSONOnceProposal chainID (CanonicalProposal p))"

definition Heartbeat_SignBytes :: "crypto_env \<Rightarrow> string \<Rightarrow> Heartbeat \<Rightarrow> bytes" where
  "Heartbeat_SignBytes env chainID h = env_WriteJSON env (CanonicalJSONOnceHeartbeat chainID (CanonicalHeartbeat h))"

section \<open>Duplicate-vote evidence and the errors of votes\<close>

record DuplicateVoteEvidence =
  dve_PubKey :: pub_key
  dve_VoteA :: Vote
  dve_VoteB :: Vote

datatype evidence_error =
  ErrHRSMismatch | ErrAddressMismatch | ErrIndexMismatch | ErrSameBlockID | ErrVoteASignature
  | ErrVoteBSignature

definition dve_Verify :: "crypto_env \<Rightarrow> string \<Rightarrow> DuplicateVoteEvidence \<Rightarrow> evidence_error option" where
  "dve_Verify env chainID dve =
     (let a = dve_VoteA dve; b = dve_VoteB dve in
      if vote_Height a \<noteq> vote_Height b \<or> vote_Round a \<noteq> vote_Round b \<or> vote_Type a \<noteq> vote_Type b
      then Some ErrHRSMismatch
      else if vote_ValidatorAddress a \<noteq> vote_ValidatorAddress b then Some ErrAddressMismatch
      else if vote_ValidatorIndex a \<noteq> vote_ValidatorIndex b then Some ErrIndexMismatch
      else if BlockID_Equals (vote_BlockID a) (vote_BlockID b) then Some ErrSameBlockID
      else if \<not> env_VerifyBytes env (dve_PubKey dve) (Vote_SignBytes env chainID a) (vote_Signature a)
      then Some ErrVoteASignature
      else if \<not> env_VerifyBytes env (dve_PubKey dve) (Vote_SignBytes env chainID b) (vote_Signature b)
      then Some ErrVoteBSignature
      else None)"

datatype vote_error =
  ErrVoteUnexpectedStep | ErrVoteInvalidValidatorIndex | ErrVoteInvalidValidatorAddress
  | ErrVoteInvalidSignature | ErrVoteNonDeterministicSignature | ErrVoteNil
  | ErrVoteConflictingVotes DuplicateVoteEvidence

definition Vote_Verify :: "crypto_env \<Rightarrow> string \<Rightarrow> pub_key \<Rightarrow> Vote \<Rightarrow> vote_error option" where
  "Vote_Verify env chainID pubKey vote =
     (if env_Address env pubKey \<noteq> vote_ValidatorAddress vote then Some ErrVoteInvalidValidatorAddress
      else if \<not> env_VerifyBytes env pubKey (Vote_SignBytes env chainID vote) (vote_Signature vote)
      then Some ErrVoteInvalidSignature
      else None)"

section \<open>Commits\<close>

text \<open>
  The unexported fields of \<^verbatim>\<open>Commit\<close> cache functions of the exported ones, which nothing changes
  after construction; the model computes them. \<^verbatim>\<open>FirstPrecommit().Height\<close> dereferences nil when
  every precommit is nil.
\<close>

record Commit =
  com_BlockID :: BlockID
  com_Precommits :: "Vote option list"
  com_NStartBlockNum :: int

definition FirstPrecommit :: "Commit \<Rightarrow> Vote option" where
  "FirstPrecommit commit =
     (case filter (\<lambda>p. p \<noteq> None) (com_Precommits commit) of [] \<Rightarrow> None | p # ps \<Rightarrow> p)"

definition Commit_Height :: "Commit \<Rightarrow> int go" where
  "Commit_Height commit =
     (if length (com_Precommits commit) = 0 then Ret (com_NStartBlockNum commit)
      else case FirstPrecommit commit of None \<Rightarrow> Panic ''nil pointer dereference''
        | Some v \<Rightarrow> Ret (vote_Height v))"

definition Commit_Round :: "Commit \<Rightarrow> int go" where
  "Commit_Round commit =
     (if length (com_Precommits commit) = 0 then Ret 0
      else case FirstPrecommit commit of None \<Rightarrow> Panic ''nil pointer dereference''
        | Some v \<Rightarrow> Ret (vote_Round v))"

datatype commit_error =
  ErrCommitNilBlock | ErrCommitNoPrecommits | ErrCommitWrongSize | ErrCommitHeight | ErrCommitRound
  | ErrCommitType | ErrCommitSignature | ErrCommitPower | ErrCommitOldPower | ErrCommitNewPower

fun validate_precommits :: "int \<Rightarrow> int \<Rightarrow> Vote option list \<Rightarrow> commit_error option" where
  "validate_precommits height round [] = None"
| "validate_precommits height round (None # ps) = validate_precommits height round ps"
| "validate_precommits height round (Some p # ps) =
     (if vote_Type p \<noteq> VoteTypePrecommit then Some ErrCommitType
      else if vote_Height p \<noteq> height then Some ErrCommitHeight
      else if vote_Round p \<noteq> round then Some ErrCommitRound
      else validate_precommits height round ps)"

definition Commit_ValidateBasic :: "Commit \<Rightarrow> commit_error option go" where
  "Commit_ValidateBasic commit =
     (if BlockID_IsZero (com_BlockID commit) then Ret (Some ErrCommitNilBlock)
      else if length (com_Precommits commit) = 0 then Ret (Some ErrCommitNoPrecommits)
      else go_bind (Commit_Height commit) (\<lambda>height. go_bind (Commit_Round commit) (\<lambda>round.
        Ret (validate_precommits height round (com_Precommits commit)))))"

section \<open>Identity of blocks by key\<close>

lemma BlockID_Equals_eq [simp]: "BlockID_Equals a b \<longleftrightarrow> a = b"
  by (auto simp: BlockID_Equals_def PartSetHeader_Equals_def)

lemma PartSetHeader_Equals_eq [simp]: "PartSetHeader_Equals a b \<longleftrightarrow> a = b"
  by (auto simp: PartSetHeader_Equals_def)

definition psh_ok :: "PartSetHeader \<Rightarrow> bool" where
  "psh_ok psh \<longleftrightarrow> i64 (psh_Total psh) \<and> length (psh_Hash psh) < 2 ^ 31"

text \<open>A nil vote, or a block hash of the 20 bytes of RIPEMD-160.\<close>

definition bid_ok :: "BlockID \<Rightarrow> bool" where
  "bid_ok b \<longleftrightarrow> psh_ok (bid_PartsHeader b) \<and> (b = zero_BlockID \<or> length (bid_Hash b) = 20)"

lemma PartSetHeader_Binary_inj:
  assumes "psh_ok p" "psh_ok q" "PartSetHeader_Binary p = PartSetHeader_Binary q"
  shows "p = q"
proof -
  have "WriteVarint (psh_Total p) @ WriteByteSlice (psh_Hash p) =
      WriteVarint (psh_Total q) @ WriteByteSlice (psh_Hash q)"
    using assms(3) by (simp add: PartSetHeader_Binary_def)
  then have t: "psh_Total p = psh_Total q" and w: "WriteByteSlice (psh_Hash p) = WriteByteSlice (psh_Hash q)"
    using WriteVarint_inj assms(1,2) unfolding psh_ok_def by blast+
  from w have "psh_Hash p = psh_Hash q"
    using WriteByteSlice_inj [of "psh_Hash p" "psh_Hash q" "[]" "[]"] assms(1,2) by (simp add: psh_ok_def)
  with t show ?thesis by simp
qed

lemma Key_inj_same_length:
  assumes "psh_ok (bid_PartsHeader a)" "psh_ok (bid_PartsHeader b)"
    and "length (bid_Hash a) = length (bid_Hash b)" "BlockID_Key a = BlockID_Key b"
  shows "a = b"
  using assms PartSetHeader_Binary_inj by (auto simp: BlockID_Key_def)

lemma zero_Key: "BlockID_Key zero_BlockID = [0, 0]"
  by (simp add: BlockID_Key_def zero_BlockID_def PartSetHeader_Binary_def WriteByteSlice_def
      WriteVarint_def to_u64_def uvarintSize_def)

lemma Key_inj:
  assumes "bid_ok a" "bid_ok b" "BlockID_Key a = BlockID_Key b"
  shows "a = b"
proof -
  have len: "20 \<le> length (BlockID_Key c)" if "length (bid_Hash c) = 20" for c
    using that by (simp add: BlockID_Key_def)
  have z: "length (BlockID_Key zero_BlockID) = 2" by (simp add: zero_Key)
  have "length (bid_Hash a) = length (bid_Hash b)"
    using assms len [of a] len [of b] z by (auto simp: bid_ok_def)
  with assms Key_inj_same_length show ?thesis by (auto simp: bid_ok_def)
qed

section \<open>Properties\<close>

text \<open>C29: The key under which votes for a block are collected identifies the block: for block IDs
  that are nil or carry a 20-byte hash (and an encodable parts header), equal keys mean equal
  block IDs.\<close>

theorem BlockID_Key_identifies:
  assumes "bid_ok a" "bid_ok b"
  shows "BlockID_Key a = BlockID_Key b \<longleftrightarrow> BlockID_Equals a b"
  using Key_inj [OF assms] by auto

definition ex_bid :: "byte \<Rightarrow> BlockID" where
  "ex_bid x = \<lparr>bid_Hash = replicate 20 x, bid_PartsHeader = \<lparr>psh_Total = 1, psh_Hash = replicate 20 x\<rparr>\<rparr>"

lemma ex_bid_ok: "bid_ok (ex_bid x)"
  by (simp add: bid_ok_def ex_bid_def psh_ok_def)

theorem BlockID_Key_identifies_witness:
  "BlockID_Key (ex_bid 1) = BlockID_Key (ex_bid 2) \<longleftrightarrow> BlockID_Equals (ex_bid 1) (ex_bid 2)"
  by (rule BlockID_Key_identifies [OF ex_bid_ok ex_bid_ok])

text \<open>Without the restriction keys collide: the hash is written without its length, so the total of the parts
  header can be moved into it.\<close>

lemma BlockID_Key_collision:
  fixes h :: bytes and n :: int
  defines "a \<equiv> \<lparr>bid_Hash = h @ WriteVarint n, bid_PartsHeader = \<lparr>psh_Total = 1, psh_Hash = []\<rparr>\<rparr>"
    and "b \<equiv> \<lparr>bid_Hash = h, bid_PartsHeader = \<lparr>psh_Total = n, psh_Hash = [0]\<rparr>\<rparr>"
  shows "BlockID_Key a = BlockID_Key b" and "\<not> BlockID_Equals a b"
proof -
  have "WriteVarint 0 = [0]" by code_simp
  then show "BlockID_Key a = BlockID_Key b" by (simp add: a_def b_def BlockID_Key_def PartSetHeader_Binary_def WriteByteSlice_def)
  show "\<not> BlockID_Equals a b" by (simp add: a_def b_def BlockID_Equals_def)
qed

end
