(* ===== verification/Vote_Set.thy ===== *)
theory Vote_Set
  imports Validator_Set Bit_Array Block_Types
begin

text \<open>
  \<^verbatim>\<open>types/vote_set.go\<close>: the votes of one height, round and type. \<^verbatim>\<open>votes\<close> holds the canonical
  vote of every validator, \<^verbatim>\<open>votesByBlock\<close> all tracked votes by block key, and \<^verbatim>\<open>maj23\<close> the first
  block that reached more than two thirds. The mutex serialises the operations, so the model is a
  state and one function per operation. The validator set is part of the state because reading its
  total power fills a cache. Signatures are byte strings, and \<^verbatim>\<open>Signature.Equals\<close> is their equality.
\<close>

section \<open>State\<close>

record blockVotes =
  bv_peerMaj23 :: bool
  bv_bitArray :: "BitArray option"
  bv_votes :: "Vote option list"
  bv_sum :: int

record VoteSet =
  vs_chainID :: string
  vs_height :: int
  vs_round :: int
  vs_type :: byte
  vs_valSet :: ValidatorSet
  vs_votesBitArray :: "BitArray option"
  vs_votes :: "Vote option list"
  vs_sum :: int
  vs_maj23 :: "BlockID option"
  vs_votesByBlock :: "bytes \<rightharpoonup> blockVotes"
  vs_peerMaj23s :: "string \<rightharpoonup> BlockID"

definition newBlockVotes :: "bool \<Rightarrow> nat \<Rightarrow> blockVotes" where
  "newBlockVotes peerMaj23 numValidators =
     \<lparr>bv_peerMaj23 = peerMaj23, bv_bitArray = NewBitArray numValidators,
      bv_votes = replicate numValidators None, bv_sum = 0\<rparr>"

definition NewVoteSet :: "string \<Rightarrow> int \<Rightarrow> int \<Rightarrow> byte \<Rightarrow> ValidatorSet \<Rightarrow> VoteSet go" where
  "NewVoteSet chainID height round type valSet =
     (if height = 0 then Panic ''Cannot make VoteSet for height == 0''
      else Ret \<lparr>vs_chainID = chainID, vs_height = height, vs_round = round, vs_type = type,
        vs_valSet = valSet, vs_votesBitArray = NewBitArray (length (Validators valSet)),
        vs_votes = replicate (length (Validators valSet)) None, vs_sum = 0, vs_maj23 = None,
        vs_votesByBlock = Map.empty, vs_peerMaj23s = Map.empty\<rparr>)"

text \<open>The readers of a possibly nil vote set.\<close>

definition VoteSet_Height :: "VoteSet option \<Rightarrow> int" where
  "VoteSet_Height vs = (case vs of None \<Rightarrow> 0 | Some v \<Rightarrow> vs_height v)"

definition VoteSet_Round :: "VoteSet option \<Rightarrow> int" where
  "VoteSet_Round vs = (case vs of None \<Rightarrow> - 1 | Some v \<Rightarrow> vs_round v)"

definition VoteSet_Type :: "VoteSet option \<Rightarrow> byte" where
  "VoteSet_Type vs = (case vs of None \<Rightarrow> 0 | Some v \<Rightarrow> vs_type v)"

definition VoteSet_Size :: "VoteSet option \<Rightarrow> int" where
  "VoteSet_Size vs = (case vs of None \<Rightarrow> 0 | Some v \<Rightarrow> ValidatorSet_Size (vs_valSet v))"

section \<open>Adding votes\<close>

definition blockVotes_addVerifiedVote :: "blockVotes \<Rightarrow> Vote \<Rightarrow> int \<Rightarrow> blockVotes go" where
  "blockVotes_addVerifiedVote bv vote votingPower =
     (let valIndex = vote_ValidatorIndex vote in
      go_bind (slice_get (bv_votes bv) valIndex) (\<lambda>existing.
        if existing = None then
          go_bind (BA_SetIndex (bv_bitArray bv) (nat valIndex) True) (\<lambda>(bits, ok).
            Ret (bv\<lparr>bv_bitArray := bits, bv_votes := (bv_votes bv)[nat valIndex := Some vote],
                    bv_sum := wrap64 (bv_sum bv + votingPower)\<rparr>))
        else Ret bv))"

definition blockVotes_getByIndex :: "blockVotes option \<Rightarrow> int \<Rightarrow> Vote option go" where
  "blockVotes_getByIndex bv index = (case bv of None \<Rightarrow> Ret None | Some b \<Rightarrow> slice_get (bv_votes b) index)"

definition getVote :: "VoteSet \<Rightarrow> int \<Rightarrow> bytes \<Rightarrow> Vote option go" where
  "getVote voteSet valIndex blockKey =
     go_bind (slice_get (vs_votes voteSet) valIndex) (\<lambda>existing.
       case existing of
         Some v \<Rightarrow> if BlockID_Key (vote_BlockID v) = blockKey then Ret (Some v)
           else blockVotes_getByIndex (vs_votesByBlock voteSet blockKey) valIndex
       | None \<Rightarrow> blockVotes_getByIndex (vs_votesByBlock voteSet blockKey) valIndex)"

text \<open>\<^verbatim>\<open>voteSet.votes[i] = vote; voteSet.votesBitArray.SetIndex(i, true)\<close>.\<close>

definition put_vote :: "VoteSet \<Rightarrow> Vote \<Rightarrow> VoteSet go" where
  "put_vote voteSet vote =
     (let i = vote_ValidatorIndex vote in
      go_bind (slice_set (vs_votes voteSet) i (Some vote)) (\<lambda>votes.
        go_bind (BA_SetIndex (vs_votesBitArray voteSet) (nat i) True) (\<lambda>(bits, ok).
          Ret (voteSet\<lparr>vs_votes := votes, vs_votesBitArray := bits\<rparr>))))"

text \<open>The first half of \<^verbatim>\<open>addVerifiedVote\<close>: the canonical votes, and the conflicting vote if any.\<close>

definition add_canonical :: "VoteSet \<Rightarrow> Vote \<Rightarrow> bytes \<Rightarrow> int \<Rightarrow> (VoteSet \<times> Vote option) go" where
  "add_canonical voteSet vote blockKey votingPower =
     go_bind (slice_get (vs_votes voteSet) (vote_ValidatorIndex vote)) (\<lambda>existing.
       case existing of
         Some ex \<Rightarrow>
           if BlockID_Equals (vote_BlockID ex) (vote_BlockID vote)
           then Panic ''addVerifiedVote does not expect duplicate votes''
           else if map_option BlockID_Key (vs_maj23 voteSet) = Some blockKey
           then go_bind (put_vote voteSet vote) (\<lambda>vs. Ret (vs, Some ex))
           else Ret (voteSet, Some ex)
       | None \<Rightarrow>
           go_bind (put_vote voteSet vote) (\<lambda>vs.
             Ret (vs\<lparr>vs_sum := wrap64 (vs_sum vs + votingPower)\<rparr>, None)))"

text \<open>\<^verbatim>\<open>for i, vote := range votesByBlock.votes { if vote != nil { voteSet.votes[i] = vote } }\<close>.\<close>

fun copy_votes :: "Vote option list \<Rightarrow> Vote option list \<Rightarrow> Vote option list go" where
  "copy_votes votes [] = Ret votes"
| "copy_votes [] (None # bvs) = copy_votes [] bvs"
| "copy_votes [] (Some v # bvs) = Panic ''index out of range''"
| "copy_votes (x # votes) (None # bvs) = go_bind (copy_votes votes bvs) (\<lambda>r. Ret (x # r))"
| "copy_votes (x # votes) (Some v # bvs) = go_bind (copy_votes votes bvs) (\<lambda>r. Ret (Some v # r))"

text \<open>The second half: tally the vote under its block and record the first quorum.\<close>

definition tally :: "VoteSet \<Rightarrow> blockVotes \<Rightarrow> Vote \<Rightarrow> bytes \<Rightarrow> int \<Rightarrow> VoteSet go" where
  "tally voteSet votesByBlock vote blockKey votingPower =
     (let origSum = bv_sum votesByBlock;
          (valSet, total) = TotalVotingPower (vs_valSet voteSet);
          quorum = wrap64 (two_thirds total + 1)
      in go_bind (blockVotes_addVerifiedVote votesByBlock vote votingPower) (\<lambda>bv.
        let vs1 = voteSet\<lparr>vs_valSet := valSet,
                          vs_votesByBlock := (vs_votesByBlock voteSet)(blockKey \<mapsto> bv)\<rparr>
        in if origSum < quorum \<and> quorum \<le> bv_sum bv \<and> vs_maj23 vs1 = None then
             go_bind (copy_votes (vs_votes vs1) (bv_votes bv)) (\<lambda>votes.
               Ret (vs1\<lparr>vs_maj23 := Some (vote_BlockID vote), vs_votes := votes\<rparr>))
           else Ret vs1))"

definition addVerifiedVote :: "VoteSet \<Rightarrow> Vote \<Rightarrow> bytes \<Rightarrow> int \<Rightarrow> (VoteSet \<times> bool \<times> Vote option) go" where
  "addVerifiedVote voteSet vote blockKey votingPower =
     go_bind (add_canonical voteSet vote blockKey votingPower) (\<lambda>(vs, conflicting).
       case vs_votesByBlock vs blockKey of
         Some bv \<Rightarrow>
           if conflicting \<noteq> None \<and> \<not> bv_peerMaj23 bv then Ret (vs, False, conflicting)
           else go_bind (tally vs bv vote blockKey votingPower) (\<lambda>vs'. Ret (vs', True, conflicting))
       | None \<Rightarrow>
           if conflicting \<noteq> None then Ret (vs, False, conflicting)
           else go_bind (tally vs (newBlockVotes False (length (Validators (vs_valSet vs)))) vote
                  blockKey votingPower) (\<lambda>vs'. Ret (vs', True, conflicting)))"

definition NewConflictingVoteError :: "Validator \<Rightarrow> Vote \<Rightarrow> Vote \<Rightarrow> vote_error" where
  "NewConflictingVoteError val voteA voteB =
     ErrVoteConflictingVotes \<lparr>dve_PubKey = val_PubKey val, dve_VoteA = voteA, dve_VoteB = voteB\<rparr>"

definition addVote :: "crypto_env \<Rightarrow> VoteSet \<Rightarrow> Vote option \<Rightarrow> (VoteSet \<times> bool \<times> vote_error option) go" where
  "addVote env voteSet mvote =
     (case mvote of None \<Rightarrow> Ret (voteSet, False, Some ErrVoteNil)
      | Some vote \<Rightarrow>
        (let valIndex = vote_ValidatorIndex vote; valAddr = vote_ValidatorAddress vote;
             blockKey = BlockID_Key (vote_BlockID vote) in
         if valIndex < 0 then Ret (voteSet, False, Some ErrVoteInvalidValidatorIndex)
         else if length valAddr = 0 then Ret (voteSet, False, Some ErrVoteInvalidValidatorAddress)
         else if vote_Height vote \<noteq> vs_height voteSet \<or> vote_Round vote \<noteq> vs_round voteSet
           \<or> vote_Type vote \<noteq> vs_type voteSet
         then Ret (voteSet, False, Some ErrVoteUnexpectedStep)
         else case ValidatorSet_GetByIndex (vs_valSet voteSet) valIndex of
           (lookupAddr, None) \<Rightarrow> Ret (voteSet, False, Some ErrVoteInvalidValidatorIndex)
         | (lookupAddr, Some val) \<Rightarrow>
           if valAddr \<noteq> lookupAddr then Ret (voteSet, False, Some ErrVoteInvalidValidatorAddress)
           else go_bind (getVote voteSet valIndex blockKey) (\<lambda>known.
             case known of
               Some existing \<Rightarrow>
                 Ret (voteSet, False, if vote_Signature existing = vote_Signature vote then None
                   else Some ErrVoteNonDeterministicSignature)
             | None \<Rightarrow>
                 (case Vote_Verify env (vs_chainID voteSet) (val_PubKey val) vote of
                    Some err \<Rightarrow> Ret (voteSet, False, Some err)
                  | None \<Rightarrow>
                    go_bind (addVerifiedVote voteSet vote blockKey (val_VotingPower val))
                      (\<lambda>(vs', added, conflicting).
                        case conflicting of
                          Some c \<Rightarrow> Ret (vs', added, Some (NewConflictingVoteError val c vote))
                        | None \<Rightarrow> if \<not> added then Panic ''Expected to add non-conflicting vote''
                            else Ret (vs', added, None))))))"

definition AddVote :: "crypto_env \<Rightarrow> VoteSet option \<Rightarrow> Vote option \<Rightarrow> (VoteSet \<times> bool \<times> vote_error option) go" where
  "AddVote env voteSet vote =
     (case voteSet of None \<Rightarrow> Panic ''AddVote() on nil VoteSet'' | Some vs \<Rightarrow> addVote env vs vote)"

definition SetPeerMaj23 :: "VoteSet option \<Rightarrow> string \<Rightarrow> BlockID \<Rightarrow> VoteSet go" where
  "SetPeerMaj23 voteSet peerID blockID =
     (case voteSet of None \<Rightarrow> Panic ''SetPeerMaj23() on nil VoteSet''
      | Some vs \<Rightarrow>
        (let blockKey = BlockID_Key blockID in
         if vs_peerMaj23s vs peerID \<noteq> None then Ret vs
         else
           (let vs1 = vs\<lparr>vs_peerMaj23s := (vs_peerMaj23s vs)(peerID \<mapsto> blockID)\<rparr> in
            case vs_votesByBlock vs1 blockKey of
              Some bv \<Rightarrow> if bv_peerMaj23 bv then Ret vs1
                else Ret (vs1\<lparr>vs_votesByBlock := (vs_votesByBlock vs1)(blockKey \<mapsto> bv\<lparr>bv_peerMaj23 := True\<rparr>)\<rparr>)
            | None \<Rightarrow> Ret (vs1\<lparr>vs_votesByBlock := (vs_votesByBlock vs1)
                (blockKey \<mapsto> newBlockVotes True (length (Validators (vs_valSet vs1))))\<rparr>))))"

section \<open>Reading the set\<close>

definition VoteSet_BitArray :: "VoteSet option \<Rightarrow> BitArray option" where
  "VoteSet_BitArray vs = (case vs of None \<Rightarrow> None | Some v \<Rightarrow> BA_Copy (vs_votesBitArray v))"

definition BitArrayByBlockID :: "VoteSet option \<Rightarrow> BlockID \<Rightarrow> BitArray option" where
  "BitArrayByBlockID vs blockID =
     (case vs of None \<Rightarrow> None
      | Some v \<Rightarrow> (case vs_votesByBlock v (BlockID_Key blockID) of
          Some bv \<Rightarrow> BA_Copy (bv_bitArray bv) | None \<Rightarrow> None))"

definition VoteSet_GetByIndex :: "VoteSet option \<Rightarrow> int \<Rightarrow> Vote option go" where
  "VoteSet_GetByIndex vs valIndex = (case vs of None \<Rightarrow> Ret None | Some v \<Rightarrow> slice_get (vs_votes v) valIndex)"

definition VoteSet_GetByAddress :: "VoteSet option \<Rightarrow> bytes \<Rightarrow> Vote option go" where
  "VoteSet_GetByAddress vs address =
     (case vs of None \<Rightarrow> Ret None
      | Some v \<Rightarrow> (case ValidatorSet_GetByAddress (vs_valSet v) address of
          (valIndex, None) \<Rightarrow> Panic ''GetByAddress(address) returned nil''
        | (valIndex, Some val) \<Rightarrow> slice_get (vs_votes v) valIndex))"

definition HasTwoThirdsMajority :: "VoteSet option \<Rightarrow> bool" where
  "HasTwoThirdsMajority vs = (case vs of None \<Rightarrow> False | Some v \<Rightarrow> vs_maj23 v \<noteq> None)"

definition IsCommit :: "VoteSet option \<Rightarrow> bool" where
  "IsCommit vs = (case vs of None \<Rightarrow> False
     | Some v \<Rightarrow> if vs_type v \<noteq> VoteTypePrecommit then False else vs_maj23 v \<noteq> None)"

definition HasTwoThirdsAny :: "VoteSet option \<Rightarrow> bool" where
  "HasTwoThirdsAny vs = (case vs of None \<Rightarrow> False
     | Some v \<Rightarrow> vs_sum v > two_thirds (snd (TotalVotingPower (vs_valSet v))))"

definition HasAll :: "VoteSet \<Rightarrow> bool" where
  "HasAll v = (vs_sum v = snd (TotalVotingPower (vs_valSet v)))"

definition TwoThirdsMajority :: "VoteSet option \<Rightarrow> BlockID \<times> bool" where
  "TwoThirdsMajority vs =
     (case vs of None \<Rightarrow> (zero_BlockID, False)
      | Some v \<Rightarrow> (case vs_maj23 v of Some b \<Rightarrow> (b, True) | None \<Rightarrow> (zero_BlockID, False)))"

definition MakeCommit :: "VoteSet \<Rightarrow> Commit go" where
  "MakeCommit v =
     (if vs_type v \<noteq> VoteTypePrecommit then Panic ''Cannot MakeCommit() unless VoteSet.Type is VoteTypePrecommit''
      else case vs_maj23 v of
        None \<Rightarrow> Panic ''Cannot MakeCommit() unless a blockhash has +2/3''
      | Some b \<Rightarrow> Ret \<lparr>com_BlockID = b, com_Precommits = vs_votes v, com_NStartBlockNum = 0\<rparr>)"

section \<open>Votes present in a list\<close>

definition present :: "'a option list \<Rightarrow> nat set" where
  "present xs = {i. i < length xs \<and> xs ! i \<noteq> None}"

lemma present_update: "i < length xs \<Longrightarrow> present (xs[i := Some v]) = insert i (present xs)"
  by (auto simp: present_def nth_list_update)

lemma present_replicate [simp]: "present (replicate n None) = {}"
  by (auto simp: present_def)

lemma present_idxs: "length xs = length (Validators valSet) \<Longrightarrow> present xs \<subseteq> val_idxs valSet"
  by (auto simp: present_def val_idxs_def)

definition overlay :: "'a option list \<Rightarrow> 'a option list \<Rightarrow> 'a option list" where
  "overlay xs ys = map2 (\<lambda>x y. if y = None then x else y) xs ys"

lemma overlay_nth:
  "length ys = length xs \<Longrightarrow> i < length xs \<Longrightarrow> overlay xs ys ! i = (if ys ! i = None then xs ! i else ys ! i)"
  by (simp add: overlay_def)

lemma length_overlay [simp]: "length ys = length xs \<Longrightarrow> length (overlay xs ys) = length xs"
  by (simp add: overlay_def)

lemma copy_votes_eq: "length ys = length xs \<Longrightarrow> copy_votes xs ys = Ret (overlay xs ys)"
  by (induction xs ys rule: copy_votes.induct) (auto simp: overlay_def)

lemma present_overlay: "length ys = length xs \<Longrightarrow> present ys \<subseteq> present xs \<Longrightarrow> present (overlay xs ys) = present xs"
  by (auto simp: present_def overlay_nth split: if_splits)

section \<open>Invariant\<close>

text \<open>A vote that belongs in slot \<open>i\<close>: right step, right validator, valid signature.\<close>

definition vote_ok :: "crypto_env \<Rightarrow> VoteSet \<Rightarrow> nat \<Rightarrow> Vote \<Rightarrow> bool" where
  "vote_ok env vs i v \<longleftrightarrow>
     i < length (Validators (vs_valSet vs)) \<and> vote_ValidatorIndex v = int i \<and>
     vote_Height v = vs_height vs \<and> vote_Round v = vs_round vs \<and> vote_Type v = vs_type vs \<and>
     vote_ValidatorAddress v = val_Address (Validators (vs_valSet vs) ! i) \<and>
     Vote_Verify env (vs_chainID vs) (val_PubKey (Validators (vs_valSet vs) ! i)) v = None"

definition bv_inv :: "crypto_env \<Rightarrow> VoteSet \<Rightarrow> bytes \<Rightarrow> blockVotes \<Rightarrow> bool" where
  "bv_inv env vs k bv \<longleftrightarrow>
     length (bv_votes bv) = length (Validators (vs_valSet vs)) \<and>
     tracks (bv_bitArray bv) (bv_votes bv) \<and>
     bv_sum bv = power_of (vs_valSet vs) (present (bv_votes bv)) \<and>
     (\<forall>i v. i < length (bv_votes bv) \<longrightarrow> bv_votes bv ! i = Some v \<longrightarrow>
        vote_ok env vs i v \<and> BlockID_Key (vote_BlockID v) = k)"

definition over_two_thirds :: "VoteSet \<Rightarrow> int \<Rightarrow> bool" where
  "over_two_thirds vs p \<longleftrightarrow> total_power (vs_valSet vs) * 2 div 3 < p"

definition maj_inv :: "VoteSet \<Rightarrow> bool" where
  "maj_inv vs \<longleftrightarrow>
     (case vs_maj23 vs of
        None \<Rightarrow> \<forall>k bv. vs_votesByBlock vs k = Some bv \<longrightarrow> \<not> over_two_thirds vs (bv_sum bv)
      | Some b \<Rightarrow> \<exists>bv. vs_votesByBlock vs (BlockID_Key b) = Some bv \<and> over_two_thirds vs (bv_sum bv) \<and>
          (\<forall>i v. i < length (vs_votes vs) \<longrightarrow> bv_votes bv ! i = Some v \<longrightarrow> vs_votes vs ! i = Some v))"

text \<open>
  The invariant up to the entries of \<open>votesByBlock\<close> for the keys \<open>K\<close>, which the two halves of
  \<^verbatim>\<open>addVerifiedVote\<close> pass between them.
\<close>

definition inv_upto :: "bytes set \<Rightarrow> crypto_env \<Rightarrow> VoteSet \<Rightarrow> bool" where
  "inv_upto K env vs \<longleftrightarrow>
     valset_inv (vs_valSet vs) \<and> powers_ok (vs_valSet vs) \<and>
     length (vs_votes vs) = length (Validators (vs_valSet vs)) \<and>
     tracks (vs_votesBitArray vs) (vs_votes vs) \<and>
     vs_sum vs = power_of (vs_valSet vs) (present (vs_votes vs)) \<and>
     (\<forall>i v. i < length (vs_votes vs) \<longrightarrow> vs_votes vs ! i = Some v \<longrightarrow>
        vote_ok env vs i v \<and> (vs_votesByBlock vs (BlockID_Key (vote_BlockID v)) \<noteq> None \<or> BlockID_Key (vote_BlockID v) \<in> K)) \<and>
     (\<forall>k bv. vs_votesByBlock vs k = Some bv \<longrightarrow> bv_inv env vs k bv \<and> present (bv_votes bv) \<subseteq> present (vs_votes vs))"

text \<open>As long as there is no majority, every canonical vote is tallied under its block.\<close>

definition linked :: "VoteSet \<Rightarrow> bool" where
  "linked vs \<longleftrightarrow> (vs_maj23 vs = None \<longrightarrow>
     (\<forall>i v. i < length (vs_votes vs) \<longrightarrow> vs_votes vs ! i = Some v \<longrightarrow>
        (\<exists>bv. vs_votesByBlock vs (BlockID_Key (vote_BlockID v)) = Some bv \<and> bv_votes bv ! i = Some v)))"

definition voteset_inv :: "crypto_env \<Rightarrow> VoteSet \<Rightarrow> bool" where
  "voteset_inv env vs \<longleftrightarrow> inv_upto {} env vs \<and> maj_inv vs \<and> linked vs"

lemma inv_uptoD:
  assumes "inv_upto K env vs"
  shows "valset_inv (vs_valSet vs)" "powers_ok (vs_valSet vs)"
    "length (vs_votes vs) = length (Validators (vs_valSet vs))"
    "tracks (vs_votesBitArray vs) (vs_votes vs)"
    "vs_sum vs = power_of (vs_valSet vs) (present (vs_votes vs))"
    "i < length (vs_votes vs) \<Longrightarrow> vs_votes vs ! i = Some v \<Longrightarrow> vote_ok env vs i v"
    "i < length (vs_votes vs) \<Longrightarrow> vs_votes vs ! i = Some v \<Longrightarrow> BlockID_Key (vote_BlockID v) \<notin> K \<Longrightarrow>
      vs_votesByBlock vs (BlockID_Key (vote_BlockID v)) \<noteq> None"
    "vs_votesByBlock vs k = Some bv \<Longrightarrow> bv_inv env vs k bv"
    "vs_votesByBlock vs k = Some bv \<Longrightarrow> present (bv_votes bv) \<subseteq> present (vs_votes vs)"
  using assms unfolding inv_upto_def by blast+

lemma bv_inv_new: "bv_inv env vs k (newBlockVotes p (length (Validators (vs_valSet vs))))"
  by (simp add: bv_inv_def newBlockVotes_def tracks_new power_of_def)

lemma NewVoteSet_inv:
  "valset_inv valSet \<Longrightarrow> powers_ok valSet \<Longrightarrow> NewVoteSet chainID h r t valSet = Ret vs \<Longrightarrow> voteset_inv env vs"
  by (auto simp: NewVoteSet_def voteset_inv_def inv_upto_def maj_inv_def linked_def tracks_new power_of_def
      split: if_splits)

lemma wrap_add_power:
  assumes "powers_ok valSet" "S \<subseteq> val_idxs valSet" "i \<in> val_idxs valSet" "i \<notin> S"
  shows "wrap64 (power_of valSet S + val_VotingPower (Validators valSet ! i)) = power_of valSet (insert i S)"
  using power_of_range [OF assms(1), of "insert i S"] power_of_insert [OF assms(2,4)] assms(2,3) by simp

lemma blockVotes_add:
  assumes "powers_ok (vs_valSet vs)" "bv_inv env vs k bv" "bv_votes bv ! i = None"
    and "vote_ok env vs i vote" "BlockID_Key (vote_BlockID vote) = k"
  shows "\<exists>bv'. blockVotes_addVerifiedVote bv vote (val_VotingPower (Validators (vs_valSet vs) ! i)) = Ret bv' \<and>
    bv_inv env vs k bv' \<and> bv_votes bv' = (bv_votes bv)[i := Some vote]"
proof -
  have i: "vote_ValidatorIndex vote = int i" "i < length (bv_votes bv)" "i \<in> val_idxs (vs_valSet vs)"
    using assms(2,4) by (auto simp: bv_inv_def vote_ok_def val_idxs_def)
  have tr: "tracks (bv_bitArray bv) (bv_votes bv)" using assms(2) by (simp add: bv_inv_def)
  obtain bits where bits: "BA_SetIndex (bv_bitArray bv) i True = Ret (bits, True)"
      "tracks bits ((bv_votes bv)[i := Some vote])"
    using tracks_set [OF tr i(2)] by blast
  have "present (bv_votes bv) \<subseteq> val_idxs (vs_valSet vs)" "i \<notin> present (bv_votes bv)"
    using assms(2,3) present_idxs by (auto simp: bv_inv_def present_def val_idxs_def)
  note pow = wrap_add_power [OF assms(1) this(1) i(3) this(2)]
  show ?thesis
    using assms i bits pow
    by (auto simp: blockVotes_addVerifiedVote_def bv_inv_def present_update nth_list_update)
qed

section \<open>Adding a verified vote\<close>

definition same_set :: "VoteSet \<Rightarrow> VoteSet \<Rightarrow> bool" where
  "same_set vs vs' \<longleftrightarrow>
     vs_chainID vs' = vs_chainID vs \<and> vs_height vs' = vs_height vs \<and> vs_round vs' = vs_round vs \<and>
     vs_type vs' = vs_type vs \<and> Validators (vs_valSet vs') = Validators (vs_valSet vs)"

lemma same_set_refl [simp]: "same_set vs vs"
  by (simp add: same_set_def)

lemma same_set_vote_ok: "same_set vs vs' \<Longrightarrow> vote_ok env vs' i v = vote_ok env vs i v"
  by (simp add: same_set_def vote_ok_def)

lemma same_set_power: "same_set vs vs' \<Longrightarrow> power_of (vs_valSet vs') S = power_of (vs_valSet vs) S"
  by (simp add: same_set_def power_of_def)

lemma same_set_total: "same_set vs vs' \<Longrightarrow> total_power (vs_valSet vs') = total_power (vs_valSet vs)"
  by (simp add: same_set_def total_power_def)

lemma same_set_bv_inv: "same_set vs vs' \<Longrightarrow> bv_inv env vs' k bv = bv_inv env vs k bv"
  unfolding bv_inv_def by (simp add: same_set_vote_ok same_set_power) (simp add: same_set_def)

lemma same_set_over: "same_set vs vs' \<Longrightarrow> over_two_thirds vs' p = over_two_thirds vs p"
  by (simp add: over_two_thirds_def same_set_total)

lemma same_set_maj:
  "same_set vs vs' \<Longrightarrow> vs_votes vs' = vs_votes vs \<Longrightarrow> vs_maj23 vs' = vs_maj23 vs \<Longrightarrow>
    vs_votesByBlock vs' = vs_votesByBlock vs \<Longrightarrow> maj_inv vs' = maj_inv vs"
  unfolding maj_inv_def by (simp only: same_set_over)

lemmas same_set_simps = same_set_vote_ok same_set_power same_set_total same_set_bv_inv same_set_over

lemma put_vote_eq:
  assumes "tracks (vs_votesBitArray vs) (vs_votes vs)" "i < length (vs_votes vs)" "vote_ValidatorIndex vote = int i"
  shows "\<exists>bits. put_vote vs vote = Ret (vs\<lparr>vs_votes := (vs_votes vs)[i := Some vote], vs_votesBitArray := bits\<rparr>) \<and>
    tracks bits ((vs_votes vs)[i := Some vote])"
  using tracks_set [OF assms(1,2), of vote] assms by (auto simp: put_vote_def)

lemma inv_put:
  assumes inv: "inv_upto {} env vs" "maj_inv vs" and ok: "vote_ok env vs i vote" and k: "k = BlockID_Key (vote_BlockID vote)"
    and W: "W = (vs_votes vs)[i := Some vote]" and tr: "tracks bits W"
    and fresh: "\<And>bv. vs_votesByBlock vs k = Some bv \<Longrightarrow> bv_votes bv ! i = None"
    and free: "vs_votes vs ! i = None \<or> map_option BlockID_Key (vs_maj23 vs) = Some k"
  shows "inv_upto {k} env (vs\<lparr>vs_votes := W, vs_votesBitArray := bits, vs_sum := power_of (vs_valSet vs) (present W)\<rparr>)"
    (is "inv_upto _ _ ?vs")
    and "maj_inv (vs\<lparr>vs_votes := W, vs_votesBitArray := bits, vs_sum := power_of (vs_valSet vs) (present W)\<rparr>)"
proof -
  note D = inv_uptoD [OF inv(1)]
  have i: "i < length (vs_votes vs)" using ok D(3) by (simp add: vote_ok_def)
  have pW: "present W = insert i (present (vs_votes vs))" unfolding W by (rule present_update [OF i])
  have same: "same_set vs ?vs" by (simp add: same_set_def)
  show "maj_inv ?vs"
  proof (cases "vs_maj23 vs")
    case None
    then show ?thesis using inv(2) by (simp add: maj_inv_def over_two_thirds_def)
  next
    case (Some b)
    then obtain bv where bv: "vs_votesByBlock vs (BlockID_Key b) = Some bv" "over_two_thirds vs (bv_sum bv)"
        "\<And>j v. j < length (vs_votes vs) \<Longrightarrow> bv_votes bv ! j = Some v \<Longrightarrow> vs_votes vs ! j = Some v"
      using inv(2) by (auto simp: maj_inv_def)
    have "bv_votes bv ! i = None"
    proof (cases "BlockID_Key b = k")
      case True
      then show ?thesis using fresh bv(1) by simp
    next
      case False
      then have "vs_votes vs ! i = None" using free Some by auto
      then show ?thesis using bv(3) [OF i] by (cases "bv_votes bv ! i") auto
    qed
    then have "W ! j = Some v" if "j < length (vs_votes vs)" "bv_votes bv ! j = Some v" for j v
      using that bv(3) [OF that] by (cases "j = i") (auto simp: W)
    then show ?thesis using bv(1,2) Some by (auto simp: maj_inv_def W over_two_thirds_def)
  qed
  have "vote_ok env ?vs j v \<and>
      (vs_votesByBlock vs (BlockID_Key (vote_BlockID v)) \<noteq> None \<or> BlockID_Key (vote_BlockID v) = k)"
    if j: "j < length W" "W ! j = Some v" for j v
  proof (cases "j = i")
    case True
    then have "v = vote" using j(2) i by (simp add: W)
    then show ?thesis using ok k same_set_vote_ok [OF same] True by simp
  next
    case False
    then have "vs_votes vs ! j = Some v" "j < length (vs_votes vs)" using j by (simp_all add: W)
    then show ?thesis using D(6,7) same_set_vote_ok [OF same] by simp
  qed
  moreover have "bv_inv env ?vs k' bv \<and> present (bv_votes bv) \<subseteq> present W"
    if "vs_votesByBlock vs k' = Some bv" for k' bv
    using D(8,9) [OF that] same_set_bv_inv [OF same] pW by auto
  ultimately show "inv_upto {k} env ?vs"
    unfolding inv_upto_def using D(1-3) tr W by simp
qed

lemma add_canonical_inv:
  assumes inv: "inv_upto {} env vs" "maj_inv vs" and ok: "vote_ok env vs i vote" and k: "k = BlockID_Key (vote_BlockID vote)"
    and new: "getVote vs (int i) k = Ret None"
  shows "\<exists>vs1. add_canonical vs vote k (val_VotingPower (Validators (vs_valSet vs) ! i)) = Ret (vs1, vs_votes vs ! i) \<and>
    inv_upto {k} env vs1 \<and> maj_inv vs1 \<and> i \<in> present (vs_votes vs1) \<and> same_set vs vs1 \<and>
    vs_valSet vs1 = vs_valSet vs \<and>
    vs_votesByBlock vs1 = vs_votesByBlock vs \<and> vs_maj23 vs1 = vs_maj23 vs \<and>
    (vs_votes vs ! i = None \<or> map_option BlockID_Key (vs_maj23 vs) = Some k \<longrightarrow> vs_votes vs1 ! i = Some vote) \<and>
    (vs_votes vs1 ! i = vs_votes vs ! i \<or> vs_votes vs1 ! i = Some vote) \<and>
    (vs_maj23 vs = None \<longrightarrow> vs_votes vs1 = (if vs_votes vs ! i = None then (vs_votes vs)[i := Some vote] else vs_votes vs)) \<and>
    (vs_votes vs ! i \<noteq> None \<and> vs_votesByBlock vs k = None \<longrightarrow> vs1 = vs)"
proof -
  note D = inv_uptoD [OF inv(1)]
  have i: "vote_ValidatorIndex vote = int i" "i < length (vs_votes vs)" "i \<in> val_idxs (vs_valSet vs)"
    using ok D(3) by (auto simp: vote_ok_def val_idxs_def)
  have other: "BlockID_Key (vote_BlockID v) \<noteq> k" if "vs_votes vs ! i = Some v" for v
    using new that i(2) by (auto simp: getVote_def)
  have fresh: "bv_votes bv ! i = None" if "vs_votesByBlock vs k = Some bv" for bv
    using new that i(2) D(8) [OF that] D(3)
    by (auto simp: getVote_def blockVotes_getByIndex_def bv_inv_def split: option.splits if_splits)
  obtain bits where put: "put_vote vs vote =
        Ret (vs\<lparr>vs_votes := (vs_votes vs)[i := Some vote], vs_votesBitArray := bits\<rparr>)"
      and tr: "tracks bits ((vs_votes vs)[i := Some vote])"
    using put_vote_eq [OF D(4) i(2,1)] by blast
  note putinv = inv_put [OF inv ok k refl tr fresh]
  have pres: "present ((vs_votes vs)[i := Some vote]) = insert i (present (vs_votes vs))"
    by (rule present_update [OF i(2)])
  show ?thesis
  proof (cases "vs_votes vs ! i")
    case None
    have sub: "present (vs_votes vs) \<subseteq> val_idxs (vs_valSet vs)" "i \<notin> present (vs_votes vs)"
      using present_idxs [OF D(3)] None by (auto simp: present_def)
    show ?thesis
      using put None i putinv wrap_add_power [OF D(2) sub(1) i(3) sub(2)] D(5) pres
      by (simp add: add_canonical_def same_set_def)
  next
    case (Some ex)
    have ne: "\<not> BlockID_Equals (vote_BlockID ex) (vote_BlockID vote)" using other [OF Some] k by auto
    have sum: "power_of (vs_valSet vs) (present ((vs_votes vs)[i := Some vote])) = vs_sum vs"
      using pres D(5) Some i(2) by (simp add: present_def insert_absorb)
    show ?thesis
    proof (cases "map_option BlockID_Key (vs_maj23 vs) = Some k")
      case True
      have tracked: "vs_votesByBlock vs k \<noteq> None"
        using True inv(2) by (auto simp: maj_inv_def)
      have "inv_upto {k} env (vs\<lparr>vs_votes := (vs_votes vs)[i := Some vote], vs_votesBitArray := bits\<rparr>)"
          "maj_inv (vs\<lparr>vs_votes := (vs_votes vs)[i := Some vote], vs_votesBitArray := bits\<rparr>)"
        using putinv True sum by simp_all
      then show ?thesis using put Some i ne True tracked pres
        by (auto simp: add_canonical_def same_set_def)
    next
      case False
      have "inv_upto {k} env vs" using inv(1) unfolding inv_upto_def by blast
      then show ?thesis using Some i ne False inv(2) by (auto simp: add_canonical_def present_def)
    qed
  qed
qed

lemma quorum_eq:
  assumes "valset_inv valSet" "powers_ok valSet"
  shows "wrap64 (two_thirds (snd (TotalVotingPower valSet)) + 1) = total_power valSet * 2 div 3 + 1"
proof -
  have T: "snd (TotalVotingPower valSet) = total_power valSet"
    using TotalVotingPower_eq(1) assms by (simp add: valset_inv_def)
  have "0 \<le> total_power valSet" "total_power valSet < 2 ^ 62"
    using total_power_nonneg [OF assms(2)] assms(2) by (simp_all add: powers_ok_def)
  then have "0 \<le> total_power valSet * 2 div 3" "total_power valSet * 2 div 3 < 2 ^ 62" by auto
  then show ?thesis unfolding T powers_ok_two_thirds [OF assms(2)] by (intro wrap64_id) auto
qed

lemma TotalVotingPower_inv:
  assumes "valset_inv valSet" "powers_ok valSet"
  shows "valset_inv (fst (TotalVotingPower valSet))" "powers_ok (fst (TotalVotingPower valSet))"
  using TotalVotingPower_eq [of valSet] assms
  by (simp_all add: valset_inv_def powers_ok_def addr_sorted_def total_power_def)

text \<open>A change of the tallies and of cached values only.\<close>

lemma inv_frame:
  assumes inv: "inv_upto K env vs" and same: "same_set vs vs'"
    and vals: "valset_inv (vs_valSet vs')" "powers_ok (vs_valSet vs')"
    and votes: "vs_votes vs' = vs_votes vs" "vs_votesBitArray vs' = vs_votesBitArray vs" "vs_sum vs' = vs_sum vs"
    and keys: "\<And>k. vs_votesByBlock vs k \<noteq> None \<or> k \<in> K \<Longrightarrow> vs_votesByBlock vs' k \<noteq> None"
    and entries: "\<And>k bv. vs_votesByBlock vs' k = Some bv \<Longrightarrow> bv_inv env vs k bv \<and> present (bv_votes bv) \<subseteq> present (vs_votes vs)"
  shows "inv_upto {} env vs'"
proof -
  note D = inv_uptoD [OF inv]
  have len: "length (Validators (vs_valSet vs')) = length (Validators (vs_valSet vs))"
    using same by (simp add: same_set_def)
  have "vote_ok env vs' i v \<and> vs_votesByBlock vs' (BlockID_Key (vote_BlockID v)) \<noteq> None"
    if "i < length (vs_votes vs)" "vs_votes vs ! i = Some v" for i v
    using D(6,7) [OF that] same_set_vote_ok [OF same] keys [of "BlockID_Key (vote_BlockID v)"] by blast
  then show ?thesis
    unfolding inv_upto_def using D(3,4,5) vals votes entries len same_set_power [OF same] same_set_bv_inv [OF same]
    by simp
qed

text \<open>Recording the tally of one key.\<close>

lemma inv_entry:
  assumes inv: "inv_upto {k} env vs" and bv: "bv_inv env vs k bv" "present (bv_votes bv) \<subseteq> present (vs_votes vs)"
  shows "inv_upto {} env (vs\<lparr>vs_valSet := fst (TotalVotingPower (vs_valSet vs)),
    vs_votesByBlock := (vs_votesByBlock vs)(k \<mapsto> bv)\<rparr>)" (is "inv_upto _ _ ?vs")
    and "same_set vs (vs\<lparr>vs_valSet := fst (TotalVotingPower (vs_valSet vs)),
    vs_votesByBlock := (vs_votesByBlock vs)(k \<mapsto> bv)\<rparr>)"
proof -
  note D = inv_uptoD [OF inv]
  show same: "same_set vs ?vs"
    using TotalVotingPower_eq(2) D(1) by (simp add: same_set_def valset_inv_def)
  show "inv_upto {} env ?vs"
    by (rule inv_frame [OF inv same])
      (use D(8,9) bv TotalVotingPower_inv [OF D(1,2)] in \<open>auto split: if_splits\<close>)
qed

text \<open>Copying the votes of the winning block over the canonical ones.\<close>

lemma tracks_cong: "tracks bA xs \<Longrightarrow> length ys = length xs \<Longrightarrow> present ys = present xs \<Longrightarrow> tracks bA ys"
  unfolding tracks_def present_def by (auto simp: set_eq_iff)

lemma inv_copy:
  assumes inv: "inv_upto {} env vs" and bv: "vs_votesByBlock vs k = Some bv"
  shows "inv_upto {} env (vs\<lparr>vs_maj23 := m, vs_votes := overlay (vs_votes vs) (bv_votes bv)\<rparr>)"
    (is "inv_upto _ _ ?vs")
proof -
  note D = inv_uptoD [OF inv]
  let ?W = "overlay (vs_votes vs) (bv_votes bv)"
  have B: "length (bv_votes bv) = length (vs_votes vs)" "present (bv_votes bv) \<subseteq> present (vs_votes vs)"
    using D(8,9) [OF bv] D(3) by (simp_all add: bv_inv_def)
  have len: "length ?W = length (vs_votes vs)" and pres: "present ?W = present (vs_votes vs)"
    using B present_overlay by auto
  have same: "same_set vs ?vs" by (simp add: same_set_def)
  have "vote_ok env vs i v \<and> vs_votesByBlock vs (BlockID_Key (vote_BlockID v)) \<noteq> None"
    if "i < length ?W" "?W ! i = Some v" for i v
  proof (cases "bv_votes bv ! i = None")
    case True
    then show ?thesis using that D(6,7) B(1) len by (simp add: overlay_nth)
  next
    case False
    then have "bv_votes bv ! i = Some v" "i < length (bv_votes bv)"
      using that B(1) len by (auto simp: overlay_nth)
    then show ?thesis using D(8) [OF bv] bv by (auto simp: bv_inv_def)
  qed
  then show ?thesis
    unfolding inv_upto_def
    using D(1-5,8,9) tracks_cong [OF D(4) len pres] len pres same_set_simps [OF same] by simp
qed

text \<open>The tally of a key without a new quorum.\<close>

lemma maj_entry:
  assumes maj: "maj_inv vs"
    and grows: "bv_sum bv \<le> bv_sum bv'" "bv_votes bv' = (bv_votes bv)[i := Some vote]" "i < length (bv_votes bv)"
    and entry: "vs_votesByBlock vs k = Some bv \<or> vs_votesByBlock vs k = None \<and> \<not> over_two_thirds vs (bv_sum bv)"
    and put: "map_option BlockID_Key (vs_maj23 vs) = Some k \<Longrightarrow> vs_votes vs ! i = Some vote"
    and no: "vs_maj23 vs = None \<Longrightarrow> \<not> over_two_thirds vs (bv_sum bv) \<Longrightarrow> \<not> over_two_thirds vs (bv_sum bv')"
  shows "maj_inv (vs\<lparr>vs_votesByBlock := (vs_votesByBlock vs)(k \<mapsto> bv')\<rparr>)" (is "maj_inv ?vs")
proof (cases "vs_maj23 vs")
  case None
  then have "\<not> over_two_thirds vs (bv_sum b)" if "vs_votesByBlock vs k' = Some b" for k' b
    using maj that by (simp add: maj_inv_def)
  with entry no [OF None] None show ?thesis by (auto simp: maj_inv_def over_two_thirds_def)
next
  case (Some b)
  then obtain bw where bw: "vs_votesByBlock vs (BlockID_Key b) = Some bw" "over_two_thirds vs (bv_sum bw)"
      "\<And>j v. j < length (vs_votes vs) \<Longrightarrow> bv_votes bw ! j = Some v \<Longrightarrow> vs_votes vs ! j = Some v"
    using maj by (auto simp: maj_inv_def)
  show ?thesis
  proof (cases "BlockID_Key b = k")
    case True
    then have "bw = bv" using entry bw(1) by auto
    moreover have "vs_votes vs ! i = Some vote" using put Some True by simp
    ultimately have "vs_votes vs ! j = Some v" if "j < length (vs_votes vs)" "bv_votes bv' ! j = Some v" for j v
      using that bw(3) grows(2,3) by (cases "j = i") auto
    with True Some grows(1) bw(2) \<open>bw = bv\<close> show ?thesis by (simp add: maj_inv_def over_two_thirds_def)
  next
    case False
    then show ?thesis using Some bw by (auto simp: maj_inv_def over_two_thirds_def)
  qed
qed

lemma tally_inv:
  assumes inv: "inv_upto {k} env vs" "maj_inv vs" and ok: "vote_ok env vs i vote"
    and k: "k = BlockID_Key (vote_BlockID vote)"
    and bv: "bv_inv env vs k bv" "present (bv_votes bv) \<subseteq> present (vs_votes vs)" "bv_votes bv ! i = None"
    and entry: "vs_votesByBlock vs k = Some bv \<or> vs_votesByBlock vs k = None \<and> bv_sum bv = 0"
    and put: "i \<in> present (vs_votes vs)" "map_option BlockID_Key (vs_maj23 vs) = Some k \<longrightarrow> vs_votes vs ! i = Some vote"
  shows "\<exists>vs' bv'. tally vs bv vote k (val_VotingPower (Validators (vs_valSet vs) ! i)) = Ret vs' \<and>
    inv_upto {} env vs' \<and> maj_inv vs' \<and> same_set vs vs' \<and>
    (vs_maj23 vs \<noteq> None \<longrightarrow> vs_maj23 vs' = vs_maj23 vs) \<and>
    vs_votesByBlock vs' = (vs_votesByBlock vs)(k \<mapsto> bv') \<and> bv_votes bv' = (bv_votes bv)[i := Some vote] \<and>
    (vs_maj23 vs' = None \<longrightarrow> vs_maj23 vs = None \<and> vs_votes vs' = vs_votes vs) \<and>
    (vs_votes vs' ! i = vs_votes vs ! i \<or> vs_votes vs' ! i = Some vote)"
proof -
  note D = inv_uptoD [OF inv(1)]
  let ?T = "total_power (vs_valSet vs) * 2 div 3"
  obtain bv' where add: "blockVotes_addVerifiedVote bv vote (val_VotingPower (Validators (vs_valSet vs) ! i)) = Ret bv'"
      and bv': "bv_inv env vs k bv'" "bv_votes bv' = (bv_votes bv)[i := Some vote]"
    using blockVotes_add [OF D(2) bv(1,3) ok k [symmetric]] by blast
  have i: "i < length (bv_votes bv)" "length (bv_votes bv) = length (vs_votes vs)"
    using ok bv(1) D(3) by (auto simp: vote_ok_def bv_inv_def)
  have sub: "present (bv_votes bv') \<subseteq> present (vs_votes vs)"
    using bv(2) put(1) present_update [OF i(1)] bv'(2) by simp
  let ?vs1 = "vs\<lparr>vs_valSet := fst (TotalVotingPower (vs_valSet vs)),
    vs_votesByBlock := (vs_votesByBlock vs)(k \<mapsto> bv')\<rparr>"
  note vs1 = inv_entry [OF inv(1) bv'(1) sub]
  note over = same_set_over [OF vs1(2)]
  have v: "bv_votes bv' ! i = Some vote" using bv'(2) i(1) by simp
  have "present (bv_votes bv') \<subseteq> val_idxs (vs_valSet vs)"
    using bv'(1) by (intro present_idxs) (simp add: bv_inv_def)
  then have grows: "bv_sum bv \<le> bv_sum bv'"
    using vquorum.weight_mono [OF D(2), of "present (bv_votes bv)" "present (bv_votes bv')"]
      bv(1) bv' present_update [OF i(1), of vote] by (simp add: bv_inv_def subset_insertI)
  show ?thesis
  proof (cases "bv_sum bv < ?T + 1 \<and> ?T + 1 \<le> bv_sum bv' \<and> vs_maj23 vs = None")
    case True
    let ?vs2 = "?vs1\<lparr>vs_maj23 := Some (vote_BlockID vote), vs_votes := overlay (vs_votes vs) (bv_votes bv')\<rparr>"
    have eq: "tally vs bv vote k (val_VotingPower (Validators (vs_valSet vs) ! i)) = Ret ?vs2"
      using True add quorum_eq [OF D(1,2)] copy_votes_eq [of "bv_votes bv'" "vs_votes vs"] bv'(2) i(2)
      by (simp add: tally_def Let_def case_prod_unfold)
    have inv2: "inv_upto {} env ?vs2" using inv_copy [OF vs1(1), of k bv'] by simp
    have "maj_inv ?vs2"
      using True over k bv'(2) i by (simp add: maj_inv_def over_two_thirds_def overlay_nth same_set_total [OF vs1(2), simplified])
    moreover have "vs_votes ?vs2 ! i = Some vote" using v bv'(2) i by (simp add: overlay_nth)
    ultimately show ?thesis using eq inv2 vs1(2) True bv'(2) by (auto simp: same_set_def)
  next
    case False
    have eq: "tally vs bv vote k (val_VotingPower (Validators (vs_valSet vs) ! i)) = Ret ?vs1"
      using False add quorum_eq [OF D(1,2)] by (auto simp: tally_def Let_def case_prod_unfold)
    have T0: "0 \<le> ?T" using total_power_nonneg [OF D(2)] by simp
    have "maj_inv (vs\<lparr>vs_votesByBlock := (vs_votesByBlock vs)(k \<mapsto> bv')\<rparr>)"
      using entry put(2) False T0
      by (intro maj_entry [OF inv(2) grows bv'(2) i(1)]) (auto simp: over_two_thirds_def)
    moreover have "same_set (vs\<lparr>vs_votesByBlock := (vs_votesByBlock vs)(k \<mapsto> bv')\<rparr>) ?vs1"
      using vs1(2) by (simp add: same_set_def)
    ultimately have "maj_inv ?vs1" using same_set_maj by fastforce
    with eq vs1 bv'(2) show ?thesis by auto
  qed
qed

lemma inv_upto_tracked:
  assumes "inv_upto {k} env vs" "vs_votesByBlock vs k \<noteq> None"
  shows "inv_upto {} env vs"
proof -
  note D = inv_uptoD [OF assms(1)]
  have "vs_votesByBlock vs (BlockID_Key (vote_BlockID v)) \<noteq> None"
    if "i < length (vs_votes vs)" "vs_votes vs ! i = Some v" for i v
    using D(7) [OF that] assms(2) by (cases "BlockID_Key (vote_BlockID v) = k") auto
  then show ?thesis unfolding inv_upto_def using D(1-6,8,9) by blast
qed

lemma getVote_None:
  assumes "inv_upto {} env vs" "i < length (vs_votes vs)" "getVote vs (int i) k = Ret None"
  shows "vs_votes vs ! i = Some v \<Longrightarrow> BlockID_Key (vote_BlockID v) \<noteq> k"
    and "vs_votesByBlock vs k = Some bv \<Longrightarrow> bv_votes bv ! i = None"
proof -
  show "vs_votes vs ! i = Some v \<Longrightarrow> BlockID_Key (vote_BlockID v) \<noteq> k"
    using assms(2,3) by (auto simp: getVote_def)
  assume bv: "vs_votesByBlock vs k = Some bv"
  have "length (bv_votes bv) = length (vs_votes vs)"
    using inv_uptoD(3) [OF assms(1)] inv_uptoD(8) [OF assms(1) bv] by (simp add: bv_inv_def)
  then show "bv_votes bv ! i = None"
    using assms(2,3) bv
    by (simp add: getVote_def blockVotes_getByIndex_def split: option.splits if_splits)
qed

lemma linked_tally:
  assumes link: "linked vs" and key: "k = BlockID_Key (vote_BlockID vote)"
    and W: "vs_maj23 vs = None \<longrightarrow> W = (if vs_votes vs ! i = None then (vs_votes vs)[i := Some vote] else vs_votes vs)"
    and bv: "vs_votesByBlock vs k = Some bv \<or> vs_votesByBlock vs k = None"
    and vs': "vs_votesByBlock vs' = (vs_votesByBlock vs)(k \<mapsto> bv')" "bv_votes bv' = (bv_votes bv)[i := Some vote]"
      "vs_maj23 vs' = None \<longrightarrow> vs_maj23 vs = None \<and> vs_votes vs' = W" "i < length (bv_votes bv)"
      "\<And>v. vs_votes vs ! i = Some v \<Longrightarrow> BlockID_Key (vote_BlockID v) \<noteq> k"
  shows "linked vs'"
  unfolding linked_def
proof (intro impI allI)
  fix j v assume n: "vs_maj23 vs' = None" and j: "j < length (vs_votes vs')" "vs_votes vs' ! j = Some v"
  let ?key = "BlockID_Key (vote_BlockID v)"
  show "\<exists>bv. vs_votesByBlock vs' ?key = Some bv \<and> bv_votes bv ! j = Some v"
  proof (cases "j = i \<and> vs_votes vs ! i = None")
    case True
    then have "v = vote" using j W vs'(3) n by auto
    then show ?thesis using vs' key True by simp
  next
    case False
    then have old: "j < length (vs_votes vs)" "vs_votes vs ! j = Some v"
      using j W vs'(3) n by (auto split: if_splits)
    then obtain b where b: "vs_votesByBlock vs ?key = Some b" "bv_votes b ! j = Some v"
      using link vs'(3) n by (auto simp: linked_def)
    show ?thesis
    proof (cases "?key = k")
      case True
      then have "b = bv" using b(1) bv by auto
      moreover have "j \<noteq> i" using vs'(5) old(2) True by auto
      ultimately show ?thesis using vs'(1,2) b(2) True by simp
    qed (use b vs'(1) in simp)
  qed
qed

text \<open>What a step of the set guarantees.\<close>

definition advances :: "crypto_env \<Rightarrow> VoteSet \<Rightarrow> VoteSet \<Rightarrow> bool" where
  "advances env vs vs' \<longleftrightarrow> voteset_inv env vs' \<and> same_set vs vs' \<and> (vs_maj23 vs \<noteq> None \<longrightarrow> vs_maj23 vs' = vs_maj23 vs)"

lemma advances_refl: "voteset_inv env vs \<Longrightarrow> advances env vs vs"
  by (simp add: advances_def)

lemma tally_step:
  assumes inv: "voteset_inv env vs" and ok: "vote_ok env vs i vote" and k: "k = BlockID_Key (vote_BlockID vote)"
    and new: "getVote vs (int i) k = Ret None"
    and can: "add_canonical vs vote k (val_VotingPower (Validators (vs_valSet vs) ! i)) = Ret (vs1, vs_votes vs ! i)"
    and bv: "bv_inv env vs1 k bv" "present (bv_votes bv) \<subseteq> present (vs_votes vs1)" "bv_votes bv ! i = None"
      "vs_votesByBlock vs1 k = Some bv \<or> vs_votesByBlock vs1 k = None \<and> bv_sum bv = 0"
  shows "\<exists>vs'. tally vs1 bv vote k (val_VotingPower (Validators (vs_valSet vs) ! i)) = Ret vs' \<and>
    advances env vs vs' \<and> getVote vs' (int i) k = Ret (Some vote)"
proof -
  have inv': "inv_upto {} env vs" "maj_inv vs" "linked vs" using inv by (simp_all add: voteset_inv_def)
  have i: "i < length (vs_votes vs)" using ok inv_uptoD(3) [OF inv'(1)] by (simp add: vote_ok_def)
  note none = getVote_None [OF inv'(1) i new]
  have inv1: "inv_upto {k} env vs1" "maj_inv vs1" and p1: "i \<in> present (vs_votes vs1)" and same: "same_set vs vs1"
    and fr: "vs_valSet vs1 = vs_valSet vs" "vs_votesByBlock vs1 = vs_votesByBlock vs" "vs_maj23 vs1 = vs_maj23 vs"
    and put: "vs_votes vs ! i = None \<or> map_option BlockID_Key (vs_maj23 vs) = Some k \<longrightarrow> vs_votes vs1 ! i = Some vote"
    and slot: "vs_votes vs1 ! i = vs_votes vs ! i \<or> vs_votes vs1 ! i = Some vote"
    and W: "vs_maj23 vs = None \<longrightarrow> vs_votes vs1 = (if vs_votes vs ! i = None then (vs_votes vs)[i := Some vote] else vs_votes vs)"
    using add_canonical_inv [OF inv'(1,2) ok k new] unfolding can by auto
  have ok1: "vote_ok env vs1 i vote" using ok same_set_vote_ok [OF same] by simp
  have pm: "map_option BlockID_Key (vs_maj23 vs1) = Some k \<longrightarrow> vs_votes vs1 ! i = Some vote"
    using put fr(3) by simp
  obtain vs' bv' where t: "tally vs1 bv vote k (val_VotingPower (Validators (vs_valSet vs) ! i)) = Ret vs'"
      "inv_upto {} env vs'" "maj_inv vs'" "same_set vs1 vs'" "vs_maj23 vs1 \<noteq> None \<longrightarrow> vs_maj23 vs' = vs_maj23 vs1"
      "vs_votesByBlock vs' = (vs_votesByBlock vs1)(k \<mapsto> bv')" "bv_votes bv' = (bv_votes bv)[i := Some vote]"
      "vs_maj23 vs' = None \<longrightarrow> vs_maj23 vs1 = None \<and> vs_votes vs' = vs_votes vs1"
      "vs_votes vs' ! i = vs_votes vs1 ! i \<or> vs_votes vs' ! i = Some vote"
    using tally_inv [OF inv1 ok1 k bv p1 pm, unfolded fr(1)] by (elim exE conjE)
  have len: "i < length (vs_votes vs')" "i < length (bv_votes bv)"
    using inv_uptoD(3) [OF t(2)] t(4) ok1 bv(1) by (simp_all add: bv_inv_def vote_ok_def same_set_def)
  have "linked vs'"
  proof (rule linked_tally [OF inv'(3) k W])
    show "vs_votesByBlock vs k = Some bv \<or> vs_votesByBlock vs k = None" using bv(4) fr(2) by auto
    show "vs_votesByBlock vs' = (vs_votesByBlock vs)(k \<mapsto> bv')" using t(6) fr(2) by simp
    show "vs_maj23 vs' = None \<longrightarrow> vs_maj23 vs = None \<and> vs_votes vs' = vs_votes vs1" using t(8) fr(3) by simp
  qed (use t(7) len none(1) in auto)
  then have "advances env vs vs'"
    using t(2-5) same fr(3) by (simp add: advances_def voteset_inv_def same_set_def)
  moreover have "getVote vs' (int i) k = Ret (Some vote)"
  proof (cases "vs_votes vs' ! i = Some vote")
    case True
    then show ?thesis using len(1) k by (simp add: getVote_def)
  next
    case False
    then have "vs_votes vs' ! i = vs_votes vs ! i" using slot t(9) by auto
    then show ?thesis using len t(6,7) none(1)
      by (cases "vs_votes vs ! i") (simp_all add: getVote_def blockVotes_getByIndex_def)
  qed
  ultimately show ?thesis using t(1) by blast
qed

lemma addVerifiedVote_inv:
  assumes inv: "voteset_inv env vs" and ok: "vote_ok env vs i vote" and k: "k = BlockID_Key (vote_BlockID vote)"
    and new: "getVote vs (int i) k = Ret None"
  shows "\<exists>vs' added. addVerifiedVote vs vote k (val_VotingPower (Validators (vs_valSet vs) ! i)) = Ret (vs', added, vs_votes vs ! i) \<and>
    advances env vs vs' \<and> (vs_votes vs ! i = None \<longrightarrow> added) \<and> (added \<longrightarrow> getVote vs' (int i) k = Ret (Some vote))"
proof -
  let ?p = "val_VotingPower (Validators (vs_valSet vs) ! i)"
  have inv': "inv_upto {} env vs" "maj_inv vs" "linked vs" using inv by (simp_all add: voteset_inv_def)
  note D = inv_uptoD [OF inv'(1)]
  have i: "i < length (vs_votes vs)" using ok D(3) by (simp add: vote_ok_def)
  note none = getVote_None [OF inv'(1) i new]
  obtain vs1 where can: "add_canonical vs vote k ?p = Ret (vs1, vs_votes vs ! i)"
    and inv1: "inv_upto {k} env vs1" "maj_inv vs1" and same: "same_set vs vs1"
    and fr: "vs_valSet vs1 = vs_valSet vs" "vs_votesByBlock vs1 = vs_votesByBlock vs" "vs_maj23 vs1 = vs_maj23 vs"
    and W: "vs_maj23 vs = None \<longrightarrow> vs_votes vs1 = (if vs_votes vs ! i = None then (vs_votes vs)[i := Some vote] else vs_votes vs)"
    and stay: "vs_votes vs ! i \<noteq> None \<and> vs_votesByBlock vs k = None \<longrightarrow> vs1 = vs"
    using add_canonical_inv [OF inv'(1,2) ok k new] by (elim exE conjE)
  note tal = tally_step [OF inv ok k new can]
  consider "vs_votesByBlock vs k = None" "vs_votes vs ! i = None" | "vs_votesByBlock vs k = None" "vs_votes vs ! i \<noteq> None"
    | bv where "vs_votesByBlock vs k = Some bv" "vs_votes vs ! i \<noteq> None \<and> \<not> bv_peerMaj23 bv"
    | bv where "vs_votesByBlock vs k = Some bv" "\<not> (vs_votes vs ! i \<noteq> None \<and> \<not> bv_peerMaj23 bv)" by fast
  then show ?thesis
  proof cases
    case 1
    let ?bv = "newBlockVotes False (length (Validators (vs_valSet vs1)))"
    have "bv_votes ?bv ! i = None" "present (bv_votes ?bv) \<subseteq> present (vs_votes vs1)"
        "vs_votesByBlock vs1 k = Some ?bv \<or> vs_votesByBlock vs1 k = None \<and> bv_sum ?bv = 0"
      using i D(3) fr(1,2) 1(1) by (simp_all add: newBlockVotes_def)
    then obtain vs' where vs': "tally vs1 ?bv vote k ?p = Ret vs'" "advances env vs vs'" "getVote vs' (int i) k = Ret (Some vote)"
      using tal [OF bv_inv_new] by blast
    then have "addVerifiedVote vs vote k ?p = Ret (vs', True, vs_votes vs ! i)"
      using can 1 fr(2) by (simp add: addVerifiedVote_def)
    with vs' show ?thesis by blast
  next
    case 2
    then have "addVerifiedVote vs vote k ?p = Ret (vs, False, vs_votes vs ! i)"
      using can stay by (simp add: addVerifiedVote_def)
    then show ?thesis using advances_refl [OF inv] 2(2) by (intro exI [of _ vs] exI [of _ False]) simp
  next
    case (3 bv)
    have "linked vs1" using inv'(3) W 3(2) fr by (simp add: linked_def)
    then have "advances env vs vs1"
      using inv_upto_tracked [OF inv1(1)] inv1(2) 3(1) fr same by (simp add: voteset_inv_def advances_def)
    moreover have "addVerifiedVote vs vote k ?p = Ret (vs1, False, vs_votes vs ! i)"
      using can 3 fr(2) by (simp add: addVerifiedVote_def)
    ultimately show ?thesis using 3(2) by (intro exI [of _ vs1] exI [of _ False]) simp
  next
    case (4 bv)
    have "bv_inv env vs1 k bv" "present (bv_votes bv) \<subseteq> present (vs_votes vs1)" "bv_votes bv ! i = None"
        "vs_votesByBlock vs1 k = Some bv \<or> vs_votesByBlock vs1 k = None \<and> bv_sum bv = 0"
      using inv_uptoD(8,9) [OF inv1(1)] 4(1) fr none(2) by auto
    then obtain vs' where vs': "tally vs1 bv vote k ?p = Ret vs'" "advances env vs vs'" "getVote vs' (int i) k = Ret (Some vote)"
      using tal by blast
    then have "addVerifiedVote vs vote k ?p = Ret (vs', True, vs_votes vs ! i)"
      using can 4 fr(2) by (simp add: addVerifiedVote_def del: de_Morgan_conj)
    with vs' show ?thesis by blast
  qed
qed

section \<open>Every outcome of AddVote\<close>

text \<open>
  What a call may do: an added vote is valid for its slot and is found again; a conflict comes
  with evidence that verifies; any other outcome leaves the set as it was.
\<close>

definition outcome_ok :: "crypto_env \<Rightarrow> VoteSet \<Rightarrow> Vote option \<Rightarrow> VoteSet \<Rightarrow> bool \<Rightarrow> vote_error option \<Rightarrow> bool" where
  "outcome_ok env vs mv vs' added err \<longleftrightarrow>
     (added \<longrightarrow> (\<exists>v. mv = Some v \<and> vote_ok env vs (nat (vote_ValidatorIndex v)) v \<and>
        getVote vs' (vote_ValidatorIndex v) (BlockID_Key (vote_BlockID v)) = Ret (Some v))) \<and>
     (\<forall>dve. err = Some (ErrVoteConflictingVotes dve) \<longrightarrow>
        mv = Some (dve_VoteB dve) \<and> dve_Verify env (vs_chainID vs) dve = None) \<and>
     (\<not> added \<longrightarrow> (\<exists>dve. err = Some (ErrVoteConflictingVotes dve)) \<or> vs' = vs)"

lemma conflict_evidence:
  assumes "vote_ok env vs i a" "vote_ok env vs i b" "vote_BlockID a \<noteq> vote_BlockID b"
  shows "dve_Verify env (vs_chainID vs)
    \<lparr>dve_PubKey = val_PubKey (Validators (vs_valSet vs) ! i), dve_VoteA = a, dve_VoteB = b\<rparr> = None"
  using assms by (simp add: vote_ok_def dve_Verify_def Vote_Verify_def split: if_splits)

lemma Vote_Verify_no_conflict: "Vote_Verify env c pk v \<noteq> Some (ErrVoteConflictingVotes dve)"
  by (simp add: Vote_Verify_def)

lemma getVote_returns:
  assumes "inv_upto {} env vs" "i < length (vs_votes vs)"
  shows "returns (getVote vs (int i) k)"
proof -
  have "returns (blockVotes_getByIndex (vs_votesByBlock vs k) (int i))"
    using inv_uptoD(3) [OF assms(1)] inv_uptoD(8) [OF assms(1), of k] assms(2)
    by (cases "vs_votesByBlock vs k") (auto simp: blockVotes_getByIndex_def bv_inv_def)
  then show ?thesis using assms(2) by (simp add: getVote_def split: option.split)
qed

text \<open>A vote that passes every check up to the signature.\<close>

lemma addVote_known:
  assumes inv: "voteset_inv env vs" and i: "vote_ValidatorIndex vote = int i" and ok: "vote_ok env vs i vote"
    and new: "getVote vs (int i) (BlockID_Key (vote_BlockID vote)) = Ret None"
    and pre: "addVote env vs (Some vote) = go_bind (addVerifiedVote vs vote (BlockID_Key (vote_BlockID vote))
        (val_VotingPower (Validators (vs_valSet vs) ! i))) (\<lambda>(vs', added, conflicting).
        case conflicting of
          Some c \<Rightarrow> Ret (vs', added, Some (NewConflictingVoteError (Validators (vs_valSet vs) ! i) c vote))
        | None \<Rightarrow> if \<not> added then Panic ''Expected to add non-conflicting vote'' else Ret (vs', added, None))"
  shows "\<exists>vs' added err. addVote env vs (Some vote) = Ret (vs', added, err) \<and> advances env vs vs' \<and> outcome_ok env vs (Some vote) vs' added err"
proof -
  let ?k = "BlockID_Key (vote_BlockID vote)" and ?val = "Validators (vs_valSet vs) ! i"
  have inv': "inv_upto {} env vs" using inv by (simp add: voteset_inv_def)
  note D = inv_uptoD [OF inv']
  have len: "i < length (vs_votes vs)" using ok D(3) by (simp add: vote_ok_def)
  obtain vs' added where add: "addVerifiedVote vs vote ?k (val_VotingPower ?val) = Ret (vs', added, vs_votes vs ! i)"
      "advances env vs vs'" "vs_votes vs ! i = None \<longrightarrow> added" "added \<longrightarrow> getVote vs' (int i) ?k = Ret (Some vote)"
    using addVerifiedVote_inv [OF inv ok refl new] by (elim exE conjE)
  show ?thesis
  proof (cases "vs_votes vs ! i")
    case None
    then have "addVote env vs (Some vote) = Ret (vs', True, None)" using pre add(1,3) by simp
    then show ?thesis using None add(2-4) ok i by (auto simp: outcome_ok_def)
  next
    case (Some c)
    have "vote_BlockID c \<noteq> vote_BlockID vote" using getVote_None(1) [OF inv' len new Some] by auto
    with conflict_evidence [OF D(6) [OF len Some] ok] have "dve_Verify env (vs_chainID vs)
        \<lparr>dve_PubKey = val_PubKey ?val, dve_VoteA = c, dve_VoteB = vote\<rparr> = None" by simp
    moreover have "addVote env vs (Some vote) = Ret (vs', added, Some (NewConflictingVoteError ?val c vote))"
      using pre add(1) Some by simp
    ultimately show ?thesis using add(2-4) ok i by (auto simp: outcome_ok_def NewConflictingVoteError_def)
  qed
qed

lemma addVote_checked:
  assumes inv: "voteset_inv env vs"
    and i: "vote_ValidatorIndex vote = int i" "i < length (Validators (vs_valSet vs))"
    and addr: "vote_ValidatorAddress vote \<noteq> []" "vote_ValidatorAddress vote = val_Address (Validators (vs_valSet vs) ! i)"
    and step: "vote_Height vote = vs_height vs" "vote_Round vote = vs_round vs" "vote_Type vote = vs_type vs"
  shows "\<exists>vs' added err. addVote env vs (Some vote) = Ret (vs', added, err) \<and> advances env vs vs' \<and> outcome_ok env vs (Some vote) vs' added err"
proof -
  let ?k = "BlockID_Key (vote_BlockID vote)" and ?val = "Validators (vs_valSet vs) ! i"
  have inv': "inv_upto {} env vs" using inv by (simp add: voteset_inv_def)
  have len: "i < length (vs_votes vs)" using i(2) inv_uptoD(3) [OF inv'] by simp
  obtain known where known: "getVote vs (int i) ?k = Ret known"
    using getVote_returns [OF inv' len] by (auto simp: returns_def)
  have look: "ValidatorSet_GetByIndex (vs_valSet vs) (int i) = (val_Address ?val, Some ?val)"
    using i(2) by (simp add: ValidatorSet_GetByIndex_def Let_def)
  note pre = i addr addr(1) [unfolded addr(2)] step look known addVote_def Let_def
  consider existing where "known = Some existing"
    | err where "known = None" "Vote_Verify env (vs_chainID vs) (val_PubKey ?val) vote = Some err"
    | "known = None" "Vote_Verify env (vs_chainID vs) (val_PubKey ?val) vote = None"
    by (cases known; cases "Vote_Verify env (vs_chainID vs) (val_PubKey ?val) vote") auto
  then show ?thesis
  proof cases
    case 1
    then show ?thesis using advances_refl [OF inv] by (auto simp: pre outcome_ok_def)
  next
    case 2
    then show ?thesis using advances_refl [OF inv] Vote_Verify_no_conflict [of env "vs_chainID vs" "val_PubKey ?val" vote]
      by (auto simp: pre outcome_ok_def)
  next
    case 3
    then have "vote_ok env vs i vote" using i addr step by (simp add: vote_ok_def)
    then show ?thesis using 3 by (intro addVote_known [OF inv i(1)]) (simp_all add: pre)
  qed
qed

text \<open>A vote that fails one of the checks before the lookup.\<close>

definition well_addressed :: "VoteSet \<Rightarrow> Vote \<Rightarrow> bool" where
  "well_addressed vs vote \<longleftrightarrow>
     0 \<le> vote_ValidatorIndex vote \<and> nat (vote_ValidatorIndex vote) < length (Validators (vs_valSet vs)) \<and>
     vote_ValidatorAddress vote \<noteq> [] \<and>
     vote_ValidatorAddress vote = val_Address (Validators (vs_valSet vs) ! nat (vote_ValidatorIndex vote)) \<and>
     vote_Height vote = vs_height vs \<and> vote_Round vote = vs_round vs \<and> vote_Type vote = vs_type vs"

lemma addVote_rejected:
  assumes "\<not> well_addressed vs vote"
  shows "\<exists>err. addVote env vs (Some vote) = Ret (vs, False, Some err) \<and> (\<forall>dve. err \<noteq> ErrVoteConflictingVotes dve)"
proof -
  let ?step = "vote_Height vote = vs_height vs \<and> vote_Round vote = vs_round vs \<and> vote_Type vote = vs_type vs"
  consider "vote_ValidatorIndex vote < 0"
    | "0 \<le> vote_ValidatorIndex vote" "vote_ValidatorAddress vote = []"
    | "0 \<le> vote_ValidatorIndex vote" "vote_ValidatorAddress vote \<noteq> []" "\<not> ?step"
    | "0 \<le> vote_ValidatorIndex vote" "vote_ValidatorAddress vote \<noteq> []" ?step
        "int (length (Validators (vs_valSet vs))) \<le> vote_ValidatorIndex vote"
    | "0 \<le> vote_ValidatorIndex vote" "vote_ValidatorAddress vote \<noteq> []" ?step
        "vote_ValidatorIndex vote < int (length (Validators (vs_valSet vs)))"
        "vote_ValidatorAddress vote \<noteq> val_Address (Validators (vs_valSet vs) ! nat (vote_ValidatorIndex vote))"
    using assms unfolding well_addressed_def by linarith
  then show ?thesis
    by cases (simp_all add: addVote_def Let_def ValidatorSet_GetByIndex_def)
qed

lemma addVote_spec:
  assumes inv: "voteset_inv env vs"
  shows "\<exists>vs' added err. addVote env vs mv = Ret (vs', added, err) \<and> advances env vs vs' \<and> outcome_ok env vs mv vs' added err"
proof (cases mv)
  case None
  then show ?thesis using advances_refl [OF inv] by (auto simp: addVote_def outcome_ok_def)
next
  case (Some vote)
  define i where "i = nat (vote_ValidatorIndex vote)"
  show ?thesis
  proof (cases "well_addressed vs vote")
    case True
    then have "vote_ValidatorIndex vote = int i" by (simp add: well_addressed_def i_def)
    moreover have "i < length (Validators (vs_valSet vs))"
        "vote_ValidatorAddress vote \<noteq> []" "vote_ValidatorAddress vote = val_Address (Validators (vs_valSet vs) ! i)"
        "vote_Height vote = vs_height vs" "vote_Round vote = vs_round vs" "vote_Type vote = vs_type vs"
      using True unfolding well_addressed_def i_def by blast+
    ultimately show ?thesis unfolding Some by (rule addVote_checked [OF inv])
  next
    case False
    then obtain err where "addVote env vs mv = Ret (vs, False, Some err)" "\<forall>dve. err \<noteq> ErrVoteConflictingVotes dve"
      using addVote_rejected Some by blast
    then show ?thesis using advances_refl [OF inv] by (auto simp: outcome_ok_def)
  qed
qed

lemma SetPeerMaj23_inv:
  assumes inv: "voteset_inv env vs"
  shows "\<exists>vs'. SetPeerMaj23 (Some vs) peerID blockID = Ret vs' \<and> advances env vs vs'"
proof -
  let ?k = "BlockID_Key blockID"
  have inv': "inv_upto {} env vs" "maj_inv vs" "linked vs" using inv by (simp_all add: voteset_inv_def)
  note D = inv_uptoD [OF inv'(1)]
  have upd: "advances env vs vs'"
    if vs': "vs' = vs\<lparr>vs_peerMaj23s := pm, vs_votesByBlock := (vs_votesByBlock vs)(?k \<mapsto> bv)\<rparr>"
      and bv: "bv_inv env vs ?k bv" "present (bv_votes bv) \<subseteq> present (vs_votes vs)"
      and old: "case vs_votesByBlock vs ?k of None \<Rightarrow> bv_sum bv = 0
        | Some b \<Rightarrow> bv_sum bv = bv_sum b \<and> bv_votes bv = bv_votes b" for vs' pm bv
  proof -
    have same: "same_set vs vs'" by (simp add: vs' same_set_def)
    have "inv_upto {} env vs'"
      by (rule inv_frame [OF inv'(1) same]) (use D(1,2,8,9) bv in \<open>auto simp: vs' split: if_splits\<close>)
    moreover have "0 \<le> total_power (vs_valSet vs) * 2 div 3" using total_power_nonneg [OF D(2)] by simp
    then have "maj_inv vs'"
      using inv'(2) old by (auto simp: vs' maj_inv_def over_two_thirds_def split: option.splits)
    moreover have "linked vs'"
      using inv'(3) old by (auto simp: vs' linked_def split: option.splits)
    ultimately show ?thesis using same by (simp add: advances_def voteset_inv_def vs')
  qed
  consider "vs_peerMaj23s vs peerID \<noteq> None"
    | bv where "vs_peerMaj23s vs peerID = None" "vs_votesByBlock vs ?k = Some bv"
    | "vs_peerMaj23s vs peerID = None" "vs_votesByBlock vs ?k = None" by blast
  then show ?thesis
  proof cases
    case 1
    then show ?thesis using advances_refl [OF inv] by (simp add: SetPeerMaj23_def)
  next
    case (2 bv)
    have bv: "bv_inv env vs ?k bv" "present (bv_votes bv) \<subseteq> present (vs_votes vs)"
      using D(8,9) [OF 2(2)] by blast+
    have entry: "(vs_votesByBlock vs)(?k \<mapsto> bv) = vs_votesByBlock vs" using 2(2) by (simp add: fun_upd_idem)
    have "bv_inv env vs ?k (bv\<lparr>bv_peerMaj23 := True\<rparr>)" using bv(1) by (simp add: bv_inv_def)
    then show ?thesis
      using 2 upd [OF refl bv] upd [OF refl, of "bv\<lparr>bv_peerMaj23 := True\<rparr>"] bv(2) entry
      by (simp add: SetPeerMaj23_def Let_def)
  next
    case 3
    then show ?thesis
      using upd [OF refl bv_inv_new] by (simp add: SetPeerMaj23_def Let_def newBlockVotes_def)
  qed
qed

section \<open>Runs\<close>

datatype voteset_event = EvVote "Vote option" | EvPeerMaj23 string BlockID

definition voteset_step :: "crypto_env \<Rightarrow> VoteSet \<Rightarrow> voteset_event \<Rightarrow> VoteSet go" where
  "voteset_step env vs ev =
     (case ev of
        EvVote mv \<Rightarrow> go_bind (AddVote env (Some vs) mv) (\<lambda>(vs', added, err). Ret vs')
      | EvPeerMaj23 peerID blockID \<Rightarrow> SetPeerMaj23 (Some vs) peerID blockID)"

text \<open>What every later state keeps of an earlier one.\<close>

definition later_of :: "VoteSet \<Rightarrow> VoteSet \<Rightarrow> bool" where
  "later_of vs0 vs \<longleftrightarrow> same_set vs0 vs \<and> (vs_maj23 vs0 \<noteq> None \<longrightarrow> vs_maj23 vs = vs_maj23 vs0)"

lemma later_of_trans: "later_of a b \<Longrightarrow> later_of b c \<Longrightarrow> later_of a c"
  by (auto simp: later_of_def same_set_def)

lemma voteset_step_inv:
  assumes "voteset_inv env vs"
  shows "\<exists>vs'. voteset_step env vs ev = Ret vs' \<and> voteset_inv env vs' \<and> later_of vs vs'"
proof (cases ev)
  case (EvVote mv)
  then show ?thesis using addVote_spec [OF assms, of mv]
    by (auto simp: voteset_step_def AddVote_def later_of_def advances_def)
next
  case (EvPeerMaj23 p b)
  then show ?thesis using SetPeerMaj23_inv [OF assms, of p b]
    by (auto simp: voteset_step_def later_of_def advances_def)
qed

interpretation votes: total_machine "voteset_step env" "\<lambda>vs. voteset_inv env vs \<and> later_of vs0 vs" for env vs0
proof (unfold_locales, goal_cases)
  case (1 s e s')
  then show ?case using voteset_step_inv [of env s e] later_of_trans [of vs0 s s'] by auto
next
  case (2 s e)
  then show ?case using voteset_step_inv [of env s e] by (auto simp: returns_def)
qed

lemma voteset_run:
  assumes "voteset_inv env vs"
  shows "\<exists>vs'. go_run (voteset_step env) vs evs = Ret vs' \<and> voteset_inv env vs' \<and> later_of vs vs'"
proof -
  have "later_of vs vs" by (simp add: later_of_def)
  with assms votes.run_returns [of env vs vs evs] show ?thesis by blast
qed

section \<open>Properties\<close>

text \<open>The validators whose canonical vote is for the block, by key.\<close>

definition voters_for :: "VoteSet \<Rightarrow> BlockID \<Rightarrow> nat set" where
  "voters_for vs b =
     {i. i < length (vs_votes vs) \<and> (\<exists>v. vs_votes vs ! i = Some v \<and> BlockID_Key (vote_BlockID v) = BlockID_Key b)}"

lemma maj_voters:
  assumes "voteset_inv env vs" "vs_maj23 vs = Some b"
  shows "over_two_thirds vs (power_of (vs_valSet vs) (voters_for vs b))"
proof -
  have inv: "inv_upto {} env vs" "maj_inv vs" using assms(1) by (simp_all add: voteset_inv_def)
  note D = inv_uptoD [OF inv(1)]
  obtain bv where bv: "vs_votesByBlock vs (BlockID_Key b) = Some bv" "over_two_thirds vs (bv_sum bv)"
      "\<And>i v. i < length (vs_votes vs) \<Longrightarrow> bv_votes bv ! i = Some v \<Longrightarrow> vs_votes vs ! i = Some v"
    using inv(2) assms(2) by (auto simp: maj_inv_def)
  note B = D(8) [OF bv(1), unfolded bv_inv_def]
  have "present (bv_votes bv) \<subseteq> voters_for vs b"
  proof
    fix i assume "i \<in> present (bv_votes bv)"
    then obtain v where v: "i < length (bv_votes bv)" "bv_votes bv ! i = Some v" by (auto simp: present_def)
    then have "BlockID_Key (vote_BlockID v) = BlockID_Key b" using B by blast
    then show "i \<in> voters_for vs b" using bv(3) [OF _ v(2)] v(1) B D(3) by (simp add: voters_for_def)
  qed
  moreover have "voters_for vs b \<subseteq> val_idxs (vs_valSet vs)"
    using D(3) by (auto simp: voters_for_def val_idxs_def)
  ultimately have "bv_sum bv \<le> power_of (vs_valSet vs) (voters_for vs b)"
    using vquorum.weight_mono [OF D(2)] B by simp
  with bv(2) show ?thesis by (simp add: over_two_thirds_def)
qed

lemma run_from_new:
  assumes "valset_inv valSet" "powers_ok valSet" "h \<noteq> 0"
  shows "\<exists>vs0 vs. NewVoteSet chainID h r t valSet = Ret vs0 \<and> go_run (voteset_step env) vs0 evs = Ret vs \<and>
    voteset_inv env vs \<and> later_of vs0 vs \<and> vs_valSet vs0 = valSet"
proof -
  obtain vs0 where vs0: "NewVoteSet chainID h r t valSet = Ret vs0" "vs_valSet vs0 = valSet"
    using assms(3) by (simp add: NewVoteSet_def)
  show ?thesis using vs0 voteset_run [OF NewVoteSet_inv [OF assms(1,2) vs0(1)], of env evs] by blast
qed

text \<open>C1: Whatever votes and claims of majorities arrive, in any order, a vote set never panics, and
  when it reports a two-thirds majority for a block, validators with more than two thirds of the
  voting power have their canonical vote for it: verified, of this height, round and type.\<close>

theorem reported_majority_is_real:
  assumes "valset_inv valSet" "powers_ok valSet" "h \<noteq> 0"
  shows "\<exists>vs0 vs. NewVoteSet chainID h r t valSet = Ret vs0 \<and> go_run (voteset_step env) vs0 evs = Ret vs \<and>
    (\<forall>b. TwoThirdsMajority (Some vs) = (b, True) \<longrightarrow>
       total_power valSet * 2 div 3 < power_of valSet (voters_for vs b) \<and>
       (\<forall>i \<in> voters_for vs b. \<exists>v. vs_votes vs ! i = Some v \<and> vote_Height v = h \<and> vote_Round v = r \<and>
          vote_Type v = t \<and> Vote_Verify env chainID (val_PubKey (Validators valSet ! i)) v = None))"
proof -
  obtain vs0 vs where run: "NewVoteSet chainID h r t valSet = Ret vs0" "go_run (voteset_step env) vs0 evs = Ret vs"
      "voteset_inv env vs" "later_of vs0 vs" "vs_valSet vs0 = valSet"
    using run_from_new [OF assms] by blast
  have same: "same_set vs0 vs" using run(4) by (simp add: later_of_def)
  have new: "vs_chainID vs0 = chainID" "vs_height vs0 = h" "vs_round vs0 = r" "vs_type vs0 = t"
    using run(1) assms(3) by (auto simp: NewVoteSet_def)
  have inv: "inv_upto {} env vs" using run(3) by (simp add: voteset_inv_def)
  have "total_power valSet * 2 div 3 < power_of valSet (voters_for vs b)" if "vs_maj23 vs = Some b" for b
    using maj_voters [OF run(3) that] same_set_power [OF same] same_set_total [OF same] run(5)
    by (simp add: over_two_thirds_def)
  moreover have "\<exists>v. vs_votes vs ! i = Some v \<and> vote_Height v = h \<and> vote_Round v = r \<and>
      vote_Type v = t \<and> Vote_Verify env chainID (val_PubKey (Validators valSet ! i)) v = None"
    if "i \<in> voters_for vs b" for i b
    using that inv_uptoD(6) [OF inv] same_set_vote_ok [OF same] new run(5)
    by (auto simp: voters_for_def vote_ok_def)
  ultimately show ?thesis
    using run(1,2) by (auto simp: TwoThirdsMajority_def split: option.splits)
qed

text \<open>A run on a concrete set: three validators of equal power, signatures of the form key then
  message.\<close>

definition ex_env :: crypto_env where
  "ex_env = \<lparr>env_Address = (\<lambda>pk. pk), env_VerifyBytes = (\<lambda>pk msg sig. sig = pk @ msg),
     env_WriteJSON = (\<lambda>c. case c of
        CanonicalJSONOnceVote chain v \<Rightarrow> cbid_Hash (cv_BlockID v) @ [1]
      | CanonicalJSONOnceProposal chain p \<Rightarrow> [2] | CanonicalJSONOnceHeartbeat chain h \<Rightarrow> [3])\<rparr>"

definition ex_vals :: ValidatorSet where
  "ex_vals = \<lparr>Validators = map (\<lambda>k. \<lparr>val_Address = [k], val_PubKey = [k], val_VotingPower = 10, val_Accum = 0\<rparr>) [1, 2, 3],
     Proposer = None, totalVotingPower = 0\<rparr>"

definition ex_vote :: "byte \<Rightarrow> int \<Rightarrow> BlockID \<Rightarrow> Vote" where
  "ex_vote k i b = \<lparr>vote_ValidatorAddress = [k], vote_ValidatorIndex = i, vote_Height = 5, vote_Round = 0,
     vote_Timestamp = 0, vote_Type = VoteTypePrecommit, vote_BlockID = b, vote_Signature = [k] @ bid_Hash b @ [1]\<rparr>"

lemma ex_vals_inv: "valset_inv ex_vals" "powers_ok ex_vals"
  by (simp_all add: ex_vals_def valset_inv_def addr_sorted_def cache_ok_def powers_ok_def total_power_def)

definition ex_run :: "VoteSet go" where
  "ex_run = go_bind (NewVoteSet ''c'' 5 0 VoteTypePrecommit ex_vals) (\<lambda>vs.
     go_run (voteset_step ex_env) vs [EvVote (Some (ex_vote 1 0 (ex_bid 1))), EvVote (Some (ex_vote 2 1 (ex_bid 1))),
       EvVote (Some (ex_vote 3 2 (ex_bid 1)))])"

theorem reported_majority_is_real_witness:
  "(\<exists>vs0 vs. NewVoteSet ''c'' 5 0 VoteTypePrecommit ex_vals = Ret vs0 \<and>
     go_run (voteset_step ex_env) vs0 [EvVote (Some (ex_vote 1 0 (ex_bid 1)))] = Ret vs \<and>
     (\<forall>b. TwoThirdsMajority (Some vs) = (b, True) \<longrightarrow> total_power ex_vals * 2 div 3 < power_of ex_vals (voters_for vs b)))
   \<and> go_bind ex_run (\<lambda>vs. Ret (TwoThirdsMajority (Some vs))) = Ret (ex_bid 1, True)"
proof
  show "\<exists>vs0 vs. NewVoteSet ''c'' 5 0 VoteTypePrecommit ex_vals = Ret vs0 \<and>
     go_run (voteset_step ex_env) vs0 [EvVote (Some (ex_vote 1 0 (ex_bid 1)))] = Ret vs \<and>
     (\<forall>b. TwoThirdsMajority (Some vs) = (b, True) \<longrightarrow> total_power ex_vals * 2 div 3 < power_of ex_vals (voters_for vs b))"
    using reported_majority_is_real [OF ex_vals_inv, of 5 "''c''" 0 VoteTypePrecommit ex_env] by fastforce
  show "go_bind ex_run (\<lambda>vs. Ret (TwoThirdsMajority (Some vs))) = Ret (ex_bid 1, True)"
    by code_simp
qed

lemma no_maj_voters:
  assumes "voteset_inv env vs" "vs_maj23 vs = None"
  shows "\<not> over_two_thirds vs (power_of (vs_valSet vs) (voters_for vs b))"
proof (cases "voters_for vs b = {}")
  case True
  have "powers_ok (vs_valSet vs)" using assms(1) inv_uptoD(2) [of "{}" env vs] by (simp add: voteset_inv_def)
  then have "0 \<le> total_power (vs_valSet vs)" by (rule total_power_nonneg)
  then show ?thesis using True by (simp add: over_two_thirds_def power_of_def)
next
  case False
  have inv: "inv_upto {} env vs" "maj_inv vs" "linked vs" using assms(1) by (simp_all add: voteset_inv_def)
  note D = inv_uptoD [OF inv(1)]
  have link: "\<exists>bv. vs_votesByBlock vs (BlockID_Key b) = Some bv \<and> bv_votes bv ! i \<noteq> None"
    if "i \<in> voters_for vs b" for i
    using inv(3) assms(2) that unfolding linked_def voters_for_def by fastforce
  with False obtain bv where bv: "vs_votesByBlock vs (BlockID_Key b) = Some bv" by blast
  note B = D(8) [OF bv, unfolded bv_inv_def]
  have sub: "voters_for vs b \<subseteq> present (bv_votes bv)"
    using link bv B D(3) by (fastforce simp: present_def voters_for_def)
  have "present (bv_votes bv) \<subseteq> val_idxs (vs_valSet vs)" using B by (intro present_idxs) simp
  then have "power_of (vs_valSet vs) (voters_for vs b) \<le> bv_sum bv"
    using vquorum.weight_mono [OF D(2) sub] B by simp
  moreover have "\<not> over_two_thirds vs (bv_sum bv)" using inv(2) assms(2) bv by (simp add: maj_inv_def)
  ultimately show ?thesis by (simp add: over_two_thirds_def)
qed

text \<open>C12: No majority is missed: in every reachable state the set reports a two-thirds majority as soon
  as validators with more than two thirds of the power have their canonical vote for one block, and
  HasTwoThirdsAny and HasAll compare the power of all validators that voted.\<close>

theorem majority_is_detected:
  assumes "valset_inv valSet" "powers_ok valSet" "h \<noteq> 0"
    and "NewVoteSet chainID h r t valSet = Ret vs0" "go_run (voteset_step env) vs0 evs = Ret vs"
  shows "(HasTwoThirdsMajority (Some vs) \<longleftrightarrow> (\<exists>b. total_power valSet * 2 div 3 < power_of valSet (voters_for vs b))) \<and>
    (HasTwoThirdsAny (Some vs) \<longleftrightarrow> total_power valSet * 2 div 3 < power_of valSet (present (vs_votes vs))) \<and>
    (HasAll vs \<longleftrightarrow> total_power valSet = power_of valSet (present (vs_votes vs)))"
proof (intro conjI)
  have run: "voteset_inv env vs" "later_of vs0 vs" "vs_valSet vs0 = valSet"
    using run_from_new [OF assms(1-3), of chainID r t env evs] assms(4,5) by auto
  then have same: "same_set vs0 vs" by (simp add: later_of_def)
  note eq = same_set_power [OF same] same_set_total [OF same] run(3)
  show "HasTwoThirdsMajority (Some vs) \<longleftrightarrow> (\<exists>b. total_power valSet * 2 div 3 < power_of valSet (voters_for vs b))"
    using maj_voters [OF run(1)] no_maj_voters [OF run(1)] eq
    by (auto simp: HasTwoThirdsMajority_def over_two_thirds_def)
  have inv: "inv_upto {} env vs" using run(1) by (simp add: voteset_inv_def)
  note D = inv_uptoD [OF inv]
  have "snd (TotalVotingPower (vs_valSet vs)) = total_power valSet"
    using TotalVotingPower_eq(1) [of "vs_valSet vs"] D(1) assms(2) eq by (simp add: valset_inv_def)
  moreover have "two_thirds (total_power valSet) = total_power valSet * 2 div 3"
    using powers_ok_two_thirds assms(2) by simp
  ultimately show "HasTwoThirdsAny (Some vs) \<longleftrightarrow> total_power valSet * 2 div 3 < power_of valSet (present (vs_votes vs))"
    and "HasAll vs \<longleftrightarrow> total_power valSet = power_of valSet (present (vs_votes vs))"
    using D(5) eq by (auto simp: HasTwoThirdsAny_def HasAll_def)
qed

theorem majority_is_detected_witness:
  "\<exists>vs0 vs. NewVoteSet ''c'' 5 0 VoteTypePrecommit ex_vals = Ret vs0 \<and>
     go_run (voteset_step ex_env) vs0 [EvVote (Some (ex_vote 1 0 (ex_bid 1)))] = Ret vs \<and>
     (HasTwoThirdsMajority (Some vs) \<longleftrightarrow> (\<exists>b. total_power ex_vals * 2 div 3 < power_of ex_vals (voters_for vs b)))"
  using run_from_new [OF ex_vals_inv, of 5 "''c''" 0 VoteTypePrecommit ex_env "[EvVote (Some (ex_vote 1 0 (ex_bid 1)))]"]
    majority_is_detected [OF ex_vals_inv, of 5 "''c''" 0 VoteTypePrecommit] by fastforce

text \<open>C14: A decided majority is final: once the set reports a two-thirds majority for a block, it
  reports the same block after any further votes and claims, conflicting ones included.\<close>

theorem majority_is_final:
  assumes "voteset_inv env vs" "TwoThirdsMajority (Some vs) = (b, True)"
  shows "\<exists>vs'. go_run (voteset_step env) vs evs = Ret vs' \<and> TwoThirdsMajority (Some vs') = (b, True)"
proof -
  obtain vs' where "go_run (voteset_step env) vs evs = Ret vs'" "later_of vs vs'"
    using voteset_run [OF assms(1)] by blast
  then show ?thesis using assms(2) by (auto simp: TwoThirdsMajority_def later_of_def split: option.splits)
qed

text \<open>C15: Every call of AddVote returns, keeps the invariant, and its outcome is one of three: the vote
  was added, is valid for its slot and is found again by getVote; it conflicts, and the error carries
  duplicate-vote evidence that verifies; or it was rejected or known, and the set is unchanged.\<close>

theorem AddVote_outcomes:
  assumes "voteset_inv env vs"
  shows "\<exists>vs' added err. AddVote env (Some vs) mv = Ret (vs', added, err) \<and> voteset_inv env vs' \<and>
    (added \<longrightarrow> (\<exists>v. mv = Some v \<and> vote_ok env vs (nat (vote_ValidatorIndex v)) v \<and>
       getVote vs' (vote_ValidatorIndex v) (BlockID_Key (vote_BlockID v)) = Ret (Some v))) \<and>
    (\<forall>dve. err = Some (ErrVoteConflictingVotes dve) \<longrightarrow>
       mv = Some (dve_VoteB dve) \<and> dve_Verify env (vs_chainID vs) dve = None) \<and>
    (\<not> added \<longrightarrow> (\<exists>dve. err = Some (ErrVoteConflictingVotes dve)) \<or> vs' = vs)"
  using addVote_spec [OF assms, of mv] unfolding AddVote_def advances_def outcome_ok_def by simp blast

text \<open>C21: Adding a vote twice is harmless: after a vote was added, the same vote is reported as a
  duplicate (not added, no error) and changes nothing.\<close>

theorem AddVote_idempotent:
  assumes "voteset_inv env vs" "AddVote env (Some vs) (Some v) = Ret (vs', True, err)" "vote_ValidatorAddress v \<noteq> []"
  shows "AddVote env (Some vs') (Some v) = Ret (vs', False, None)"
proof -
  let ?i = "nat (vote_ValidatorIndex v)"
  have o: "advances env vs vs'" "vote_ok env vs ?i v"
      "getVote vs' (vote_ValidatorIndex v) (BlockID_Key (vote_BlockID v)) = Ret (Some v)"
    using addVote_spec [OF assms(1), of "Some v"] assms(2) by (auto simp: AddVote_def outcome_ok_def)
  then have "vote_ok env vs' ?i v" using same_set_vote_ok by (auto simp: advances_def)
  then have v: "vote_ValidatorIndex v = int ?i" "?i < length (Validators (vs_valSet vs'))"
      "vote_ValidatorAddress v = val_Address (Validators (vs_valSet vs') ! ?i)"
      "vote_Height v = vs_height vs'" "vote_Round v = vs_round vs'" "vote_Type v = vs_type vs'"
    unfolding vote_ok_def by blast+
  have "\<not> vote_ValidatorIndex v < 0" "vote_ValidatorIndex v < int (length (Validators (vs_valSet vs')))"
    using v(1,2) by linarith+
  moreover have "ValidatorSet_GetByIndex (vs_valSet vs') (vote_ValidatorIndex v) =
      (vote_ValidatorAddress v, Some (Validators (vs_valSet vs') ! ?i))"
    using v(3) calculation by (simp add: ValidatorSet_GetByIndex_def Let_def)
  ultimately show ?thesis using o(3) v(4-6) assms(3) by (simp add: AddVote_def addVote_def Let_def)
qed

definition ex_new :: VoteSet where
  "ex_new = \<lparr>vs_chainID = ''c'', vs_height = 5, vs_round = 0, vs_type = VoteTypePrecommit, vs_valSet = ex_vals,
     vs_votesBitArray = NewBitArray 3, vs_votes = [None, None, None], vs_sum = 0, vs_maj23 = None,
     vs_votesByBlock = Map.empty, vs_peerMaj23s = Map.empty\<rparr>"

lemma ex_new_inv: "voteset_inv ex_env ex_new"
  using NewVoteSet_inv [OF ex_vals_inv, of "''c''" 5 0 VoteTypePrecommit ex_new]
  by (simp add: ex_new_def NewVoteSet_def ex_vals_def numeral_3_eq_3)

definition ex_decided :: VoteSet where
  "ex_decided = (case ex_run of Ret vs \<Rightarrow> vs | Panic p \<Rightarrow> ex_new)"

lemma ex_decided_inv: "voteset_inv ex_env ex_decided" "TwoThirdsMajority (Some ex_decided) = (ex_bid 1, True)"
proof -
  obtain vs where vs: "ex_run = Ret vs" "voteset_inv ex_env vs"
    using run_from_new [OF ex_vals_inv, of 5 "''c''" 0 VoteTypePrecommit ex_env
      "[EvVote (Some (ex_vote 1 0 (ex_bid 1))), EvVote (Some (ex_vote 2 1 (ex_bid 1))), EvVote (Some (ex_vote 3 2 (ex_bid 1)))]"]
    unfolding ex_run_def by auto
  show "voteset_inv ex_env ex_decided" using vs(2) unfolding ex_decided_def vs(1) by simp
  show "TwoThirdsMajority (Some ex_decided) = (ex_bid 1, True)" by code_simp
qed

theorem majority_is_final_witness:
  "\<exists>vs'. go_run (voteset_step ex_env) ex_decided [EvPeerMaj23 ''p'' (ex_bid 2), EvVote (Some (ex_vote 3 2 (ex_bid 2)))] = Ret vs' \<and>
     TwoThirdsMajority (Some vs') = (ex_bid 1, True)"
  by (rule majority_is_final [OF ex_decided_inv])

theorem AddVote_outcomes_witness:
  "\<exists>vs' added err. AddVote ex_env (Some ex_decided) (Some (ex_vote 3 2 (ex_bid 2))) = Ret (vs', added, err) \<and>
    voteset_inv ex_env vs' \<and> (\<not> added \<longrightarrow> (\<exists>dve. err = Some (ErrVoteConflictingVotes dve)) \<or> vs' = ex_decided)"
  using AddVote_outcomes [OF ex_decided_inv(1), of "Some (ex_vote 3 2 (ex_bid 2))"] by blast

theorem AddVote_idempotent_witness:
  "\<exists>vs'. AddVote ex_env (Some ex_new) (Some (ex_vote 1 0 (ex_bid 1))) = Ret (vs', True, None) \<and>
     AddVote ex_env (Some vs') (Some (ex_vote 1 0 (ex_bid 1))) = Ret (vs', False, None)"
proof -
  obtain vs' added err where o: "AddVote ex_env (Some ex_new) (Some (ex_vote 1 0 (ex_bid 1))) = Ret (vs', added, err)"
    using addVote_spec [OF ex_new_inv, of "Some (ex_vote 1 0 (ex_bid 1))"] by (auto simp: AddVote_def)
  have "go_bind (AddVote ex_env (Some ex_new) (Some (ex_vote 1 0 (ex_bid 1)))) (\<lambda>(v, a, e). Ret (a, e = None)) = Ret (True, True)"
    by code_simp
  then have "added" "err = None" unfolding o by simp_all
  moreover have "vote_ValidatorAddress (ex_vote 1 0 (ex_bid 1)) \<noteq> []" by (simp add: ex_vote_def)
  ultimately show ?thesis
    using o AddVote_idempotent [OF ex_new_inv, of "ex_vote 1 0 (ex_bid 1)" vs' None] by (intro exI [of _ vs']) simp
qed

end
