(* ===== verification/Commit_Verification.thy ===== *)
theory Commit_Verification
  imports Vote_Set
begin

text \<open>
  \<^verbatim>\<open>ValidatorSet.VerifyCommit\<close> and \<^verbatim>\<open>VerifyCommitAny\<close> (\<^verbatim>\<open>types/validator_set.go\<close>): the tally of the
  precommits in a commit. The loops are recursive functions over the precommits; every error the
  code returns is a value of \<open>commit_error\<close>.
\<close>

section \<open>VerifyCommit\<close>

fun vc_loop :: "crypto_env \<Rightarrow> string \<Rightarrow> ValidatorSet \<Rightarrow> BlockID \<Rightarrow> int \<Rightarrow> int \<Rightarrow> nat \<Rightarrow> int \<Rightarrow> Vote option list
    \<Rightarrow> (commit_error + int) go" where
  "vc_loop env chainID valSet blockID height round idx tallied [] = Ret (Inr tallied)"
| "vc_loop env chainID valSet blockID height round idx tallied (None # ps) =
     vc_loop env chainID valSet blockID height round (idx + 1) tallied ps"
| "vc_loop env chainID valSet blockID height round idx tallied (Some precommit # ps) =
     (if vote_Height precommit \<noteq> height then Ret (Inl ErrCommitHeight)
      else if vote_Round precommit \<noteq> round then Ret (Inl ErrCommitRound)
      else if vote_Type precommit \<noteq> VoteTypePrecommit then Ret (Inl ErrCommitType)
      else case ValidatorSet_GetByIndex valSet (int idx) of
        (addr, None) \<Rightarrow> Panic ''nil pointer dereference''
      | (addr, Some val) \<Rightarrow>
          if \<not> env_VerifyBytes env (val_PubKey val) (Vote_SignBytes env chainID precommit) (vote_Signature precommit)
          then Ret (Inl ErrCommitSignature)
          else if \<not> BlockID_Equals blockID (vote_BlockID precommit)
          then vc_loop env chainID valSet blockID height round (idx + 1) tallied ps
          else vc_loop env chainID valSet blockID height round (idx + 1)
                 (wrap64 (tallied + val_VotingPower val)) ps)"

definition VerifyCommit :: "crypto_env \<Rightarrow> ValidatorSet \<Rightarrow> string \<Rightarrow> BlockID \<Rightarrow> int \<Rightarrow> Commit
    \<Rightarrow> (ValidatorSet \<times> commit_error option) go" where
  "VerifyCommit env valSet chainID blockID height commit =
     (if ValidatorSet_Size valSet \<noteq> int (length (com_Precommits commit)) then Ret (valSet, Some ErrCommitWrongSize)
      else go_bind (Commit_Height commit) (\<lambda>h.
        if height \<noteq> h then Ret (valSet, Some ErrCommitHeight)
        else go_bind (Commit_Round commit) (\<lambda>round.
          go_bind (vc_loop env chainID valSet blockID height round 0 0 (com_Precommits commit)) (\<lambda>r.
            case r of Inl err \<Rightarrow> Ret (valSet, Some err)
            | Inr tallied \<Rightarrow>
                (let (valSet', total) = TotalVotingPower valSet in
                 if tallied > two_thirds total then Ret (valSet', None)
                 else Ret (valSet', Some ErrCommitPower))))))"

section \<open>VerifyCommitAny\<close>

text \<open>\<open>seen\<close> lists the indices of the old set that were counted.\<close>

fun vca_loop :: "crypto_env \<Rightarrow> string \<Rightarrow> ValidatorSet \<Rightarrow> ValidatorSet \<Rightarrow> BlockID \<Rightarrow> int \<Rightarrow> int \<Rightarrow> nat
    \<Rightarrow> int list \<Rightarrow> int \<Rightarrow> int \<Rightarrow> Vote option list \<Rightarrow> (commit_error + int \<times> int) go" where
  "vca_loop env chainID valSet newSet blockID height round idx seen old new [] = Ret (Inr (old, new))"
| "vca_loop env chainID valSet newSet blockID height round idx seen old new (None # ps) =
     vca_loop env chainID valSet newSet blockID height round (idx + 1) seen old new ps"
| "vca_loop env chainID valSet newSet blockID height round idx seen old new (Some precommit # ps) =
     (if vote_Height precommit \<noteq> height then Ret (Inl ErrCommitHeight)
      else if vote_Round precommit \<noteq> round then Ret (Inl ErrCommitRound)
      else if vote_Type precommit \<noteq> VoteTypePrecommit then Ret (Inl ErrCommitType)
      else if \<not> BlockID_Equals blockID (vote_BlockID precommit)
      then vca_loop env chainID valSet newSet blockID height round (idx + 1) seen old new ps
      else case ValidatorSet_GetByAddress valSet (vote_ValidatorAddress precommit) of
        (vi, None) \<Rightarrow> vca_loop env chainID valSet newSet blockID height round (idx + 1) seen old new ps
      | (vi, Some ov) \<Rightarrow>
          if vi \<in> set seen
          then vca_loop env chainID valSet newSet blockID height round (idx + 1) seen old new ps
          else if \<not> env_VerifyBytes env (val_PubKey ov) (Vote_SignBytes env chainID precommit) (vote_Signature precommit)
          then Ret (Inl ErrCommitSignature)
          else case ValidatorSet_GetByIndex newSet (int idx) of
            (addr, None) \<Rightarrow> Panic ''nil pointer dereference''
          | (addr, Some cv) \<Rightarrow>
              vca_loop env chainID valSet newSet blockID height round (idx + 1) (vi # seen)
                (wrap64 (old + val_VotingPower ov))
                (if val_PubKey cv = val_PubKey ov then wrap64 (new + val_VotingPower cv) else new) ps)"

text \<open>The comparison of the two tallies at the end.\<close>

definition vca_verdict :: "ValidatorSet \<Rightarrow> ValidatorSet \<Rightarrow> commit_error + int \<times> int
    \<Rightarrow> ValidatorSet \<times> ValidatorSet \<times> commit_error option" where
  "vca_verdict valSet newSet r =
     (case r of Inl err \<Rightarrow> (valSet, newSet, Some err)
      | Inr (old, new) \<Rightarrow>
          (let (valSet', oldTotal) = TotalVotingPower valSet in
           if old \<le> two_thirds oldTotal then (valSet', newSet, Some ErrCommitOldPower)
           else (let (newSet', newTotal) = TotalVotingPower newSet in
             if new \<le> two_thirds newTotal then (valSet', newSet', Some ErrCommitNewPower)
             else (valSet', newSet', None))))"

definition VerifyCommitAny :: "crypto_env \<Rightarrow> ValidatorSet \<Rightarrow> ValidatorSet \<Rightarrow> string \<Rightarrow> BlockID \<Rightarrow> int \<Rightarrow> Commit
    \<Rightarrow> (ValidatorSet \<times> ValidatorSet \<times> commit_error option) go" where
  "VerifyCommitAny env valSet newSet chainID blockID height commit =
     (if ValidatorSet_Size newSet \<noteq> int (length (com_Precommits commit)) then Ret (valSet, newSet, Some ErrCommitWrongSize)
      else go_bind (Commit_Height commit) (\<lambda>h.
        if height \<noteq> h then Ret (valSet, newSet, Some ErrCommitHeight)
        else go_bind (Commit_Round commit) (\<lambda>round.
          go_bind (vca_loop env chainID valSet newSet blockID height round 0 [] 0 0 (com_Precommits commit)) (\<lambda>r.
            Ret (vca_verdict valSet newSet r)))))"

section \<open>What acceptance means\<close>

text \<open>A precommit of slot \<open>i\<close> that the loop lets pass, and the slots that sign for a block.\<close>

definition precommit_ok :: "crypto_env \<Rightarrow> string \<Rightarrow> pub_key \<Rightarrow> int \<Rightarrow> int \<Rightarrow> Vote \<Rightarrow> bool" where
  "precommit_ok env chainID pk height round p \<longleftrightarrow>
     vote_Height p = height \<and> vote_Round p = round \<and> vote_Type p = VoteTypePrecommit \<and>
     env_VerifyBytes env pk (Vote_SignBytes env chainID p) (vote_Signature p)"

definition signers :: "Vote option list \<Rightarrow> BlockID \<Rightarrow> nat set" where
  "signers ps b = {i. i < length ps \<and> (\<exists>p. ps ! i = Some p \<and> vote_BlockID p = b)}"

lemma signers_take_Suc:
  "i < length ps \<Longrightarrow> signers (take (Suc i) ps) b =
    (case ps ! i of None \<Rightarrow> signers (take i ps) b
     | Some p \<Rightarrow> if vote_BlockID p = b then insert i (signers (take i ps) b) else signers (take i ps) b)"
  by (auto simp: signers_def less_Suc_eq split: option.splits)

lemma signers_sub: "signers (take i ps) b \<subseteq> {..<i}"
  by (auto simp: signers_def)

lemma signers_idxs: "length ps = length (Validators valSet) \<Longrightarrow> signers (take i ps) b \<subseteq> val_idxs valSet"
  by (auto simp: signers_def val_idxs_def)

definition all_ok :: "crypto_env \<Rightarrow> string \<Rightarrow> ValidatorSet \<Rightarrow> int \<Rightarrow> int \<Rightarrow> nat \<Rightarrow> Vote option list \<Rightarrow> bool" where
  "all_ok env chainID valSet height round k ps \<longleftrightarrow>
     (\<forall>i p. k \<le> i \<longrightarrow> i < length ps \<longrightarrow> ps ! i = Some p \<longrightarrow>
        precommit_ok env chainID (val_PubKey (Validators valSet ! i)) height round p)"

lemma GetByIndex_in:
  "i < length (Validators valSet) \<Longrightarrow>
    ValidatorSet_GetByIndex valSet (int i) = (val_Address (Validators valSet ! i), Some (Validators valSet ! i))"
  by (simp add: ValidatorSet_GetByIndex_def Let_def)

definition loop_result :: "bool \<Rightarrow> int \<Rightarrow> commit_error + int \<Rightarrow> bool" where
  "loop_result ok t r = (case r of Inr t' \<Rightarrow> ok \<and> t' = t | Inl e \<Rightarrow> \<not> ok)"

lemma vc_loop_spec:
  assumes "powers_ok valSet" "length ps = length (Validators valSet)" "k \<le> length ps"
  shows "\<exists>r. vc_loop env chainID valSet b height round k (power_of valSet (signers (take k ps) b)) (drop k ps) = Ret r \<and>
    loop_result (all_ok env chainID valSet height round k ps) (power_of valSet (signers ps b)) r"
  using assms(3)
proof (induction "length ps - k" arbitrary: k)
  case 0
  then show ?case by (simp add: all_ok_def loop_result_def)
next
  case (Suc n)
  then have k: "k < length ps" and n: "n = length ps - Suc k" "Suc k \<le> length ps" by simp_all
  have ks: "k < length (Validators valSet)" using k assms(2) by simp
  note IH = Suc.hyps(1) [OF n]
  have drop: "drop k ps = ps ! k # drop (Suc k) ps" using k by (simp add: Cons_nth_drop_Suc)
  have all: "all_ok env chainID valSet height round k ps \<longleftrightarrow>
      (\<forall>p. ps ! k = Some p \<longrightarrow> precommit_ok env chainID (val_PubKey (Validators valSet ! k)) height round p) \<and>
      all_ok env chainID valSet height round (Suc k) ps"
    using k unfolding all_ok_def by (metis Suc_le_eq le_eq_less_or_eq)
  show ?case
  proof (cases "ps ! k")
    case None
    then show ?thesis using IH signers_take_Suc [OF k] all by (simp add: drop)
  next
    case (Some p)
    have "k \<notin> signers (take k ps) b" using signers_sub [of k ps b] by auto
    then have add: "wrap64 (power_of valSet (signers (take k ps) b) + val_VotingPower (Validators valSet ! k)) =
        power_of valSet (insert k (signers (take k ps) b))"
      using wrap_add_power [OF assms(1) signers_idxs [OF assms(2)]] ks by (simp add: val_idxs_def)
    show ?thesis
      using IH signers_take_Suc [OF k] all Some add GetByIndex_in [OF ks]
      by (auto simp: drop precommit_ok_def loop_result_def [of False])
  qed
qed

text \<open>The meaning of an accepted commit.\<close>

definition commit_valid :: "crypto_env \<Rightarrow> ValidatorSet \<Rightarrow> string \<Rightarrow> BlockID \<Rightarrow> int \<Rightarrow> Commit \<Rightarrow> bool" where
  "commit_valid env valSet chainID b height commit \<longleftrightarrow>
     length (com_Precommits commit) = length (Validators valSet) \<and>
     (\<exists>round. all_ok env chainID valSet height round 0 (com_Precommits commit)) \<and>
     total_power valSet * 2 div 3 < power_of valSet (signers (com_Precommits commit) b)"

lemma first_precommit:
  "FirstPrecommit commit = Some p \<Longrightarrow> \<exists>i. i < length (com_Precommits commit) \<and> com_Precommits commit ! i = Some p"
proof -
  assume "FirstPrecommit commit = Some p"
  then have "Some p \<in> set (filter (\<lambda>p. p \<noteq> None) (com_Precommits commit))"
    unfolding FirstPrecommit_def
    by (cases "filter (\<lambda>p. p \<noteq> None) (com_Precommits commit)") (simp_all only: list.case list.set insert_iff, auto)
  then show ?thesis by (auto simp: in_set_conv_nth)
qed

lemma first_precommit_None: "FirstPrecommit commit = None \<longleftrightarrow> (\<forall>p \<in> set (com_Precommits commit). p = None)"
proof (cases "filter (\<lambda>p. p \<noteq> None) (com_Precommits commit)")
  case Nil
  then have "\<forall>p \<in> set (com_Precommits commit). p = None" by (simp add: filter_empty_conv)
  with Nil show ?thesis by (simp add: FirstPrecommit_def)
next
  case (Cons x xs)
  have "x \<in> set (filter (\<lambda>p. p \<noteq> None) (com_Precommits commit))" unfolding Cons by simp
  then have "x \<noteq> None" "x \<in> set (com_Precommits commit)" by auto
  moreover have "FirstPrecommit commit = x" unfolding FirstPrecommit_def Cons by simp
  ultimately show ?thesis by auto
qed

lemma TotalVotingPower_total:
  "valset_inv valSet \<Longrightarrow> powers_ok valSet \<Longrightarrow> snd (TotalVotingPower valSet) = total_power valSet"
  by (simp add: TotalVotingPower_eq valset_inv_def)

lemma VerifyCommit_iff:
  assumes "valset_inv valSet" "powers_ok valSet"
  shows "(\<exists>valSet'. VerifyCommit env valSet chainID b height commit = Ret (valSet', None)) \<longleftrightarrow>
    commit_valid env valSet chainID b height commit"
proof (cases "length (com_Precommits commit) = length (Validators valSet)")
  case False
  then show ?thesis by (auto simp: VerifyCommit_def ValidatorSet_Size_def commit_valid_def)
next
  case len: True
  let ?ps = "com_Precommits commit"
  have T0: "\<not> total_power valSet * 2 div 3 < 0" using total_power_nonneg [OF assms(2)] by simp
  show ?thesis
  proof (cases "FirstPrecommit commit")
    case None
    then have "signers ?ps b = {}" using first_precommit_None [of commit] nth_mem by (fastforce simp: signers_def)
    then have "\<not> commit_valid env valSet chainID b height commit"
      using T0 by (auto simp: commit_valid_def power_of_def)
    moreover have "VerifyCommit env valSet chainID b height commit \<noteq> Ret (vs, None)" for vs
    proof (cases "?ps = []")
      case True
      then show ?thesis using T0 powers_ok_two_thirds [OF assms(2)] TotalVotingPower_total [OF assms]
        by (simp add: VerifyCommit_def Commit_Height_def Commit_Round_def Let_def case_prod_unfold)
    qed (simp add: VerifyCommit_def Commit_Height_def None)
    ultimately show ?thesis by blast
  next
    case (Some p)
    then obtain i where i: "i < length ?ps" "?ps ! i = Some p" using first_precommit by blast
    have ne: "?ps \<noteq> []" using i by auto
    have hr: "Commit_Height commit = Ret (vote_Height p)" "Commit_Round commit = Ret (vote_Round p)"
      using ne Some by (simp_all add: Commit_Height_def Commit_Round_def)
    have rounds: "(\<exists>round. all_ok env chainID valSet height round 0 ?ps) \<longleftrightarrow>
        vote_Height p = height \<and> all_ok env chainID valSet height (vote_Round p) 0 ?ps"
      using i by (auto simp: all_ok_def precommit_ok_def)
    obtain r where r: "vc_loop env chainID valSet b height (vote_Round p) 0 0 ?ps = Ret r"
        "loop_result (all_ok env chainID valSet height (vote_Round p) 0 ?ps) (power_of valSet (signers ?ps b)) r"
      using vc_loop_spec [OF assms(2) len, of 0 env chainID b height "vote_Round p"]
      by (auto simp: signers_def power_of_def)
    show ?thesis
      using r len hr rounds TotalVotingPower_total [OF assms] powers_ok_two_thirds [OF assms(2)]
      by (cases r) (auto simp: loop_result_def VerifyCommit_def ValidatorSet_Size_def commit_valid_def Let_def case_prod_unfold
        split: if_splits)
  qed
qed

lemma validate_precommits_ok:
  "(\<And>p. Some p \<in> set ps \<Longrightarrow> vote_Type p = VoteTypePrecommit \<and> vote_Height p = h \<and> vote_Round p = r) \<Longrightarrow>
    validate_precommits h r ps = None"
  by (induction h r ps rule: validate_precommits.induct) auto

section \<open>Properties of VerifyCommit\<close>

text \<open>C5: VerifyCommit accepts exactly the commits that have one precommit slot per validator, whose
  present precommits are all of the height, of one round, of the precommit type and signed by the
  validator of their slot, and whose precommits for the block carry more than two thirds of the
  voting power.\<close>

theorem VerifyCommit_correct:
  assumes "valset_inv valSet" "powers_ok valSet"
  shows "(\<exists>valSet'. VerifyCommit env valSet chainID b height commit = Ret (valSet', None)) \<longleftrightarrow>
    length (com_Precommits commit) = length (Validators valSet) \<and>
    (\<exists>round. \<forall>i p. i < length (com_Precommits commit) \<longrightarrow> com_Precommits commit ! i = Some p \<longrightarrow>
       precommit_ok env chainID (val_PubKey (Validators valSet ! i)) height round p) \<and>
    total_power valSet * 2 div 3 < power_of valSet (signers (com_Precommits commit) b)"
  using VerifyCommit_iff [OF assms] by (simp add: commit_valid_def all_ok_def)

text \<open>C22: A commit in which every slot is nil makes VerifyCommit panic for every non-empty validator
  set: reading its height dereferences a nil precommit, in ValidateBasic too, before any check
  could reject it.\<close>

theorem all_nil_commit_panics:
  assumes "com_Precommits commit = replicate n None" "0 < n" "length (Validators valSet) = n"
    and "\<not> BlockID_IsZero (com_BlockID commit)"
  shows "VerifyCommit env valSet chainID b height commit = Panic ''nil pointer dereference'' \<and>
    Commit_ValidateBasic commit = Panic ''nil pointer dereference''"
proof -
  have "FirstPrecommit commit = None" using first_precommit_None assms(1) by auto
  then show ?thesis using assms
    by (simp add: VerifyCommit_def Commit_ValidateBasic_def Commit_Height_def ValidatorSet_Size_def)
qed

text \<open>C13: The commit that MakeCommit returns convinces every verifier, provided that the decided block ID and those of
  the votes in the set are nil or carry a 20-byte hash, so that keys identify blocks: VerifyCommit accepts it for its
  block and the height of the set. ValidateBasic accepts it if the decided block is not nil; if the majority is for nil
  it reports a commit for the nil block.\<close>

theorem MakeCommit_verifies:
  assumes "voteset_inv env vs" "MakeCommit vs = Ret commit" "bid_ok (com_BlockID commit)"
    and "\<forall>i v. i < length (vs_votes vs) \<longrightarrow> vs_votes vs ! i = Some v \<longrightarrow> bid_ok (vote_BlockID v)"
  shows "(\<exists>valSet'. VerifyCommit env (vs_valSet vs) (vs_chainID vs) (com_BlockID commit) (vs_height vs) commit = Ret (valSet', None)) \<and>
    Commit_ValidateBasic commit = Ret (if BlockID_IsZero (com_BlockID commit) then Some ErrCommitNilBlock else None)"
proof -
  have inv: "inv_upto {} env vs" using assms(1) by (simp add: voteset_inv_def)
  note D = inv_uptoD [OF inv]
  have c: "vs_type vs = VoteTypePrecommit" "com_Precommits commit = vs_votes vs" "vs_maj23 vs = Some (com_BlockID commit)"
    using assms(2) by (auto simp: MakeCommit_def split: if_splits option.splits)
  let ?b = "com_BlockID commit"
  have "BlockID_Key (vote_BlockID v) = BlockID_Key ?b \<longleftrightarrow> vote_BlockID v = ?b"
    if "i < length (vs_votes vs)" "vs_votes vs ! i = Some v" for i v
    using Key_inj [OF _ assms(3)] assms(4) that by auto
  then have "voters_for vs ?b = signers (vs_votes vs) ?b"
    unfolding voters_for_def signers_def by auto
  then have q: "total_power (vs_valSet vs) * 2 div 3 < power_of (vs_valSet vs) (signers (vs_votes vs) ?b)"
    using maj_voters [OF assms(1) c(3)] by (simp add: over_two_thirds_def)
  have ok: "precommit_ok env (vs_chainID vs) (val_PubKey (Validators (vs_valSet vs) ! i)) (vs_height vs) (vs_round vs) v"
    if "i < length (vs_votes vs)" "vs_votes vs ! i = Some v" for i v
    using D(6) [OF that] c(1) by (auto simp: vote_ok_def precommit_ok_def Vote_Verify_def split: if_splits)
  have v: "commit_valid env (vs_valSet vs) (vs_chainID vs) ?b (vs_height vs) commit"
    unfolding commit_valid_def all_ok_def using q ok D(3) c(2) by auto
  have "signers (vs_votes vs) ?b \<noteq> {}"
    using q total_power_nonneg [OF D(2)] by (auto simp: power_of_def)
  then obtain j w where j: "j < length (vs_votes vs)" "vs_votes vs ! j = Some w" by (auto simp: signers_def)
  then have ne: "vs_votes vs \<noteq> []" by auto
  have "Some w \<in> set (com_Precommits commit)" using nth_mem [OF j(1)] j(2) c(2) by simp
  then have "FirstPrecommit commit \<noteq> None" using first_precommit_None [of commit] by auto
  then obtain p where fp: "FirstPrecommit commit = Some p" by blast
  obtain m where "m < length (vs_votes vs)" "vs_votes vs ! m = Some p"
    using first_precommit [OF fp] c(2) by auto
  then have p: "vote_Height p = vs_height vs" "vote_Round p = vs_round vs"
    using ok by (auto simp: precommit_ok_def)
  have "validate_precommits (vs_height vs) (vs_round vs) (vs_votes vs) = None"
    using ok by (intro validate_precommits_ok) (auto simp: in_set_conv_nth precommit_ok_def)
  then show ?thesis
    using VerifyCommit_iff [OF D(1,2)] v p fp c(2) ne
    by (simp add: Commit_ValidateBasic_def Commit_Height_def Commit_Round_def)
qed

definition ex_commit :: Commit where
  "ex_commit = \<lparr>com_BlockID = ex_bid 1,
     com_Precommits = [Some (ex_vote 1 0 (ex_bid 1)), Some (ex_vote 2 1 (ex_bid 1)), Some (ex_vote 3 2 (ex_bid 1))],
     com_NStartBlockNum = 0\<rparr>"

theorem VerifyCommit_correct_witness:
  "(\<exists>valSet'. VerifyCommit ex_env ex_vals ''c'' (ex_bid 1) 5 ex_commit = Ret (valSet', None)) \<and>
   total_power ex_vals * 2 div 3 < power_of ex_vals (signers (com_Precommits ex_commit) (ex_bid 1))"
proof -
  have "go_bind (VerifyCommit ex_env ex_vals ''c'' (ex_bid 1) 5 ex_commit) (\<lambda>(v, e). Ret e) = Ret None" by code_simp
  then have "\<exists>valSet'. VerifyCommit ex_env ex_vals ''c'' (ex_bid 1) 5 ex_commit = Ret (valSet', None)"
    by (auto simp: go_bind_eq_Ret)
  with VerifyCommit_correct [OF ex_vals_inv] show ?thesis by blast
qed

theorem all_nil_commit_panics_witness:
  "VerifyCommit ex_env ex_vals ''c'' (ex_bid 1) 5 (ex_commit\<lparr>com_Precommits := replicate 3 None\<rparr>) = Panic ''nil pointer dereference''"
  using all_nil_commit_panics [of "ex_commit\<lparr>com_Precommits := replicate 3 None\<rparr>" 3 ex_vals]
  by (simp add: ex_commit_def ex_vals_def BlockID_IsZero_def ex_bid_def)

theorem MakeCommit_verifies_witness:
  "\<exists>commit. MakeCommit ex_decided = Ret commit \<and>
     (\<exists>valSet'. VerifyCommit ex_env (vs_valSet ex_decided) (vs_chainID ex_decided) (com_BlockID commit) (vs_height ex_decided) commit
       = Ret (valSet', None))"
proof -
  have m: "MakeCommit ex_decided = Ret ex_commit" by code_simp
  have v: "vs_votes ex_decided = com_Precommits ex_commit" by code_simp
  have "bid_ok (vote_BlockID v)" if "i < length (vs_votes ex_decided)" "vs_votes ex_decided ! i = Some v" for i v
    using nth_mem [OF that(1)] that(2) ex_bid_ok unfolding v by (auto simp: ex_commit_def ex_vote_def)
  moreover have "bid_ok (com_BlockID ex_commit)" using ex_bid_ok by (simp add: ex_commit_def)
  ultimately show ?thesis
    using MakeCommit_verifies [OF ex_decided_inv(1) m] m by blast
qed

section \<open>Accountability\<close>

text \<open>C8: Two conflicting decisions expose their culprits: if two vote sets of the same chain, height,
  round, type and validators report two-thirds majorities for different blocks, then validators with
  more than a third of the voting power voted for both, and for each of them the two votes form
  duplicate-vote evidence that verifies.\<close>

theorem conflicting_majorities_are_accountable:
  assumes "voteset_inv env a" "voteset_inv env b" "same_set a b"
    and "TwoThirdsMajority (Some a) = (x, True)" "TwoThirdsMajority (Some b) = (y, True)"
    and "BlockID_Key x \<noteq> BlockID_Key y"
  shows "\<exists>S \<subseteq> val_idxs (vs_valSet a). total_power (vs_valSet a) < 3 * power_of (vs_valSet a) S \<and>
    (\<forall>i \<in> S. \<exists>va vb. vs_votes a ! i = Some va \<and> vs_votes b ! i = Some vb \<and>
       dve_Verify env (vs_chainID a)
         \<lparr>dve_PubKey = val_PubKey (Validators (vs_valSet a) ! i), dve_VoteA = va, dve_VoteB = vb\<rparr> = None)"
proof (intro exI [of _ "voters_for a x \<inter> voters_for b y"] conjI ballI)
  have inv: "inv_upto {} env a" "inv_upto {} env b" using assms(1,2) by (simp_all add: voteset_inv_def)
  note A = inv_uptoD [OF inv(1)] and B = inv_uptoD [OF inv(2)]
  have maj: "vs_maj23 a = Some x" "vs_maj23 b = Some y"
    using assms(4,5) by (auto simp: TwoThirdsMajority_def split: option.splits)
  have len: "length (vs_votes b) = length (vs_votes a)" using A(3) B(3) assms(3) by (simp add: same_set_def)
  have sub: "voters_for a x \<subseteq> val_idxs (vs_valSet a)" "voters_for b y \<subseteq> val_idxs (vs_valSet a)"
    using A(3) len by (auto simp: voters_for_def val_idxs_def)
  then show "voters_for a x \<inter> voters_for b y \<subseteq> val_idxs (vs_valSet a)" by blast
  show "total_power (vs_valSet a) < 3 * power_of (vs_valSet a) (voters_for a x \<inter> voters_for b y)"
    using maj_voters [OF assms(1) maj(1)] maj_voters [OF assms(2) maj(2)]
      same_set_power [OF assms(3)] same_set_total [OF assms(3)]
    by (intro vquorum.quorums_share_third [OF A(2) sub]) (simp_all add: over_two_thirds_def)
  fix i assume "i \<in> voters_for a x \<inter> voters_for b y"
  then obtain va vb where v: "i < length (vs_votes a)" "i < length (vs_votes b)" "vs_votes a ! i = Some va"
      "vs_votes b ! i = Some vb" "BlockID_Key (vote_BlockID va) = BlockID_Key x" "BlockID_Key (vote_BlockID vb) = BlockID_Key y"
    by (auto simp: voters_for_def)
  then have ne: "vote_BlockID va \<noteq> vote_BlockID vb" using assms(6) by auto
  have "vote_ok env a i vb" using B(6) [OF v(2,4)] same_set_vote_ok [OF assms(3)] by simp
  then show "\<exists>va vb. vs_votes a ! i = Some va \<and> vs_votes b ! i = Some vb \<and>
      dve_Verify env (vs_chainID a)
        \<lparr>dve_PubKey = val_PubKey (Validators (vs_valSet a) ! i), dve_VoteA = va, dve_VoteB = vb\<rparr> = None"
    using conflict_evidence [OF A(6) [OF v(1,3)] _ ne] v(3,4) by blast
qed

definition ex_run2 :: "VoteSet go" where
  "ex_run2 = go_run (voteset_step ex_env) ex_new [EvVote (Some (ex_vote 1 0 (ex_bid 2))), EvVote (Some (ex_vote 2 1 (ex_bid 2))),
     EvVote (Some (ex_vote 3 2 (ex_bid 2)))]"

definition ex_decided2 :: VoteSet where
  "ex_decided2 = (case ex_run2 of Ret vs \<Rightarrow> vs | Panic p \<Rightarrow> ex_new)"

theorem conflicting_majorities_are_accountable_witness:
  "\<exists>S \<subseteq> val_idxs (vs_valSet ex_decided). total_power (vs_valSet ex_decided) < 3 * power_of (vs_valSet ex_decided) S"
proof -
  obtain vs where vs: "ex_run2 = Ret vs" "voteset_inv ex_env vs"
    using voteset_run [OF ex_new_inv] unfolding ex_run2_def by blast
  have i: "voteset_inv ex_env ex_decided2" using vs(2) unfolding ex_decided2_def vs(1) by simp
  have m: "TwoThirdsMajority (Some ex_decided2) = (ex_bid 2, True)" by code_simp
  have s: "same_set ex_decided ex_decided2" by code_simp
  have k: "BlockID_Key (ex_bid 1) \<noteq> BlockID_Key (ex_bid 2)" by code_simp
  obtain S where "S \<subseteq> val_idxs (vs_valSet ex_decided)"
      "total_power (vs_valSet ex_decided) < 3 * power_of (vs_valSet ex_decided) S"
    using conflicting_majorities_are_accountable [OF ex_decided_inv(1) i s ex_decided_inv(2) m k] by (elim exE conjE)
  then show ?thesis by (intro exI conjI)
qed

section \<open>VerifyCommitAny\<close>

definition vca_inv :: "crypto_env \<Rightarrow> string \<Rightarrow> ValidatorSet \<Rightarrow> ValidatorSet \<Rightarrow> BlockID \<Rightarrow> int \<Rightarrow> int \<Rightarrow> Vote option list
    \<Rightarrow> nat \<Rightarrow> nat set \<Rightarrow> nat set \<Rightarrow> bool" where
  "vca_inv env chainID valSet newSet b height round ps k A B \<longleftrightarrow>
     A \<subseteq> val_idxs valSet \<and> B \<subseteq> val_idxs newSet \<inter> {..<k} \<and>
     (\<forall>i \<in> A. \<exists>p. Some p \<in> set ps \<and> vote_BlockID p = b \<and> precommit_ok env chainID (val_PubKey (Validators valSet ! i)) height round p) \<and>
     (\<forall>j \<in> B. \<exists>p. ps ! j = Some p \<and> vote_BlockID p = b \<and> precommit_ok env chainID (val_PubKey (Validators newSet ! j)) height round p)"

lemma GetByAddress_Some:
  assumes "addr_sorted valSet" "ValidatorSet_GetByAddress valSet a = (vi, Some v)"
  shows "\<exists>i < length (Validators valSet). vi = int i \<and> Validators valSet ! i = v"
proof -
  have "vals_map valSet a = Some v" "vi = int (addr_search valSet a)"
    using assms(2) unfolding GetByAddress_eq [OF assms(1)] by (auto split: option.splits)
  with addr_found_nth [OF assms(1)] show ?thesis by blast
qed

lemma vca_count:
  assumes vals: "addr_sorted valSet" "powers_ok valSet" "powers_ok newSet"
    and I: "vca_inv env chainID valSet newSet b height round ps k A B" "int ` A = set seen"
    and k: "k < length ps" "k < length (Validators newSet)" "ps ! k = Some p"
    and ov: "ValidatorSet_GetByAddress valSet (vote_ValidatorAddress p) = (vi, Some ov)" "vi \<notin> set seen"
    and pok: "vote_BlockID p = b" "precommit_ok env chainID (val_PubKey ov) height round p"
  obtains A' B' where "vca_inv env chainID valSet newSet b height round ps (Suc k) A' B'" "int ` A' = set (vi # seen)"
    "wrap64 (power_of valSet A + val_VotingPower ov) = power_of valSet A'"
    "(if val_PubKey (Validators newSet ! k) = val_PubKey ov then wrap64 (power_of newSet B + val_VotingPower (Validators newSet ! k))
      else power_of newSet B) = power_of newSet B'"
proof -
  obtain i where i: "i < length (Validators valSet)" "vi = int i" "Validators valSet ! i = ov"
    using GetByAddress_Some [OF vals(1) ov(1)] by blast
  let ?same = "val_PubKey (Validators newSet ! k) = val_PubKey ov"
  let ?A = "insert i A" and ?B = "if ?same then insert k B else B"
  note J = I(1) [unfolded vca_inv_def]
  have mem: "Some p \<in> set ps" using nth_mem [OF k(1)] k(3) by simp
  have "i \<notin> A" using ov(2) i(2) I(2) by auto
  then have old: "wrap64 (power_of valSet A + val_VotingPower ov) = power_of valSet ?A"
    using wrap_add_power [OF vals(2), of A i] J i by (auto simp: val_idxs_def)
  have new: "(if ?same then wrap64 (power_of newSet B + val_VotingPower (Validators newSet ! k)) else power_of newSet B) = power_of newSet ?B"
    using wrap_add_power [OF vals(3), of B k] J k(2) by (auto simp: val_idxs_def)
  have "vca_inv env chainID valSet newSet b height round ps (Suc k) ?A ?B"
    unfolding vca_inv_def using J i(1,3) k(2,3) mem pok by (auto simp: val_idxs_def)
  moreover have "int ` ?A = set (vi # seen)" using I(2) i(2) by simp
  ultimately show ?thesis using old new by (rule that)
qed

lemma vca_loop_sound:
  assumes vals: "addr_sorted valSet" "powers_ok valSet" "powers_ok newSet" "length ps = length (Validators newSet)"
    and "k \<le> length ps" "vca_inv env chainID valSet newSet b height round ps k A B" "int ` A = set seen"
    and "vca_loop env chainID valSet newSet b height round k seen (power_of valSet A) (power_of newSet B) (drop k ps) = Ret (Inr (old, new))"
  shows "\<exists>A B. vca_inv env chainID valSet newSet b height round ps (length ps) A B \<and> old = power_of valSet A \<and> new = power_of newSet B"
  using assms(5-)
proof (induction "length ps - k" arbitrary: k A B seen)
  case 0
  then show ?case by auto
next
  case (Suc n)
  then have k: "k < length ps" and n: "n = length ps - Suc k" "Suc k \<le> length ps" by simp_all
  have ks: "k < length (Validators newSet)" using k vals(4) by simp
  note IH = Suc.hyps(1) [OF n]
  have drop: "drop k ps = ps ! k # drop (Suc k) ps" using k by (simp add: Cons_nth_drop_Suc)
  have skip: "vca_inv env chainID valSet newSet b height round ps (Suc k) A B"
    using Suc.prems(2) by (auto simp: vca_inv_def)
  note loop = Suc.prems(4) [unfolded drop]
  show ?case
  proof (cases "ps ! k")
    case None
    then show ?thesis using IH [OF skip Suc.prems(3)] loop by simp
  next
    case (Some p)
    have ok: "vote_Height p = height" "vote_Round p = round" "vote_Type p = VoteTypePrecommit"
      using loop Some by (auto split: if_splits)
    show ?thesis
    proof (cases "vote_BlockID p = b \<and> (\<exists>vi ov. ValidatorSet_GetByAddress valSet (vote_ValidatorAddress p) = (vi, Some ov) \<and> vi \<notin> set seen)")
      case False
      have "vca_loop env chainID valSet newSet b height round (Suc k) seen (power_of valSet A) (power_of newSet B) (drop (Suc k) ps) = Ret (Inr (old, new))"
        using loop Some ok False by (auto split: prod.splits option.splits if_splits)
      then show ?thesis using IH [OF skip Suc.prems(3)] by simp
    next
      case True
      then obtain vi ov where ov: "ValidatorSet_GetByAddress valSet (vote_ValidatorAddress p) = (vi, Some ov)"
          "vi \<notin> set seen" and b: "vote_BlockID p = b" by blast
      have sig: "env_VerifyBytes env (val_PubKey ov) (Vote_SignBytes env chainID p) (vote_Signature p)"
        using loop Some ok b ov by (auto split: if_splits)
      then have pok: "precommit_ok env chainID (val_PubKey ov) height round p" using ok by (simp add: precommit_ok_def)
      show ?thesis
        by (rule vca_count [OF vals(1-3) Suc.prems(2,3) k ks Some ov b pok], erule (1) IH)
          (use loop Some ok b ov sig GetByIndex_in [OF ks] in simp)
    qed
  qed
qed

text \<open>C16: VerifyCommitAny never accepts without both quorums: on acceptance, validators of the old set
  with more than two thirds of its power each signed a precommit for the block in the commit, and
  slots of the new set with more than two thirds of its power hold a precommit for the block that is
  signed by the new validator of the slot. No double counting: each side is a set of validators.\<close>

theorem VerifyCommitAny_sound:
  assumes "valset_inv valSet" "powers_ok valSet" "valset_inv newSet" "powers_ok newSet"
    and "VerifyCommitAny env valSet newSet chainID b height commit = Ret (vs', ns', None)"
  shows "\<exists>A B round. A \<subseteq> val_idxs valSet \<and> B \<subseteq> val_idxs newSet \<and>
    total_power valSet * 2 div 3 < power_of valSet A \<and> total_power newSet * 2 div 3 < power_of newSet B \<and>
    (\<forall>i \<in> A. \<exists>p. Some p \<in> set (com_Precommits commit) \<and> vote_BlockID p = b \<and>
       precommit_ok env chainID (val_PubKey (Validators valSet ! i)) height round p) \<and>
    (\<forall>j \<in> B. \<exists>p. com_Precommits commit ! j = Some p \<and> vote_BlockID p = b \<and>
       precommit_ok env chainID (val_PubKey (Validators newSet ! j)) height round p)"
proof -
  let ?ps = "com_Precommits commit"
  have len: "length ?ps = length (Validators newSet)"
    using assms(5) by (auto simp: VerifyCommitAny_def ValidatorSet_Size_def split: if_splits)
  obtain round res where res: "vca_loop env chainID valSet newSet b height round 0 [] 0 0 ?ps = Ret res"
      and fin: "vca_verdict valSet newSet res = (vs', ns', None)"
    using assms(5) unfolding VerifyCommitAny_def by (auto simp: go_bind_eq_Ret split: if_splits)
  obtain old new where on: "res = Inr (old, new)" using fin by (cases res) (auto simp: vca_verdict_def)
  have r: "vca_loop env chainID valSet newSet b height round 0 [] 0 0 ?ps = Ret (Inr (old, new))" using res on by simp
  have q: "two_thirds (snd (TotalVotingPower valSet)) < old" "two_thirds (snd (TotalVotingPower newSet)) < new"
    using fin unfolding on by (simp_all add: vca_verdict_def Let_def case_prod_unfold split: if_splits)
  have "vca_inv env chainID valSet newSet b height round ?ps 0 {} {}" by (simp add: vca_inv_def)
  then obtain A B where AB: "vca_inv env chainID valSet newSet b height round ?ps (length ?ps) A B"
      "old = power_of valSet A" "new = power_of newSet B"
    using vca_loop_sound [of valSet newSet ?ps 0 env chainID b height round "{}" "{}" "[]" old new] r len assms(1-4)
    by (auto simp: power_of_def valset_inv_def)
  show ?thesis
    using AB q TotalVotingPower_total assms(1-4) powers_ok_two_thirds unfolding vca_inv_def
    by (intro exI [of _ A] exI [of _ B] exI [of _ round]) auto
qed

theorem VerifyCommitAny_sound_witness:
  "\<exists>A \<subseteq> val_idxs ex_vals. total_power ex_vals * 2 div 3 < power_of ex_vals A"
proof -
  have "go_bind (VerifyCommitAny ex_env ex_vals ex_vals ''c'' (ex_bid 1) 5 ex_commit) (\<lambda>(v, n, e). Ret e) = Ret None"
    by code_simp
  then obtain vs' ns' where "VerifyCommitAny ex_env ex_vals ex_vals ''c'' (ex_bid 1) 5 ex_commit = Ret (vs', ns', None)"
    by (auto simp: go_bind_eq_Ret)
  from VerifyCommitAny_sound [OF ex_vals_inv ex_vals_inv this] show ?thesis by blast
qed

end
