(* ===== verification/Height_Vote_Set.thy ===== *)
theory Height_Vote_Set
  imports Vote_Set
begin

text \<open>
  \<^verbatim>\<open>consensus/types/height_vote_set.go\<close>: the vote sets of all rounds of a height. Rounds up to the
  current one are always tracked; a peer can open at most two further rounds. The vote sets share the
  validator set by pointer; the only thing written through it is its cached total power, which every
  vote set of the model keeps for itself.
\<close>

section \<open>State and operations\<close>

record RoundVoteSet =
  rvs_Prevotes :: VoteSet
  rvs_Precommits :: VoteSet

record HeightVoteSet =
  hvs_chainID :: string
  hvs_height :: int
  hvs_valSet :: ValidatorSet
  hvs_round :: int
  hvs_roundVoteSets :: "int \<rightharpoonup> RoundVoteSet"
  hvs_peerCatchupRounds :: "string \<Rightarrow> int list"

definition addRound :: "HeightVoteSet \<Rightarrow> int \<Rightarrow> HeightVoteSet go" where
  "addRound hvs round =
     (if hvs_roundVoteSets hvs round \<noteq> None then Panic ''addRound() for an existing round''
      else go_bind (NewVoteSet (hvs_chainID hvs) (hvs_height hvs) round VoteTypePrevote (hvs_valSet hvs)) (\<lambda>prevotes.
        go_bind (NewVoteSet (hvs_chainID hvs) (hvs_height hvs) round VoteTypePrecommit (hvs_valSet hvs)) (\<lambda>precommits.
          Ret (hvs\<lparr>hvs_roundVoteSets := (hvs_roundVoteSets hvs)
            (round \<mapsto> \<lparr>rvs_Prevotes = prevotes, rvs_Precommits = precommits\<rparr>)\<rparr>))))"

definition HVS_Reset :: "HeightVoteSet \<Rightarrow> int \<Rightarrow> ValidatorSet \<Rightarrow> HeightVoteSet go" where
  "HVS_Reset hvs height valSet =
     go_bind (addRound (hvs\<lparr>hvs_height := height, hvs_valSet := valSet, hvs_roundVoteSets := Map.empty,
       hvs_peerCatchupRounds := (\<lambda>p. [])\<rparr>) 0) (\<lambda>h. Ret (h\<lparr>hvs_round := 0\<rparr>))"

definition NewHeightVoteSet :: "string \<Rightarrow> int \<Rightarrow> ValidatorSet \<Rightarrow> HeightVoteSet go" where
  "NewHeightVoteSet chainID height valSet =
     HVS_Reset \<lparr>hvs_chainID = chainID, hvs_height = 0, hvs_valSet = valSet, hvs_round = 0,
       hvs_roundVoteSets = Map.empty, hvs_peerCatchupRounds = (\<lambda>p. [])\<rparr> height valSet"

text \<open>\<^verbatim>\<open>for r := hvs.round + 1; r <= round; r++\<close>.\<close>

fun addRounds :: "HeightVoteSet \<Rightarrow> int list \<Rightarrow> HeightVoteSet go" where
  "addRounds hvs [] = Ret hvs"
| "addRounds hvs (r # rs) =
     (if hvs_roundVoteSets hvs r \<noteq> None then addRounds hvs rs
      else go_bind (addRound hvs r) (\<lambda>h. addRounds h rs))"

definition SetRound :: "HeightVoteSet \<Rightarrow> int \<Rightarrow> HeightVoteSet go" where
  "SetRound hvs round =
     (if hvs_round hvs \<noteq> 0 \<and> round < hvs_round hvs + 1 then Panic ''SetRound() must increment hvs.round''
      else go_bind (addRounds hvs [hvs_round hvs + 1..round]) (\<lambda>h. Ret (h\<lparr>hvs_round := round\<rparr>)))"

definition getVoteSet :: "HeightVoteSet \<Rightarrow> int \<Rightarrow> byte \<Rightarrow> VoteSet option go" where
  "getVoteSet hvs round type =
     (case hvs_roundVoteSets hvs round of
        None \<Rightarrow> Ret None
      | Some rvs \<Rightarrow>
          if type = VoteTypePrevote then Ret (Some (rvs_Prevotes rvs))
          else if type = VoteTypePrecommit then Ret (Some (rvs_Precommits rvs))
          else Panic ''Unexpected vote type'')"

text \<open>Writing through the pointer that \<^verbatim>\<open>getVoteSet\<close> returns.\<close>

definition putVoteSet :: "HeightVoteSet \<Rightarrow> int \<Rightarrow> byte \<Rightarrow> VoteSet \<Rightarrow> HeightVoteSet" where
  "putVoteSet hvs round type vs =
     (case hvs_roundVoteSets hvs round of
        None \<Rightarrow> hvs
      | Some rvs \<Rightarrow> hvs\<lparr>hvs_roundVoteSets := (hvs_roundVoteSets hvs)(round \<mapsto>
          (if type = VoteTypePrevote then rvs\<lparr>rvs_Prevotes := vs\<rparr> else rvs\<lparr>rvs_Precommits := vs\<rparr>))\<rparr>)"

definition HVS_AddVote :: "crypto_env \<Rightarrow> HeightVoteSet \<Rightarrow> Vote option \<Rightarrow> string \<Rightarrow> (HeightVoteSet \<times> bool \<times> vote_error option) go" where
  "HVS_AddVote env hvs mvote peerKey =
     (case mvote of None \<Rightarrow> Panic ''nil pointer dereference''
      | Some vote \<Rightarrow>
        if \<not> IsVoteTypeValid (vote_Type vote) then Ret (hvs, False, None)
        else go_bind (getVoteSet hvs (vote_Round vote) (vote_Type vote)) (\<lambda>voteSet.
          case voteSet of
            Some vs \<Rightarrow> go_bind (AddVote env (Some vs) mvote) (\<lambda>(vs', added, err).
              Ret (putVoteSet hvs (vote_Round vote) (vote_Type vote) vs', added, err))
          | None \<Rightarrow>
              if length (hvs_peerCatchupRounds hvs peerKey) < 2 then
                go_bind (addRound hvs (vote_Round vote)) (\<lambda>h.
                  let h' = h\<lparr>hvs_peerCatchupRounds := (hvs_peerCatchupRounds h)
                    (peerKey := hvs_peerCatchupRounds hvs peerKey @ [vote_Round vote])\<rparr> in
                  go_bind (getVoteSet h' (vote_Round vote) (vote_Type vote)) (\<lambda>vs.
                    go_bind (AddVote env vs mvote) (\<lambda>(vs', added, err).
                      Ret (putVoteSet h' (vote_Round vote) (vote_Type vote) vs', added, err))))
              else Ret (hvs, False, None)))"

definition HVS_Prevotes :: "HeightVoteSet \<Rightarrow> int \<Rightarrow> VoteSet option go" where
  "HVS_Prevotes hvs round = getVoteSet hvs round VoteTypePrevote"

definition HVS_Precommits :: "HeightVoteSet \<Rightarrow> int \<Rightarrow> VoteSet option go" where
  "HVS_Precommits hvs round = getVoteSet hvs round VoteTypePrecommit"

fun pol_scan :: "HeightVoteSet \<Rightarrow> int list \<Rightarrow> (int \<times> BlockID) go" where
  "pol_scan hvs [] = Ret (- 1, zero_BlockID)"
| "pol_scan hvs (r # rs) =
     go_bind (getVoteSet hvs r VoteTypePrevote) (\<lambda>rvs.
       let (polBlockID, ok) = TwoThirdsMajority rvs in
       if ok then Ret (r, polBlockID) else pol_scan hvs rs)"

definition POLInfo :: "HeightVoteSet \<Rightarrow> (int \<times> BlockID) go" where
  "POLInfo hvs = pol_scan hvs (rev [0..hvs_round hvs])"

definition HVS_SetPeerMaj23 :: "HeightVoteSet \<Rightarrow> int \<Rightarrow> byte \<Rightarrow> string \<Rightarrow> BlockID \<Rightarrow> HeightVoteSet go" where
  "HVS_SetPeerMaj23 hvs round type peerID blockID =
     (if \<not> IsVoteTypeValid type then Ret hvs
      else go_bind (getVoteSet hvs round type) (\<lambda>voteSet.
        case voteSet of None \<Rightarrow> Ret hvs
        | Some vs \<Rightarrow> go_bind (SetPeerMaj23 (Some vs) peerID blockID) (\<lambda>vs'. Ret (putVoteSet hvs round type vs'))))"

section \<open>Invariant\<close>

text \<open>The vote set of a round and type, and the rounds that peers opened.\<close>

definition set_ok :: "crypto_env \<Rightarrow> HeightVoteSet \<Rightarrow> int \<Rightarrow> byte \<Rightarrow> VoteSet \<Rightarrow> bool" where
  "set_ok env hvs r t vs \<longleftrightarrow> voteset_inv env vs \<and> vs_chainID vs = hvs_chainID hvs \<and> vs_height vs = hvs_height hvs \<and>
     vs_round vs = r \<and> vs_type vs = t \<and> Validators (vs_valSet vs) = Validators (hvs_valSet hvs)"

definition catchups :: "HeightVoteSet \<Rightarrow> int set" where
  "catchups hvs = (\<Union>p. set (hvs_peerCatchupRounds hvs p))"

definition hvs_core :: "crypto_env \<Rightarrow> HeightVoteSet \<Rightarrow> bool" where
  "hvs_core env hvs \<longleftrightarrow>
     valset_inv (hvs_valSet hvs) \<and> powers_ok (hvs_valSet hvs) \<and> hvs_height hvs \<noteq> 0 \<and>
     (\<forall>r rvs. hvs_roundVoteSets hvs r = Some rvs \<longrightarrow>
        set_ok env hvs r VoteTypePrevote (rvs_Prevotes rvs) \<and> set_ok env hvs r VoteTypePrecommit (rvs_Precommits rvs)) \<and>
     (\<forall>p. length (hvs_peerCatchupRounds hvs p) \<le> 2)"

definition hvs_inv :: "crypto_env \<Rightarrow> HeightVoteSet \<Rightarrow> bool" where
  "hvs_inv env hvs \<longleftrightarrow> hvs_core env hvs \<and> 0 \<le> hvs_round hvs \<and>
     dom (hvs_roundVoteSets hvs) = {0..hvs_round hvs} \<union> catchups hvs"

lemma hvs_coreD:
  assumes "hvs_core env hvs"
  shows "valset_inv (hvs_valSet hvs)" "powers_ok (hvs_valSet hvs)" "hvs_height hvs \<noteq> 0"
    "hvs_roundVoteSets hvs r = Some rvs \<Longrightarrow> set_ok env hvs r VoteTypePrevote (rvs_Prevotes rvs)"
    "hvs_roundVoteSets hvs r = Some rvs \<Longrightarrow> set_ok env hvs r VoteTypePrecommit (rvs_Precommits rvs)"
    "length (hvs_peerCatchupRounds hvs p) \<le> 2"
  using assms unfolding hvs_core_def by blast+

lemma type_ne [simp]: "VoteTypePrecommit \<noteq> VoteTypePrevote" "VoteTypePrevote \<noteq> VoteTypePrecommit"
  by (simp_all add: VoteTypePrecommit_def VoteTypePrevote_def)

text \<open>Opening a round keeps every other round.\<close>

lemma addRound_eq:
  assumes "valset_inv (hvs_valSet hvs)" "powers_ok (hvs_valSet hvs)" "hvs_height hvs \<noteq> 0"
    and "hvs_roundVoteSets hvs r = None"
  shows "\<exists>rvs. addRound hvs r = Ret (hvs\<lparr>hvs_roundVoteSets := (hvs_roundVoteSets hvs)(r \<mapsto> rvs)\<rparr>) \<and>
    set_ok env hvs r VoteTypePrevote (rvs_Prevotes rvs) \<and> set_ok env hvs r VoteTypePrecommit (rvs_Precommits rvs)"
proof -
  have new: "\<exists>vs. NewVoteSet (hvs_chainID hvs) (hvs_height hvs) r t (hvs_valSet hvs) = Ret vs \<and> set_ok env hvs r t vs" for t
  proof -
    obtain vs where "NewVoteSet (hvs_chainID hvs) (hvs_height hvs) r t (hvs_valSet hvs) = Ret vs"
      using assms(3) by (simp add: NewVoteSet_def)
    with NewVoteSet_inv [OF assms(1,2) this] show ?thesis by (auto simp: set_ok_def NewVoteSet_def split: if_splits)
  qed
  obtain v1 v2 where "NewVoteSet (hvs_chainID hvs) (hvs_height hvs) r VoteTypePrevote (hvs_valSet hvs) = Ret v1"
      "set_ok env hvs r VoteTypePrevote v1"
      "NewVoteSet (hvs_chainID hvs) (hvs_height hvs) r VoteTypePrecommit (hvs_valSet hvs) = Ret v2"
      "set_ok env hvs r VoteTypePrecommit v2"
    using new by blast
  then show ?thesis using assms(4)
    by (intro exI [of _ "\<lparr>rvs_Prevotes = v1, rvs_Precommits = v2\<rparr>"]) (simp add: addRound_def)
qed

lemma core_put:
  assumes "hvs_core env hvs" "set_ok env hvs r VoteTypePrevote (rvs_Prevotes rvs)"
    "set_ok env hvs r VoteTypePrecommit (rvs_Precommits rvs)"
  shows "hvs_core env (hvs\<lparr>hvs_roundVoteSets := (hvs_roundVoteSets hvs)(r \<mapsto> rvs)\<rparr>)"
  using assms by (auto simp: hvs_core_def set_ok_def)

lemma addRound_core:
  assumes "hvs_core env hvs" "hvs_roundVoteSets hvs r = None"
  shows "\<exists>rvs. addRound hvs r = Ret (hvs\<lparr>hvs_roundVoteSets := (hvs_roundVoteSets hvs)(r \<mapsto> rvs)\<rparr>) \<and>
    hvs_core env (hvs\<lparr>hvs_roundVoteSets := (hvs_roundVoteSets hvs)(r \<mapsto> rvs)\<rparr>)"
  using addRound_eq [OF hvs_coreD(1-3) [OF assms(1)] assms(2), of env] core_put [OF assms(1)] by blast

lemma addRounds_core:
  assumes "hvs_core env hvs"
  shows "\<exists>m. addRounds hvs rs = Ret (hvs\<lparr>hvs_roundVoteSets := m\<rparr>) \<and> hvs_core env (hvs\<lparr>hvs_roundVoteSets := m\<rparr>) \<and>
    dom m = dom (hvs_roundVoteSets hvs) \<union> set rs"
  using assms
proof (induction rs arbitrary: hvs)
  case Nil
  then show ?case by (intro exI [of _ "hvs_roundVoteSets hvs"]) simp
next
  case (Cons r rs)
  show ?case
  proof (cases "hvs_roundVoteSets hvs r")
    case None
    obtain rvs where a: "addRound hvs r = Ret (hvs\<lparr>hvs_roundVoteSets := (hvs_roundVoteSets hvs)(r \<mapsto> rvs)\<rparr>)"
        "hvs_core env (hvs\<lparr>hvs_roundVoteSets := (hvs_roundVoteSets hvs)(r \<mapsto> rvs)\<rparr>)"
      using addRound_core [OF Cons.prems None] by blast
    obtain m where "addRounds (hvs\<lparr>hvs_roundVoteSets := (hvs_roundVoteSets hvs)(r \<mapsto> rvs)\<rparr>) rs = Ret (hvs\<lparr>hvs_roundVoteSets := m\<rparr>)"
        "hvs_core env (hvs\<lparr>hvs_roundVoteSets := m\<rparr>)" "dom m = insert r (dom (hvs_roundVoteSets hvs)) \<union> set rs"
      using Cons.IH [OF a(2)] by (auto simp: dom_fun_upd simp del: fun_upd_apply)
    then show ?thesis using a(1) None by (intro exI [of _ m]) simp
  next
    case (Some rvs)
    then have "r \<in> dom (hvs_roundVoteSets hvs)" by blast
    then show ?thesis using Cons.IH [OF Cons.prems] Some by (auto simp: insert_absorb)
  qed
qed

lemma SetRound_inv:
  assumes "hvs_inv env hvs" "hvs_round hvs = 0 \<and> 0 \<le> round \<or> hvs_round hvs < round"
  shows "\<exists>h. SetRound hvs round = Ret h \<and> hvs_inv env h \<and> hvs_round h = round"
proof -
  have core: "hvs_core env hvs" and r0: "0 \<le> hvs_round hvs"
    and d: "dom (hvs_roundVoteSets hvs) = {0..hvs_round hvs} \<union> catchups hvs"
    using assms(1) by (auto simp: hvs_inv_def)
  obtain m where m: "addRounds hvs [hvs_round hvs + 1..round] = Ret (hvs\<lparr>hvs_roundVoteSets := m\<rparr>)"
      "hvs_core env (hvs\<lparr>hvs_roundVoteSets := m\<rparr>)" "dom m = dom (hvs_roundVoteSets hvs) \<union> set [hvs_round hvs + 1..round]"
    using addRounds_core [OF core] by blast
  have "dom m = {0..round} \<union> catchups hvs"
    unfolding m(3) d using assms(2) r0 by auto
  moreover have "hvs_core env (hvs\<lparr>hvs_roundVoteSets := m, hvs_round := round\<rparr>)"
    using m(2) by (auto simp: hvs_core_def set_ok_def)
  ultimately show ?thesis
    using m(1) assms(2) r0 by (auto simp: SetRound_def hvs_inv_def catchups_def)
qed

lemma NewHeightVoteSet_inv:
  assumes "valset_inv valSet" "powers_ok valSet" "height \<noteq> 0"
  shows "\<exists>hvs. NewHeightVoteSet chainID height valSet = Ret hvs \<and> hvs_inv env hvs \<and> hvs_chainID hvs = chainID \<and>
    hvs_height hvs = height \<and> hvs_valSet hvs = valSet \<and> hvs_peerCatchupRounds hvs = (\<lambda>p. [])"
proof -
  let ?h = "\<lparr>hvs_chainID = chainID, hvs_height = height, hvs_valSet = valSet, hvs_round = 0,
       hvs_roundVoteSets = Map.empty, hvs_peerCatchupRounds = (\<lambda>p. [])\<rparr>"
  have "hvs_core env ?h" using assms by (simp add: hvs_core_def)
  then obtain rvs where "addRound ?h 0 = Ret (?h\<lparr>hvs_roundVoteSets := [0 \<mapsto> rvs]\<rparr>)"
      "hvs_core env (?h\<lparr>hvs_roundVoteSets := [0 \<mapsto> rvs]\<rparr>)"
    using addRound_core [of env ?h 0] by auto
  then show ?thesis by (auto simp: NewHeightVoteSet_def HVS_Reset_def hvs_inv_def catchups_def)
qed

section \<open>Routing votes\<close>

lemma getVoteSet_type:
  assumes "IsVoteTypeValid t"
  shows "getVoteSet hvs r t = Ret (map_option (\<lambda>rvs. if t = VoteTypePrevote then rvs_Prevotes rvs else rvs_Precommits rvs)
    (hvs_roundVoteSets hvs r))"
  using assms by (auto simp: getVoteSet_def IsVoteTypeValid_def split: option.split)

lemma getVoteSet_ok:
  assumes "hvs_core env hvs" "IsVoteTypeValid t" "getVoteSet hvs r t = Ret (Some vs)"
  shows "set_ok env hvs r t vs"
  using assms(3) hvs_coreD(4,5) [OF assms(1)] assms(2) unfolding getVoteSet_type [OF assms(2)]
  by (auto simp: IsVoteTypeValid_def split: if_splits)

lemma putVoteSet_core:
  assumes "hvs_core env hvs" "IsVoteTypeValid t" "hvs_roundVoteSets hvs r \<noteq> None" "set_ok env hvs r t vs"
  shows "hvs_core env (putVoteSet hvs r t vs)" "dom (hvs_roundVoteSets (putVoteSet hvs r t vs)) = dom (hvs_roundVoteSets hvs)"
    "hvs_round (putVoteSet hvs r t vs) = hvs_round hvs" "catchups (putVoteSet hvs r t vs) = catchups hvs"
    "hvs_peerCatchupRounds (putVoteSet hvs r t vs) = hvs_peerCatchupRounds hvs"
    "getVoteSet (putVoteSet hvs r t vs) r t = Ret (Some vs)"
proof -
  obtain rvs where rvs: "hvs_roundVoteSets hvs r = Some rvs" using assms(3) by blast
  show "hvs_core env (putVoteSet hvs r t vs)"
    using core_put [OF assms(1)] hvs_coreD(4,5) [OF assms(1) rvs] assms(2,4) rvs
    by (auto simp: putVoteSet_def IsVoteTypeValid_def)
  show "dom (hvs_roundVoteSets (putVoteSet hvs r t vs)) = dom (hvs_roundVoteSets hvs)"
    using rvs by (auto simp: putVoteSet_def)
  show "hvs_round (putVoteSet hvs r t vs) = hvs_round hvs" "catchups (putVoteSet hvs r t vs) = catchups hvs"
    "hvs_peerCatchupRounds (putVoteSet hvs r t vs) = hvs_peerCatchupRounds hvs"
    using rvs by (simp_all add: putVoteSet_def catchups_def)
  show "getVoteSet (putVoteSet hvs r t vs) r t = Ret (Some vs)"
    unfolding getVoteSet_type [OF assms(2)] using rvs by (simp add: putVoteSet_def)
qed

lemma putVoteSet_inv:
  assumes "hvs_inv env hvs" "IsVoteTypeValid t" "hvs_roundVoteSets hvs r \<noteq> None" "set_ok env hvs r t vs"
  shows "hvs_inv env (putVoteSet hvs r t vs)"
  using assms putVoteSet_core [OF _ assms(2-4)] by (auto simp: hvs_inv_def)

lemma set_ok_advances:
  "set_ok env hvs r t vs \<Longrightarrow> advances env vs vs' \<Longrightarrow> set_ok env hvs r t vs'"
  by (auto simp: set_ok_def advances_def same_set_def)

text \<open>Handing a vote to the set of its round and type.\<close>

lemma route_vote:
  assumes "hvs_inv env hvs" "IsVoteTypeValid (vote_Type v)" "hvs_roundVoteSets hvs (vote_Round v) \<noteq> None"
  obtains vs vs' added err h where "getVoteSet hvs (vote_Round v) (vote_Type v) = Ret (Some vs)"
    "AddVote env (Some vs) (Some v) = Ret (vs', added, err)" "putVoteSet hvs (vote_Round v) (vote_Type v) vs' = h"
    "hvs_inv env h" "hvs_round h = hvs_round hvs" "hvs_peerCatchupRounds h = hvs_peerCatchupRounds hvs"
    "added \<longrightarrow> (\<exists>vs. getVoteSet h (vote_Round v) (vote_Type v) = Ret (Some vs) \<and>
       getVote vs (vote_ValidatorIndex v) (BlockID_Key (vote_BlockID v)) = Ret (Some v))"
proof -
  have core: "hvs_core env hvs" using assms(1) by (simp add: hvs_inv_def)
  obtain vs where vs: "getVoteSet hvs (vote_Round v) (vote_Type v) = Ret (Some vs)"
    using assms(3) by (auto simp: getVoteSet_type [OF assms(2)])
  note ok = getVoteSet_ok [OF core assms(2) vs]
  obtain vs' added err where add: "addVote env vs (Some v) = Ret (vs', added, err)" "advances env vs vs'"
      "outcome_ok env vs (Some v) vs' added err"
    using addVote_spec ok unfolding set_ok_def by blast
  note ok' = set_ok_advances [OF ok add(2)]
  have "hvs_peerCatchupRounds (putVoteSet hvs (vote_Round v) (vote_Type v) vs') = hvs_peerCatchupRounds hvs"
      "hvs_round (putVoteSet hvs (vote_Round v) (vote_Type v) vs') = hvs_round hvs"
    by (simp_all add: putVoteSet_def split: option.split)
  then show ?thesis
    using that [OF vs _ refl] add putVoteSet_inv [OF assms ok'] putVoteSet_core(6) [OF core assms(2,3) ok']
    by (auto simp: AddVote_def outcome_ok_def)
qed

text \<open>Opening a catch-up round for a peer.\<close>

lemma catchup_inv:
  assumes "hvs_inv env hvs" "hvs_roundVoteSets hvs r = None" "length (hvs_peerCatchupRounds hvs p) < 2"
  shows "\<exists>h. addRound hvs r = Ret h \<and>
    hvs_inv env (h\<lparr>hvs_peerCatchupRounds := (hvs_peerCatchupRounds h)(p := hvs_peerCatchupRounds hvs p @ [r])\<rparr>) \<and>
    hvs_roundVoteSets h r \<noteq> None \<and> hvs_peerCatchupRounds h = hvs_peerCatchupRounds hvs \<and> hvs_round h = hvs_round hvs"
proof -
  have core: "hvs_core env hvs" using assms(1) by (simp add: hvs_inv_def)
  obtain rvs where h: "addRound hvs r = Ret (hvs\<lparr>hvs_roundVoteSets := (hvs_roundVoteSets hvs)(r \<mapsto> rvs)\<rparr>)"
      "hvs_core env (hvs\<lparr>hvs_roundVoteSets := (hvs_roundVoteSets hvs)(r \<mapsto> rvs)\<rparr>)" (is "hvs_core env ?h")
    using addRound_core [OF core assms(2)] by blast
  let ?h' = "?h\<lparr>hvs_peerCatchupRounds := (hvs_peerCatchupRounds ?h)(p := hvs_peerCatchupRounds hvs p @ [r])\<rparr>"
  have "hvs_core env ?h'" using h(2) assms(3) by (auto simp: hvs_core_def set_ok_def)
  moreover have "catchups ?h' = insert r (catchups hvs)" by (auto simp: catchups_def split: if_splits)
  ultimately have "hvs_inv env ?h'" using assms(1) by (auto simp: hvs_inv_def)
  with h(1) show ?thesis by simp
qed

lemma HVS_AddVote_spec:
  assumes "hvs_inv env hvs"
  shows "\<exists>h added err. HVS_AddVote env hvs (Some v) peer = Ret (h, added, err) \<and> hvs_inv env h \<and> hvs_round h = hvs_round hvs \<and>
    (\<forall>p. p \<noteq> peer \<longrightarrow> hvs_peerCatchupRounds h p = hvs_peerCatchupRounds hvs p) \<and>
    (added \<longrightarrow> (\<exists>vs. getVoteSet h (vote_Round v) (vote_Type v) = Ret (Some vs) \<and>
       getVote vs (vote_ValidatorIndex v) (BlockID_Key (vote_BlockID v)) = Ret (Some v)))"
  (is "\<exists>h added err. _ \<and> _ \<and> _ \<and> _ \<and> ?stored h added")
proof -
  consider "\<not> IsVoteTypeValid (vote_Type v)"
    | "IsVoteTypeValid (vote_Type v)" "hvs_roundVoteSets hvs (vote_Round v) \<noteq> None"
    | "IsVoteTypeValid (vote_Type v)" "hvs_roundVoteSets hvs (vote_Round v) = None" "length (hvs_peerCatchupRounds hvs peer) < 2"
    | "IsVoteTypeValid (vote_Type v)" "hvs_roundVoteSets hvs (vote_Round v) = None" "\<not> length (hvs_peerCatchupRounds hvs peer) < 2"
    by blast
  then show ?thesis
  proof cases
    case 1
    then show ?thesis using assms by (auto simp: HVS_AddVote_def)
  next
    case 2
    obtain vs vs' added err h where r: "getVoteSet hvs (vote_Round v) (vote_Type v) = Ret (Some vs)"
        "AddVote env (Some vs) (Some v) = Ret (vs', added, err)" "putVoteSet hvs (vote_Round v) (vote_Type v) vs' = h"
        and h: "hvs_inv env h" "hvs_round h = hvs_round hvs" "hvs_peerCatchupRounds h = hvs_peerCatchupRounds hvs" "?stored h added"
      by (rule route_vote [OF assms 2])
    have "HVS_AddVote env hvs (Some v) peer = Ret (h, added, err)" using 2 r by (simp add: HVS_AddVote_def)
    then show ?thesis using h by auto
  next
    case 3
    obtain h where h: "addRound hvs (vote_Round v) = Ret h"
        "hvs_inv env (h\<lparr>hvs_peerCatchupRounds := (hvs_peerCatchupRounds h)(peer := hvs_peerCatchupRounds hvs peer @ [vote_Round v])\<rparr>)"
          (is "hvs_inv env ?h")
        "hvs_roundVoteSets h (vote_Round v) \<noteq> None" "hvs_peerCatchupRounds h = hvs_peerCatchupRounds hvs" "hvs_round h = hvs_round hvs"
      using catchup_inv [OF assms 3(2,3)] by blast
    have "getVoteSet hvs (vote_Round v) (vote_Type v) = Ret None" using 3 by (simp add: getVoteSet_type)
    then have start: "HVS_AddVote env hvs (Some v) peer = go_bind (getVoteSet ?h (vote_Round v) (vote_Type v)) (\<lambda>voteSet.
        go_bind (AddVote env voteSet (Some v)) (\<lambda>(vs', added, err). Ret (putVoteSet ?h (vote_Round v) (vote_Type v) vs', added, err)))"
      using 3 h(1) by (simp add: HVS_AddVote_def Let_def)
    obtain vs vs' added err h' where r: "getVoteSet ?h (vote_Round v) (vote_Type v) = Ret (Some vs)"
        "AddVote env (Some vs) (Some v) = Ret (vs', added, err)" "putVoteSet ?h (vote_Round v) (vote_Type v) vs' = h'"
        and h': "hvs_inv env h'" "hvs_round h' = hvs_round ?h" "hvs_peerCatchupRounds h' = hvs_peerCatchupRounds ?h" "?stored h' added"
      by (rule route_vote [OF h(2) 3(1)]) (use h(3) in simp_all)
    have "HVS_AddVote env hvs (Some v) peer = Ret (h', added, err)" unfolding start r(1) using r(2,3) by simp
    then show ?thesis using h' h(4,5) by auto
  next
    case 4
    then show ?thesis using assms by (auto simp: HVS_AddVote_def getVoteSet_type)
  qed
qed

lemma HVS_SetPeerMaj23_inv:
  assumes "hvs_inv env hvs"
  shows "\<exists>h. HVS_SetPeerMaj23 hvs r t peer b = Ret h \<and> hvs_inv env h \<and> hvs_round h = hvs_round hvs \<and>
    hvs_peerCatchupRounds h = hvs_peerCatchupRounds hvs"
proof (cases "IsVoteTypeValid t \<and> hvs_roundVoteSets hvs r \<noteq> None")
  case False
  then show ?thesis using assms by (auto simp: HVS_SetPeerMaj23_def getVoteSet_type)
next
  case True
  then have t: "IsVoteTypeValid t" and ne: "hvs_roundVoteSets hvs r \<noteq> None" by simp_all
  have core: "hvs_core env hvs" using assms by (simp add: hvs_inv_def)
  obtain vs where vs: "getVoteSet hvs r t = Ret (Some vs)" using ne by (auto simp: getVoteSet_type [OF t])
  note ok = getVoteSet_ok [OF core t vs]
  obtain vs' where vs': "SetPeerMaj23 (Some vs) peer b = Ret vs'" "advances env vs vs'"
    using SetPeerMaj23_inv ok unfolding set_ok_def by blast
  note ok' = set_ok_advances [OF ok vs'(2)]
  show ?thesis
    using vs vs' t putVoteSet_inv [OF assms t ne ok'] putVoteSet_core(3,5) [OF core t ne ok']
    by (simp add: HVS_SetPeerMaj23_def)
qed

section \<open>Runs\<close>

datatype hvs_event = HVote Vote string | HPeerMaj23 int byte string BlockID | HRound nat

definition hvs_step :: "crypto_env \<Rightarrow> HeightVoteSet \<Rightarrow> hvs_event \<Rightarrow> HeightVoteSet go" where
  "hvs_step env hvs e =
     (case e of
        HVote v peer \<Rightarrow> go_bind (HVS_AddVote env hvs (Some v) peer) (\<lambda>(h, added, err). Ret h)
      | HPeerMaj23 r t peer b \<Rightarrow> HVS_SetPeerMaj23 hvs r t peer b
      | HRound n \<Rightarrow> SetRound hvs (int n))"

lemma hvs_step_inv:
  assumes "hvs_inv env hvs" "hvs_step env hvs e = Ret h"
  shows "hvs_inv env h"
proof (cases e)
  case (HVote v peer)
  then show ?thesis using HVS_AddVote_spec [OF assms(1), of v peer] assms(2) by (auto simp: hvs_step_def)
next
  case (HPeerMaj23 r t peer b)
  then show ?thesis using HVS_SetPeerMaj23_inv [OF assms(1), of r t peer b] assms(2) by (auto simp: hvs_step_def)
next
  case (HRound n)
  then have s: "SetRound hvs (int n) = Ret h" using assms(2) by (simp add: hvs_step_def)
  then have "hvs_round hvs = 0 \<and> 0 \<le> int n \<or> hvs_round hvs < int n" by (auto simp: SetRound_def split: if_splits)
  from SetRound_inv [OF assms(1) this] s show ?thesis by auto
qed

interpretation heights: go_machine "hvs_step env" "hvs_inv env" for env
  by unfold_locales (rule hvs_step_inv)

definition event_peers :: "hvs_event list \<Rightarrow> string set" where
  "event_peers es = {p. \<exists>v. HVote v p \<in> set es}"

lemma addRounds_catchup:
  "addRounds hvs rs = Ret h \<Longrightarrow> hvs_peerCatchupRounds h = hvs_peerCatchupRounds hvs"
  by (induction rs arbitrary: hvs) (auto simp: addRound_def go_bind_eq_Ret split: if_splits)

lemma hvs_step_peers:
  assumes "hvs_inv env hvs" "hvs_step env hvs e = Ret h" "hvs_peerCatchupRounds h p \<noteq> []"
  shows "hvs_peerCatchupRounds hvs p \<noteq> [] \<or> (\<exists>v. e = HVote v p)"
proof (cases e)
  case (HVote v peer)
  then show ?thesis using HVS_AddVote_spec [OF assms(1), of v peer] assms(2,3) by (auto simp: hvs_step_def)
next
  case (HPeerMaj23 r t peer b)
  then show ?thesis using HVS_SetPeerMaj23_inv [OF assms(1), of r t peer b] assms(2,3) by (auto simp: hvs_step_def)
next
  case (HRound n)
  then show ?thesis using assms(2,3)
    by (auto simp: hvs_step_def SetRound_def go_bind_eq_Ret dest: addRounds_catchup split: if_splits)
qed

lemma hvs_run_peers:
  assumes "hvs_inv env hvs" "go_run (hvs_step env) hvs es = Ret h" "hvs_peerCatchupRounds h p \<noteq> []"
  shows "hvs_peerCatchupRounds hvs p \<noteq> [] \<or> p \<in> event_peers es"
  using assms
proof (induction es arbitrary: hvs)
  case (Cons e es)
  then obtain h1 where h1: "hvs_step env hvs e = Ret h1" "go_run (hvs_step env) h1 es = Ret h"
    by (auto simp: go_bind_eq_Ret)
  show ?case
    using Cons.IH [OF hvs_step_inv [OF Cons.prems(1) h1(1)] h1(2) Cons.prems(3)]
      hvs_step_peers [OF Cons.prems(1) h1(1)] by (auto simp: event_peers_def)
qed simp

section \<open>Properties\<close>

lemma card_catchups:
  assumes "finite P" "\<And>p. hvs_peerCatchupRounds h p \<noteq> [] \<Longrightarrow> p \<in> P" "\<And>p. length (hvs_peerCatchupRounds h p) \<le> 2"
  shows "finite (catchups h)" "card (catchups h) \<le> 2 * card P"
proof -
  have eq: "catchups h = (\<Union>p \<in> P. set (hvs_peerCatchupRounds h p))"
  proof (rule set_eqI)
    fix r
    have "p \<in> P" if "r \<in> set (hvs_peerCatchupRounds h p)" for p using assms(2) [of p] that by (cases "hvs_peerCatchupRounds h p") auto
    then show "r \<in> catchups h \<longleftrightarrow> r \<in> (\<Union>p \<in> P. set (hvs_peerCatchupRounds h p))" by (auto simp: catchups_def)
  qed
  then show "finite (catchups h)" using assms(1) by simp
  have "card (catchups h) \<le> (\<Sum>p \<in> P. card (set (hvs_peerCatchupRounds h p)))"
    unfolding eq by (rule card_UN_le [OF assms(1)])
  also have "\<dots> \<le> (\<Sum>p \<in> P. 2)"
    using assms(3) card_length order_trans by (intro sum_mono) blast
  finally show "card (catchups h) \<le> 2 * card P" by simp
qed

text \<open>C17: The memory of a height is bounded by the rounds reached and the peers seen: after any run of
  votes, claims of majorities and round changes, the tracked rounds are 0 to the current one and
  those that peers opened, at most two for each peer, whatever the votes of the peers contain.\<close>

theorem tracked_rounds_bounded:
  assumes "valset_inv valSet" "powers_ok valSet" "height \<noteq> 0"
    and "NewHeightVoteSet chainID height valSet = Ret hvs" "go_run (hvs_step env) hvs es = Ret h"
  shows "{0..hvs_round h} \<subseteq> dom (hvs_roundVoteSets h) \<and>
    card (dom (hvs_roundVoteSets h)) \<le> nat (hvs_round h) + 1 + 2 * card (event_peers es)"
proof -
  have new: "hvs_inv env hvs" "hvs_peerCatchupRounds hvs = (\<lambda>p. [])"
    using NewHeightVoteSet_inv [OF assms(1-3), of chainID env] assms(4) by auto
  then have inv: "hvs_inv env h" using heights.run_inv assms(5) by blast
  then have d: "dom (hvs_roundVoteSets h) = {0..hvs_round h} \<union> catchups h" "0 \<le> hvs_round h"
    and core: "hvs_core env h" by (auto simp: hvs_inv_def)
  have "event_peers es \<subseteq> (\<lambda>e. case e of HVote v p \<Rightarrow> p | _ \<Rightarrow> []) ` set es" by (force simp: event_peers_def)
  then have fin: "finite (event_peers es)" by (rule finite_subset) simp
  note c = card_catchups [OF fin, of h]
  have "card (catchups h) \<le> 2 * card (event_peers es)"
    using hvs_run_peers [OF new(1) assms(5)] new(2) hvs_coreD(6) [OF core] by (intro c(2)) auto
  moreover have "card (dom (hvs_roundVoteSets h)) \<le> card {0..hvs_round h} + card (catchups h)"
    unfolding d(1) by (rule card_Un_le)
  ultimately show ?thesis using d by auto
qed

text \<open>C18: A vote handed in never panics, and reaches the set of its own round and type: when it is
  reported as added, the set of that round and type holds it.\<close>

theorem HVS_AddVote_routes:
  assumes "hvs_inv env hvs"
  shows "\<exists>h added err. HVS_AddVote env hvs (Some v) peer = Ret (h, added, err) \<and> hvs_inv env h \<and>
    (added \<longrightarrow> (\<exists>vs. getVoteSet h (vote_Round v) (vote_Type v) = Ret (Some vs) \<and>
       vs_round vs = vote_Round v \<and> vs_type vs = vote_Type v \<and>
       getVote vs (vote_ValidatorIndex v) (BlockID_Key (vote_BlockID v)) = Ret (Some v)))"
proof -
  obtain h added err where h: "HVS_AddVote env hvs (Some v) peer = Ret (h, added, err)" "hvs_inv env h"
      "added \<longrightarrow> (\<exists>vs. getVoteSet h (vote_Round v) (vote_Type v) = Ret (Some vs) \<and>
       getVote vs (vote_ValidatorIndex v) (BlockID_Key (vote_BlockID v)) = Ret (Some v))"
    using HVS_AddVote_spec [OF assms, of v peer] by blast
  have "IsVoteTypeValid (vote_Type v)" if added
    using h(1) that by (auto simp: HVS_AddVote_def split: if_splits)
  moreover have "hvs_core env h" using h(2) by (simp add: hvs_inv_def)
  ultimately have "vs_round vs = vote_Round v \<and> vs_type vs = vote_Type v"
    if added "getVoteSet h (vote_Round v) (vote_Type v) = Ret (Some vs)" for vs
    using getVoteSet_ok that by (auto simp: set_ok_def)
  with h show ?thesis by blast
qed

definition maj_at :: "HeightVoteSet \<Rightarrow> int \<Rightarrow> BlockID option" where
  "maj_at hvs r = (case hvs_roundVoteSets hvs r of None \<Rightarrow> None | Some rvs \<Rightarrow> vs_maj23 (rvs_Prevotes rvs))"

lemma pol_scan_eq:
  "pol_scan hvs rs = Ret (case find (\<lambda>r. maj_at hvs r \<noteq> None) rs of None \<Rightarrow> (- 1, zero_BlockID) | Some r \<Rightarrow> (r, the (maj_at hvs r)))"
proof (induction rs)
  case (Cons r rs)
  have "IsVoteTypeValid VoteTypePrevote" by (simp add: IsVoteTypeValid_def)
  then show ?case using Cons.IH
    by (auto simp: getVoteSet_type TwoThirdsMajority_def maj_at_def split: option.splits)
qed simp

lemma rev_upto_before:
  assumes "rs = rev [0..n]" "i < length rs" "rs ! i = r" "r < x" "x \<le> n" "(0 :: int) \<le> r"
  shows "\<exists>j < i. rs ! j = x"
proof -
  have len: "length rs = nat (n + 1)" using assms(1) by simp
  have nth: "rs ! j = n - int j" if "j < length rs" for j
    using that by (simp add: assms(1) rev_nth nth_upto)
  have "r = n - int i" using nth [OF assms(2)] assms(3) by simp
  then have "nat (n - x) < i" "nat (n - x) < length rs" "rs ! nat (n - x) = x"
    using assms(4-6) len nth [of "nat (n - x)"] by auto
  then show ?thesis by blast
qed

text \<open>C19: POLInfo returns the last round from 0 to the current one whose prevotes have a two-thirds majority, with its
  block, and -1 if there is none. It does not look at the catch-up rounds above the current one: the round it returns
  is the last of all rounds with such a majority exactly if no catch-up round has one.\<close>

theorem POLInfo_is_last:
  "\<exists>r b. POLInfo hvs = Ret (r, b) \<and>
    (r = - 1 \<longrightarrow> b = zero_BlockID \<and> (\<forall>x. 0 \<le> x \<and> x \<le> hvs_round hvs \<longrightarrow> maj_at hvs x = None)) \<and>
    (r \<noteq> - 1 \<longrightarrow> 0 \<le> r \<and> r \<le> hvs_round hvs \<and> maj_at hvs r = Some b \<and>
       (\<forall>x. r < x \<and> x \<le> hvs_round hvs \<longrightarrow> maj_at hvs x = None)) \<and>
    ((\<forall>x. r < x \<longrightarrow> maj_at hvs x = None) \<longleftrightarrow> (\<forall>x. 0 \<le> x \<and> hvs_round hvs < x \<longrightarrow> maj_at hvs x = None))"
proof (cases "find (\<lambda>r. maj_at hvs r \<noteq> None) (rev [0..hvs_round hvs])")
  case None
  then have none: "maj_at hvs x = None" if "0 \<le> x" "x \<le> hvs_round hvs" for x
    using that by (auto simp: find_None_iff)
  have "- 1 < x \<longleftrightarrow> 0 \<le> x" for x :: int by linarith
  then have "(\<forall>x. - 1 < x \<longrightarrow> maj_at hvs x = None) \<longleftrightarrow> (\<forall>x. 0 \<le> x \<and> hvs_round hvs < x \<longrightarrow> maj_at hvs x = None)"
    using none by (metis linorder_not_le)
  with none None show ?thesis by (simp add: POLInfo_def pol_scan_eq)
next
  case (Some r)
  let ?rs = "rev [0..hvs_round hvs]"
  obtain i where i: "i < length ?rs" "?rs ! i = r" "maj_at hvs r \<noteq> None" "\<And>j. j < i \<Longrightarrow> maj_at hvs (?rs ! j) = None"
    using Some by (auto simp: find_Some_iff)
  have "r \<in> set ?rs" using i(1,2) nth_mem by metis
  then have r: "0 \<le> r" "r \<le> hvs_round hvs" by simp_all
  have above: "maj_at hvs x = None" if "r < x" "x \<le> hvs_round hvs" for x
    using rev_upto_before [OF refl i(1,2) that r(1)] i(4) by auto
  then have "(\<forall>x. r < x \<longrightarrow> maj_at hvs x = None) \<longleftrightarrow> (\<forall>x. 0 \<le> x \<and> hvs_round hvs < x \<longrightarrow> maj_at hvs x = None)"
    using r by (metis dual_order.trans linorder_not_le order_less_imp_le order_le_less_trans)
  with Some i(3) r above show ?thesis by (auto simp: POLInfo_def pol_scan_eq)
qed

definition ex_hvs :: HeightVoteSet where
  "ex_hvs = (case NewHeightVoteSet ''c'' 5 ex_vals of Ret h \<Rightarrow> h | Panic p \<Rightarrow>
     \<lparr>hvs_chainID = [], hvs_height = 0, hvs_valSet = ex_vals, hvs_round = 0, hvs_roundVoteSets = Map.empty, hvs_peerCatchupRounds = (\<lambda>p. [])\<rparr>)"

lemma ex_hvs_inv: "hvs_inv ex_env ex_hvs" "NewHeightVoteSet ''c'' 5 ex_vals = Ret ex_hvs"
  using NewHeightVoteSet_inv [OF ex_vals_inv, of 5 "''c''" ex_env] by (auto simp: ex_hvs_def)

theorem HVS_AddVote_routes_witness:
  "\<exists>h added err. HVS_AddVote ex_env ex_hvs (Some ((ex_vote 1 0 (ex_bid 1))\<lparr>vote_Round := 7\<rparr>)) ''peer'' = Ret (h, added, err) \<and> hvs_inv ex_env h"
  using HVS_AddVote_routes [OF ex_hvs_inv(1)] by blast

theorem tracked_rounds_bounded_witness:
  "\<exists>h. go_run (hvs_step ex_env) ex_hvs [HVote ((ex_vote 1 0 (ex_bid 1))\<lparr>vote_Round := 7\<rparr>) ''p'', HRound 2] = Ret h \<and>
     card (dom (hvs_roundVoteSets h)) \<le> nat (hvs_round h) + 1 + 2 * card (event_peers [HVote ((ex_vote 1 0 (ex_bid 1))\<lparr>vote_Round := 7\<rparr>) ''p'', HRound 2])"
proof -
  let ?v = "(ex_vote 1 0 (ex_bid 1))\<lparr>vote_Round := 7\<rparr>"
  obtain h1 added err where h1: "HVS_AddVote ex_env ex_hvs (Some ?v) ''p'' = Ret (h1, added, err)" "hvs_inv ex_env h1"
      "hvs_round h1 = hvs_round ex_hvs"
    using HVS_AddVote_spec [OF ex_hvs_inv(1), of ?v "''p''"] by blast
  have "hvs_round ex_hvs = 0" by code_simp
  then obtain h where "SetRound h1 2 = Ret h" using SetRound_inv [OF h1(2), of 2] h1(3) by auto
  then have "go_run (hvs_step ex_env) ex_hvs [HVote ?v ''p'', HRound 2] = Ret h" using h1(1) by (simp add: hvs_step_def)
  with tracked_rounds_bounded [OF ex_vals_inv _ ex_hvs_inv(2)] show ?thesis by simp
qed

definition ex_prevoted :: HeightVoteSet where
  "ex_prevoted = (case go_run (hvs_step ex_env) ex_hvs
      (map (\<lambda>(k, i). HVote ((ex_vote k i (ex_bid 1))\<lparr>vote_Type := VoteTypePrevote\<rparr>) ''p'') [(1, 0), (2, 1), (3, 2)] @ [HRound 2])
    of Ret h \<Rightarrow> h | Panic p \<Rightarrow> ex_hvs)"

theorem POLInfo_is_last_witness:
  "POLInfo ex_prevoted = Ret (0, ex_bid 1) \<and> hvs_round ex_prevoted = 2 \<and> maj_at ex_prevoted 0 = Some (ex_bid 1) \<and>
     maj_at ex_prevoted 1 = None \<and> maj_at ex_prevoted 2 = None"
proof -
  have "POLInfo ex_prevoted = Ret (0, ex_bid 1)" "hvs_round ex_prevoted = 2" by code_simp+
  then show ?thesis using POLInfo_is_last [of ex_prevoted] by auto
qed

end
