(* ===== verification/Priv_Validator.thy ===== *)
theory Priv_Validator
  imports Block_Types "HOL-Library.Product_Lexorder" "HOL-Library.Countable"
begin

text \<open>
  \<^verbatim>\<open>types/priv_validator.go\<close>: the local signer that must never sign two messages for one height,
  round and step. The signing primitive, the key derivation and the JSON functions are parameters
  (\<open>pv_env\<close>). The state holds the validator in memory, the copy on disk, which a restart reads back,
  and the list of messages handed to the signing primitive, newest first, which the theorems are
  about. The file write of \<^verbatim>\<open>save\<close> is atomic, as the function it calls promises.
\<close>

section \<open>State\<close>

type_synonym priv_key = bytes

record PrivValidatorFS =
  pv_Address :: bytes
  pv_PubKey :: pub_key
  pv_LastHeight :: int
  pv_LastRound :: int
  pv_LastStep :: int
  pv_LastSignature :: signature
  pv_LastSignBytes :: "bytes option"
  pv_PrivKey :: priv_key
  pv_Signer :: priv_key
  pv_filePath :: string
  pv_oldPrivKey :: priv_key

text \<open>\<open>pe_UnmarshalVote\<close> and its companions are \<^verbatim>\<open>json.Unmarshal\<close> and \<^verbatim>\<open>json.Marshal\<close> at the two
  canonical types; \<open>pe_now\<close> is the clock of the timestamp comparison.\<close>

record pv_env =
  pe_crypto :: crypto_env
  pe_PubKey :: "priv_key \<Rightarrow> pub_key"
  pe_Sign :: "priv_key \<Rightarrow> bytes \<Rightarrow> signature"
  pe_UnmarshalVote :: "bytes \<Rightarrow> (string \<times> CanonicalJSONVote) option"
  pe_MarshalVote :: "string \<times> CanonicalJSONVote \<Rightarrow> bytes"
  pe_UnmarshalProposal :: "bytes \<Rightarrow> (string \<times> CanonicalJSONProposal) option"
  pe_MarshalProposal :: "string \<times> CanonicalJSONProposal \<Rightarrow> bytes"
  pe_now :: int

record signer_state =
  ss_pv :: PrivValidatorFS
  ss_disk :: PrivValidatorFS
  ss_log :: "((int \<times> int \<times> int) \<times> bytes) list"
  ss_heartbeats :: "bytes list"

datatype pv_error = ErrHeightRegression | ErrRoundRegression | ErrStepRegression | ErrNoLastSignature | ErrConflictingData

abbreviation (input) stepNone :: int where "stepNone \<equiv> 0"
abbreviation (input) stepPropose :: int where "stepPropose \<equiv> 1"
abbreviation (input) stepPrevote :: int where "stepPrevote \<equiv> 2"
abbreviation (input) stepPrecommit :: int where "stepPrecommit \<equiv> 3"

section \<open>Operations\<close>

definition voteToStep :: "Vote \<Rightarrow> int go" where
  "voteToStep vote =
     (if vote_Type vote = VoteTypePrevote then Ret stepPrevote
      else if vote_Type vote = VoteTypePrecommit then Ret stepPrecommit
      else Panic ''Unknown vote type'')"

definition GenPrivValidatorFS :: "pv_env \<Rightarrow> priv_key \<Rightarrow> string \<Rightarrow> PrivValidatorFS" where
  "GenPrivValidatorFS env privKey filePath =
     \<lparr>pv_Address = env_Address (pe_crypto env) (pe_PubKey env privKey), pv_PubKey = pe_PubKey env privKey,
      pv_LastHeight = 0, pv_LastRound = 0, pv_LastStep = stepNone, pv_LastSignature = [], pv_LastSignBytes = None,
      pv_PrivKey = privKey, pv_Signer = privKey, pv_filePath = filePath, pv_oldPrivKey = privKey\<rparr>"

text \<open>What the file holds: the exported fields, with the original private key.\<close>

definition pv_save :: "PrivValidatorFS \<Rightarrow> PrivValidatorFS go" where
  "pv_save pv =
     (if pv_filePath pv = [] then Panic ''Cannot save PrivValidator: filePath not set''
      else Ret (pv\<lparr>pv_PrivKey := (if pv_oldPrivKey pv \<noteq> [] then pv_oldPrivKey pv else pv_PrivKey pv)\<rparr>))"

definition LoadPrivValidatorFS :: "pv_env \<Rightarrow> string \<Rightarrow> PrivValidatorFS \<Rightarrow> PrivValidatorFS" where
  "LoadPrivValidatorFS env filePath file =
     (let key = pv_PrivKey file in
      file\<lparr>pv_filePath := filePath, pv_Address := env_Address (pe_crypto env) (pe_PubKey env key),
           pv_PubKey := pe_PubKey env key, pv_oldPrivKey := key, pv_Signer := key\<rparr>)"

definition checkHRS :: "PrivValidatorFS \<Rightarrow> int \<Rightarrow> int \<Rightarrow> int \<Rightarrow> (pv_error + bool) go" where
  "checkHRS pv height rnd step =
     (if pv_LastHeight pv > height then Ret (Inl ErrHeightRegression)
      else if pv_LastHeight pv = height then
        (if pv_LastRound pv > rnd then Ret (Inl ErrRoundRegression)
         else if pv_LastRound pv = rnd then
           (if pv_LastStep pv > step then Ret (Inl ErrStepRegression)
            else if pv_LastStep pv = step then
              (if pv_LastSignBytes pv \<noteq> None then
                 (if pv_LastSignature pv = [] then Panic ''privVal: LastSignature is nil but LastSignBytes is not!''
                  else Ret (Inr True))
               else Ret (Inl ErrNoLastSignature))
            else Ret (Inr False))
         else Ret (Inr False))
      else Ret (Inr False))"

definition saveSigned :: "signer_state \<Rightarrow> int \<Rightarrow> int \<Rightarrow> int \<Rightarrow> bytes \<Rightarrow> signature \<Rightarrow> signer_state go" where
  "saveSigned st height rnd step signBytes sig =
     (let pv = (ss_pv st)\<lparr>pv_LastHeight := height, pv_LastRound := rnd, pv_LastStep := step,
                 pv_LastSignature := sig, pv_LastSignBytes := Some signBytes\<rparr>
      in go_bind (pv_save pv) (\<lambda>disk. Ret (st\<lparr>ss_pv := pv, ss_disk := disk\<rparr>)))"

text \<open>\<^verbatim>\<open>Sign\<close> of the default signer; the message is recorded.\<close>

definition pv_Sign :: "pv_env \<Rightarrow> signer_state \<Rightarrow> int \<times> int \<times> int \<Rightarrow> bytes \<Rightarrow> signer_state \<times> signature" where
  "pv_Sign env st hrs msg = (st\<lparr>ss_log := (hrs, msg) # ss_log st\<rparr>, pe_Sign env (pv_Signer (ss_pv st)) msg)"

definition signBytesHRS :: "pv_env \<Rightarrow> signer_state \<Rightarrow> int \<Rightarrow> int \<Rightarrow> int \<Rightarrow> bytes \<Rightarrow> (bytes \<Rightarrow> bytes \<Rightarrow> bool go)
    \<Rightarrow> (signer_state \<times> (pv_error + signature)) go" where
  "signBytesHRS env st height rnd step signBytes checkFn =
     go_bind (checkHRS (ss_pv st) height rnd step) (\<lambda>c.
       case c of Inl err \<Rightarrow> Ret (st, Inl err)
       | Inr sameHRS \<Rightarrow>
           if sameHRS then
             (let lastBytes = (case pv_LastSignBytes (ss_pv st) of Some b \<Rightarrow> b | None \<Rightarrow> []) in
              go_bind (if signBytes = lastBytes then Ret True else checkFn lastBytes signBytes) (\<lambda>ok.
                if ok then Ret (st, Inr (pv_LastSignature (ss_pv st))) else Ret (st, Inl ErrConflictingData)))
           else
             (let (st1, sig) = pv_Sign env st (height, rnd, step) signBytes in
              go_bind (saveSigned st1 height rnd step signBytes sig) (\<lambda>st2. Ret (st2, Inr sig))))"

definition checkVotesOnlyDifferByTimestamp :: "pv_env \<Rightarrow> bytes \<Rightarrow> bytes \<Rightarrow> bool go" where
  "checkVotesOnlyDifferByTimestamp env lastSignBytes newSignBytes =
     (case pe_UnmarshalVote env lastSignBytes of
        None \<Rightarrow> Panic ''LastSignBytes cannot be unmarshalled into vote''
      | Some (lastChain, lastVote) \<Rightarrow>
          (case pe_UnmarshalVote env newSignBytes of
             None \<Rightarrow> Panic ''signBytes cannot be unmarshalled into vote''
           | Some (newChain, newVote) \<Rightarrow>
               (let now = CanonicalTime (pe_now env) in
                Ret (pe_MarshalVote env (newChain, newVote\<lparr>cv_Timestamp := now\<rparr>)
                   = pe_MarshalVote env (lastChain, lastVote\<lparr>cv_Timestamp := now\<rparr>)))))"

definition checkProposalsOnlyDifferByTimestamp :: "pv_env \<Rightarrow> bytes \<Rightarrow> bytes \<Rightarrow> bool go" where
  "checkProposalsOnlyDifferByTimestamp env lastSignBytes newSignBytes =
     (case pe_UnmarshalProposal env lastSignBytes of
        None \<Rightarrow> Panic ''LastSignBytes cannot be unmarshalled into proposal''
      | Some (lastChain, lastProposal) \<Rightarrow>
          (case pe_UnmarshalProposal env newSignBytes of
             None \<Rightarrow> Panic ''signBytes cannot be unmarshalled into proposal''
           | Some (newChain, newProposal) \<Rightarrow>
               (let now = CanonicalTime (pe_now env) in
                Ret (pe_MarshalProposal env (newChain, newProposal\<lparr>cp_Timestamp := now\<rparr>)
                   = pe_MarshalProposal env (lastChain, lastProposal\<lparr>cp_Timestamp := now\<rparr>)))))"

definition SignVote :: "pv_env \<Rightarrow> signer_state \<Rightarrow> string \<Rightarrow> Vote \<Rightarrow> (signer_state \<times> (pv_error + Vote)) go" where
  "SignVote env st chainID vote =
     go_bind (voteToStep vote) (\<lambda>step.
       go_bind (signBytesHRS env st (vote_Height vote) (vote_Round vote) step
           (Vote_SignBytes (pe_crypto env) chainID vote) (checkVotesOnlyDifferByTimestamp env)) (\<lambda>(st', r).
         case r of Inl err \<Rightarrow> Ret (st', Inl err) | Inr sig \<Rightarrow> Ret (st', Inr (vote\<lparr>vote_Signature := sig\<rparr>))))"

definition SignProposal :: "pv_env \<Rightarrow> signer_state \<Rightarrow> string \<Rightarrow> Proposal \<Rightarrow> (signer_state \<times> (pv_error + Proposal)) go" where
  "SignProposal env st chainID proposal =
     go_bind (signBytesHRS env st (prop_Height proposal) (prop_Round proposal) stepPropose
         (Proposal_SignBytes (pe_crypto env) chainID proposal) (checkProposalsOnlyDifferByTimestamp env)) (\<lambda>(st', r).
       case r of Inl err \<Rightarrow> Ret (st', Inl err) | Inr sig \<Rightarrow> Ret (st', Inr (proposal\<lparr>prop_Signature := sig\<rparr>)))"

definition SignHeartbeat :: "pv_env \<Rightarrow> signer_state \<Rightarrow> string \<Rightarrow> Heartbeat \<Rightarrow> signer_state \<times> Heartbeat" where
  "SignHeartbeat env st chainID heartbeat =
     (let msg = Heartbeat_SignBytes (pe_crypto env) chainID heartbeat in
      (st\<lparr>ss_heartbeats := msg # ss_heartbeats st\<rparr>, heartbeat\<lparr>hb_Signature := pe_Sign env (pv_Signer (ss_pv st)) msg\<rparr>))"

text \<open>The two operations that rewind the signer.\<close>

definition pv_Reset :: "signer_state \<Rightarrow> signer_state go" where
  "pv_Reset st =
     (let pv = (ss_pv st)\<lparr>pv_LastHeight := 0, pv_LastRound := 0, pv_LastStep := 0, pv_LastSignature := [], pv_LastSignBytes := None\<rparr>
      in go_bind (pv_save pv) (\<lambda>disk. Ret (st\<lparr>ss_pv := pv, ss_disk := disk\<rparr>)))"

definition ModifyLastHeight :: "signer_state \<Rightarrow> int \<Rightarrow> signer_state go" where
  "ModifyLastHeight st h =
     (let pv = (ss_pv st)\<lparr>pv_LastHeight := h, pv_LastRound := 0, pv_LastStep := 3, pv_LastSignature := [], pv_LastSignBytes := None\<rparr>
      in go_bind (pv_save pv) (\<lambda>disk. Ret (st\<lparr>ss_pv := pv, ss_disk := disk\<rparr>)))"

section \<open>Invariant\<close>

definition pv_hrs :: "PrivValidatorFS \<Rightarrow> int \<times> int \<times> int" where
  "pv_hrs pv = (pv_LastHeight pv, pv_LastRound pv, pv_LastStep pv)"

text \<open>The newest message is the one remembered; the log is strictly descending; the disk holds
  what the memory holds.\<close>

definition signer_inv :: "pv_env \<Rightarrow> priv_key \<Rightarrow> signer_state \<Rightarrow> bool" where
  "signer_inv env key st \<longleftrightarrow>
     pv_filePath (ss_pv st) \<noteq> [] \<and> pv_Signer (ss_pv st) = key \<and> pv_oldPrivKey (ss_pv st) = key \<and> pv_PrivKey (ss_pv st) = key \<and>
     ss_disk st = ss_pv st \<and>
     pv_Address (ss_pv st) = env_Address (pe_crypto env) (pe_PubKey env key) \<and> pv_PubKey (ss_pv st) = pe_PubKey env key \<and>
     sorted_wrt (>) (map fst (ss_log st)) \<and>
     (case ss_log st of
        [] \<Rightarrow> pv_LastSignBytes (ss_pv st) = None
      | (hrs, msg) # _ \<Rightarrow> hrs = pv_hrs (ss_pv st) \<and> pv_LastSignBytes (ss_pv st) = Some msg \<and>
          pv_LastSignature (ss_pv st) = pe_Sign env key msg)"

lemma checkHRS_new:
  "checkHRS pv h r s = Ret (Inr False) \<Longrightarrow> pv_hrs pv < (h, r, s)"
  by (auto simp: checkHRS_def pv_hrs_def less_prod_def split: if_splits)

lemma checkHRS_same:
  "checkHRS pv h r s = Ret (Inr True) \<Longrightarrow> pv_hrs pv = (h, r, s) \<and> pv_LastSignBytes pv \<noteq> None"
  by (auto simp: checkHRS_def pv_hrs_def split: if_splits)

lemma log_bound:
  assumes "signer_inv env key st" "pv_hrs (ss_pv st) < x"
  shows "sorted_wrt (>) (map fst ((x, msg) # ss_log st))"
proof -
  have sorted: "sorted_wrt (>) (map fst (ss_log st))" using assms(1) by (simp add: signer_inv_def)
  have "fst e < x" if e: "e \<in> set (ss_log st)" for e
  proof (cases "ss_log st")
    case Nil
    then show ?thesis using e by simp
  next
    case (Cons f fs)
    have "fst f = pv_hrs (ss_pv st)" using assms(1) Cons by (auto simp: signer_inv_def)
    moreover have "fst e \<le> fst f" using sorted e unfolding Cons by (auto simp: order_less_imp_le)
    ultimately show ?thesis using assms(2) by simp
  qed
  with sorted show ?thesis by auto
qed

lemma signBytesHRS_inv:
  assumes inv: "signer_inv env key st" and run: "signBytesHRS env st h r s msg chk = Ret (st', res)"
  shows "signer_inv env key st'"
    and "\<And>sig. res = Inr sig \<Longrightarrow> \<exists>m rest. ss_log st' = ((h, r, s), m) # rest \<and> sig = pe_Sign env key m"
    and "st' = st \<or> ss_log st' = ((h, r, s), msg) # ss_log st" and "ss_heartbeats st' = ss_heartbeats st"
proof -
  obtain c where c: "checkHRS (ss_pv st) h r s = Ret c" using run by (auto simp: signBytesHRS_def go_bind_eq_Ret)
  consider err where "c = Inl err" | "c = Inr True" | "c = Inr False" by (cases c) auto
  then have "signer_inv env key st' \<and> (\<forall>sig. res = Inr sig \<longrightarrow> (\<exists>m rest. ss_log st' = ((h, r, s), m) # rest \<and> sig = pe_Sign env key m)) \<and>
      (st' = st \<or> ss_log st' = ((h, r, s), msg) # ss_log st) \<and> ss_heartbeats st' = ss_heartbeats st"
  proof cases
    case 1
    then show ?thesis using run c inv by (auto simp: signBytesHRS_def)
  next
    case 2
    then have last: "pv_hrs (ss_pv st) = (h, r, s)" "pv_LastSignBytes (ss_pv st) \<noteq> None" using checkHRS_same c by auto
    then obtain m rest where m: "ss_log st = ((h, r, s), m) # rest" "pv_LastSignature (ss_pv st) = pe_Sign env key m"
      using inv by (auto simp: signer_inv_def split: list.splits)
    show ?thesis using run c 2 inv m by (auto simp: signBytesHRS_def go_bind_eq_Ret Let_def split: if_splits)
  next
    case 3
    have lt: "pv_hrs (ss_pv st) < (h, r, s)" using checkHRS_new c 3 by simp
    note sorted = log_bound [OF inv lt, of msg]
    have st': "st' = st\<lparr>ss_log := ((h, r, s), msg) # ss_log st,
        ss_pv := (ss_pv st)\<lparr>pv_LastHeight := h, pv_LastRound := r, pv_LastStep := s,
          pv_LastSignature := pe_Sign env key msg, pv_LastSignBytes := Some msg\<rparr>,
        ss_disk := (ss_pv st)\<lparr>pv_LastHeight := h, pv_LastRound := r, pv_LastStep := s,
          pv_LastSignature := pe_Sign env key msg, pv_LastSignBytes := Some msg\<rparr>\<rparr>" "res = Inr (pe_Sign env key msg)"
      using run c 3 inv by (auto simp: signBytesHRS_def go_bind_eq_Ret pv_Sign_def saveSigned_def pv_save_def signer_inv_def Let_def)
    then show ?thesis using inv sorted by (simp add: signer_inv_def pv_hrs_def)
  qed
  then show "signer_inv env key st'"
    and "\<And>sig. res = Inr sig \<Longrightarrow> \<exists>m rest. ss_log st' = ((h, r, s), m) # rest \<and> sig = pe_Sign env key m"
    and "st' = st \<or> ss_log st' = ((h, r, s), msg) # ss_log st" and "ss_heartbeats st' = ss_heartbeats st" by blast+
qed

section \<open>Runs with restarts\<close>

text \<open>A restart forgets the memory and loads the file.\<close>

datatype signer_event = SVote string Vote | SProposal string Proposal | SHeartbeat string Heartbeat | SRestart

definition signer_step :: "pv_env \<Rightarrow> signer_state \<Rightarrow> signer_event \<Rightarrow> signer_state go" where
  "signer_step env st e =
     (case e of
        SVote c v \<Rightarrow> go_bind (SignVote env st c v) (\<lambda>(st', r). Ret st')
      | SProposal c p \<Rightarrow> go_bind (SignProposal env st c p) (\<lambda>(st', r). Ret st')
      | SHeartbeat c h \<Rightarrow> Ret (fst (SignHeartbeat env st c h))
      | SRestart \<Rightarrow> Ret (st\<lparr>ss_pv := LoadPrivValidatorFS env (pv_filePath (ss_pv st)) (ss_disk st)\<rparr>))"

definition fresh_signer :: "pv_env \<Rightarrow> priv_key \<Rightarrow> string \<Rightarrow> signer_state" where
  "fresh_signer env key path =
     \<lparr>ss_pv = GenPrivValidatorFS env key path, ss_disk = GenPrivValidatorFS env key path, ss_log = [], ss_heartbeats = []\<rparr>"

text \<open>Every recorded message is a vote or proposal of the recorded height, round and step.\<close>

fun entry_ok :: "pv_env \<Rightarrow> (int \<times> int \<times> int) \<times> bytes \<Rightarrow> bool" where
  "entry_ok env ((h, r, s), msg) =
     ((\<exists>c v. msg = Vote_SignBytes (pe_crypto env) c v \<and> vote_Height v = h \<and> vote_Round v = r \<and> voteToStep v = Ret s) \<or>
      (\<exists>c p. msg = Proposal_SignBytes (pe_crypto env) c p))"

declare entry_ok.simps [simp del]

definition origin_ok :: "pv_env \<Rightarrow> signer_state \<Rightarrow> bool" where
  "origin_ok env st \<longleftrightarrow>
     (\<forall>e \<in> set (ss_log st). entry_ok env e) \<and>
     (\<forall>msg \<in> set (ss_heartbeats st). \<exists>c h. msg = Heartbeat_SignBytes (pe_crypto env) c h)"

lemma origin_cons:
  assumes "origin_ok env st" "st' = st \<or> ss_log st' = e # ss_log st" "ss_heartbeats st' = ss_heartbeats st" "entry_ok env e"
  shows "origin_ok env st'"
  using assms by (auto simp: origin_ok_def)

lemma SignVote_inv:
  assumes "signer_inv env key st" "SignVote env st c v = Ret (st', r)"
  shows "signer_inv env key st'" and "origin_ok env st \<Longrightarrow> origin_ok env st'"
    and "\<And>v'. r = Inr v' \<Longrightarrow> \<exists>s m rest. voteToStep v = Ret s \<and> ss_log st' = ((vote_Height v, vote_Round v, s), m) # rest \<and>
      v' = v\<lparr>vote_Signature := pe_Sign env key m\<rparr>"
proof -
  obtain s st1 res where s: "voteToStep v = Ret s" and hrs1: "signBytesHRS env st (vote_Height v) (vote_Round v) s
      (Vote_SignBytes (pe_crypto env) c v) (checkVotesOnlyDifferByTimestamp env) = Ret (st1, res)"
    and res: "(case res of Inl err \<Rightarrow> Ret (st1, Inl err) | Inr sig \<Rightarrow> Ret (st1, Inr (v\<lparr>vote_Signature := sig\<rparr>))) = Ret (st', r)"
    using assms(2) by (auto simp: SignVote_def go_bind_eq_Ret)
  have "st1 = st'" and r: "r = (case res of Inl err \<Rightarrow> Inl err | Inr sig \<Rightarrow> Inr (v\<lparr>vote_Signature := sig\<rparr>))"
    using res by (cases res; simp)+
  then have hrs: "signBytesHRS env st (vote_Height v) (vote_Round v) s
      (Vote_SignBytes (pe_crypto env) c v) (checkVotesOnlyDifferByTimestamp env) = Ret (st', res)"
    using hrs1 by simp
  note I = signBytesHRS_inv [OF assms(1) hrs]
  show "signer_inv env key st'" by (rule I(1))
  show "origin_ok env st'" if "origin_ok env st"
    using s by (intro origin_cons [OF that I(3,4)]) (auto simp: entry_ok.simps)
  show "\<exists>s m rest. voteToStep v = Ret s \<and> ss_log st' = ((vote_Height v, vote_Round v, s), m) # rest \<and>
      v' = v\<lparr>vote_Signature := pe_Sign env key m\<rparr>" if "r = Inr v'" for v'
    using that r s I(2) by (auto split: sum.splits)
qed

lemma SignProposal_inv:
  assumes "signer_inv env key st" "SignProposal env st c p = Ret (st', r)"
  shows "signer_inv env key st'" and "origin_ok env st \<Longrightarrow> origin_ok env st'"
proof -
  obtain st1 res where hrs1: "signBytesHRS env st (prop_Height p) (prop_Round p) stepPropose
      (Proposal_SignBytes (pe_crypto env) c p) (checkProposalsOnlyDifferByTimestamp env) = Ret (st1, res)"
    and res: "(case res of Inl err \<Rightarrow> Ret (st1, Inl err) | Inr sig \<Rightarrow> Ret (st1, Inr (p\<lparr>prop_Signature := sig\<rparr>))) = Ret (st', r)"
    using assms(2) by (auto simp: SignProposal_def go_bind_eq_Ret)
  have "st1 = st'" using res by (cases res) simp_all
  then have hrs: "signBytesHRS env st (prop_Height p) (prop_Round p) stepPropose
      (Proposal_SignBytes (pe_crypto env) c p) (checkProposalsOnlyDifferByTimestamp env) = Ret (st', res)" using hrs1 by simp
  note I = signBytesHRS_inv [OF assms(1) hrs]
  show "signer_inv env key st'" by (rule I(1))
  show "origin_ok env st'" if "origin_ok env st"
    by (intro origin_cons [OF that I(3,4)]) (auto simp: entry_ok.simps)
qed

lemma signer_step_inv:
  assumes "signer_inv env key st \<and> origin_ok env st" "signer_step env st e = Ret st'"
  shows "signer_inv env key st' \<and> origin_ok env st'"
proof (cases e)
  case (SVote c v)
  then show ?thesis using assms SignVote_inv [of env key st c v st'] by (auto simp: signer_step_def go_bind_eq_Ret)
next
  case (SProposal c p)
  then show ?thesis using assms SignProposal_inv [of env key st c p st'] by (auto simp: signer_step_def go_bind_eq_Ret)
next
  case (SHeartbeat c h)
  then have st': "st' = st\<lparr>ss_heartbeats := Heartbeat_SignBytes (pe_crypto env) c h # ss_heartbeats st\<rparr>"
    using assms(2) by (auto simp: signer_step_def SignHeartbeat_def Let_def)
  show ?thesis using assms(1) unfolding st' by (auto simp: signer_inv_def origin_ok_def split: list.splits)
next
  case SRestart
  then have "st' = st\<lparr>ss_pv := LoadPrivValidatorFS env (pv_filePath (ss_pv st)) (ss_disk st)\<rparr>"
    using assms(2) by (simp add: signer_step_def)
  moreover have "LoadPrivValidatorFS env (pv_filePath (ss_pv st)) (ss_disk st) = ss_pv st"
    using assms(1) by (simp add: signer_inv_def LoadPrivValidatorFS_def Let_def)
  ultimately show ?thesis using assms(1) by simp
qed

interpretation signer: go_machine "signer_step env" "\<lambda>st. signer_inv env key st \<and> origin_ok env st" for env key
  by unfold_locales (rule signer_step_inv)

lemma fresh_signer_inv:
  "path \<noteq> [] \<Longrightarrow> signer_inv env key (fresh_signer env key path) \<and> origin_ok env (fresh_signer env key path)"
  by (simp add: signer_inv_def origin_ok_def fresh_signer_def GenPrivValidatorFS_def)

lemma signer_run:
  "path \<noteq> [] \<Longrightarrow> go_run (signer_step env) (fresh_signer env key path) es = Ret st \<Longrightarrow> signer_inv env key st \<and> origin_ok env st"
  using signer.run_inv fresh_signer_inv by blast

section \<open>Properties\<close>

lemma sorted_log_unique:
  "sorted_wrt (>) (map fst log) \<Longrightarrow> (k, m) \<in> set log \<Longrightarrow> (k, m') \<in> set log \<Longrightarrow> m = (m' :: 'b)" for k :: "'a :: linorder"
  by (induction log) fastforce+

text \<open>C2: A validator never signs twice for one height, round and step, restarts included: whatever it
  is asked to sign, the signing primitive receives its votes and proposals at strictly increasing
  height, round and step, and a vote it returns carries the signature of the one message recorded for
  its height, round and step.\<close>

theorem never_double_signs:
  assumes "path \<noteq> []" "go_run (signer_step env) (fresh_signer env key path) es = Ret st"
  shows "sorted_wrt (>) (map fst (ss_log st)) \<and>
    (\<forall>c v st' v'. SignVote env st c v = Ret (st', Inr v') \<longrightarrow>
       (\<exists>s m. voteToStep v = Ret s \<and> ((vote_Height v, vote_Round v, s), m) \<in> set (ss_log st') \<and>
          (\<forall>m'. ((vote_Height v, vote_Round v, s), m') \<in> set (ss_log st') \<longrightarrow> m' = m) \<and>
          v' = v\<lparr>vote_Signature := pe_Sign env key m\<rparr>))"
proof (intro conjI allI impI)
  have inv: "signer_inv env key st" using signer_run [OF assms] by simp
  then show "sorted_wrt (>) (map fst (ss_log st))" by (simp add: signer_inv_def)
  fix c v st' v' assume "SignVote env st c v = Ret (st', Inr v')"
  note I = SignVote_inv [OF inv this]
  obtain s m rest where l: "voteToStep v = Ret s" "ss_log st' = ((vote_Height v, vote_Round v, s), m) # rest"
      "v' = v\<lparr>vote_Signature := pe_Sign env key m\<rparr>"
    using I(3) by blast
  have "sorted_wrt (>) (map fst (ss_log st'))" using I(1) by (simp add: signer_inv_def)
  then have u: "\<forall>m'. ((vote_Height v, vote_Round v, s), m') \<in> set (ss_log st') \<longrightarrow> m' = m"
    using sorted_log_unique [of "ss_log st'"] l(2) by (metis list.set_intros(1))
  have "((vote_Height v, vote_Round v, s), m) \<in> set (ss_log st')" using l(2) by simp
  with l(1,3) u show "\<exists>s m. voteToStep v = Ret s \<and> ((vote_Height v, vote_Round v, s), m) \<in> set (ss_log st') \<and>
      (\<forall>m'. ((vote_Height v, vote_Round v, s), m') \<in> set (ss_log st') \<longrightarrow> m' = m) \<and> v' = v\<lparr>vote_Signature := pe_Sign env key m\<rparr>"
    by blast
qed

text \<open>C20: An honest validator cannot be framed: if signatures of its key exist only for messages it
  signed, and the canonical encoding of sign bytes is injective, then no duplicate-vote evidence
  against it verifies, for any chain, after any run.\<close>

theorem no_evidence_against_honest_signer:
  assumes "path \<noteq> []" "go_run (signer_step env) (fresh_signer env key path) es = Ret st"
    and inj: "inj (env_WriteJSON (pe_crypto env))"
    and unforgeable: "\<forall>m sig. env_VerifyBytes (pe_crypto env) (pe_PubKey env key) m sig \<longrightarrow>
      m \<in> snd ` set (ss_log st) \<union> set (ss_heartbeats st)"
    and own: "dve_PubKey dve = pe_PubKey env key"
  shows "dve_Verify (pe_crypto env) chainID dve \<noteq> None"
proof
  assume ok: "dve_Verify (pe_crypto env) chainID dve = None"
  let ?a = "dve_VoteA dve" and ?b = "dve_VoteB dve"
  have same: "vote_Height ?a = vote_Height ?b" "vote_Round ?a = vote_Round ?b" "vote_Type ?a = vote_Type ?b"
      "vote_BlockID ?a \<noteq> vote_BlockID ?b"
    and sig: "env_VerifyBytes (pe_crypto env) (pe_PubKey env key) (Vote_SignBytes (pe_crypto env) chainID ?a) (vote_Signature ?a)"
      "env_VerifyBytes (pe_crypto env) (pe_PubKey env key) (Vote_SignBytes (pe_crypto env) chainID ?b) (vote_Signature ?b)"
    using ok own by (auto simp: dve_Verify_def Let_def split: if_splits)
  have inv: "signer_inv env key st" "origin_ok env st" using signer_run [OF assms(1,2)] by auto
  have once: "x = y" if "env_WriteJSON (pe_crypto env) x = env_WriteJSON (pe_crypto env) y" for x y
    using injD [OF inj that] .
  have logged: "\<exists>s. voteToStep w = Ret s \<and> ((vote_Height w, vote_Round w, s), Vote_SignBytes (pe_crypto env) chainID w) \<in> set (ss_log st)"
    if w: "env_VerifyBytes (pe_crypto env) (pe_PubKey env key) (Vote_SignBytes (pe_crypto env) chainID w) sg" for w sg
  proof -
    let ?m = "Vote_SignBytes (pe_crypto env) chainID w"
    have "?m \<notin> set (ss_heartbeats st)"
      using inv(2) once by (force simp: origin_ok_def Vote_SignBytes_def Heartbeat_SignBytes_def)
    then obtain h r s where e: "((h, r, s), ?m) \<in> set (ss_log st)" using unforgeable w by fastforce
    have "?m \<noteq> Proposal_SignBytes (pe_crypto env) c p" for c p
      using once by (force simp: Vote_SignBytes_def Proposal_SignBytes_def)
    then obtain c v where v: "?m = Vote_SignBytes (pe_crypto env) c v" "vote_Height v = h" "vote_Round v = r" "voteToStep v = Ret s"
      using inv(2) e unfolding origin_ok_def by (metis entry_ok.simps)
    then have "CanonicalVote w = CanonicalVote v" using once by (auto simp: Vote_SignBytes_def)
    then have w: "vote_Height w = h" "vote_Round w = r" "vote_Type w = vote_Type v"
      using v(2,3) by (simp_all add: CanonicalVote_def)
    have "voteToStep w = Ret s" using v(4) unfolding voteToStep_def w(3) .
    with w e show ?thesis by blast
  qed
  have "Vote_SignBytes (pe_crypto env) chainID ?a = Vote_SignBytes (pe_crypto env) chainID ?b"
    using logged [OF sig(1)] logged [OF sig(2)] same(1-3) inv(1)
    by (auto simp: signer_inv_def voteToStep_def dest: sorted_log_unique split: if_splits)
  then have "CanonicalBlockID (vote_BlockID ?a) = CanonicalBlockID (vote_BlockID ?b)"
    using once by (auto simp: Vote_SignBytes_def CanonicalVote_def)
  then show False using same(4) by (auto simp: CanonicalBlockID_def CanonicalPartSetHeader_def)
qed

text \<open>A toy scheme for the examples: the canonical message is printed field by field, a signature is the
  key, a tag and the message.\<close>

definition toy_json :: "CanonicalJSONOnce \<Rightarrow> bytes" where
  "toy_json c = (case c of
     CanonicalJSONOnceVote chain v \<Rightarrow>
       [1] @ WriteVarint (cv_Height v) @ WriteVarint (cv_Round v) @ WriteVarint (cv_Timestamp v) @ [cv_Type v] @ cbid_Hash (cv_BlockID v)
   | CanonicalJSONOnceProposal chain p \<Rightarrow> [2] | CanonicalJSONOnceHeartbeat chain h \<Rightarrow> [3])"

definition toy_env :: pv_env where
  "toy_env = \<lparr>pe_crypto = \<lparr>env_Address = (\<lambda>pk. pk), env_VerifyBytes = (\<lambda>pk msg sig. sig = pk @ [0] @ msg), env_WriteJSON = toy_json\<rparr>,
     pe_PubKey = (\<lambda>k. k), pe_Sign = (\<lambda>k m. k @ [0] @ m),
     pe_UnmarshalVote = (\<lambda>bz. case bz of b # r \<Rightarrow>
       (case ReadVarint r 0 of Inr (h, r1, n1) \<Rightarrow> (case ReadVarint r1 n1 of Inr (rd, r2, n2) \<Rightarrow>
         (case ReadVarint r2 n2 of Inr (ts, t # hash, n3) \<Rightarrow>
           Some ([], \<lparr>cv_BlockID = \<lparr>cbid_Hash = hash, cbid_PartsHeader = \<lparr>cpsh_Hash = [], cpsh_Total = 0\<rparr>\<rparr>,
             cv_Height = h, cv_Round = rd, cv_Timestamp = ts, cv_Type = t\<rparr>) | _ \<Rightarrow> None) | _ \<Rightarrow> None) | _ \<Rightarrow> None) | _ \<Rightarrow> None),
     pe_MarshalVote = (\<lambda>(chain, v). toy_json (CanonicalJSONOnceVote chain v)),
     pe_UnmarshalProposal = (\<lambda>bz. None), pe_MarshalProposal = (\<lambda>(chain, p). [2]), pe_now = 0\<rparr>"

definition toy_vote :: "int \<Rightarrow> Vote" where
  "toy_vote ts = \<lparr>vote_ValidatorAddress = [7], vote_ValidatorIndex = 0, vote_Height = 1, vote_Round = 0, vote_Timestamp = ts,
     vote_Type = VoteTypePrevote, vote_BlockID = zero_BlockID, vote_Signature = []\<rparr>"

theorem never_double_signs_witness:
  "\<exists>st. go_run (signer_step toy_env) (fresh_signer toy_env [7] ''f'') [SVote ''c'' (toy_vote 0), SRestart, SVote ''c'' (toy_vote 5000000)] = Ret st \<and>
     sorted_wrt (>) (map fst (ss_log st))"
proof -
  let ?run = "go_run (signer_step toy_env) (fresh_signer toy_env [7] ''f'') [SVote ''c'' (toy_vote 0), SRestart, SVote ''c'' (toy_vote 5000000)]"
  have "go_bind ?run (\<lambda>st. Ret (length (ss_log st))) = Ret 1" by code_simp
  then obtain st where st: "?run = Ret st" by (auto simp: go_bind_eq_Ret)
  with never_double_signs [OF _ st] show ?thesis by blast
qed

text \<open>An injective encoder, for the witness of the framing property.\<close>

definition once_code :: "CanonicalJSONOnce \<Rightarrow>
    (string \<times> bytes \<times> bytes \<times> int \<times> int \<times> int \<times> int \<times> byte) +
    ((string \<times> bytes \<times> int \<times> int \<times> bytes \<times> bytes \<times> int \<times> int \<times> int \<times> int) + (string \<times> int \<times> int \<times> int \<times> bytes \<times> int))" where
  "once_code c = (case c of
     CanonicalJSONOnceVote s v \<Rightarrow> Inl (s, cbid_Hash (cv_BlockID v), cpsh_Hash (cbid_PartsHeader (cv_BlockID v)),
       cpsh_Total (cbid_PartsHeader (cv_BlockID v)), cv_Height v, cv_Round v, cv_Timestamp v, cv_Type v)
   | CanonicalJSONOnceProposal s p \<Rightarrow> Inr (Inl (s, cpsh_Hash (cp_BlockPartsHeader p), cpsh_Total (cp_BlockPartsHeader p), cp_Height p,
       cbid_Hash (cp_POLBlockID p), cpsh_Hash (cbid_PartsHeader (cp_POLBlockID p)), cpsh_Total (cbid_PartsHeader (cp_POLBlockID p)),
       cp_POLRound p, cp_Round p, cp_Timestamp p))
   | CanonicalJSONOnceHeartbeat s h \<Rightarrow> Inr (Inr (s, ch_Height h, ch_Round h, ch_Sequence h, ch_ValidatorAddress h, ch_ValidatorIndex h)))"

lemma once_code_inj: "inj once_code"
  by (rule injI) (auto simp: once_code_def split: CanonicalJSONOnce.splits)

definition code_json :: "CanonicalJSONOnce \<Rightarrow> bytes" where
  "code_json c = replicate (to_nat (once_code c)) 0"

lemma code_json_inj: "inj code_json"
  using once_code_inj by (auto simp: code_json_def inj_def dest: arg_cong [where f = length])

definition code_env :: pv_env where
  "code_env = toy_env\<lparr>pe_crypto := \<lparr>env_Address = (\<lambda>pk. pk),
     env_VerifyBytes = (\<lambda>pk msg sig. msg = code_json (CanonicalJSONOnceVote ''c'' (CanonicalVote (toy_vote 0))) \<and> sig = pk @ [0] @ msg),
     env_WriteJSON = code_json\<rparr>\<rparr>"

theorem no_evidence_against_honest_signer_witness:
  "dve_Verify (pe_crypto code_env) ''c'' \<lparr>dve_PubKey = [7], dve_VoteA = toy_vote 0, dve_VoteB = (toy_vote 0)\<lparr>vote_BlockID := ex_bid 1\<rparr>\<rparr> \<noteq> None"
proof -
  have "\<exists>st. go_run (signer_step code_env) (fresh_signer code_env [7] ''f'') [SVote ''c'' (toy_vote 0)] = Ret st \<and>
      ss_log st = [((1, 0, 2), code_json (CanonicalJSONOnceVote ''c'' (CanonicalVote (toy_vote 0))))]"
    by (simp add: signer_step_def SignVote_def voteToStep_def toy_vote_def signBytesHRS_def checkHRS_def fresh_signer_def
        GenPrivValidatorFS_def pv_Sign_def saveSigned_def pv_save_def Let_def Vote_SignBytes_def code_env_def)
  then obtain st where st: "go_run (signer_step code_env) (fresh_signer code_env [7] ''f'') [SVote ''c'' (toy_vote 0)] = Ret st"
      "ss_log st = [((1, 0, 2), code_json (CanonicalJSONOnceVote ''c'' (CanonicalVote (toy_vote 0))))]" by blast
  show ?thesis
    by (rule no_evidence_against_honest_signer [OF _ st(1)])
      (use st(2) code_json_inj in \<open>simp_all add: code_env_def toy_env_def\<close>)
qed

text \<open>C23: Signing a vote again with another timestamp: after any run of the signer, when the last message it signed is
  a vote and it is asked to sign that vote with a different timestamp, it returns its old signature, as documented, on a
  vote that carries the new timestamp. The vote it hands back verifies under its own key exactly if the two timestamps
  agree to the millisecond; otherwise every peer rejects it as wrongly signed. The JSON codec inverts the encoder, and a
  signature is never empty and verifies for the message it was made for and for no other.\<close>

theorem resigned_vote_verifies_iff:
  assumes run: "path \<noteq> []" "go_run (signer_step env) (fresh_signer env key path) es = Ret st"
    and last: "ss_log st = ((vote_Height v, vote_Round v, s), Vote_SignBytes (pe_crypto env) c v) # rest" "voteToStep v = Ret s"
    and codec: "\<And>x. pe_UnmarshalVote env (env_WriteJSON (pe_crypto env) (CanonicalJSONOnceVote c x)) = Some (c, x)"
    and sig: "\<And>m. pe_Sign env key m \<noteq> []" "\<And>m m'. env_VerifyBytes (pe_crypto env) (pe_PubKey env key) m' (pe_Sign env key m) \<longleftrightarrow> m' = m"
    and own: "vote_ValidatorAddress v = env_Address (pe_crypto env) (pe_PubKey env key)"
  shows "\<exists>w. SignVote env st c (v\<lparr>vote_Timestamp := ts\<rparr>) = Ret (st, Inr w) \<and> vote_Timestamp w = ts \<and>
    vote_Signature w = pe_Sign env key (Vote_SignBytes (pe_crypto env) c v) \<and>
    Vote_Verify (pe_crypto env) c (pe_PubKey env key) w =
      (if CanonicalTime ts = CanonicalTime (vote_Timestamp v) then None else Some ErrVoteInvalidSignature)"
proof -
  let ?v = "v\<lparr>vote_Timestamp := ts\<rparr>" and ?m = "Vote_SignBytes (pe_crypto env) c v"
  let ?w = "?v\<lparr>vote_Signature := pe_Sign env key ?m\<rparr>"
  have inv: "signer_inv env key st" using signer_run [OF run] by simp
  then have pv: "pv_hrs (ss_pv st) = (vote_Height v, vote_Round v, s)" "pv_LastSignBytes (ss_pv st) = Some ?m"
      "pv_LastSignature (ss_pv st) = pe_Sign env key ?m"
    using last(1) by (auto simp: signer_inv_def)
  have "voteToStep ?v = voteToStep v" by (simp add: voteToStep_def)
  then have step: "voteToStep ?v = Ret s" using last(2) by simp
  have "checkHRS (ss_pv st) (vote_Height v) (vote_Round v) s = Ret (Inr True)"
    using pv sig(1) by (simp add: checkHRS_def pv_hrs_def)
  moreover have "checkVotesOnlyDifferByTimestamp env ?m (Vote_SignBytes (pe_crypto env) c ?v) = Ret True"
    by (simp add: checkVotesOnlyDifferByTimestamp_def Vote_SignBytes_def codec CanonicalVote_def Let_def)
  ultimately have sign: "SignVote env st c ?v = Ret (st, Inr ?w)"
    using step pv(2,3) by (simp add: SignVote_def signBytesHRS_def Let_def)
  have "Vote_SignBytes (pe_crypto env) c ?w = ?m \<longleftrightarrow> CanonicalVote ?w = CanonicalVote v"
    using codec [of "CanonicalVote ?w"] codec [of "CanonicalVote v"] by (auto simp: Vote_SignBytes_def)
  then have "Vote_SignBytes (pe_crypto env) c ?w = ?m \<longleftrightarrow> CanonicalTime ts = CanonicalTime (vote_Timestamp v)"
    by (simp add: CanonicalVote_def)
  then show ?thesis using sign own sig(2) by (simp add: Vote_Verify_def)
qed

text \<open>A codec that inverts the encoder on votes.\<close>

definition code_vote :: "bytes \<Rightarrow> (string \<times> CanonicalJSONVote) option" where
  "code_vote bz = (case from_nat (length bz) of
     Inl (s, h, ph, pt, height, rnd, ts, ty) \<Rightarrow> Some (s, \<lparr>cv_BlockID = \<lparr>cbid_Hash = h, cbid_PartsHeader = \<lparr>cpsh_Hash = ph, cpsh_Total = pt\<rparr>\<rparr>,
       cv_Height = height, cv_Round = rnd, cv_Timestamp = ts, cv_Type = ty\<rparr>)
   | Inr (x :: (string \<times> bytes \<times> int \<times> int \<times> bytes \<times> bytes \<times> int \<times> int \<times> int \<times> int) + (string \<times> int \<times> int \<times> int \<times> bytes \<times> int)) \<Rightarrow> None)"

lemma code_vote_json: "code_vote (code_json (CanonicalJSONOnceVote c x)) = Some (c, x)"
  by (simp add: code_vote_def code_json_def once_code_def)

definition codec_env :: pv_env where
  "codec_env = toy_env\<lparr>pe_crypto := (pe_crypto toy_env)\<lparr>env_WriteJSON := code_json\<rparr>, pe_UnmarshalVote := code_vote\<rparr>"

theorem resigned_vote_verifies_iff_witness:
  "\<exists>st w. go_run (signer_step codec_env) (fresh_signer codec_env [7] ''f'') [SVote ''c'' (toy_vote 0)] = Ret st \<and>
     SignVote codec_env st ''c'' (toy_vote 5000000) = Ret (st, Inr w) \<and>
     Vote_Verify (pe_crypto codec_env) ''c'' [7] w = Some ErrVoteInvalidSignature"
proof -
  have "\<exists>st. go_run (signer_step codec_env) (fresh_signer codec_env [7] ''f'') [SVote ''c'' (toy_vote 0)] = Ret st \<and>
      ss_log st = [((1, 0, 2), Vote_SignBytes (pe_crypto codec_env) ''c'' (toy_vote 0))]"
    by (simp add: signer_step_def SignVote_def voteToStep_def toy_vote_def signBytesHRS_def checkHRS_def fresh_signer_def
        GenPrivValidatorFS_def pv_Sign_def saveSigned_def pv_save_def Let_def)
  then obtain st where st: "go_run (signer_step codec_env) (fresh_signer codec_env [7] ''f'') [SVote ''c'' (toy_vote 0)] = Ret st"
      "ss_log st = [((1, 0, 2), Vote_SignBytes (pe_crypto codec_env) ''c'' (toy_vote 0))]" by blast
  have "\<exists>w. SignVote codec_env st ''c'' ((toy_vote 0)\<lparr>vote_Timestamp := 5000000\<rparr>) = Ret (st, Inr w) \<and> vote_Timestamp w = 5000000 \<and>
    vote_Signature w = pe_Sign codec_env [7] (Vote_SignBytes (pe_crypto codec_env) ''c'' (toy_vote 0)) \<and>
    Vote_Verify (pe_crypto codec_env) ''c'' (pe_PubKey codec_env [7]) w =
      (if CanonicalTime 5000000 = CanonicalTime (vote_Timestamp (toy_vote 0)) then None else Some ErrVoteInvalidSignature)"
    by (rule resigned_vote_verifies_iff [OF _ st(1), where s = 2 and rest = "[]"])
      (use st(2) in \<open>auto simp: toy_vote_def voteToStep_def codec_env_def toy_env_def code_vote_json\<close>)
  then obtain w where "SignVote codec_env st ''c'' ((toy_vote 0)\<lparr>vote_Timestamp := 5000000\<rparr>) = Ret (st, Inr w)"
      "Vote_Verify (pe_crypto codec_env) ''c'' (pe_PubKey codec_env [7]) w = Some ErrVoteInvalidSignature"
    by (auto simp: CanonicalTime_def toy_vote_def)
  then show ?thesis using st(1) by (auto simp: toy_vote_def codec_env_def toy_env_def)
qed

end
