(* ===== verification/Big_Math.thy ===== *)
theory Big_Math
  imports Go_Prelude
begin

text \<open>
  Integers of the Ethereum side: the functions of \<^verbatim>\<open>math/big\<close> that the code calls,
  \<^verbatim>\<open>common/math/big.go\<close>, \<^verbatim>\<open>common/math/integer.go\<close>, the byte-string conversions of
  \<^verbatim>\<open>common/bytes.go\<close> and \<^verbatim>\<open>common/types.go\<close>, and the fee schedule of \<^verbatim>\<open>common/lkfee.go\<close>.
  A \<^verbatim>\<open>big.Int\<close> is an \<open>int\<close> (two's complement for the bitwise operations, as in Go); a
  \<^verbatim>\<open>uint64\<close> is a \<open>64 word\<close>, whose arithmetic wraps. An \<^verbatim>\<open>Address\<close> is its 160-bit value, a
  \<^verbatim>\<open>Hash\<close> its 256-bit value. Functions of the source that overwrite their argument are
  modelled by the value they leave there.
\<close>

unbundle bit_operations_syntax

type_synonym uint64 = "64 word"
type_synonym address = "160 word"
type_synonym hash = "256 word"

section \<open>Functions of math/big\<close>

fun bit_len :: "nat \<Rightarrow> nat" where
  "bit_len n = (if n = 0 then 0 else Suc (bit_len (n div 2)))"

declare bit_len.simps [simp del]

definition BitLen :: "int \<Rightarrow> nat" where
  "BitLen x = bit_len (nat \<bar>x\<bar>)"

definition Big_Uint64 :: "int \<Rightarrow> uint64" where
  "Big_Uint64 x = word_of_int \<bar>x\<bar>"

definition Big_Int64 :: "int \<Rightarrow> int" where
  "Big_Int64 x = sint (word_of_int x :: uint64)"

text \<open>Euclidean division and modulus, as \<^verbatim>\<open>Div\<close> and \<^verbatim>\<open>Mod\<close> compute them.\<close>

definition Big_Div :: "int \<Rightarrow> int \<Rightarrow> int" where
  "Big_Div x y = (if 0 \<le> y then x div y else - (x div (- y)))"

definition Big_Mod :: "int \<Rightarrow> int \<Rightarrow> int" where
  "Big_Mod x y = x mod \<bar>y\<bar>"

text \<open>\<open>big_Bits\<close>: the absolute value as 64-bit digits, least significant first, without leading zeros.\<close>

fun nat_Bits :: "nat \<Rightarrow> uint64 list" where
  "nat_Bits n = (if n = 0 then [] else word_of_nat n # nat_Bits (n div 2 ^ 64))"

declare nat_Bits.simps [simp del]

definition big_Bits :: "int \<Rightarrow> uint64 list" where
  "big_Bits x = nat_Bits (nat \<bar>x\<bar>)"

text \<open>\<open>be_int\<close> is \<^verbatim>\<open>SetBytes\<close>; \<open>be_bytes n\<close> is the big-endian form of \<open>n\<close> bytes that fixed-size
  byte arrays hold.\<close>

definition be_int :: "bytes \<Rightarrow> int" where
  "be_int bs = foldl (\<lambda>a b. a * 256 + uint b) 0 bs"

fun be_bytes :: "nat \<Rightarrow> int \<Rightarrow> bytes" where
  "be_bytes 0 x = []"
| "be_bytes (Suc n) x = be_bytes n (x div 256) @ [word_of_int x]"

section \<open>common/math\<close>

definition tt255 :: int where "tt255 = 2 ^ 255"
definition tt256 :: int where "tt256 = 2 ^ 256"
definition tt256m1 :: int where "tt256m1 = tt256 - 1"

definition BigMax :: "int \<Rightarrow> int \<Rightarrow> int" where
  "BigMax x y = (if x < y then y else x)"

definition BigMin :: "int \<Rightarrow> int \<Rightarrow> int" where
  "BigMin x y = (if x > y then y else x)"

definition U256 :: "int \<Rightarrow> int" where
  "U256 x = x AND tt256m1"

definition S256 :: "int \<Rightarrow> int" where
  "S256 x = (if x < tt255 then x else x - tt256)"

text \<open>\<open>exp_word\<close> is the inner loop of \<^verbatim>\<open>Exp\<close>, over the bits of one digit; it returns the result and
  the base squared on.\<close>

fun exp_word :: "nat \<Rightarrow> uint64 \<Rightarrow> int \<Rightarrow> int \<Rightarrow> int \<times> int" where
  "exp_word 0 word result base = (result, base)"
| "exp_word (Suc i) word result base =
     exp_word i (drop_bit 1 word) (if word AND 1 = 1 then U256 (result * base) else result) (U256 (base * base))"

fun exp_words :: "uint64 list \<Rightarrow> int \<Rightarrow> int \<Rightarrow> int" where
  "exp_words [] result base = result"
| "exp_words (word # ws) result base =
     (case exp_word 64 word result base of (result', base') \<Rightarrow> exp_words ws result' base')"

definition Exp :: "int \<Rightarrow> int \<Rightarrow> int" where
  "Exp base exponent = exp_words (big_Bits exponent) 1 base"

definition bigEndianByteAt :: "int \<Rightarrow> nat \<Rightarrow> byte" where
  "bigEndianByteAt bigint n =
     (let words = big_Bits bigint; i = n div 8 in
      if i \<ge> length words then 0 else ucast (drop_bit (8 * (n mod 8)) (words ! i)))"

definition Byte :: "int \<Rightarrow> nat \<Rightarrow> nat \<Rightarrow> byte" where
  "Byte bigint padlength n = (if n \<ge> padlength then 0 else bigEndianByteAt bigint (padlength - 1 - n))"

text \<open>\<open>read_word\<close> is the inner loop of \<^verbatim>\<open>ReadBits\<close>: at most the given number of bytes of the digit
  \<open>d\<close>, written downwards from index \<open>i\<close>.\<close>

fun read_word :: "nat \<Rightarrow> uint64 \<Rightarrow> nat \<Rightarrow> bytes \<Rightarrow> nat \<times> bytes" where
  "read_word 0 d i buf = (i, buf)"
| "read_word (Suc j) d i buf =
     (if i = 0 then (i, buf) else read_word j (drop_bit 8 d) (i - 1) (buf[i - 1 := ucast d]))"

fun read_words :: "uint64 list \<Rightarrow> nat \<Rightarrow> bytes \<Rightarrow> bytes" where
  "read_words [] i buf = buf"
| "read_words (d # ds) i buf = (case read_word 8 d i buf of (i', buf') \<Rightarrow> read_words ds i' buf')"

definition ReadBits :: "int \<Rightarrow> bytes \<Rightarrow> bytes" where
  "ReadBits bigint buf = read_words (big_Bits bigint) (length buf) buf"

definition PaddedBigBytes :: "int \<Rightarrow> nat \<Rightarrow> bytes" where
  "PaddedBigBytes bigint n =
     (if BitLen bigint div 8 \<ge> n then be_bytes ((BitLen bigint + 7) div 8) \<bar>bigint\<bar>
      else ReadBits bigint (replicate n 0))"

definition SafeSub :: "uint64 \<Rightarrow> uint64 \<Rightarrow> uint64 \<times> bool" where
  "SafeSub x y = (x - y, x < y)"

definition SafeAdd :: "uint64 \<Rightarrow> uint64 \<Rightarrow> uint64 \<times> bool" where
  "SafeAdd x y = (x + y, y > 18446744073709551615 - x)"

definition SafeMul :: "uint64 \<Rightarrow> uint64 \<Rightarrow> uint64 \<times> bool" where
  "SafeMul x y = (if x = 0 \<or> y = 0 then (0, False) else (x * y, y > 18446744073709551615 div x))"

section \<open>common\<close>

abbreviation (input) Big256 :: int where "Big256 \<equiv> 0xff"
abbreviation (input) Big257 :: int where "Big257 \<equiv> 257"

definition RightPadBytes :: "bytes \<Rightarrow> nat \<Rightarrow> bytes" where
  "RightPadBytes bs l = (if l \<le> length bs then bs else bs @ replicate (l - length bs) 0)"

definition LeftPadBytes :: "bytes \<Rightarrow> nat \<Rightarrow> bytes" where
  "LeftPadBytes bs l = (if l \<le> length bs then bs else replicate (l - length bs) 0 @ bs)"

text \<open>The last 32 (20) bytes of the argument, padded on the left with zeros.\<close>

definition BytesToHash :: "bytes \<Rightarrow> hash" where
  "BytesToHash b = word_of_int (be_int (drop (length b - 32) b))"

definition BytesToAddress :: "bytes \<Rightarrow> address" where
  "BytesToAddress b = word_of_int (be_int (drop (length b - 20) b))"

definition BigToHash :: "int \<Rightarrow> hash" where
  "BigToHash b = word_of_int \<bar>b\<bar>"

definition BigToAddress :: "int \<Rightarrow> address" where
  "BigToAddress b = word_of_int \<bar>b\<bar>"

definition Hash_Bytes :: "hash \<Rightarrow> bytes" where
  "Hash_Bytes h = be_bytes 32 (uint h)"

section \<open>common/lkfee.go\<close>

definition MaxGasLimit :: int where "MaxGasLimit = 5000000000"
definition MinGasLimit :: int where "MinGasLimit = 500000"
definition everLiankeFee :: int where "everLiankeFee = 50000"
definition gasToLiankeRate :: int where "gasToLiankeRate = 10000000"
definition gasPrice :: int where "gasPrice = 100000000000"

definition CalNewFee :: "int \<Rightarrow> uint64" where
  "CalNewFee v =
     (let lianke = gasPrice * gasToLiankeRate;
          liankeCount = (if Big_Uint64 (Big_Mod v lianke) \<noteq> 0 then Big_Div v lianke + 1 else Big_Div v lianke);
          calFeeGas = everLiankeFee * liankeCount;
          calFeeGas' = (if calFeeGas < MinGasLimit then MinGasLimit else calFeeGas);
          calFeeGas'' = (if MaxGasLimit \<noteq> 0 \<and> calFeeGas' > MaxGasLimit then MaxGasLimit else calFeeGas') in
      Big_Uint64 calFeeGas'')"

text \<open>The bisection of \<^verbatim>\<open>calAllFee\<close>: it returns the amount, the change and the fee. Its arguments are
  the balance, the amount to try and the bounds.\<close>

function calAllFee :: "int \<Rightarrow> int \<Rightarrow> int \<Rightarrow> int \<Rightarrow> int \<times> int \<times> uint64" where
  "calAllFee balance amount mn mx =
     (let fee = CalNewFee amount;
          gasUsed = gasPrice * uint fee;
          changeAmount = balance - (amount + gasUsed) in
      if mx \<le> mn \<or> amount = mn then (amount, changeAmount, fee)
      else if changeAmount = 0 then (amount, changeAmount, fee)
      else if changeAmount > 0 then calAllFee balance ((amount + mx) div 2) amount mx
      else calAllFee balance ((amount + mn) div 2) mn amount)"
  by pat_completeness auto

text \<open>The interval shrinks in every step but the first, which may only move the amount inside it.\<close>

definition fee_measure :: "int \<times> int \<times> int \<times> int \<Rightarrow> nat" where
  "fee_measure = (\<lambda>(balance, amount, mn, mx).
     nat (2 * (max mx amount - min mn amount)) + (if mx \<le> amount \<or> amount < mn then 1 else 0))"

lemma fee_measure_up:
  assumes "mn < mx" "amount \<noteq> mn"
  shows "fee_measure (b, (amount + mx) div 2, amount, mx) < fee_measure (b, amount, mn, mx)"
proof -
  define k where "k = (amount + mx) div 2"
  have "2 * k \<le> amount + mx" "amount + mx < 2 * k + 2" unfolding k_def by presburger+
  then show ?thesis using assms unfolding k_def [symmetric]
    by (auto simp: fee_measure_def max_def min_def nat_less_iff split: if_splits)
qed

lemma fee_measure_down:
  assumes "mn < mx" "amount \<noteq> mn"
  shows "fee_measure (b, (amount + mn) div 2, mn, amount) < fee_measure (b, amount, mn, mx)"
proof -
  define k where "k = (amount + mn) div 2"
  have "2 * k \<le> amount + mn" "amount + mn < 2 * k + 2" unfolding k_def by presburger+
  then show ?thesis using assms unfolding k_def [symmetric]
    by (auto simp: fee_measure_def max_def min_def nat_less_iff split: if_splits)
qed

termination calAllFee
  by (relation "measure fee_measure") (auto intro: fee_measure_up fee_measure_down)

declare calAllFee.simps [simp del]

definition CalSweepBalanceFee :: "int \<Rightarrow> string + int \<times> int \<times> uint64" where
  "CalSweepBalanceFee balance =
     (let minGasUsed = gasPrice * MinGasLimit in
      if balance \<le> minGasUsed then Inl ''balance too low'' else Inr (calAllFee balance balance 0 balance))"

section \<open>Facts about the integer functions\<close>

lemma bit_len_le: "bit_len n \<le> k \<longleftrightarrow> n < 2 ^ k"
proof (induction n arbitrary: k rule: bit_len.induct)
  case (1 n)
  show ?case
  proof (cases "n = 0")
    case False
    then show ?thesis using 1 [OF False, of "k - 1"] by (cases k) (auto simp: bit_len.simps [of n])
  qed (simp add: bit_len.simps)
qed

lemma BitLen_le: "BitLen x \<le> k \<longleftrightarrow> \<bar>x\<bar> < 2 ^ k"
  by (simp add: BitLen_def bit_len_le nat_less_iff)

lemma U256_mod: "U256 x = x mod 2 ^ 256"
proof -
  have "tt256m1 = mask 256" by (simp add: tt256m1_def tt256_def mask_eq_exp_minus_1)
  then have "U256 x = take_bit 256 x" by (simp only: U256_def take_bit_eq_mask)
  then show ?thesis by (simp only: take_bit_eq_mod)
qed

lemma U256_range: "0 \<le> U256 x" "U256 x < 2 ^ 256"
  by (simp_all add: U256_mod)

lemma U256_id [simp]: "0 \<le> x \<Longrightarrow> x < 2 ^ 256 \<Longrightarrow> U256 x = x"
  by (simp add: U256_mod)

lemma S256_sint: "0 \<le> x \<Longrightarrow> x < 2 ^ 256 \<Longrightarrow> S256 x = sint (word_of_int x :: 256 word)"
proof -
  assume x: "0 \<le> x" "x < 2 ^ 256"
  have "sint (word_of_int x :: 256 word) = signed_take_bit 255 (uint (word_of_int x :: 256 word))" by (simp add: sint_uint)
  also have "uint (word_of_int x :: 256 word) = x" using x by (simp add: uint_word_of_int)
  also have "signed_take_bit 255 x = (if x < 2 ^ 255 then x else x - 2 ^ 256)"
  proof -
    have "x div 2 ^ 255 = 1" if "\<not> x < 2 ^ 255" using that x by (intro int_div_pos_eq [of _ _ _ "x - 2 ^ 255"]) simp_all
    then show ?thesis using x by (auto simp: signed_take_bit_eq_take_bit_minus take_bit_int_eq_self bit_iff_odd)
  qed
  finally show ?thesis by (simp add: S256_def tt255_def tt256_def)
qed

lemma uint_Big_Uint64 [simp]: "0 \<le> x \<Longrightarrow> x < 2 ^ 64 \<Longrightarrow> uint (Big_Uint64 x) = x"
  by (simp add: Big_Uint64_def uint_word_of_int)

lemma unat_Big_Uint64 [simp]: "0 \<le> x \<Longrightarrow> x < 2 ^ 64 \<Longrightarrow> unat (Big_Uint64 x) = nat x"
  by (simp add: unat_eq_nat_uint)

lemma unat64_lt [simp]: "unat (x :: uint64) < 18446744073709551616"
  using unsigned_less [of x, where 'a = nat] by simp

lemma unat64_le [simp]: "unat (x :: uint64) \<le> 18446744073709551615"
  using unat64_lt [of x] by linarith

lemma unat_max_sub: "unat (18446744073709551615 - x :: uint64) = 18446744073709551615 - unat x"
proof -
  have "x \<le> 18446744073709551615" by (simp add: word_le_nat_alt)
  then show ?thesis by (simp add: unat_sub)
qed

lemma SafeAdd_spec:
  "snd (SafeAdd x y) \<longleftrightarrow> 2 ^ 64 \<le> unat x + unat y"
  "\<not> snd (SafeAdd x y) \<Longrightarrow> unat (fst (SafeAdd x y)) = unat x + unat y"
proof -
  show *: "snd (SafeAdd x y) \<longleftrightarrow> 2 ^ 64 \<le> unat x + unat y"
    using unat64_lt [of x] by (simp add: SafeAdd_def word_less_nat_alt unat_max_sub less_diff_conv2) linarith
  show "unat (fst (SafeAdd x y)) = unat x + unat y" if "\<not> snd (SafeAdd x y)"
    using that unfolding * by (simp add: SafeAdd_def unat_word_ariths)
qed

lemma SafeMul_spec:
  "snd (SafeMul x y) \<longleftrightarrow> 2 ^ 64 \<le> unat x * unat y"
  "\<not> snd (SafeMul x y) \<Longrightarrow> unat (fst (SafeMul x y)) = unat x * unat y"
proof -
  show *: "snd (SafeMul x y) \<longleftrightarrow> 2 ^ 64 \<le> unat x * unat y"
  proof (cases "x = 0 \<or> y = 0")
    case False
    then have "0 < unat x" by (simp add: unat_gt_0)
    then have "18446744073709551615 div unat x < unat y \<longleftrightarrow> 18446744073709551615 < unat y * unat x"
      by (rule div_less_iff_less_mult)
    then show ?thesis using False by (auto simp: SafeMul_def word_less_nat_alt unat_div mult.commute)
  qed (auto simp: SafeMul_def)
  show "unat (fst (SafeMul x y)) = unat x * unat y" if "\<not> snd (SafeMul x y)"
    using that unfolding * by (auto simp: SafeMul_def unat_word_ariths)
qed

lemma SafeSub_spec:
  "snd (SafeSub x y) \<longleftrightarrow> unat x < unat y"
  "\<not> snd (SafeSub x y) \<Longrightarrow> unat (fst (SafeSub x y)) = unat x - unat y"
  by (simp_all add: SafeSub_def word_less_nat_alt unat_sub_if_size word_less_nat_alt)

section \<open>Byte strings\<close>

lemma length_be_bytes [simp]: "length (be_bytes n x) = n"
  by (induction n arbitrary: x) simp_all

lemma be_int_Nil [simp]: "be_int [] = 0"
  by (simp add: be_int_def)

lemma be_int_snoc [simp]: "be_int (bs @ [b]) = be_int bs * 256 + uint b"
  by (simp add: be_int_def)

lemma be_int_range: "0 \<le> be_int bs \<and> be_int bs < 256 ^ length bs"
proof (induction bs rule: rev_induct)
  case (snoc b bs)
  have "uint b < 256" using uint_lt2p [of b] by simp
  then have "be_int bs * 256 + uint b < (be_int bs + 1) * 256" by simp
  also have "\<dots> \<le> 256 ^ length bs * 256" using snoc by (simp add: mult.commute)
  finally show ?case using snoc by simp
qed simp

lemma be_int_be_bytes: "be_int (be_bytes n x) = x mod 256 ^ n"
proof (induction n arbitrary: x)
  case (Suc n)
  have "uint (word_of_int x :: byte) = x mod 256" by (simp add: uint_word_of_int)
  then show ?case using Suc zmod_zmult2_eq [of "256 ^ n" x 256] by (simp add: mult.commute)
qed simp

lemma be_bytes_be_int: "be_bytes (length bs) (be_int bs) = bs"
proof (induction bs rule: rev_induct)
  case (snoc b bs)
  have "(be_int bs * 256 + uint b) div 256 = be_int bs" using uint_lt2p [of b] by simp
  moreover have "(word_of_int (be_int bs * 256 + uint b) :: byte) = b"
  proof -
    have "(256 :: byte) = 0" by simp
    then show ?thesis by (simp only: of_int_add of_int_mult of_int_numeral) simp
  qed
  ultimately show ?case using snoc by simp
qed simp

section \<open>Exponentiation and digits\<close>

lemma mod_mult_cong: "(a :: int) mod m = a' mod m \<Longrightarrow> b mod m = b' mod m \<Longrightarrow> a * b mod m = a' * b' mod m"
  by (metis mod_mult_eq)

lemma mod_power_cong: "(a :: int) mod m = b mod m \<Longrightarrow> a ^ n mod m = b ^ n mod m"
  by (metis power_mod)

lemma U256_mod_mod: "U256 x mod 2 ^ 256 = x mod 2 ^ 256"
  by (simp add: U256_mod)

lemma word_odd_iff: "(w :: uint64) AND 1 = 1 \<longleftrightarrow> odd (unat w)"
  by (simp add: and_one_eq odd_iff_mod_2_eq_one word_unat_eq_iff unat_word_ariths unat_mod even_iff_mod_2_eq_zero)

lemma exp_word_spec:
  assumes "exp_word i w r b = (r', b')"
  shows "r' mod 2 ^ 256 = r * b ^ (unat w mod 2 ^ i) mod 2 ^ 256 \<and> b' mod 2 ^ 256 = b ^ 2 ^ i mod 2 ^ 256 \<and>
    (r = U256 r \<longrightarrow> r' = U256 r')"
  using assms
proof (induction i arbitrary: w r b)
  case (Suc i)
  let ?n = "unat w" and ?r = "if w AND 1 = 1 then U256 (r * b) else r"
  let ?t = "?n div 2 mod 2 ^ i"
  have w: "unat (drop_bit 1 w) = ?n div 2" by (simp add: drop_bit_eq_div unat_div)
  have split: "?n mod 2 ^ Suc i = ?n mod 2 + 2 * ?t"
    by (simp add: mod_mult2_eq [of ?n 2])
  have r: "?r mod 2 ^ 256 = r * b ^ (?n mod 2) mod 2 ^ 256"
    by (simp add: word_odd_iff odd_iff_mod_2_eq_one even_iff_mod_2_eq_zero U256_mod)
  have b: "U256 (b * b) ^ k mod 2 ^ 256 = b ^ (2 * k) mod 2 ^ 256" for k
    using mod_power_cong [OF U256_mod_mod, of "b * b" k] by (simp only: power_mult power2_eq_square)
  have "r' mod 2 ^ 256 = ?r * U256 (b * b) ^ ?t mod 2 ^ 256 \<and> b' mod 2 ^ 256 = U256 (b * b) ^ 2 ^ i mod 2 ^ 256 \<and>
      (?r = U256 ?r \<longrightarrow> r' = U256 r')"
    using Suc.IH [of "drop_bit 1 w" ?r "U256 (b * b)"] Suc.prems w by simp
  moreover have "?r * U256 (b * b) ^ ?t mod 2 ^ 256 = r * b ^ (?n mod 2 ^ Suc i) mod 2 ^ 256"
    using mod_mult_cong [OF r b [of ?t]] by (simp only: split power_add mult.assoc)
  moreover have "U256 (U256 x) = U256 x" for x by (simp add: U256_mod)
  ultimately show ?case using b [of "2 ^ i"] by (auto simp del: power_numeral)
qed simp

lemma exp_words_spec:
  "exp_words (nat_Bits e) r b mod 2 ^ 256 = r * b ^ e mod 2 ^ 256 \<and>
    (r = U256 r \<longrightarrow> exp_words (nat_Bits e) r b = U256 (exp_words (nat_Bits e) r b))"
proof (induction e arbitrary: r b rule: nat_Bits.induct)
  case (1 e)
  show ?case
  proof (cases "e = 0")
    case False
    obtain r' b' where rb: "exp_word 64 (word_of_nat e) r b = (r', b')" by fastforce
    let ?q = "e div 2 ^ 64"
    have "unat (word_of_nat e :: uint64) mod 2 ^ 64 = e mod 2 ^ 64" by (simp add: unat_of_nat)
    with exp_word_spec [OF rb]
    have r: "r' mod 2 ^ 256 = r * b ^ (e mod 2 ^ 64) mod 2 ^ 256" "b' mod 2 ^ 256 = b ^ 2 ^ 64 mod 2 ^ 256"
        "r = U256 r \<longrightarrow> r' = U256 r'"
      by metis+
    have "r' * b' ^ ?q mod 2 ^ 256 = r * b ^ (e mod 2 ^ 64) * (b ^ 2 ^ 64) ^ ?q mod 2 ^ 256"
      by (rule mod_mult_cong [OF r(1) mod_power_cong [OF r(2)]])
    also have "r * b ^ (e mod 2 ^ 64) * (b ^ 2 ^ 64) ^ ?q = r * b ^ e"
      by (simp only: mult.assoc flip: power_mult power_add) (simp only: mod_mult_div_eq)
    finally have "r' * b' ^ ?q mod 2 ^ 256 = r * b ^ e mod 2 ^ 256" .
    moreover have "exp_words (nat_Bits e) r b = exp_words (nat_Bits ?q) r' b'"
      using False rb by (simp only: nat_Bits.simps [of e] exp_words.simps if_False prod.case)
    ultimately show ?thesis using 1 [OF False, of r' b'] r(3) by auto
  qed (simp add: nat_Bits.simps)
qed

lemma Exp_power: "0 \<le> e \<Longrightarrow> Exp b e = b ^ nat e mod 2 ^ 256"
  using exp_words_spec [of "nat e" 1 b] U256_mod by (simp add: Exp_def big_Bits_def)

lemma be_bytes_mod: "be_bytes n (x mod 256 ^ n) = be_bytes n x"
  by (metis be_bytes_be_int be_int_be_bytes length_be_bytes)

lemma be_bytes_cong: "x mod 256 ^ n = y mod 256 ^ n \<Longrightarrow> be_bytes n x = be_bytes n y"
  by (metis be_bytes_mod)

lemma be_bytes_add: "be_bytes (m + n) x = be_bytes m (x div 256 ^ n) @ be_bytes n x"
  by (induction n arbitrary: x) (simp_all add: zdiv_zmult2_eq)

lemma be_bytes_zero: "be_bytes n 0 = replicate n 0"
  by (induction n) (simp_all add: replicate_append_same)

lemma read_word_spec:
  "read_word j d i (replicate i 0 @ ts) =
     (i - j, replicate (i - j) 0 @ be_bytes (min j i) (uint d) @ ts)"
proof (induction j arbitrary: d i ts)
  case (Suc j)
  show ?case
  proof (cases i)
    case (Suc k)
    have "(replicate i 0 @ ts)[i - 1 := ucast d] = replicate k 0 @ ucast d # ts"
      using Suc by (simp add: list_update_append list_update_same_conv flip: replicate_append_same)
    moreover have "uint (drop_bit 8 d) = uint d div 256" by (simp add: drop_bit_eq_div uint_div)
    ultimately show ?thesis using Suc.IH [of "drop_bit 8 d" k "ucast d # ts"] Suc
      by (simp add: unsigned_ucast_eq)
  qed simp
qed simp

lemma read_words_spec: "read_words (nat_Bits m) i (replicate i 0 @ ts) = be_bytes i (int m) @ ts"
proof (induction m arbitrary: i ts rule: nat_Bits.induct)
  case (1 m)
  show ?case
  proof (cases "m = 0")
    case False
    let ?w = "word_of_nat m :: uint64"
    have w: "uint ?w = int m mod 2 ^ 64" by (simp add: uint_nat unat_of_nat zmod_int)
    have "read_words (nat_Bits m) i (replicate i 0 @ ts) =
        be_bytes (i - 8) (int (m div 2 ^ 64)) @ be_bytes (min 8 i) (uint ?w) @ ts"
      using 1 [OF False] False by (simp add: nat_Bits.simps [of m] read_word_spec)
    also have "\<dots> = be_bytes i (int m) @ ts"
    proof (cases "i \<le> 8")
      case True
      have "(256 :: int) ^ i dvd 2 ^ 64" using le_imp_power_dvd [OF True, of "256 :: int"] by simp
      then have "be_bytes i (uint ?w) = be_bytes i (int m)" by (intro be_bytes_cong) (simp add: w mod_mod_cancel)
      then show ?thesis using True by (simp add: min_def)
    next
      case False
      have "be_bytes 8 (uint ?w) = be_bytes 8 (int m)" by (intro be_bytes_cong) (simp add: w)
      then show ?thesis using be_bytes_add [of "i - 8" 8 "int m"] False by (simp add: zdiv_int)
    qed
    finally show ?thesis .
  qed (simp add: nat_Bits.simps be_bytes_zero)
qed

lemma ReadBits_eq: "0 \<le> x \<Longrightarrow> ReadBits x (replicate n 0) = be_bytes n x"
  using read_words_spec [of "nat x" n "[]"] by (simp add: ReadBits_def big_Bits_def)

lemma nat_Bits_nth:
  "i < length (nat_Bits m) \<Longrightarrow> nat_Bits m ! i = word_of_nat (m div 2 ^ (64 * i))"
proof (induction m arbitrary: i rule: nat_Bits.induct)
  case (1 m)
  then have m: "m \<noteq> 0" by (cases "m = 0") (auto simp: nat_Bits.simps [of 0])
  show ?case
  proof (cases i)
    case (Suc k)
    have "m div 2 ^ (64 * i) = m div 2 ^ 64 div 2 ^ (64 * k)"
      unfolding Suc mult_Suc_right power_add by (rule div_mult2_eq)
    then show ?thesis using 1 m Suc by (simp add: nat_Bits.simps [of m])
  qed (use m in \<open>simp add: nat_Bits.simps\<close>)
qed

lemma nat_Bits_bound: "m < 2 ^ (64 * length (nat_Bits m))"
proof (induction m rule: nat_Bits.induct)
  case (1 m)
  then show ?case
    by (cases "m = 0") (auto simp: nat_Bits.simps [of m] power_add div_less_iff_less_mult mult.commute)
qed

lemma bigEndianByteAt_eq:
  assumes "0 \<le> x"
  shows "bigEndianByteAt x n = word_of_int (x div 256 ^ n)"
proof -
  let ?m = "nat x" and ?i = "n div 8" and ?k = "8 * (n mod 8)"
  have kn: "64 * ?i + ?k = 8 * n" "?k \<le> 56" using div_mult_mod_eq [of n 8] by linarith+
  then have pow: "(256 :: nat) ^ n = 2 ^ (64 * ?i) * 2 ^ ?k"
  proof -
    have "(2 :: nat) ^ (64 * ?i) * 2 ^ ?k = 2 ^ (8 * n)" using kn(1) by (simp only: power_add [symmetric])
    then show ?thesis by (simp add: power_mult)
  qed
  show ?thesis
  proof (cases "?i < length (big_Bits x)")
    case True
    have x: "word_of_nat (?m div 2 ^ (64 * ?i)) = (word_of_int (drop_bit (64 * ?i) x) :: uint64)"
    proof -
      have "int (?m div 2 ^ (64 * ?i)) = drop_bit (64 * ?i) x" using assms by (simp add: drop_bit_eq_div zdiv_int)
      then show ?thesis by (metis of_int_of_nat_eq)
    qed
    have "bit (word_of_int (x div 256 ^ n) :: byte) j \<longleftrightarrow> j < 8 \<and> bit x (8 * n + j)" for j
    proof -
      have "x div 256 ^ n = drop_bit (8 * n) x" by (simp add: drop_bit_eq_div power_mult)
      then show ?thesis by (simp add: bit_simps)
    qed
    moreover have "bit (ucast (drop_bit ?k (word_of_int (drop_bit (64 * ?i) x) :: uint64)) :: byte) j \<longleftrightarrow> j < 8 \<and> bit x (8 * n + j)" for j
    proof -
      have "64 * ?i + (?k + j) = 8 * n + j" "j < 8 \<Longrightarrow> ?k + j < 64" using kn by linarith+
      then show ?thesis by (simp add: bit_simps add.assoc [symmetric] cong: conj_cong)
    qed
    moreover have "bigEndianByteAt x n = ucast (drop_bit ?k (word_of_int (drop_bit (64 * ?i) x) :: uint64))"
      using True assms by (simp add: bigEndianByteAt_def Let_def big_Bits_def nat_Bits_nth flip: x)
    ultimately show ?thesis by (simp only: bit_eq_iff)
  next
    case False
    then have "64 * length (nat_Bits ?m) \<le> 64 * ?i" using assms by (simp add: big_Bits_def)
    then have "(2 :: nat) ^ (64 * length (nat_Bits ?m)) \<le> 2 ^ (64 * ?i)" by (intro power_increasing) simp_all
    then have "?m < 2 ^ (64 * ?i)" using nat_Bits_bound [of ?m] by (rule order_less_le_trans [rotated])
    then have "?m * 1 < 2 ^ (64 * ?i) * 2 ^ ?k" by (intro mult_less_le_imp_less) simp_all
    then have "?m < 256 ^ n" unfolding pow by simp
    then have "x div 256 ^ n = 0" using assms by (simp add: div_pos_pos_trivial nat_less_iff)
    then show ?thesis using False by (simp add: bigEndianByteAt_def)
  qed
qed

section \<open>The transfer fee\<close>

definition fee_gas :: "int \<Rightarrow> int" where
  "fee_gas v = min MaxGasLimit (max MinGasLimit (everLiankeFee * ((v + 999999999999999999) div 1000000000000000000)))"

lemma ceil_div:
  assumes "0 < (l :: int)"
  shows "(v + (l - 1)) div l = (if v mod l \<noteq> 0 then v div l + 1 else v div l)"
proof -
  have "(v + (l - 1)) div l = v div l + (v mod l + (l - 1)) div l"
    by (metis div_mult_mod_eq add.assoc div_mult_self3 assms less_irrefl)
  moreover have "(v mod l + (l - 1)) div l = (if v mod l \<noteq> 0 then 1 else 0)"
  proof (cases "v mod l = 0")
    case False
    then have "v mod l + (l - 1) = l + (v mod l - 1)" "0 \<le> v mod l - 1" "v mod l - 1 < l"
      using pos_mod_bound [OF assms, of v] pos_mod_sign [OF assms, of v] by linarith+
    then have "(v mod l + (l - 1)) div l = (l + (v mod l - 1)) div l" "(v mod l - 1) div l = 0"
      by (simp_all only: div_pos_pos_trivial)
    moreover have "(l + (v mod l - 1)) div l = 1 + (v mod l - 1) div l" using assms div_add_self1 [of l "v mod l - 1"] by simp
    ultimately show ?thesis using False by simp
  qed (use assms in \<open>simp add: div_pos_pos_trivial\<close>)
  ultimately show ?thesis by simp
qed

lemma CalNewFee_eq:
  assumes "0 \<le> v"
  shows "uint (CalNewFee v) = fee_gas v"
proof -
  let ?l = "1000000000000000000 :: int"
  have l: "gasPrice * gasToLiankeRate = ?l" by (simp add: gasPrice_def gasToLiankeRate_def)
  have m: "0 \<le> v mod ?l" "v mod ?l < ?l" by simp_all
  have "Big_Uint64 (v mod ?l) \<noteq> 0 \<longleftrightarrow> v mod ?l \<noteq> 0"
  proof -
    have "uint (Big_Uint64 (v mod ?l)) = v mod ?l" using m by (simp add: Big_Uint64_def uint_word_of_int mod_pos_pos_trivial)
    then show ?thesis by (metis uint_0_iff)
  qed
  moreover have "(if v mod ?l \<noteq> 0 then v div ?l + 1 else v div ?l) = (v + 999999999999999999) div ?l"
    using ceil_div [of ?l v] by simp
  ultimately have count: "(if Big_Uint64 (Big_Mod v ?l) \<noteq> 0 then Big_Div v ?l + 1 else Big_Div v ?l) = (v + 999999999999999999) div ?l"
    unfolding Big_Mod_def Big_Div_def abs_numeral by presburger
  have "uint (Big_Uint64 g) = g" if "0 \<le> g" "g \<le> 5000000000" for g
    using that by (simp add: Big_Uint64_def uint_word_of_int mod_pos_pos_trivial)
  then show ?thesis unfolding CalNewFee_def Let_def l count
    by (auto simp: fee_gas_def MaxGasLimit_def MinGasLimit_def)
qed

lemma fee_gas_mono: "v \<le> w \<Longrightarrow> fee_gas v \<le> fee_gas w"
  unfolding fee_gas_def by (intro min.mono max.mono order_refl mult_left_mono zdiv_mono1) (simp_all add: everLiankeFee_def)

lemma fee_gas_min: "MinGasLimit \<le> fee_gas v"
  by (simp add: fee_gas_def MaxGasLimit_def MinGasLimit_def)

definition spend :: "int \<Rightarrow> int" where
  "spend amount = amount + gasPrice * fee_gas amount"

lemma spend_mono: "v < w \<Longrightarrow> spend v < spend w"
  using fee_gas_mono [of v w] by (simp add: spend_def gasPrice_def)

text \<open>The loop invariant of the bisection: the lower bound is affordable, the upper bound is not, and
  the amount lies between them.\<close>

lemma calAllFee_max:
  assumes "0 \<le> mn" "mn \<le> amount" "amount \<le> mx" "mn < mx" "spend mn \<le> balance" "balance < spend mx"
    and "amount = mn \<longrightarrow> mx = mn + 1"
  shows "\<exists>a. calAllFee balance amount mn mx = (a, balance - spend a, CalNewFee a) \<and> mn \<le> a \<and> spend a \<le> balance \<and> balance < spend (a + 1)"
  using assms
proof (induction balance amount mn mx rule: calAllFee.induct)
  case (1 balance amount mn mx)
  note pre = "1.prems" and up = "1.IH"(1) [OF refl refl refl] and down = "1.IH"(2) [OF refl refl refl]
  let ?c = "balance - (amount + gasPrice * uint (CalNewFee amount))"
  have c: "?c = balance - spend amount" using pre(1,2) by (simp add: spend_def CalNewFee_eq)
  have eq: "calAllFee balance amount mn mx =
     (if mx \<le> mn \<or> amount = mn \<or> ?c = 0 then (amount, balance - spend amount, CalNewFee amount)
      else if ?c > 0 then calAllFee balance ((amount + mx) div 2) amount mx
      else calAllFee balance ((amount + mn) div 2) mn amount)"
    by (simp add: calAllFee.simps [of balance amount mn mx] Let_def flip: c)
  consider "amount = mn" | "amount \<noteq> mn" "?c = 0" | "amount \<noteq> mn" "?c > 0" | "amount \<noteq> mn" "?c < 0" by linarith
  then show ?case
  proof cases
    case 1
    then show ?thesis using pre eq by auto
  next
    case 2
    then show ?thesis using pre spend_mono [of amount "amount + 1"] eq c by auto
  next
    case 3
    have "amount \<noteq> mx" using 3(2) c pre(6) by auto
    moreover have "\<not> (mx \<le> mn \<or> amount = mn)" using 3 pre by auto
    moreover have "(amount + mx) div 2 = amount \<longrightarrow> mx = amount + 1" using \<open>amount \<noteq> mx\<close> pre(3) by linarith
    ultimately have "calAllFee balance amount mn mx = calAllFee balance ((amount + mx) div 2) amount mx"
        "\<exists>a. calAllFee balance ((amount + mx) div 2) amount mx = (a, balance - spend a, CalNewFee a) \<and>
           amount \<le> a \<and> spend a \<le> balance \<and> balance < spend (a + 1)"
      using 3 c pre eq by (simp, intro up) auto
    then show ?thesis using pre(2) by fastforce
  next
    case 4
    moreover have "\<not> (mx \<le> mn \<or> amount = mn)" using 4 pre by auto
    moreover have "(amount + mn) div 2 = mn \<longrightarrow> amount = mn + 1" using 4 pre(2) by linarith
    ultimately show ?thesis using down c pre eq by auto
  qed
qed

text \<open>C31: Sweeping an account terminates and leaves the least possible behind: CalSweepBalanceFee rejects
  exactly the balances that do not exceed the minimum fee; otherwise the amount it returns plus the
  fee charged for that amount plus the change is the balance, the change is not negative, and with
  one unit more the amount and its fee would exceed the balance.\<close>

theorem sweep_is_optimal:
  "case CalSweepBalanceFee balance of
     Inl e \<Rightarrow> balance \<le> gasPrice * MinGasLimit
   | Inr (amount, change, fee) \<Rightarrow> gasPrice * MinGasLimit < balance \<and> 0 \<le> amount \<and> fee = CalNewFee amount \<and>
       amount + gasPrice * uint fee + change = balance \<and> 0 \<le> change \<and>
       balance < (amount + 1) + gasPrice * uint (CalNewFee (amount + 1))"
proof (cases "balance \<le> gasPrice * MinGasLimit")
  case False
  then have pos: "0 < balance" by (simp add: gasPrice_def MinGasLimit_def)
  have "spend 0 \<le> balance" using False by (simp add: spend_def fee_gas_def gasPrice_def MinGasLimit_def MaxGasLimit_def)
  moreover have "balance < spend balance" using fee_gas_min [of balance] by (simp add: spend_def gasPrice_def MinGasLimit_def)
  ultimately obtain a where "calAllFee balance balance 0 balance = (a, balance - spend a, CalNewFee a)"
      "0 \<le> a" "spend a \<le> balance" "balance < spend (a + 1)"
    using calAllFee_max [of 0 balance balance balance] pos by auto
  then show ?thesis using False by (simp add: CalSweepBalanceFee_def CalNewFee_eq spend_def)
qed (simp add: CalSweepBalanceFee_def)

end
