(* ===== verification/State_DB.thy ===== *)
theory State_DB
  imports Big_Math
begin

text \<open>
  The account state of the Ethereum side: \<^verbatim>\<open>core/state/statedb.go\<close>, \<^verbatim>\<open>core/state/state_object.go\<close>
  and \<^verbatim>\<open>core/state/journal.go\<close>. The account trie is the map of its contents (\<open>sdb_trie\<close>), and so is
  a storage trie; what the code reads from the database (code by hash, storage tries by root, the
  Keccak hash) is the parameter \<open>state_env\<close>. An object that a read only loads from the trie is not
  entered into the live set, since it stands for what the trie holds; objects that are modified are.
  The recorded database errors are not represented.
\<close>

section \<open>Accounts and journal\<close>

record Account =
  acc_Nonce :: uint64
  acc_Balance :: int
  acc_Root :: hash
  acc_CodeHash :: hash

record state_env =
  se_Keccak :: "bytes \<Rightarrow> hash"
  se_ContractCode :: "hash \<Rightarrow> bytes"
  se_StorageTrie :: "address \<Rightarrow> hash \<Rightarrow> hash \<Rightarrow> hash"
  se_TrieHash :: "(hash \<Rightarrow> hash) \<Rightarrow> hash"

text \<open>\<open>so_onDirty\<close>: the callback that marks the object dirty has not been consumed yet.\<close>

record stateObject =
  so_data :: Account
  so_trie :: "(hash \<Rightarrow> hash) option"
  so_code :: "bytes option"
  so_cachedStorage :: "hash \<rightharpoonup> hash"
  so_dirtyStorage :: "hash \<rightharpoonup> hash"
  so_dirtyCode :: bool
  so_suicided :: bool
  so_touched :: bool
  so_deleted :: bool
  so_onDirty :: bool

record Log =
  log_Address :: address
  log_Topics :: "hash list"
  log_Data :: bytes
  log_BlockNumber :: uint64
  log_TxHash :: hash
  log_BlockHash :: hash
  log_TxIndex :: int
  log_Index :: int

datatype journalEntry =
    createObjectChange address
  | resetObjectChange address stateObject
  | suicideChange address bool int
  | balanceChange address int
  | nonceChange address uint64
  | storageChange address hash hash
  | codeChange address bytes hash
  | refundChange int
  | addLogChange hash
  | addPreimageChange hash
  | touchChange address bool bool

record StateDB =
  sdb_trie :: "address \<rightharpoonup> Account"
  sdb_stateObjects :: "address \<rightharpoonup> stateObject"
  sdb_dirty :: "address set"
  sdb_refund :: int
  sdb_thash :: hash
  sdb_bhash :: hash
  sdb_txIndex :: int
  sdb_logs :: "hash \<Rightarrow> Log list"
  sdb_logSize :: int
  sdb_preimages :: "hash \<rightharpoonup> bytes"
  sdb_journal :: "journalEntry list"
  sdb_validRevisions :: "(int \<times> nat) list"
  sdb_nextRevisionId :: int

section \<open>State objects\<close>

definition emptyCodeHash :: "state_env \<Rightarrow> hash" where
  "emptyCodeHash env = se_Keccak env []"

definition newObject :: "Account \<Rightarrow> stateObject" where
  "newObject data = \<lparr>so_data = data, so_trie = None, so_code = None, so_cachedStorage = Map.empty,
     so_dirtyStorage = Map.empty, so_dirtyCode = False, so_suicided = False, so_touched = False,
     so_deleted = False, so_onDirty = True\<rparr>"

definition so_empty :: "state_env \<Rightarrow> stateObject \<Rightarrow> bool" where
  "so_empty env obj \<longleftrightarrow> acc_Nonce (so_data obj) = 0 \<and> acc_Balance (so_data obj) = 0 \<and>
     acc_CodeHash (so_data obj) = emptyCodeHash env"

definition add_journal :: "StateDB \<Rightarrow> journalEntry \<Rightarrow> StateDB" where
  "add_journal s e = s\<lparr>sdb_journal := sdb_journal s @ [e]\<rparr>"

definition setStateObject :: "StateDB \<Rightarrow> address \<Rightarrow> stateObject \<Rightarrow> StateDB" where
  "setStateObject s addr obj = s\<lparr>sdb_stateObjects := (sdb_stateObjects s)(addr \<mapsto> obj)\<rparr>"

text \<open>Writing a modified object back, with the call of \<^verbatim>\<open>onDirty\<close> that ends every setter.\<close>

definition store_dirty :: "StateDB \<Rightarrow> address \<Rightarrow> stateObject \<Rightarrow> StateDB" where
  "store_dirty s addr obj =
     (if so_onDirty obj
      then setStateObject (s\<lparr>sdb_dirty := insert addr (sdb_dirty s)\<rparr>) addr (obj\<lparr>so_onDirty := False\<rparr>)
      else setStateObject s addr obj)"

definition so_touch :: "StateDB \<Rightarrow> address \<Rightarrow> stateObject \<Rightarrow> StateDB" where
  "so_touch s addr obj =
     store_dirty (add_journal s (touchChange addr (so_touched obj) (\<not> so_onDirty obj))) addr (obj\<lparr>so_touched := True\<rparr>)"

definition so_getTrie :: "state_env \<Rightarrow> address \<Rightarrow> stateObject \<Rightarrow> hash \<Rightarrow> hash" where
  "so_getTrie env addr obj =
     (case so_trie obj of Some t \<Rightarrow> t | None \<Rightarrow> se_StorageTrie env addr (acc_Root (so_data obj)))"

definition so_GetState :: "state_env \<Rightarrow> address \<Rightarrow> stateObject \<Rightarrow> hash \<Rightarrow> hash" where
  "so_GetState env addr obj key =
     (case so_cachedStorage obj key of Some v \<Rightarrow> v | None \<Rightarrow> so_getTrie env addr obj key)"

definition so_setState :: "StateDB \<Rightarrow> address \<Rightarrow> stateObject \<Rightarrow> hash \<Rightarrow> hash \<Rightarrow> StateDB" where
  "so_setState s addr obj key v =
     store_dirty s addr (obj\<lparr>so_cachedStorage := (so_cachedStorage obj)(key \<mapsto> v),
       so_dirtyStorage := (so_dirtyStorage obj)(key \<mapsto> v)\<rparr>)"

definition so_SetState :: "state_env \<Rightarrow> StateDB \<Rightarrow> address \<Rightarrow> stateObject \<Rightarrow> hash \<Rightarrow> hash \<Rightarrow> StateDB" where
  "so_SetState env s addr obj key v =
     so_setState (add_journal s (storageChange addr key (so_GetState env addr obj key))) addr obj key v"

definition so_setBalance :: "StateDB \<Rightarrow> address \<Rightarrow> stateObject \<Rightarrow> int \<Rightarrow> StateDB" where
  "so_setBalance s addr obj amount = store_dirty s addr (obj\<lparr>so_data := (so_data obj)\<lparr>acc_Balance := amount\<rparr>\<rparr>)"

definition so_SetBalance :: "StateDB \<Rightarrow> address \<Rightarrow> stateObject \<Rightarrow> int \<Rightarrow> StateDB" where
  "so_SetBalance s addr obj amount =
     so_setBalance (add_journal s (balanceChange addr (acc_Balance (so_data obj)))) addr obj amount"

definition so_AddBalance :: "state_env \<Rightarrow> StateDB \<Rightarrow> address \<Rightarrow> stateObject \<Rightarrow> int \<Rightarrow> StateDB" where
  "so_AddBalance env s addr obj amount =
     (if amount = 0 then (if so_empty env obj then so_touch s addr obj else s)
      else so_SetBalance s addr obj (acc_Balance (so_data obj) + amount))"

definition so_SubBalance :: "StateDB \<Rightarrow> address \<Rightarrow> stateObject \<Rightarrow> int \<Rightarrow> StateDB" where
  "so_SubBalance s addr obj amount =
     (if amount = 0 then s else so_SetBalance s addr obj (acc_Balance (so_data obj) - amount))"

definition so_Code :: "state_env \<Rightarrow> stateObject \<Rightarrow> bytes" where
  "so_Code env obj =
     (case so_code obj of Some c \<Rightarrow> c
      | None \<Rightarrow> if acc_CodeHash (so_data obj) = emptyCodeHash env then [] else se_ContractCode env (acc_CodeHash (so_data obj)))"

text \<open>The empty slice that undoing a code change restores is the nil slice.\<close>

definition so_setCode :: "StateDB \<Rightarrow> address \<Rightarrow> stateObject \<Rightarrow> hash \<Rightarrow> bytes option \<Rightarrow> StateDB" where
  "so_setCode s addr obj codeHash code =
     store_dirty s addr (obj\<lparr>so_code := code, so_data := (so_data obj)\<lparr>acc_CodeHash := codeHash\<rparr>, so_dirtyCode := True\<rparr>)"

definition so_SetCode :: "state_env \<Rightarrow> StateDB \<Rightarrow> address \<Rightarrow> stateObject \<Rightarrow> hash \<Rightarrow> bytes \<Rightarrow> StateDB" where
  "so_SetCode env s addr obj codeHash code =
     so_setCode (add_journal s (codeChange addr (so_Code env obj) (acc_CodeHash (so_data obj)))) addr obj codeHash (Some code)"

definition so_setNonce :: "StateDB \<Rightarrow> address \<Rightarrow> stateObject \<Rightarrow> uint64 \<Rightarrow> StateDB" where
  "so_setNonce s addr obj nonce = store_dirty s addr (obj\<lparr>so_data := (so_data obj)\<lparr>acc_Nonce := nonce\<rparr>\<rparr>)"

definition so_SetNonce :: "StateDB \<Rightarrow> address \<Rightarrow> stateObject \<Rightarrow> uint64 \<Rightarrow> StateDB" where
  "so_SetNonce s addr obj nonce =
     so_setNonce (add_journal s (nonceChange addr (acc_Nonce (so_data obj)))) addr obj nonce"

section \<open>The state database\<close>

definition sdb_New :: "(address \<rightharpoonup> Account) \<Rightarrow> StateDB" where
  "sdb_New tr = \<lparr>sdb_trie = tr, sdb_stateObjects = Map.empty, sdb_dirty = {}, sdb_refund = 0, sdb_thash = 0,
     sdb_bhash = 0, sdb_txIndex = 0, sdb_logs = (\<lambda>h. []), sdb_logSize = 0, sdb_preimages = Map.empty,
     sdb_journal = [], sdb_validRevisions = [], sdb_nextRevisionId = 0\<rparr>"

definition getStateObject :: "StateDB \<Rightarrow> address \<Rightarrow> stateObject option" where
  "getStateObject s addr =
     (case sdb_stateObjects s addr of
        Some obj \<Rightarrow> if so_deleted obj then None else Some obj
      | None \<Rightarrow> map_option newObject (sdb_trie s addr))"

definition AddLog :: "StateDB \<Rightarrow> Log \<Rightarrow> StateDB" where
  "AddLog s log =
     (let s1 = add_journal s (addLogChange (sdb_thash s));
          log' = log\<lparr>log_TxHash := sdb_thash s, log_BlockHash := sdb_bhash s, log_TxIndex := sdb_txIndex s, log_Index := sdb_logSize s\<rparr> in
      s1\<lparr>sdb_logs := (sdb_logs s)(sdb_thash s := sdb_logs s (sdb_thash s) @ [log']), sdb_logSize := sdb_logSize s + 1\<rparr>)"

definition AddPreimage :: "StateDB \<Rightarrow> hash \<Rightarrow> bytes \<Rightarrow> StateDB" where
  "AddPreimage s h preimage =
     (case sdb_preimages s h of Some p \<Rightarrow> s
      | None \<Rightarrow> (add_journal s (addPreimageChange h))\<lparr>sdb_preimages := (sdb_preimages s)(h \<mapsto> preimage)\<rparr>)"

definition AddRefund :: "StateDB \<Rightarrow> int \<Rightarrow> StateDB" where
  "AddRefund s gas = (add_journal s (refundChange (sdb_refund s)))\<lparr>sdb_refund := sdb_refund s + gas\<rparr>"

definition Exist :: "StateDB \<Rightarrow> address \<Rightarrow> bool" where
  "Exist s addr \<longleftrightarrow> getStateObject s addr \<noteq> None"

definition Empty :: "state_env \<Rightarrow> StateDB \<Rightarrow> address \<Rightarrow> bool" where
  "Empty env s addr = (case getStateObject s addr of None \<Rightarrow> True | Some obj \<Rightarrow> so_empty env obj)"

definition GetBalance :: "StateDB \<Rightarrow> address \<Rightarrow> int" where
  "GetBalance s addr = (case getStateObject s addr of None \<Rightarrow> 0 | Some obj \<Rightarrow> acc_Balance (so_data obj))"

definition GetNonce :: "StateDB \<Rightarrow> address \<Rightarrow> uint64" where
  "GetNonce s addr = (case getStateObject s addr of None \<Rightarrow> 0 | Some obj \<Rightarrow> acc_Nonce (so_data obj))"

definition GetCode :: "state_env \<Rightarrow> StateDB \<Rightarrow> address \<Rightarrow> bytes" where
  "GetCode env s addr = (case getStateObject s addr of None \<Rightarrow> [] | Some obj \<Rightarrow> so_Code env obj)"

definition GetCodeSize :: "state_env \<Rightarrow> StateDB \<Rightarrow> address \<Rightarrow> nat" where
  "GetCodeSize env s addr =
     (case getStateObject s addr of None \<Rightarrow> 0
      | Some obj \<Rightarrow> (case so_code obj of Some c \<Rightarrow> length c | None \<Rightarrow> length (se_ContractCode env (acc_CodeHash (so_data obj)))))"

definition GetCodeHash :: "StateDB \<Rightarrow> address \<Rightarrow> hash" where
  "GetCodeHash s addr = (case getStateObject s addr of None \<Rightarrow> 0 | Some obj \<Rightarrow> acc_CodeHash (so_data obj))"

definition GetState :: "state_env \<Rightarrow> StateDB \<Rightarrow> address \<Rightarrow> hash \<Rightarrow> hash" where
  "GetState env s a key = (case getStateObject s a of None \<Rightarrow> 0 | Some obj \<Rightarrow> so_GetState env a obj key)"

definition HasSuicided :: "StateDB \<Rightarrow> address \<Rightarrow> bool" where
  "HasSuicided s addr = (case getStateObject s addr of None \<Rightarrow> False | Some obj \<Rightarrow> so_suicided obj)"

text \<open>The new object is dirty before it is entered, since its nonce is set; \<open>createObject\<close> returns
  the object it replaces too.\<close>

definition createObject :: "state_env \<Rightarrow> StateDB \<Rightarrow> address \<Rightarrow> StateDB \<times> stateObject \<times> stateObject option" where
  "createObject env s addr =
     (let prev = getStateObject s addr;
          newobj = (newObject \<lparr>acc_Nonce = 0, acc_Balance = 0, acc_Root = 0, acc_CodeHash = emptyCodeHash env\<rparr>)\<lparr>so_onDirty := False\<rparr>;
          s1 = s\<lparr>sdb_dirty := insert addr (sdb_dirty s)\<rparr>;
          s2 = (case prev of None \<Rightarrow> add_journal s1 (createObjectChange addr)
                | Some p \<Rightarrow> add_journal s1 (resetObjectChange addr p)) in
      (setStateObject s2 addr newobj, newobj, prev))"

definition GetOrNewStateObject :: "state_env \<Rightarrow> StateDB \<Rightarrow> address \<Rightarrow> StateDB \<times> stateObject" where
  "GetOrNewStateObject env s addr =
     (case getStateObject s addr of
        Some obj \<Rightarrow> if so_deleted obj then (case createObject env s addr of (s', obj', _) \<Rightarrow> (s', obj')) else (s, obj)
      | None \<Rightarrow> (case createObject env s addr of (s', obj', _) \<Rightarrow> (s', obj')))"

definition CreateAccount :: "state_env \<Rightarrow> StateDB \<Rightarrow> address \<Rightarrow> StateDB" where
  "CreateAccount env s addr =
     (case createObject env s addr of (s', newobj, prev) \<Rightarrow>
       (case prev of None \<Rightarrow> s' | Some p \<Rightarrow> so_setBalance s' addr newobj (acc_Balance (so_data p))))"

definition AddBalance :: "state_env \<Rightarrow> StateDB \<Rightarrow> address \<Rightarrow> int \<Rightarrow> StateDB" where
  "AddBalance env s addr amount = (case GetOrNewStateObject env s addr of (s', obj) \<Rightarrow> so_AddBalance env s' addr obj amount)"

definition SubBalance :: "state_env \<Rightarrow> StateDB \<Rightarrow> address \<Rightarrow> int \<Rightarrow> StateDB" where
  "SubBalance env s addr amount = (case GetOrNewStateObject env s addr of (s', obj) \<Rightarrow> so_SubBalance s' addr obj amount)"

definition SetBalance :: "state_env \<Rightarrow> StateDB \<Rightarrow> address \<Rightarrow> int \<Rightarrow> StateDB" where
  "SetBalance env s addr amount = (case GetOrNewStateObject env s addr of (s', obj) \<Rightarrow> so_SetBalance s' addr obj amount)"

definition SetNonce :: "state_env \<Rightarrow> StateDB \<Rightarrow> address \<Rightarrow> uint64 \<Rightarrow> StateDB" where
  "SetNonce env s addr nonce = (case GetOrNewStateObject env s addr of (s', obj) \<Rightarrow> so_SetNonce s' addr obj nonce)"

definition SetCode :: "state_env \<Rightarrow> StateDB \<Rightarrow> address \<Rightarrow> bytes \<Rightarrow> StateDB" where
  "SetCode env s addr code =
     (case GetOrNewStateObject env s addr of (s', obj) \<Rightarrow> so_SetCode env s' addr obj (se_Keccak env code) code)"

definition SetState :: "state_env \<Rightarrow> StateDB \<Rightarrow> address \<Rightarrow> hash \<Rightarrow> hash \<Rightarrow> StateDB" where
  "SetState env s addr key v = (case GetOrNewStateObject env s addr of (s', obj) \<Rightarrow> so_SetState env s' addr obj key v)"

definition Suicide :: "StateDB \<Rightarrow> address \<Rightarrow> StateDB \<times> bool" where
  "Suicide s addr =
     (case getStateObject s addr of None \<Rightarrow> (s, False)
      | Some obj \<Rightarrow>
          (let s1 = add_journal s (suicideChange addr (so_suicided obj) (acc_Balance (so_data obj))) in
           (store_dirty s1 addr (obj\<lparr>so_suicided := True, so_data := (so_data obj)\<lparr>acc_Balance := 0\<rparr>\<rparr>), True)))"

section \<open>Snapshots\<close>

definition Snapshot :: "StateDB \<Rightarrow> StateDB \<times> int" where
  "Snapshot s = (s\<lparr>sdb_nextRevisionId := sdb_nextRevisionId s + 1,
     sdb_validRevisions := sdb_validRevisions s @ [(sdb_nextRevisionId s, length (sdb_journal s))]\<rparr>, sdb_nextRevisionId s)"

abbreviation (input) ripemd :: address where "ripemd \<equiv> 3"

text \<open>A live object that an entry refers to, or the panic of dereferencing nil.\<close>

definition live_object :: "StateDB \<Rightarrow> address \<Rightarrow> (stateObject \<Rightarrow> StateDB) \<Rightarrow> StateDB go" where
  "live_object s addr f = (case getStateObject s addr of Some obj \<Rightarrow> Ret (f obj) | None \<Rightarrow> Panic ''nil pointer dereference'')"

fun undo :: "journalEntry \<Rightarrow> StateDB \<Rightarrow> StateDB go" where
  "undo (createObjectChange a) s =
     Ret (s\<lparr>sdb_stateObjects := (sdb_stateObjects s)(a := None), sdb_dirty := sdb_dirty s - {a}\<rparr>)"
| "undo (resetObjectChange a prev) s = Ret (setStateObject s a prev)"
| "undo (suicideChange a prev prevbalance) s =
     (case getStateObject s a of None \<Rightarrow> Ret s
      | Some obj \<Rightarrow> Ret (so_setBalance s a (obj\<lparr>so_suicided := prev\<rparr>) prevbalance))"
| "undo (touchChange a prev prevDirty) s =
     (if \<not> prev \<and> a \<noteq> ripemd
      then live_object s a (\<lambda>obj. let s1 = setStateObject s a (obj\<lparr>so_touched := prev\<rparr>) in
             if \<not> prevDirty then s1\<lparr>sdb_dirty := sdb_dirty s1 - {a}\<rparr> else s1)
      else Ret s)"
| "undo (balanceChange a prev) s = live_object s a (\<lambda>obj. so_setBalance s a obj prev)"
| "undo (nonceChange a prev) s = live_object s a (\<lambda>obj. so_setNonce s a obj prev)"
| "undo (codeChange a prevcode prevhash) s =
     live_object s a (\<lambda>obj. so_setCode s a obj prevhash (if prevcode = [] then None else Some prevcode))"
| "undo (storageChange a key prevalue) s = live_object s a (\<lambda>obj. so_setState s a obj key prevalue)"
| "undo (refundChange prev) s = Ret (s\<lparr>sdb_refund := prev\<rparr>)"
| "undo (addLogChange txhash) s =
     (if sdb_logs s txhash = [] then Panic ''slice bounds out of range''
      else Ret (s\<lparr>sdb_logs := (sdb_logs s)(txhash := butlast (sdb_logs s txhash)), sdb_logSize := sdb_logSize s - 1\<rparr>))"
| "undo (addPreimageChange h) s = Ret (s\<lparr>sdb_preimages := (sdb_preimages s)(h := None)\<rparr>)"

text \<open>The loop of \<^verbatim>\<open>RevertToSnapshot\<close>, over the entries from the last one down.\<close>

fun undo_all :: "journalEntry list \<Rightarrow> StateDB \<Rightarrow> StateDB go" where
  "undo_all [] s = Ret s"
| "undo_all (e # es) s = go_bind (undo e s) (undo_all es)"

definition RevertToSnapshot :: "StateDB \<Rightarrow> int \<Rightarrow> StateDB go" where
  "RevertToSnapshot s revid =
     (let revs = sdb_validRevisions s; idx = sort_Search (length revs) (\<lambda>i. fst (revs ! i) \<ge> revid) in
      if idx = length revs \<or> fst (revs ! idx) \<noteq> revid then Panic ''revision id cannot be reverted''
      else (let snapshot = snd (revs ! idx) in
        go_bind (undo_all (rev (drop snapshot (sdb_journal s))) s) (\<lambda>s'.
          Ret (s'\<lparr>sdb_journal := take snapshot (sdb_journal s), sdb_validRevisions := take idx revs\<rparr>))))"

section \<open>End of a transaction\<close>

definition clearJournalAndRefund :: "StateDB \<Rightarrow> StateDB" where
  "clearJournalAndRefund s = s\<lparr>sdb_journal := [], sdb_validRevisions := [], sdb_refund := 0\<rparr>"

text \<open>\<open>updateTrie\<close>: the dirty slots written to the storage trie; a zero value deletes the slot.\<close>

definition so_updateRoot :: "state_env \<Rightarrow> address \<Rightarrow> stateObject \<Rightarrow> stateObject" where
  "so_updateRoot env addr obj =
     (let tr = (\<lambda>k. case so_dirtyStorage obj k of Some v \<Rightarrow> v | None \<Rightarrow> so_getTrie env addr obj k) in
      obj\<lparr>so_trie := Some tr, so_dirtyStorage := Map.empty, so_data := (so_data obj)\<lparr>acc_Root := se_TrieHash env tr\<rparr>\<rparr>)"

text \<open>The loop of \<^verbatim>\<open>Finalise\<close> handles each dirty address by itself, so the result is given address by
  address; a dirty address without an object would be a nil dereference.\<close>

definition Finalise :: "state_env \<Rightarrow> StateDB \<Rightarrow> bool \<Rightarrow> StateDB go" where
  "Finalise env s deleteEmptyObjects =
     (if \<exists>a \<in> sdb_dirty s. sdb_stateObjects s a = None then Panic ''nil pointer dereference''
      else Ret (clearJournalAndRefund (s\<lparr>
        sdb_stateObjects := (\<lambda>a. case sdb_stateObjects s a of None \<Rightarrow> None
          | Some obj \<Rightarrow> if a \<notin> sdb_dirty s then Some obj
              else if so_suicided obj \<or> deleteEmptyObjects \<and> so_empty env obj then Some (obj\<lparr>so_deleted := True\<rparr>)
              else Some (so_updateRoot env a obj)),
        sdb_trie := (\<lambda>a. case sdb_stateObjects s a of None \<Rightarrow> sdb_trie s a
          | Some obj \<Rightarrow> if a \<notin> sdb_dirty s then sdb_trie s a
              else if so_suicided obj \<or> deleteEmptyObjects \<and> so_empty env obj then None
              else Some (so_data (so_updateRoot env a obj)))\<rparr>)))"

definition Prepare :: "StateDB \<Rightarrow> hash \<Rightarrow> hash \<Rightarrow> int \<Rightarrow> StateDB" where
  "Prepare s thash bhash ti = s\<lparr>sdb_thash := thash, sdb_bhash := bhash, sdb_txIndex := ti\<rparr>"

section \<open>Transfers\<close>

text \<open>\<^verbatim>\<open>CanTransfer\<close> and \<^verbatim>\<open>Transfer\<close> of \<^verbatim>\<open>core/evm.go\<close>.\<close>

definition CanTransfer :: "StateDB \<Rightarrow> address \<Rightarrow> int \<Rightarrow> bool" where
  "CanTransfer db addr amount \<longleftrightarrow> GetBalance db addr \<ge> amount"

definition Transfer :: "state_env \<Rightarrow> StateDB \<Rightarrow> address \<Rightarrow> address \<Rightarrow> int \<Rightarrow> StateDB" where
  "Transfer env db sender recipient amount = AddBalance env (SubBalance env db sender amount) recipient amount"

section \<open>The observable state\<close>

text \<open>What the virtual machine and the callers can see of the state, and what undoing a journal entry
  does to it.\<close>

record acct_view =
  av_nonce :: uint64
  av_balance :: int
  av_codeHash :: hash
  av_code :: bytes
  av_suicided :: bool
  av_storage :: "hash \<Rightarrow> hash"

record db_view =
  dv_accts :: "address \<rightharpoonup> acct_view"
  dv_refund :: int
  dv_logs :: "hash \<Rightarrow> Log list"
  dv_logSize :: int
  dv_preimages :: "hash \<rightharpoonup> bytes"

definition obj_view :: "state_env \<Rightarrow> address \<Rightarrow> stateObject \<Rightarrow> acct_view" where
  "obj_view env a obj = \<lparr>av_nonce = acc_Nonce (so_data obj), av_balance = acc_Balance (so_data obj),
     av_codeHash = acc_CodeHash (so_data obj), av_code = so_Code env obj, av_suicided = so_suicided obj,
     av_storage = so_GetState env a obj\<rparr>"

definition view :: "state_env \<Rightarrow> StateDB \<Rightarrow> db_view" where
  "view env s = \<lparr>dv_accts = (\<lambda>a. map_option (obj_view env a) (getStateObject s a)), dv_refund = sdb_refund s,
     dv_logs = sdb_logs s, dv_logSize = sdb_logSize s, dv_preimages = sdb_preimages s\<rparr>"

definition upd_acct :: "address \<Rightarrow> (acct_view \<Rightarrow> acct_view) \<Rightarrow> db_view \<Rightarrow> db_view option" where
  "upd_acct a f v = (case dv_accts v a of None \<Rightarrow> None | Some av \<Rightarrow> Some (v\<lparr>dv_accts := (dv_accts v)(a \<mapsto> f av)\<rparr>))"

fun vundo :: "state_env \<Rightarrow> journalEntry \<Rightarrow> db_view \<Rightarrow> db_view option" where
  "vundo env (createObjectChange a) v = Some (v\<lparr>dv_accts := (dv_accts v)(a := None)\<rparr>)"
| "vundo env (resetObjectChange a prev) v = Some (v\<lparr>dv_accts := (dv_accts v)(a \<mapsto> obj_view env a prev)\<rparr>)"
| "vundo env (suicideChange a prev b) v = upd_acct a (\<lambda>av. av\<lparr>av_suicided := prev, av_balance := b\<rparr>) v"
| "vundo env (touchChange a prev d) v = upd_acct a (\<lambda>av. av) v"
| "vundo env (balanceChange a b) v = upd_acct a (\<lambda>av. av\<lparr>av_balance := b\<rparr>) v"
| "vundo env (nonceChange a n) v = upd_acct a (\<lambda>av. av\<lparr>av_nonce := n\<rparr>) v"
| "vundo env (codeChange a c h) v = upd_acct a (\<lambda>av. av\<lparr>av_code := c, av_codeHash := h\<rparr>) v"
| "vundo env (storageChange a k x) v = upd_acct a (\<lambda>av. av\<lparr>av_storage := (av_storage av)(k := x)\<rparr>) v"
| "vundo env (refundChange r) v = Some (v\<lparr>dv_refund := r\<rparr>)"
| "vundo env (addLogChange h) v =
     (if dv_logs v h = [] then None
      else Some (v\<lparr>dv_logs := (dv_logs v)(h := butlast (dv_logs v h)), dv_logSize := dv_logSize v - 1\<rparr>))"
| "vundo env (addPreimageChange h) v = Some (v\<lparr>dv_preimages := (dv_preimages v)(h := None)\<rparr>)"

text \<open>Entries are undone from the last one down.\<close>

fun vundos :: "state_env \<Rightarrow> journalEntry list \<Rightarrow> db_view \<Rightarrow> db_view option" where
  "vundos env [] v = Some v"
| "vundos env (e # es) v = (case vundos env es v of None \<Rightarrow> None | Some v' \<Rightarrow> vundo env e v')"

section \<open>Invariant\<close>

definition code_ok :: "bytes \<Rightarrow> bool" where
  "code_ok c \<longleftrightarrow> length c < 2 ^ 62"

lemma code_ok_Nil [simp]: "code_ok []"
  by (simp add: code_ok_def)

definition obj_ok :: "state_env \<Rightarrow> stateObject \<Rightarrow> bool" where
  "obj_ok env obj \<longleftrightarrow> 0 \<le> acc_Balance (so_data obj) \<and> (\<forall>c. so_code obj = Some c \<longrightarrow> code_ok c) \<and>
     (so_code obj = Some [] \<longrightarrow> acc_CodeHash (so_data obj) = emptyCodeHash env)"

fun entry_ok :: "state_env \<Rightarrow> (address \<rightharpoonup> Account) \<Rightarrow> journalEntry \<Rightarrow> bool" where
  "entry_ok env tr (createObjectChange a) = (tr a = None)"
| "entry_ok env tr (resetObjectChange a prev) = (obj_ok env prev \<and> \<not> so_deleted prev)"
| "entry_ok env tr (suicideChange a p b) = (0 \<le> b)"
| "entry_ok env tr (balanceChange a b) = (0 \<le> b)"
| "entry_ok env tr (codeChange a c h) = (code_ok c \<and> (c = [] \<longrightarrow> h = emptyCodeHash env \<or> se_ContractCode env h = []))"
| "entry_ok env tr e = True"

definition env_ok :: "state_env \<Rightarrow> bool" where
  "env_ok env \<longleftrightarrow> (\<forall>h. code_ok (se_ContractCode env h))"

definition revs_ok :: "StateDB \<Rightarrow> bool" where
  "revs_ok s \<longleftrightarrow> sorted_wrt (<) (map fst (sdb_validRevisions s)) \<and>
     (\<forall>(i, n) \<in> set (sdb_validRevisions s). i < sdb_nextRevisionId s \<and> n \<le> length (sdb_journal s))"

definition sdb_inv :: "state_env \<Rightarrow> StateDB \<Rightarrow> bool" where
  "sdb_inv env s \<longleftrightarrow> env_ok env \<and> revs_ok s \<and>
     (\<forall>a obj. sdb_stateObjects s a = Some obj \<longrightarrow> obj_ok env obj \<and>
        (so_deleted obj \<longrightarrow> sdb_trie s a = None \<and> (so_suicided obj \<or> so_empty env obj))) \<and>
     (\<forall>a acc. sdb_trie s a = Some acc \<longrightarrow> 0 \<le> acc_Balance acc) \<and> sdb_dirty s \<subseteq> dom (sdb_stateObjects s) \<and>
     (\<forall>e \<in> set (sdb_journal s). entry_ok env (sdb_trie s) e)"

definition objs_inv :: "state_env \<Rightarrow> StateDB \<Rightarrow> bool" where
  "objs_inv env s \<longleftrightarrow> env_ok env \<and>
     (\<forall>a obj. sdb_stateObjects s a = Some obj \<longrightarrow> obj_ok env obj \<and>
        (so_deleted obj \<longrightarrow> sdb_trie s a = None \<and> (so_suicided obj \<or> so_empty env obj))) \<and>
     (\<forall>a acc. sdb_trie s a = Some acc \<longrightarrow> 0 \<le> acc_Balance acc) \<and> sdb_dirty s \<subseteq> dom (sdb_stateObjects s)"

lemma sdb_inv_alt: "sdb_inv env s \<longleftrightarrow> objs_inv env s \<and> revs_ok s \<and> (\<forall>e \<in> set (sdb_journal s). entry_ok env (sdb_trie s) e)"
  by (auto simp: sdb_inv_def objs_inv_def)

named_theorems sdb_defs \<open>operations on the fields of the state database\<close>

lemmas [sdb_defs] = add_journal_def setStateObject_def store_dirty_def so_setBalance_def so_setNonce_def so_setCode_def so_setState_def

lemma obj_view_flags [simp]:
  "obj_view env a (obj\<lparr>so_onDirty := x\<rparr>) = obj_view env a obj"
  "obj_view env a (obj\<lparr>so_touched := x\<rparr>) = obj_view env a obj"
  by (simp_all add: obj_view_def so_Code_def so_GetState_def so_getTrie_def fun_eq_iff cong: option.case_cong)

lemma obj_view_update:
  "obj_view env a (obj\<lparr>so_data := (so_data obj)\<lparr>acc_Balance := b\<rparr>\<rparr>) = (obj_view env a obj)\<lparr>av_balance := b\<rparr>"
  "obj_view env a (obj\<lparr>so_suicided := p, so_data := (so_data obj)\<lparr>acc_Balance := b\<rparr>\<rparr>) = (obj_view env a obj)\<lparr>av_suicided := p, av_balance := b\<rparr>"
  "obj_view env a (obj\<lparr>so_data := (so_data obj)\<lparr>acc_Nonce := n\<rparr>\<rparr>) = (obj_view env a obj)\<lparr>av_nonce := n\<rparr>"
  "obj_view env a (obj\<lparr>so_cachedStorage := (so_cachedStorage obj)(k \<mapsto> x), so_dirtyStorage := d\<rparr>) =
     (obj_view env a obj)\<lparr>av_storage := (av_storage (obj_view env a obj))(k := x)\<rparr>"
  "obj_view env a (obj\<lparr>so_code := oc, so_data := (so_data obj)\<lparr>acc_CodeHash := h\<rparr>, so_dirtyCode := True\<rparr>) =
     (obj_view env a obj)\<lparr>av_code := (case oc of Some c \<Rightarrow> c
       | None \<Rightarrow> if h = emptyCodeHash env then [] else se_ContractCode env h), av_codeHash := h\<rparr>"
  by (simp_all add: obj_view_def so_Code_def so_GetState_def so_getTrie_def fun_eq_iff cong: option.case_cong)

lemma obj_view_sel [simp]:
  "av_balance (obj_view env a obj) = acc_Balance (so_data obj)" "av_nonce (obj_view env a obj) = acc_Nonce (so_data obj)"
  "av_suicided (obj_view env a obj) = so_suicided obj" "av_code (obj_view env a obj) = so_Code env obj"
  "av_codeHash (obj_view env a obj) = acc_CodeHash (so_data obj)" "av_storage (obj_view env a obj) = so_GetState env a obj"
  by (simp_all add: obj_view_def)

lemma obj_view_idem [simp]:
  "(obj_view env a obj)\<lparr>av_balance := acc_Balance (so_data obj)\<rparr> = obj_view env a obj"
  "(obj_view env a obj)\<lparr>av_nonce := acc_Nonce (so_data obj)\<rparr> = obj_view env a obj"
  "(obj_view env a obj)\<lparr>av_suicided := so_suicided obj, av_balance := acc_Balance (so_data obj)\<rparr> = obj_view env a obj"
  "(obj_view env a obj)\<lparr>av_storage := so_GetState env a obj\<rparr> = obj_view env a obj"
  "(obj_view env a obj)\<lparr>av_code := so_Code env obj, av_codeHash := acc_CodeHash (so_data obj)\<rparr> = obj_view env a obj"
  by (simp_all add: obj_view_def)

lemma getStateObject_store_dirty:
  "getStateObject (store_dirty s a obj) b =
     (if b = a then (if so_deleted obj then None else Some (obj\<lparr>so_onDirty := False\<rparr>)) else getStateObject s b)"
  by (auto simp: getStateObject_def sdb_defs cong: option.case_cong)

lemma view_store_dirty:
  "\<not> so_deleted obj \<Longrightarrow> view env (store_dirty s a obj) = (view env s)\<lparr>dv_accts := (dv_accts (view env s))(a \<mapsto> obj_view env a obj)\<rparr>"
  by (auto simp: view_def getStateObject_store_dirty fun_eq_iff) (simp_all add: sdb_defs)

lemma view_add_journal [simp]: "view env (add_journal s e) = view env s"
  by (simp add: view_def getStateObject_def add_journal_def cong: option.case_cong)

lemma live_ok:
  "objs_inv env s \<Longrightarrow> getStateObject s a = Some obj \<Longrightarrow> obj_ok env obj \<and> \<not> so_deleted obj"
  by (auto simp: getStateObject_def objs_inv_def obj_ok_def newObject_def split: option.splits if_splits cong: option.case_cong)

lemma objs_inv_store_dirty:
  "objs_inv env s \<Longrightarrow> obj_ok env obj \<Longrightarrow> \<not> so_deleted obj \<Longrightarrow> objs_inv env (store_dirty s a obj)"
  by (auto simp: objs_inv_def sdb_defs obj_ok_def split: if_splits)

text \<open>What the operations on one object and undoing leave alone.\<close>

definition kept :: "StateDB \<Rightarrow> StateDB \<Rightarrow> bool" where
  "kept s s' \<longleftrightarrow> sdb_trie s' = sdb_trie s \<and> sdb_journal s' = sdb_journal s \<and> sdb_validRevisions s' = sdb_validRevisions s \<and>
     sdb_nextRevisionId s' = sdb_nextRevisionId s \<and> sdb_thash s' = sdb_thash s \<and> sdb_bhash s' = sdb_bhash s \<and> sdb_txIndex s' = sdb_txIndex s"

lemma kept_store_dirty [simp]: "kept s (store_dirty s a obj)"
  by (simp add: kept_def sdb_defs)

lemma dv_acct_live: "dv_accts (view env s) a = Some av \<Longrightarrow> \<exists>obj. getStateObject s a = Some obj \<and> av = obj_view env a obj"
  by (auto simp: view_def)

lemma upd_acct_live:
  assumes "upd_acct a f (view env s) = Some v"
  obtains obj where "getStateObject s a = Some obj"
    "v = (view env s)\<lparr>dv_accts := (dv_accts (view env s))(a \<mapsto> f (obj_view env a obj))\<rparr>"
  using assms dv_acct_live by (fastforce simp: upd_acct_def split: option.splits)

text \<open>Undoing a touch clears a flag the view does not show.\<close>

lemma undo_touch:
  assumes inv: "objs_inv env s" and v: "upd_acct a (\<lambda>av. av) (view env s) = Some v"
  shows "\<exists>s'. undo (touchChange a p d) s = Ret s' \<and> view env s' = v \<and> kept s s' \<and> objs_inv env s'"
proof -
  obtain obj where obj: "getStateObject s a = Some obj" "v = view env s"
    using v dv_acct_live by (fastforce simp: upd_acct_def fun_upd_idem split: option.splits)
  let ?t = "setStateObject s a (obj\<lparr>so_touched := False\<rparr>)"
  have "obj_ok env obj" "\<not> so_deleted obj" using live_ok [OF inv obj(1)] by simp_all
  then have "view env ?t = view env s" "kept s ?t" "objs_inv env ?t"
    using obj(1) inv by (auto simp: view_def getStateObject_def setStateObject_def kept_def objs_inv_def obj_ok_def fun_eq_iff cong: option.case_cong)
  moreover from this have "view env (?t\<lparr>sdb_dirty := D\<rparr>) = view env s" "kept s (?t\<lparr>sdb_dirty := D\<rparr>)" "objs_inv env (?t\<lparr>sdb_dirty := D\<rparr>)"
    if "D \<subseteq> sdb_dirty ?t" for D
    using that by (auto simp add: view_def getStateObject_def kept_def objs_inv_def cong: option.case_cong)
  moreover have "kept s s" by (simp add: kept_def)
  ultimately show ?thesis using obj inv by (simp add: live_object_def Let_def)
qed

lemma undo_view:
  assumes "objs_inv env s" "entry_ok env (sdb_trie s) e" "vundo env e (view env s) = Some v"
  shows "\<exists>s'. undo e s = Ret s' \<and> view env s' = v \<and> kept s s' \<and> objs_inv env s'"
proof (cases e)
  case (createObjectChange a)
  then show ?thesis using assms
    by (auto simp: view_def getStateObject_def kept_def objs_inv_def fun_eq_iff cong: option.case_cong)
next
  case (resetObjectChange a p)
  then show ?thesis using assms
    by (auto simp: view_def getStateObject_def kept_def objs_inv_def fun_eq_iff sdb_defs cong: option.case_cong)
next
  case (suicideChange a p b)
  then obtain obj where obj: "getStateObject s a = Some obj"
      "v = (view env s)\<lparr>dv_accts := (dv_accts (view env s))(a \<mapsto> (obj_view env a obj)\<lparr>av_suicided := p, av_balance := b\<rparr>)\<rparr>"
    using assms(3) by (auto elim: upd_acct_live)
  with live_ok [OF assms(1) obj(1)] obj suicideChange assms show ?thesis
    by (simp add: so_setBalance_def view_store_dirty obj_view_update objs_inv_store_dirty obj_ok_def)
next
  case (balanceChange a b)
  then obtain obj where obj: "getStateObject s a = Some obj"
      "v = (view env s)\<lparr>dv_accts := (dv_accts (view env s))(a \<mapsto> (obj_view env a obj)\<lparr>av_balance := b\<rparr>)\<rparr>"
    using assms(3) by (auto elim: upd_acct_live)
  with live_ok [OF assms(1) obj(1)] obj balanceChange assms show ?thesis
    by (simp add: live_object_def so_setBalance_def view_store_dirty obj_view_update objs_inv_store_dirty obj_ok_def)
next
  case (nonceChange a n)
  then obtain obj where obj: "getStateObject s a = Some obj"
      "v = (view env s)\<lparr>dv_accts := (dv_accts (view env s))(a \<mapsto> (obj_view env a obj)\<lparr>av_nonce := n\<rparr>)\<rparr>"
    using assms(3) by (auto elim: upd_acct_live)
  with live_ok [OF assms(1) obj(1)] obj nonceChange assms show ?thesis
    by (simp add: live_object_def so_setNonce_def view_store_dirty obj_view_update objs_inv_store_dirty obj_ok_def)
next
  case (storageChange a k x)
  then obtain obj where obj: "getStateObject s a = Some obj"
      "v = (view env s)\<lparr>dv_accts := (dv_accts (view env s))(a \<mapsto> (obj_view env a obj)\<lparr>av_storage := (so_GetState env a obj)(k := x)\<rparr>)\<rparr>"
    using assms(3) by (auto elim: upd_acct_live simp: obj_view_def)
  with live_ok [OF assms(1) obj(1)] obj storageChange assms show ?thesis
    by (simp add: live_object_def so_setState_def view_store_dirty obj_view_update objs_inv_store_dirty obj_ok_def)
next
  case (codeChange a c h)
  let ?c = "if c = [] then None else Some c"
  obtain obj where obj: "getStateObject s a = Some obj"
      "v = (view env s)\<lparr>dv_accts := (dv_accts (view env s))(a \<mapsto> (obj_view env a obj)\<lparr>av_code := c, av_codeHash := h\<rparr>)\<rparr>"
    using assms(3) codeChange by (auto elim: upd_acct_live)
  have "obj_view env a (obj\<lparr>so_code := ?c, so_data := (so_data obj)\<lparr>acc_CodeHash := h\<rparr>, so_dirtyCode := True\<rparr>) =
      (obj_view env a obj)\<lparr>av_code := c, av_codeHash := h\<rparr>"
    using assms(2) codeChange by (auto simp: obj_view_update)
  with live_ok [OF assms(1) obj(1)] obj codeChange assms show ?thesis
    by (simp add: live_object_def so_setCode_def view_store_dirty objs_inv_store_dirty obj_ok_def)
next
  case (touchChange a p d)
  then show ?thesis using undo_touch [OF assms(1)] assms(3) by simp
qed (use assms in \<open>auto simp: view_def getStateObject_def kept_def objs_inv_def fun_eq_iff split: if_splits cong: option.case_cong\<close>)

lemma kept_trans: "kept s t \<Longrightarrow> kept t u \<Longrightarrow> kept s u"
  by (simp add: kept_def)

lemma vundos_append:
  "vundos env (xs @ ys) v = (case vundos env ys v of None \<Rightarrow> None | Some v' \<Rightarrow> vundos env xs v')"
  by (induction xs) (auto split: option.splits)

lemma undo_all_view:
  assumes "objs_inv env s" "\<forall>e \<in> set es. entry_ok env (sdb_trie s) e" "vundos env es (view env s) = Some v"
  shows "\<exists>s'. undo_all (rev es) s = Ret s' \<and> view env s' = v \<and> kept s s' \<and> objs_inv env s'"
  using assms
proof (induction es arbitrary: s rule: rev_induct)
  case (snoc e es)
  then obtain w where w: "vundo env e (view env s) = Some w" "vundos env es w = Some v"
    by (auto simp: vundos_append split: option.splits)
  obtain t where t: "undo e s = Ret t" "view env t = w" "kept s t" "objs_inv env t"
    using undo_view [OF snoc.prems(1) _ w(1)] snoc.prems(2) by auto
  have "sdb_trie t = sdb_trie s" using t(3) by (simp add: kept_def)
  then obtain u where "undo_all (rev es) t = Ret u" "view env u = v" "kept t u" "objs_inv env u"
    using snoc.IH [OF t(4)] snoc.prems(2) w(2) t(2) by auto
  then show ?case using t kept_trans by fastforce
qed (simp add: kept_def)

section \<open>Operations are undone by the journal\<close>

definition later :: "state_env \<Rightarrow> StateDB \<Rightarrow> StateDB \<Rightarrow> bool" where
  "later env s s' \<longleftrightarrow>
     (\<exists>es rs. sdb_journal s' = sdb_journal s @ es \<and> sdb_validRevisions s' = sdb_validRevisions s @ rs \<and>
        vundos env es (view env s') = Some (view env s)) \<and>
     sdb_nextRevisionId s \<le> sdb_nextRevisionId s' \<and> sdb_trie s' = sdb_trie s \<and>
     sdb_thash s' = sdb_thash s \<and> sdb_bhash s' = sdb_bhash s \<and> sdb_txIndex s' = sdb_txIndex s"

lemma later_refl [simp]: "later env s s"
  by (auto simp: later_def intro: exI [of _ "[]"])

lemma later_trans [trans]: "later env s t \<Longrightarrow> later env t u \<Longrightarrow> later env s u"
proof -
  assume a: "later env s t" "later env t u"
  obtain es rs where s: "sdb_journal t = sdb_journal s @ es" "sdb_validRevisions t = sdb_validRevisions s @ rs"
      "vundos env es (view env t) = Some (view env s)"
    using a(1) by (auto simp: later_def)
  obtain fs ss where t: "sdb_journal u = sdb_journal t @ fs" "sdb_validRevisions u = sdb_validRevisions t @ ss"
      "vundos env fs (view env u) = Some (view env t)"
    using a(2) by (auto simp: later_def)
  have "vundos env (es @ fs) (view env u) = Some (view env s)" using s(3) t(3) by (simp add: vundos_append)
  then show ?thesis using a s t by (auto simp: later_def)
qed

text \<open>The invariant and the journal, for an operation that appends one entry.\<close>

definition steps_to :: "state_env \<Rightarrow> StateDB \<Rightarrow> StateDB \<Rightarrow> bool" where
  "steps_to env s s' \<longleftrightarrow> sdb_inv env s \<longrightarrow> sdb_inv env s' \<and> later env s s'"

lemma steps_toI:
  assumes "sdb_inv env s \<Longrightarrow> sdb_journal s' = sdb_journal s @ es \<and> sdb_validRevisions s' = sdb_validRevisions s \<and>
     sdb_nextRevisionId s' = sdb_nextRevisionId s \<and> sdb_trie s' = sdb_trie s \<and> sdb_thash s' = sdb_thash s \<and>
     sdb_bhash s' = sdb_bhash s \<and> sdb_txIndex s' = sdb_txIndex s \<and> objs_inv env s' \<and>
     (\<forall>e \<in> set es. entry_ok env (sdb_trie s) e) \<and> vundos env es (view env s') = Some (view env s)"
  shows "steps_to env s s'"
  unfolding steps_to_def
proof
  assume inv: "sdb_inv env s"
  note a = assms [OF inv]
  then have "sdb_inv env s'" using inv by (auto simp: sdb_inv_alt revs_ok_def)
  moreover have "later env s s'" unfolding later_def using a by auto
  ultimately show "sdb_inv env s' \<and> later env s s'" by simp
qed

lemma steps_to_refl [simp]: "steps_to env s s"
  by (simp add: steps_to_def)

lemma steps_to_trans [trans]: "steps_to env s t \<Longrightarrow> steps_to env t u \<Longrightarrow> steps_to env s u"
  using later_trans by (auto simp: steps_to_def)

lemma objs_inv_journal [simp]: "objs_inv env (add_journal s e) = objs_inv env s"
  by (simp add: objs_inv_def add_journal_def)

text \<open>A setter: it journals one entry and stores the modified object.\<close>

lemma steps_to_setter:
  assumes "getStateObject s a = Some obj"
    and "objs_inv env s \<Longrightarrow> obj_ok env obj \<Longrightarrow> obj_ok env obj' \<and> entry_ok env (sdb_trie s) e"
    and "so_deleted obj' = so_deleted obj"
    and "upd_acct a f ((view env s)\<lparr>dv_accts := (dv_accts (view env s))(a \<mapsto> obj_view env a obj')\<rparr>) =
        vundo env e ((view env s)\<lparr>dv_accts := (dv_accts (view env s))(a \<mapsto> obj_view env a obj')\<rparr>)"
    and "f (obj_view env a obj') = obj_view env a obj"
  shows "steps_to env s (store_dirty (add_journal s e) a obj')"
proof (rule steps_toI [of _ _ _ "[e]"])
  assume "sdb_inv env s"
  then have inv: "objs_inv env s" by (simp add: sdb_inv_alt)
  note ok = live_ok [OF inv assms(1)]
  let ?s = "store_dirty (add_journal s e) a obj'"
  have "view env ?s = (view env s)\<lparr>dv_accts := (dv_accts (view env s))(a \<mapsto> obj_view env a obj')\<rparr>"
    using ok assms(3) by (simp add: view_store_dirty)
  moreover have "dv_accts (view env s) a = Some (obj_view env a obj)" using assms(1) by (simp add: view_def)
  ultimately have "vundo env e (view env ?s) = Some (view env s)"
    using assms(4,5) by (simp add: upd_acct_def fun_upd_idem flip: assms(4))
  moreover have "objs_inv env ?s" using ok assms(2,3) inv by (intro objs_inv_store_dirty) simp_all
  ultimately show "sdb_journal ?s = sdb_journal s @ [e] \<and> sdb_validRevisions ?s = sdb_validRevisions s \<and>
     sdb_nextRevisionId ?s = sdb_nextRevisionId s \<and> sdb_trie ?s = sdb_trie s \<and> sdb_thash ?s = sdb_thash s \<and>
     sdb_bhash ?s = sdb_bhash s \<and> sdb_txIndex ?s = sdb_txIndex s \<and> objs_inv env ?s \<and>
     (\<forall>e \<in> set [e]. entry_ok env (sdb_trie s) e) \<and> vundos env [e] (view env ?s) = Some (view env s)"
    using ok assms(2) inv by (simp add: sdb_defs)
qed

lemma so_SetBalance_steps:
  "getStateObject s a = Some obj \<Longrightarrow> 0 \<le> x \<Longrightarrow> steps_to env s (so_SetBalance s a obj x)"
  unfolding so_SetBalance_def so_setBalance_def
  by (rule steps_to_setter [where f = "\<lambda>av. av\<lparr>av_balance := acc_Balance (so_data obj)\<rparr>"])
    (simp_all add: obj_ok_def obj_view_update)

lemma so_SetNonce_steps: "getStateObject s a = Some obj \<Longrightarrow> steps_to env s (so_SetNonce s a obj n)"
  unfolding so_SetNonce_def so_setNonce_def
  by (rule steps_to_setter [where f = "\<lambda>av. av\<lparr>av_nonce := acc_Nonce (so_data obj)\<rparr>"])
    (simp_all add: obj_ok_def obj_view_update)

lemma so_SetState_steps: "getStateObject s a = Some obj \<Longrightarrow> steps_to env s (so_SetState env s a obj k v)"
  unfolding so_SetState_def so_setState_def
  by (rule steps_to_setter [where f = "\<lambda>av. av\<lparr>av_storage := (av_storage av)(k := so_GetState env a obj k)\<rparr>"])
    (simp_all add: obj_ok_def obj_view_update)

lemma so_touch_steps: "getStateObject s a = Some obj \<Longrightarrow> steps_to env s (so_touch s a obj)"
  unfolding so_touch_def
  by (rule steps_to_setter [where f = "\<lambda>av. av"]) (auto simp: obj_ok_def)

lemma so_SetCode_steps:
  "getStateObject s a = Some obj \<Longrightarrow> code_ok c \<Longrightarrow> (c = [] \<Longrightarrow> h = emptyCodeHash env) \<Longrightarrow> steps_to env s (so_SetCode env s a obj h c)"
  unfolding so_SetCode_def so_setCode_def
  by (rule steps_to_setter [where f = "\<lambda>av. av\<lparr>av_code := so_Code env obj, av_codeHash := acc_CodeHash (so_data obj)\<rparr>"])
    (auto simp: obj_ok_def obj_view_update objs_inv_def env_ok_def so_Code_def split: option.splits)

lemma Suicide_steps: "steps_to env s (fst (Suicide s a))"
proof (cases "getStateObject s a")
  case (Some obj)
  have "steps_to env s (store_dirty (add_journal s (suicideChange a (so_suicided obj) (acc_Balance (so_data obj)))) a
      (obj\<lparr>so_suicided := True, so_data := (so_data obj)\<lparr>acc_Balance := 0\<rparr>\<rparr>))"
    by (rule steps_to_setter [OF Some, where f = "\<lambda>av. av\<lparr>av_suicided := so_suicided obj, av_balance := acc_Balance (so_data obj)\<rparr>"])
      (simp_all add: obj_ok_def obj_view_update)
  then show ?thesis using Some by (simp add: Suicide_def Let_def)
qed (simp add: Suicide_def)

definition fresh_object :: "state_env \<Rightarrow> stateObject" where
  "fresh_object env = (newObject \<lparr>acc_Nonce = 0, acc_Balance = 0, acc_Root = 0, acc_CodeHash = emptyCodeHash env\<rparr>)\<lparr>so_onDirty := False\<rparr>"

text \<open>A replaced object: the journal keeps the old one, or that there was none.\<close>

lemma steps_to_create:
  assumes "obj_ok env obj" "\<not> so_deleted obj"
    and "s' = setStateObject (add_journal (s\<lparr>sdb_dirty := insert a (sdb_dirty s)\<rparr>)
        (case getStateObject s a of None \<Rightarrow> createObjectChange a | Some p \<Rightarrow> resetObjectChange a p)) a obj"
  shows "steps_to env s s' \<and> getStateObject s' a = Some obj"
proof
  let ?e = "case getStateObject s a of None \<Rightarrow> createObjectChange a | Some p \<Rightarrow> resetObjectChange a p"
  have v: "view env s' = (view env s)\<lparr>dv_accts := (dv_accts (view env s))(a \<mapsto> obj_view env a obj)\<rparr>"
    using assms(2) by (auto simp: assms(3) view_def getStateObject_def sdb_defs fun_eq_iff cong: option.case_cong)
  show "steps_to env s s'"
  proof (rule steps_toI [of _ _ _ "[?e]"])
    assume "sdb_inv env s"
    then have inv: "objs_inv env s" by (simp add: sdb_inv_alt)
    have "entry_ok env (sdb_trie s) ?e"
    proof (cases "getStateObject s a")
      case None
      then have "sdb_trie s a = None"
        using inv by (auto simp: getStateObject_def objs_inv_def split: option.splits if_splits)
      then show ?thesis using None by simp
    qed (use live_ok [OF inv] in simp)
    moreover have "vundo env ?e (view env s') = Some (view env s)"
      unfolding v by (cases "getStateObject s a") (simp_all add: view_def fun_eq_iff)
    moreover have "objs_inv env s'" using inv assms by (auto simp: objs_inv_def sdb_defs)
    ultimately show "sdb_journal s' = sdb_journal s @ [?e] \<and> sdb_validRevisions s' = sdb_validRevisions s \<and>
      sdb_nextRevisionId s' = sdb_nextRevisionId s \<and> sdb_trie s' = sdb_trie s \<and> sdb_thash s' = sdb_thash s \<and>
      sdb_bhash s' = sdb_bhash s \<and> sdb_txIndex s' = sdb_txIndex s \<and> objs_inv env s' \<and>
      (\<forall>e \<in> set [?e]. entry_ok env (sdb_trie s) e) \<and> vundos env [?e] (view env s') = Some (view env s)"
      by (simp add: assms(3) sdb_defs)
  qed
  show "getStateObject s' a = Some obj" using assms(2) by (simp add: assms(3) getStateObject_def sdb_defs)
qed

lemma fresh_object_ok [simp]: "obj_ok env (fresh_object env)" "\<not> so_deleted (fresh_object env)"
  by (simp_all add: fresh_object_def newObject_def obj_ok_def)

lemma GetOrNew_steps:
  assumes "GetOrNewStateObject env s a = (s', obj)"
  shows "steps_to env s s' \<and> getStateObject s' a = Some obj \<and> (getStateObject s a = Some obj \<and> s' = s \<or> getStateObject s a = None \<and> obj = fresh_object env)"
proof (cases "getStateObject s a")
  case None
  then have eq: "obj = fresh_object env"
      "s' = setStateObject (add_journal (s\<lparr>sdb_dirty := insert a (sdb_dirty s)\<rparr>)
        (case getStateObject s a of None \<Rightarrow> createObjectChange a | Some p \<Rightarrow> resetObjectChange a p)) a (fresh_object env)"
    using assms by (auto simp: GetOrNewStateObject_def createObject_def Let_def fresh_object_def)
  then show ?thesis using steps_to_create [OF fresh_object_ok eq(2)] None by simp
next
  case (Some o')
  then have "\<not> so_deleted o'" by (auto simp: getStateObject_def newObject_def split: option.splits if_splits)
  then show ?thesis using assms Some by (simp add: GetOrNewStateObject_def)
qed

lemma CreateAccount_steps:
  assumes "sdb_inv env s"
  shows "steps_to env s (CreateAccount env s a)"
proof -
  let ?obj = "(fresh_object env)\<lparr>so_data := (so_data (fresh_object env))\<lparr>acc_Balance := GetBalance s a\<rparr>\<rparr>"
  have "0 \<le> GetBalance s a" using live_ok assms
    by (auto simp: GetBalance_def sdb_inv_alt obj_ok_def split: option.splits)
  then have "obj_ok env ?obj" "\<not> so_deleted ?obj" by (simp_all add: fresh_object_def newObject_def obj_ok_def)
  moreover have "CreateAccount env s a = setStateObject (add_journal (s\<lparr>sdb_dirty := insert a (sdb_dirty s)\<rparr>)
        (case getStateObject s a of None \<Rightarrow> createObjectChange a | Some p \<Rightarrow> resetObjectChange a p)) a ?obj"
    by (auto simp: CreateAccount_def createObject_def Let_def fresh_object_def newObject_def GetBalance_def sdb_defs fun_eq_iff split: option.splits)
  ultimately show ?thesis using steps_to_create by blast
qed

lemma AddBalance_steps: "0 \<le> x \<Longrightarrow> steps_to env s (AddBalance env s a x)"
proof -
  assume x: "0 \<le> x"
  obtain s' obj where g: "GetOrNewStateObject env s a = (s', obj)" by fastforce
  note n = GetOrNew_steps [OF g]
  have "steps_to env s' (so_AddBalance env s' a obj x)"
  proof (cases "sdb_inv env s'")
    case True
    then have "0 \<le> acc_Balance (so_data obj)" using live_ok n by (auto simp: sdb_inv_alt obj_ok_def)
    then show ?thesis using n x so_touch_steps so_SetBalance_steps by (simp add: so_AddBalance_def)
  qed (simp add: steps_to_def)
  then show ?thesis using n g by (auto simp: AddBalance_def intro: steps_to_trans)
qed

lemma SubBalance_steps:
  assumes "0 \<le> x" "x \<le> GetBalance s a"
  shows "steps_to env s (SubBalance env s a x)"
proof -
  obtain s' obj where g: "GetOrNewStateObject env s a = (s', obj)" by fastforce
  note n = GetOrNew_steps [OF g]
  have "x \<le> acc_Balance (so_data obj)" using n assms by (auto simp: GetBalance_def fresh_object_def newObject_def)
  then have "steps_to env s' (so_SubBalance s' a obj x)"
    using n so_SetBalance_steps by (simp add: so_SubBalance_def)
  then show ?thesis using n g by (auto simp: SubBalance_def intro: steps_to_trans)
qed

lemma SetBalance_steps: "0 \<le> x \<Longrightarrow> steps_to env s (SetBalance env s a x)"
proof -
  assume x: "0 \<le> x"
  obtain s' obj where g: "GetOrNewStateObject env s a = (s', obj)" by fastforce
  then show ?thesis using GetOrNew_steps [OF g] so_SetBalance_steps x steps_to_trans by (auto simp: SetBalance_def)
qed

lemma SetNonce_steps: "steps_to env s (SetNonce env s a n)"
proof -
  obtain s' obj where g: "GetOrNewStateObject env s a = (s', obj)" by fastforce
  then show ?thesis using GetOrNew_steps [OF g] so_SetNonce_steps steps_to_trans by (auto simp: SetNonce_def)
qed

lemma SetState_steps: "steps_to env s (SetState env s a k v)"
proof -
  obtain s' obj where g: "GetOrNewStateObject env s a = (s', obj)" by fastforce
  then show ?thesis using GetOrNew_steps [OF g] so_SetState_steps steps_to_trans by (auto simp: SetState_def)
qed

lemma SetCode_steps: "code_ok c \<Longrightarrow> steps_to env s (SetCode env s a c)"
proof -
  assume c: "code_ok c"
  obtain s' obj where g: "GetOrNewStateObject env s a = (s', obj)" by fastforce
  have "steps_to env s' (so_SetCode env s' a obj (se_Keccak env c) c)"
    using GetOrNew_steps [OF g] c by (intro so_SetCode_steps) (auto simp: emptyCodeHash_def)
  then show ?thesis using GetOrNew_steps [OF g] g steps_to_trans by (auto simp: SetCode_def)
qed

lemma AddLog_steps: "steps_to env s (AddLog s l)"
  by (rule steps_toI [of _ _ _ "[addLogChange (sdb_thash s)]"])
    (auto simp: AddLog_def Let_def sdb_inv_alt objs_inv_def view_def getStateObject_def add_journal_def fun_eq_iff cong: option.case_cong)

lemma AddPreimage_steps: "steps_to env s (AddPreimage s h p)"
proof (cases "sdb_preimages s h")
  case None
  then show ?thesis
    by (intro steps_toI [of _ _ _ "[addPreimageChange h]"])
      (auto simp: AddPreimage_def sdb_inv_alt objs_inv_def view_def getStateObject_def add_journal_def fun_eq_iff cong: option.case_cong)
qed (simp add: AddPreimage_def)

lemma AddRefund_steps: "steps_to env s (AddRefund s g)"
  by (rule steps_toI [of _ _ _ "[refundChange (sdb_refund s)]"])
    (auto simp: AddRefund_def sdb_inv_alt objs_inv_def view_def getStateObject_def add_journal_def fun_eq_iff cong: option.case_cong)

lemmas state_steps = AddBalance_steps SubBalance_steps SetNonce_steps SetState_steps SetCode_steps AddLog_steps
  AddPreimage_steps AddRefund_steps Suicide_steps CreateAccount_steps

section \<open>Reverting to a snapshot\<close>

lemma Snapshot_inv:
  assumes "sdb_inv env s" "Snapshot s = (s1, rid)"
  shows "sdb_inv env s1 \<and> later env s s1 \<and> view env s1 = view env s"
proof -
  have s1: "s1 = s\<lparr>sdb_nextRevisionId := sdb_nextRevisionId s + 1,
      sdb_validRevisions := sdb_validRevisions s @ [(sdb_nextRevisionId s, length (sdb_journal s))]\<rparr>"
    using assms(2) by (auto simp: Snapshot_def)
  have "view env s1 = view env s"
    using assms(2) by (auto simp: Snapshot_def view_def getStateObject_def cong: option.case_cong)
  moreover have "objs_inv env s1 = objs_inv env s" "sdb_journal s1 = sdb_journal s" "sdb_trie s1 = sdb_trie s"
    unfolding s1 objs_inv_def by simp_all
  moreover have "revs_ok s \<Longrightarrow> revs_ok s1"
    using assms(2) by (fastforce simp: Snapshot_def revs_ok_def sorted_wrt_append)
  moreover have "sdb_inv env s1" using calculation(2-) assms(1) by (simp add: sdb_inv_alt)
  ultimately show ?thesis using assms(2) by (auto simp: Snapshot_def later_def)
qed

text \<open>Reverting to a snapshot finds its revision and undoes what was journalled since.\<close>

lemma RevertToSnapshot_eq:
  assumes "Snapshot s = (s1, rid)" "sdb_journal s2 = sdb_journal s1 @ es" "sdb_validRevisions s2 = sdb_validRevisions s1 @ rs" "revs_ok s2"
  shows "RevertToSnapshot s2 rid = go_bind (undo_all (rev es) s2) (\<lambda>s'.
    Ret (s'\<lparr>sdb_journal := sdb_journal s, sdb_validRevisions := sdb_validRevisions s\<rparr>))"
proof -
  let ?r = "sdb_validRevisions s2" and ?k = "length (sdb_validRevisions s)"
  have r: "?r = sdb_validRevisions s @ (rid, length (sdb_journal s)) # rs" and j: "sdb_journal s1 = sdb_journal s"
    using assms(1,3) by (auto simp: Snapshot_def)
  have sorted: "sorted_wrt (<) (map fst ?r)" using assms(4) by (simp add: revs_ok_def)
  have lt: "fst (?r ! i) < fst (?r ! k)" if "i < k" "k < length ?r" for i k
    using sorted that by (simp add: sorted_wrt_iff_nth_less)
  have mono: "fst (?r ! b) \<ge> rid" if "a \<le> b" "b < length ?r" "fst (?r ! a) \<ge> rid" for a b
    using lt [of a b] that by (cases "a = b") auto
  let ?f = "\<lambda>i. fst (?r ! i) \<ge> rid" and ?i = "sort_Search (length ?r) (\<lambda>i. fst (?r ! i) \<ge> rid)"
  have low: "\<not> ?f k" if "k < ?i" for k using sort_Search_spec(2) [of "length ?r" ?f k] mono that by blast
  have high: "?f ?i" if "?i < length ?r" using sort_Search_spec(3) [of "length ?r" ?f ?i] mono that by blast
  have k: "?k < length ?r" "fst (?r ! ?k) = rid" by (simp_all add: r)
  have "?i \<le> ?k" using low [of ?k] k by force
  moreover have "\<not> ?i < ?k"
  proof
    assume "?i < ?k"
    then have "fst (?r ! ?i) < rid" "?i < length ?r" using lt [of ?i] k by force+
    then show False using high by auto
  qed
  ultimately have "?i = ?k" by simp
  then show ?thesis using assms(2) by (simp add: RevertToSnapshot_def Let_def r nth_append j)
qed

lemma RevertToSnapshot_restores:
  assumes "sdb_inv env s" "Snapshot s = (s1, rid)" "later env s1 s2" "sdb_inv env s2"
  shows "\<exists>s3. RevertToSnapshot s2 rid = Ret s3 \<and> view env s3 = view env s \<and> sdb_inv env s3 \<and> later env s s3"
proof -
  obtain es rs where l: "sdb_journal s2 = sdb_journal s1 @ es" "sdb_validRevisions s2 = sdb_validRevisions s1 @ rs"
      "vundos env es (view env s2) = Some (view env s1)"
    using assms(3) by (auto simp: later_def)
  have "revs_ok s2" using assms(4) by (simp add: sdb_inv_def)
  note rev = RevertToSnapshot_eq [OF assms(2) l(1,2) this]
  have "objs_inv env s2" "\<forall>e \<in> set es. entry_ok env (sdb_trie s2) e" using assms(4) l(1) by (auto simp: sdb_inv_alt)
  then obtain t where t: "undo_all (rev es) s2 = Ret t" "view env t = view env s1" "kept s2 t" "objs_inv env t"
    using undo_all_view l(3) by blast
  let ?t = "t\<lparr>sdb_journal := sdb_journal s, sdb_validRevisions := sdb_validRevisions s\<rparr>"
  have v: "view env ?t = view env s"
    using t(2) Snapshot_inv [OF assms(1,2)] by (simp add: view_def getStateObject_def cong: option.case_cong)
  have same: "sdb_trie t = sdb_trie s" "sdb_nextRevisionId s < sdb_nextRevisionId t" "sdb_thash t = sdb_thash s"
      "sdb_bhash t = sdb_bhash s" "sdb_txIndex t = sdb_txIndex s"
    using assms(2,3) t(3) by (auto simp: Snapshot_def later_def kept_def)
  then have "sdb_inv env ?t" using assms(1) t(4) by (auto simp: sdb_inv_alt objs_inv_def revs_ok_def)
  moreover have "later env s ?t" using v same by (simp add: later_def)
  ultimately show ?thesis using v rev t(1) by simp
qed

section \<open>Balances\<close>

lemma GetBalance_store_dirty:
  "\<not> so_deleted obj \<Longrightarrow> GetBalance (store_dirty s a obj) b = (if b = a then acc_Balance (so_data obj) else GetBalance s b)"
  by (simp add: GetBalance_def getStateObject_store_dirty)

lemma GetBalance_cong:
  "sdb_stateObjects s = sdb_stateObjects t \<Longrightarrow> sdb_trie s = sdb_trie t \<Longrightarrow> GetBalance s = GetBalance t"
  by (simp add: GetBalance_def [abs_def] getStateObject_def [abs_def] cong: option.case_cong)

lemma GetBalance_simps [simp]:
  "GetBalance (add_journal s e) b = GetBalance s b"
  "GetBalance (AddLog s l) b = GetBalance s b"
  "GetBalance (AddPreimage s h p) b = GetBalance s b"
  "GetBalance (AddRefund s g) b = GetBalance s b"
  "GetBalance (fst (Snapshot s)) b = GetBalance s b"
  by (auto intro!: fun_cong [OF GetBalance_cong] simp: add_journal_def AddLog_def AddPreimage_def AddRefund_def Snapshot_def Let_def split: option.splits)

lemma GetBalance_view: "view env s = view env t \<Longrightarrow> GetBalance s a = GetBalance t a"
proof -
  assume "view env s = view env t"
  then have "map_option (obj_view env a) (getStateObject s a) = map_option (obj_view env a) (getStateObject t a)"
    by (metis (no_types, lifting) db_view.select_convs(1) view_def)
  then show ?thesis
    by (cases "getStateObject s a"; cases "getStateObject t a") (auto simp: GetBalance_def obj_view_def)
qed

lemma not_deleted_live: "getStateObject s a = Some obj \<Longrightarrow> \<not> so_deleted obj"
  by (auto simp: getStateObject_def newObject_def split: option.splits if_splits)

lemma GetOrNew_balance:
  assumes "GetOrNewStateObject env s a = (s', obj)"
  shows "GetBalance s' b = GetBalance s b \<and> acc_Balance (so_data obj) = GetBalance s a \<and> \<not> so_deleted obj"
proof (cases "getStateObject s a")
  case None
  then have "s' = setStateObject (add_journal (s\<lparr>sdb_dirty := insert a (sdb_dirty s)\<rparr>) (createObjectChange a)) a (fresh_object env)" "obj = fresh_object env"
    using assms by (auto simp: GetOrNewStateObject_def createObject_def Let_def fresh_object_def)
  then show ?thesis using None
    by (auto simp: GetBalance_def getStateObject_def sdb_defs fresh_object_def newObject_def cong: option.case_cong)
next
  case (Some o')
  then show ?thesis using assms not_deleted_live by (auto simp: GetOrNewStateObject_def GetBalance_def)
qed

lemma GetBalance_AddBalance: "GetBalance (AddBalance env s a x) b = GetBalance s b + (if b = a then x else 0)"
proof -
  obtain s' obj where g: "GetOrNewStateObject env s a = (s', obj)" by fastforce
  show ?thesis using g GetOrNew_balance [OF g]
    by (simp add: AddBalance_def so_AddBalance_def so_touch_def so_SetBalance_def so_setBalance_def GetBalance_store_dirty)
qed

lemma GetBalance_SubBalance: "GetBalance (SubBalance env s a x) b = GetBalance s b - (if b = a then x else 0)"
proof -
  obtain s' obj where g: "GetOrNewStateObject env s a = (s', obj)" by fastforce
  show ?thesis using g GetOrNew_balance [OF g]
    by (simp add: SubBalance_def so_SubBalance_def so_SetBalance_def so_setBalance_def GetBalance_store_dirty)
qed

lemma GetBalance_SetBalance: "GetBalance (SetBalance env s a x) b = (if b = a then x else GetBalance s b)"
proof -
  obtain s' obj where g: "GetOrNewStateObject env s a = (s', obj)" by fastforce
  show ?thesis using g GetOrNew_balance [OF g]
    by (simp add: SetBalance_def so_SetBalance_def so_setBalance_def GetBalance_store_dirty)
qed

lemma GetBalance_setters [simp]:
  "GetBalance (SetNonce env s a n) b = GetBalance s b"
  "GetBalance (SetState env s a k v) b = GetBalance s b"
  "GetBalance (SetCode env s a c) b = GetBalance s b"
proof -
  obtain s' obj where g: "GetOrNewStateObject env s a = (s', obj)" by fastforce
  note n = g GetOrNew_balance [OF g]
  show "GetBalance (SetNonce env s a n) b = GetBalance s b" "GetBalance (SetState env s a k v) b = GetBalance s b"
      "GetBalance (SetCode env s a c) b = GetBalance s b"
    using n by (simp_all add: SetNonce_def SetState_def SetCode_def so_SetNonce_def so_setNonce_def so_SetState_def so_setState_def
        so_SetCode_def so_setCode_def GetBalance_store_dirty)
qed

lemma GetBalance_CreateAccount [simp]: "GetBalance (CreateAccount env s a) b = GetBalance s b"
  by (auto simp: CreateAccount_def createObject_def Let_def so_setBalance_def sdb_defs GetBalance_def getStateObject_def newObject_def
      cong: option.case_cong split: option.splits)

lemma GetBalance_Suicide: "GetBalance (fst (Suicide s a)) b = (if b = a then 0 else GetBalance s b)"
  using not_deleted_live
  by (auto simp: Suicide_def Let_def GetBalance_store_dirty split: option.splits) (simp add: GetBalance_def)

definition total_balance :: "StateDB \<Rightarrow> int" where
  "total_balance s = (\<Sum>a \<in> UNIV. GetBalance s a)"

lemma sum_UNIV_upd: "(\<Sum>b \<in> UNIV. f b + (if b = a then x else 0)) = (\<Sum>b \<in> UNIV. f b) + (x :: int)" for a :: address
  by (simp add: sum.distrib)

lemma total_balance_simps [simp]:
  "total_balance (AddBalance env s a x) = total_balance s + x"
  "total_balance (SubBalance env s a x) = total_balance s - x"
  "total_balance (SetNonce env s a n) = total_balance s"
  "total_balance (SetState env s a k v) = total_balance s"
  "total_balance (SetCode env s a c) = total_balance s"
  "total_balance (CreateAccount env s a) = total_balance s"
  "total_balance (AddLog s l) = total_balance s"
  "total_balance (AddPreimage s h p) = total_balance s"
  "total_balance (AddRefund s g) = total_balance s"
  "total_balance (fst (Snapshot s)) = total_balance s"
  "total_balance (fst (Suicide s a)) = total_balance s - GetBalance s a"
proof -
  show "total_balance (SubBalance env s a x) = total_balance s - x"
    by (simp add: total_balance_def GetBalance_SubBalance sum_subtractf)
  have "(\<Sum>b \<in> UNIV. if b = a then 0 else GetBalance s b) = (\<Sum>b \<in> UNIV. GetBalance s b + (if b = a then - GetBalance s a else 0))"
    by (intro sum.cong) auto
  then show "total_balance (fst (Suicide s a)) = total_balance s - GetBalance s a"
    by (simp add: total_balance_def GetBalance_Suicide sum_UNIV_upd)
qed (simp_all add: total_balance_def GetBalance_AddBalance sum_UNIV_upd)

lemma total_balance_view: "view env s = view env t \<Longrightarrow> total_balance s = total_balance t"
  unfolding total_balance_def by (intro sum.cong refl GetBalance_view)

lemma GetBalance_nonneg: "sdb_inv env s \<Longrightarrow> 0 \<le> GetBalance s a"
  using live_ok by (auto simp: GetBalance_def sdb_inv_alt obj_ok_def split: option.splits)

lemma GetBalance_le_total: "sdb_inv env s \<Longrightarrow> GetBalance s a \<le> total_balance s"
  unfolding total_balance_def using GetBalance_nonneg by (intro member_le_sum) auto

lemma Transfer_steps:
  "0 \<le> x \<Longrightarrow> CanTransfer s a x \<Longrightarrow> steps_to env s (Transfer env s a b x)"
  unfolding Transfer_def CanTransfer_def by (rule steps_to_trans [OF SubBalance_steps AddBalance_steps])

lemma total_balance_Transfer [simp]: "total_balance (Transfer env s a b x) = total_balance s"
  by (simp add: Transfer_def)

text \<open>The end of a transaction: \<^verbatim>\<open>Finalise\<close> never meets a dirty address without an object, and what it
  deletes takes its balance along.\<close>

lemma Finalise_returns: "sdb_inv env s \<Longrightarrow> \<exists>s'. Finalise env s d = Ret s'"
  by (auto simp: Finalise_def sdb_inv_def)

lemma Finalise_True:
  assumes inv: "sdb_inv env s" and f: "Finalise env s True = Ret s'"
  shows "sdb_inv env s' \<and> total_balance s' \<le> total_balance s \<and> sdb_logs s' = sdb_logs s"
proof (intro conjI)
  have s': "sdb_stateObjects s' = (\<lambda>a. case sdb_stateObjects s a of None \<Rightarrow> None
          | Some obj \<Rightarrow> if a \<notin> sdb_dirty s then Some obj
              else if so_suicided obj \<or> so_empty env obj then Some (obj\<lparr>so_deleted := True\<rparr>)
              else Some (so_updateRoot env a obj))"
      "sdb_trie s' = (\<lambda>a. case sdb_stateObjects s a of None \<Rightarrow> sdb_trie s a
          | Some obj \<Rightarrow> if a \<notin> sdb_dirty s then sdb_trie s a
              else if so_suicided obj \<or> so_empty env obj then None
              else Some (so_data (so_updateRoot env a obj)))"
      "sdb_journal s' = []" "sdb_validRevisions s' = []" "sdb_dirty s' = sdb_dirty s" "sdb_logs s' = sdb_logs s"
    using f [unfolded Finalise_def simp_thms] by (auto simp: clearJournalAndRefund_def split: if_splits)
  have root: "obj_ok env (so_updateRoot env a obj) = obj_ok env obj" "so_deleted (so_updateRoot env a obj) = so_deleted obj"
      "acc_Balance (so_data (so_updateRoot env a obj)) = acc_Balance (so_data obj)" for a obj
    by (simp_all add: so_updateRoot_def Let_def obj_ok_def)
  have del: "obj_ok env (obj\<lparr>so_deleted := True\<rparr>) = obj_ok env obj" "so_empty env (obj\<lparr>so_deleted := True\<rparr>) = so_empty env obj"
    "obj_ok env obj \<Longrightarrow> 0 \<le> acc_Balance (so_data obj)" for obj
    by (simp_all add: obj_ok_def so_empty_def)
  show "sdb_inv env s'"
    using inv by (auto simp: sdb_inv_def s' revs_ok_def root del split: option.splits if_splits)
  have "GetBalance s' a \<le> GetBalance s a" for a
    using inv
    by (auto simp: GetBalance_def getStateObject_def s' root so_empty_def sdb_inv_def obj_ok_def newObject_def split: option.splits if_splits)
  then show "total_balance s' \<le> total_balance s" unfolding total_balance_def by (intro sum_mono) simp
  show "sdb_logs s' = sdb_logs s" by (rule s')
qed

section \<open>Frames of operations\<close>

text \<open>The operations of a transaction as the virtual machine issues them: a frame takes a snapshot, runs
  its operations, which may be frames again, and is reverted if it fails.\<close>

datatype state_event =
    ECreate address | ETransfer address address int | ENonce address uint64 | ECode address bytes
  | EState address hash hash | ESuicide address address | ELog Log | EPreimage hash bytes | ERefund int
  | EFrame "state_event list" bool

fun state_step :: "state_env \<Rightarrow> StateDB \<Rightarrow> state_event \<Rightarrow> StateDB go"
  and state_run :: "state_env \<Rightarrow> StateDB \<Rightarrow> state_event list \<Rightarrow> StateDB go" where
  "state_step env s (ECreate a) = Ret (CreateAccount env s a)"
| "state_step env s (ETransfer a b x) = Ret (if 0 \<le> x \<and> CanTransfer s a x then Transfer env s a b x else s)"
| "state_step env s (ENonce a n) = Ret (SetNonce env s a n)"
| "state_step env s (ECode a c) = Ret (if code_ok c then SetCode env s a c else s)"
| "state_step env s (EState a k v) = Ret (SetState env s a k v)"
| "state_step env s (ESuicide a b) = Ret (fst (Suicide (AddBalance env s b (GetBalance s a)) a))"
| "state_step env s (ELog l) = Ret (AddLog s l)"
| "state_step env s (EPreimage h p) = Ret (AddPreimage s h p)"
| "state_step env s (ERefund g) = Ret (AddRefund s g)"
| "state_step env s (EFrame es fail) =
     (case Snapshot s of (s1, rid) \<Rightarrow>
       go_bind (state_run env s1 es) (\<lambda>s2. if fail then RevertToSnapshot s2 rid else Ret s2))"
| "state_run env s [] = Ret s"
| "state_run env s (e # es) = go_bind (state_step env s e) (\<lambda>s'. state_run env s' es)"

lemma steps_toD: "steps_to env s t \<Longrightarrow> sdb_inv env s \<Longrightarrow> sdb_inv env t \<and> later env s t"
  by (simp add: steps_to_def)

lemma Suicide_to_steps: "sdb_inv env s \<Longrightarrow> steps_to env s (fst (Suicide (AddBalance env s b (GetBalance s a)) a))"
  by (rule steps_to_trans [OF AddBalance_steps Suicide_steps]) (rule GetBalance_nonneg)

lemma state_run_later:
  "sdb_inv env s \<Longrightarrow> \<exists>t. state_step env s e = Ret t \<and> sdb_inv env t \<and> later env s t"
  "sdb_inv env s \<Longrightarrow> \<exists>t. state_run env s es = Ret t \<and> sdb_inv env t \<and> later env s t"
proof (induction env s e and env s es rule: state_step_state_run.induct)
  case (1 env s a)
  then show ?case using steps_toD [OF CreateAccount_steps] by simp
next
  case (2 env s a b x)
  then show ?case using steps_toD [OF Transfer_steps] by simp
next
  case (3 env s a n)
  then show ?case using steps_toD [OF SetNonce_steps] by simp
next
  case (4 env s a c)
  then show ?case using steps_toD [OF SetCode_steps] by simp
next
  case (5 env s a k v)
  then show ?case using steps_toD [OF SetState_steps] by simp
next
  case (6 env s a b)
  then show ?case using steps_toD [OF Suicide_to_steps] by simp
next
  case (7 env s l)
  then show ?case using steps_toD [OF AddLog_steps] by simp
next
  case (8 env s h p)
  then show ?case using steps_toD [OF AddPreimage_steps] by simp
next
  case (9 env s g)
  then show ?case using steps_toD [OF AddRefund_steps] by simp
next
  case (10 env s es fail)
  obtain s1 rid where sn: "Snapshot s = (s1, rid)" by fastforce
  note s1 = Snapshot_inv [OF "10.prems" sn]
  then obtain s2 where s2: "state_run env s1 es = Ret s2" "sdb_inv env s2" "later env s1 s2" using "10.IH" sn by auto
  show ?case
  proof (cases fail)
    case True
    then show ?thesis using RevertToSnapshot_restores [OF "10.prems" sn s2(3,2)] s2(1) sn by auto
  next
    case False
    then show ?thesis using later_trans [of env s s1 s2] s1 s2 sn by simp
  qed
next
  case (12 env s e es)
  then obtain t where t: "state_step env s e = Ret t" "sdb_inv env t" "later env s t" by blast
  then obtain u where "state_run env t es = Ret u" "sdb_inv env u" "later env t u" using "12.IH"(2) by blast
  then show ?case using t later_trans by auto
qed simp

text \<open>C7: Reverting restores the state: after any operations, nested frames and their reverts included,
  reverting to a snapshot succeeds and every account (nonce, balance, code, storage, suicide mark),
  the refund counter, the logs and the preimages are as they were when the snapshot was taken.\<close>

theorem revert_restores_state:
  assumes "sdb_inv env s" "Snapshot s = (s1, rid)"
  shows "\<exists>s2 s3. state_run env s1 es = Ret s2 \<and> RevertToSnapshot s2 rid = Ret s3 \<and> view env s3 = view env s"
proof -
  obtain s2 where "state_run env s1 es = Ret s2" "sdb_inv env s2" "later env s1 s2"
    using state_run_later(2) Snapshot_inv [OF assms] by blast
  then show ?thesis using RevertToSnapshot_restores [OF assms] by blast
qed

definition ex_senv :: state_env where
  "ex_senv = \<lparr>se_Keccak = (\<lambda>b. word_of_int (be_int b + 1)), se_ContractCode = (\<lambda>h. []), se_StorageTrie = (\<lambda>a r k. 0), se_TrieHash = (\<lambda>t. 0)\<rparr>"

definition ex_acc :: "int \<Rightarrow> Account" where
  "ex_acc x = \<lparr>acc_Nonce = 0, acc_Balance = x, acc_Root = 0, acc_CodeHash = emptyCodeHash ex_senv\<rparr>"

definition ex_sdb :: StateDB where
  "ex_sdb = sdb_New [7 \<mapsto> ex_acc 100, 8 \<mapsto> ex_acc 0]"

lemma ex_sdb_inv: "sdb_inv ex_senv ex_sdb"
  by (auto simp: sdb_inv_def ex_sdb_def sdb_New_def ex_senv_def env_ok_def revs_ok_def ex_acc_def)

theorem revert_restores_state_witness:
  "\<exists>s1 s2 s3. Snapshot ex_sdb = (s1, 0) \<and> state_run ex_senv s1 [ETransfer 7 8 40, EFrame [ECreate 9, EState 9 1 2] False] = Ret s2 \<and>
     RevertToSnapshot s2 0 = Ret s3 \<and> view ex_senv s3 = view ex_senv ex_sdb"
proof -
  obtain s1 where s1: "Snapshot ex_sdb = (s1, 0)" by (simp add: Snapshot_def ex_sdb_def sdb_New_def)
  then show ?thesis using revert_restores_state [OF ex_sdb_inv s1] by blast
qed

section \<open>Accounts that are never written\<close>

text \<open>An account is stuck when its object is live, its dirty callback is consumed and it is not in the dirty set:
  no setter enters it there again, only creating the account anew does.\<close>

definition stuck :: "address \<Rightarrow> StateDB \<Rightarrow> bool" where
  "stuck a s \<longleftrightarrow> (\<exists>obj. sdb_stateObjects s a = Some obj \<and> \<not> so_deleted obj \<and> \<not> so_onDirty obj) \<and> a \<notin> sdb_dirty s"

fun recreates :: "address \<Rightarrow> journalEntry \<Rightarrow> bool" where
  "recreates a (createObjectChange b) = (a = b)"
| "recreates a (resetObjectChange b p) = (a = b)"
| "recreates a _ = False"

definition stays_stuck :: "address \<Rightarrow> StateDB \<Rightarrow> StateDB \<Rightarrow> bool" where
  "stays_stuck a s t \<longleftrightarrow> stuck a t \<and> (\<exists>es. sdb_journal t = sdb_journal s @ es \<and> (\<forall>e \<in> set es. \<not> recreates a e))"

lemma stays_stuck_refl: "stuck a s \<Longrightarrow> stays_stuck a s s"
  by (simp add: stays_stuck_def)

lemma stays_stuckD: "stays_stuck a s t \<Longrightarrow> stuck a t"
  by (simp add: stays_stuck_def)

lemma stays_stuck_trans: "stays_stuck a s t \<Longrightarrow> stays_stuck a t u \<Longrightarrow> stays_stuck a s u"
  by (force simp: stays_stuck_def)

lemma stuck_journal: "stuck a s \<Longrightarrow> \<not> recreates a e \<Longrightarrow> stays_stuck a s (add_journal s e)"
  by (auto simp: stays_stuck_def stuck_def add_journal_def)

lemma stuck_store: "stuck a s \<Longrightarrow> (c = a \<Longrightarrow> \<not> so_deleted obj \<and> \<not> so_onDirty obj) \<Longrightarrow> stuck a (store_dirty s c obj)"
  by (auto simp: stuck_def sdb_defs)

lemma stuck_set:
  assumes "stuck a s" "\<not> recreates a e" "c = a \<Longrightarrow> \<not> so_deleted obj \<and> \<not> so_onDirty obj"
  shows "stays_stuck a s (store_dirty (add_journal s e) c obj)"
proof -
  have "stuck a (add_journal s e)" using assms(1) by (simp add: stuck_def add_journal_def)
  then have "stuck a (store_dirty (add_journal s e) c obj)" using assms(3) by (rule stuck_store)
  then show ?thesis using assms(2) by (auto simp: stays_stuck_def sdb_defs)
qed

lemma stuck_object: "stuck a s \<Longrightarrow> \<exists>obj. getStateObject s a = Some obj \<and> \<not> so_deleted obj \<and> \<not> so_onDirty obj"
  by (auto simp: stuck_def getStateObject_def)

lemma stuck_create:
  assumes "stuck a s" "c \<noteq> a" "createObject env s c = (s', obj, prev)"
  shows "stays_stuck a s s'"
  using assms by (auto simp: createObject_def Let_def stays_stuck_def stuck_def sdb_defs split: option.splits)

lemma stuck_GetOrNew:
  assumes "stuck a s" "GetOrNewStateObject env s c = (s', obj)"
  shows "stays_stuck a s s'" and "c = a \<Longrightarrow> \<not> so_deleted obj \<and> \<not> so_onDirty obj"
proof -
  obtain p where o: "getStateObject s a = Some p" "\<not> so_deleted p" "\<not> so_onDirty p" using stuck_object [OF assms(1)] by blast
  show "c = a \<Longrightarrow> \<not> so_deleted obj \<and> \<not> so_onDirty obj" using assms(2) o by (auto simp: GetOrNewStateObject_def)
  show "stays_stuck a s s'"
    using assms stuck_create [OF assms(1)] stays_stuck_refl [OF assms(1)] o
    by (cases "c = a") (auto simp: GetOrNewStateObject_def split: option.splits if_splits prod.splits)
qed

lemma stuck_update:
  assumes "stuck a s" "\<And>s' obj. stuck a s' \<Longrightarrow> (c = a \<Longrightarrow> \<not> so_deleted obj \<and> \<not> so_onDirty obj) \<Longrightarrow> stays_stuck a s' (f s' obj)"
  shows "stays_stuck a s (case GetOrNewStateObject env s c of (s', obj) \<Rightarrow> f s' obj)"
proof (cases "GetOrNewStateObject env s c")
  case (Pair s' obj)
  note g = stuck_GetOrNew [OF assms(1) Pair]
  then have "stuck a s'" by (simp add: stays_stuck_def)
  then show ?thesis using stays_stuck_trans [OF g(1) assms(2) [OF _ g(2)]] Pair by simp
qed

lemma stuck_AddBalance: "stuck a s \<Longrightarrow> stays_stuck a s (AddBalance env s c x)"
  unfolding AddBalance_def
  by (erule stuck_update) (auto simp: so_AddBalance_def so_touch_def so_SetBalance_def so_setBalance_def intro!: stuck_set stays_stuck_refl)

lemma stuck_SubBalance: "stuck a s \<Longrightarrow> stays_stuck a s (SubBalance env s c x)"
  unfolding SubBalance_def
  by (erule stuck_update) (auto simp: so_SubBalance_def so_SetBalance_def so_setBalance_def intro!: stuck_set stays_stuck_refl)

lemma stuck_Transfer: "stuck a s \<Longrightarrow> stays_stuck a s (Transfer env s b c x)"
  unfolding Transfer_def by (rule stays_stuck_trans [OF stuck_SubBalance stuck_AddBalance [OF stays_stuckD [OF stuck_SubBalance]]])

lemma stuck_setters:
  assumes "stuck a s"
  shows "stays_stuck a s (SetNonce env s c n)" "stays_stuck a s (SetCode env s c code)" "stays_stuck a s (SetState env s c k v)"
  unfolding SetNonce_def SetCode_def SetState_def
  by (rule stuck_update [OF assms],
      auto simp: so_SetNonce_def so_setNonce_def so_SetCode_def so_setCode_def so_SetState_def so_setState_def intro!: stuck_set)+

lemma stuck_counters:
  assumes "stuck a s"
  shows "stays_stuck a s (AddLog s l)" "stays_stuck a s (AddPreimage s h p)" "stays_stuck a s (AddRefund s g)"
  using assms by (auto simp: AddLog_def AddPreimage_def AddRefund_def stays_stuck_def stuck_def add_journal_def Let_def split: option.splits)

lemma stuck_Suicide: "stuck a s \<Longrightarrow> stays_stuck a s (fst (Suicide s c))"
  using stuck_object [of a s]
  by (auto simp: Suicide_def Let_def intro!: stuck_set stays_stuck_refl split: option.split)

lemma stuck_CreateAccount:
  assumes "stuck a s" "c \<noteq> a" shows "stays_stuck a s (CreateAccount env s c)"
proof -
  obtain s' obj prev where o: "createObject env s c = (s', obj, prev)" using prod_cases3 by blast
  note s' = stuck_create [OF assms o]
  have "stuck a s'" using s' by (simp add: stays_stuck_def)
  then have "stays_stuck a s' (so_setBalance s' c obj b)" for b
    using stuck_store [of a s' c] assms(2) by (simp add: stays_stuck_def so_setBalance_def) (simp add: sdb_defs)
  then show ?thesis using s' stays_stuck_trans o by (auto simp: CreateAccount_def split: option.split)
qed

lemma stuck_undo:
  assumes "stuck a s" "\<not> recreates a e" "undo e s = Ret t" shows "stuck a t"
proof -
  obtain p where o: "sdb_stateObjects s a = Some p" "\<not> so_deleted p" "\<not> so_onDirty p" "a \<notin> sdb_dirty s"
    using assms(1) by (auto simp: stuck_def)
  have get: "c = a \<Longrightarrow> getStateObject s c = Some obj \<Longrightarrow> \<not> so_deleted obj \<and> \<not> so_onDirty obj" for c obj
    using o by (simp add: getStateObject_def)
  show ?thesis
    using assms get
    by (cases e) (auto simp: live_object_def so_setBalance_def so_setNonce_def so_setCode_def so_setState_def Let_def
        split: option.splits if_splits intro!: stuck_store, auto simp: stuck_def setStateObject_def)
qed

lemma stuck_undo_all:
  "stuck a s \<Longrightarrow> \<forall>e \<in> set es. \<not> recreates a e \<Longrightarrow> undo_all es s = Ret t \<Longrightarrow> stuck a t"
  by (induction es arbitrary: s) (auto simp: go_bind_eq_Ret dest: stuck_undo)

fun no_create :: "address \<Rightarrow> state_event \<Rightarrow> bool" where
  "no_create a (ECreate b) = (b \<noteq> a)"
| "no_create a (EFrame es fail) = (\<forall>e \<in> set es. no_create a e)"
| "no_create a _ = True"

lemma stuck_revert:
  assumes s: "sdb_inv env s" "stuck a s" and sn: "Snapshot s = (s1, rid)"
    and s2: "sdb_inv env s2" "later env s1 s2" "stays_stuck a s1 s2" and r: "RevertToSnapshot s2 rid = Ret t"
  shows "stays_stuck a s t"
proof -
  obtain es rs where l: "sdb_journal s2 = sdb_journal s1 @ es" "sdb_validRevisions s2 = sdb_validRevisions s1 @ rs"
    using s2(2) by (auto simp: later_def)
  have es: "\<forall>e \<in> set es. \<not> recreates a e" "stuck a s2" using s2(3) l(1) by (auto simp: stays_stuck_def)
  have "revs_ok s2" using s2(1) by (simp add: sdb_inv_def)
  then have "go_bind (undo_all (rev es) s2) (\<lambda>s'. Ret (s'\<lparr>sdb_journal := sdb_journal s, sdb_validRevisions := sdb_validRevisions s\<rparr>)) = Ret t"
    using RevertToSnapshot_eq [OF sn l] r by simp
  then obtain u where u: "undo_all (rev es) s2 = Ret u" "t = u\<lparr>sdb_journal := sdb_journal s, sdb_validRevisions := sdb_validRevisions s\<rparr>"
    by (auto simp: go_bind_eq_Ret)
  have "stuck a u" using stuck_undo_all [OF es(2) _ u(1)] es(1) by simp
  then show ?thesis using u(2) by (simp add: stays_stuck_def stuck_def)
qed

lemma stuck_run:
  "sdb_inv env s \<Longrightarrow> stuck a s \<Longrightarrow> no_create a e \<Longrightarrow> state_step env s e = Ret t \<Longrightarrow> stays_stuck a s t"
  "sdb_inv env s \<Longrightarrow> stuck a s \<Longrightarrow> \<forall>e \<in> set es. no_create a e \<Longrightarrow> state_run env s es = Ret t \<Longrightarrow> stays_stuck a s t"
proof (induction env s e and env s es arbitrary: t and t rule: state_step_state_run.induct)
  case (6 env s b c)
  have "stays_stuck a s (AddBalance env s c (GetBalance s b))" using 6 by (intro stuck_AddBalance)
  then show ?case using stays_stuck_trans [OF _ stuck_Suicide [OF stays_stuckD]] 6 by auto
next
  case (10 env s es fail)
  obtain s1 rid where sn: "Snapshot s = (s1, rid)" by fastforce
  have s1: "stuck a s1" "sdb_journal s1 = sdb_journal s" using "10.prems"(2) sn by (auto simp: Snapshot_def stuck_def)
  note inv1 = Snapshot_inv [OF "10.prems"(1) sn]
  obtain s2 where s2: "state_run env s1 es = Ret s2" "sdb_inv env s2" "later env s1 s2"
    using state_run_later(2) [of env s1 es] inv1 by blast
  have st: "stays_stuck a s1 s2" using "10.IH" [OF sn [symmetric]] "10.prems" inv1 s1(1) s2(1) by simp
  show ?case
  proof (cases fail)
    case True
    then show ?thesis using stuck_revert [OF "10.prems"(1,2) sn s2(2,3) st] "10.prems"(4) s2(1) sn by simp
  next
    case False
    then show ?thesis using st "10.prems"(4) s2(1) sn s1(2) by (simp add: stays_stuck_def)
  qed
next
  case (12 env s e es)
  then obtain u where u: "state_step env s e = Ret u" "state_run env u es = Ret t" by (auto simp: go_bind_eq_Ret)
  have "sdb_inv env u" using state_run_later(1) [OF "12.prems"(1), of e] u(1) by auto
  moreover have "stays_stuck a s u" using 12 u(1) by simp
  ultimately show ?case using "12.IH"(2) [of u] u(2) "12.prems" stays_stuck_trans [of a s u t] stays_stuckD by auto
qed (auto intro: stuck_CreateAccount stuck_Transfer stuck_setters stuck_counters stays_stuck_refl split: if_splits)

text \<open>A reverted touch leaves the account stuck.\<close>

lemma touch_revert_stuck:
  assumes inv: "sdb_inv env s" and obj: "getStateObject s a = Some obj" "so_empty env obj" "so_onDirty obj" "\<not> so_touched obj"
    and a: "a \<notin> sdb_dirty s" "a \<noteq> ripemd"
  obtains s' where "state_step env s (EFrame [ETransfer b a 0] True) = Ret s'" "sdb_inv env s'" "later env s s'" "stuck a s'"
proof -
  obtain s1 rid where sn: "Snapshot s = (s1, rid)" by fastforce
  note inv1 = Snapshot_inv [OF inv sn]
  have s1: "getStateObject s1 a = Some obj" "a \<notin> sdb_dirty s1" using sn obj(1) a(1) by (auto simp: Snapshot_def getStateObject_def cong: option.case_cong)
  have nd: "\<not> so_deleted obj" using live_ok inv obj(1) by (auto simp: sdb_inv_alt)
  let ?t = "SubBalance env s1 b 0"
  obtain es where t: "sdb_journal ?t = sdb_journal s1 @ es" "\<forall>e \<in> set es. \<not> recreates a e" "getStateObject ?t a = Some obj" "a \<notin> sdb_dirty ?t"
  proof (cases "getStateObject s1 b")
    case None
    then have "b \<noteq> a" using s1(1) by auto
    then show ?thesis
      using that [of "[createObjectChange b]"] None s1
      by (simp add: SubBalance_def so_SubBalance_def GetOrNewStateObject_def createObject_def Let_def)
        (simp add: sdb_defs getStateObject_def cong: option.case_cong)
  next
    case (Some c)
    have "\<not> so_deleted c" using live_ok [of env s1 b c] inv1 Some by (auto simp: sdb_inv_alt)
    then show ?thesis
      using that [of "[]"] Some s1 by (simp add: SubBalance_def so_SubBalance_def GetOrNewStateObject_def)
  qed
  let ?e = "touchChange a False False"
  let ?s2 = "store_dirty (add_journal ?t ?e) a (obj\<lparr>so_touched := True\<rparr>)"
  have "Transfer env s1 b a 0 = ?s2"
    using t(3) obj nd by (simp add: Transfer_def AddBalance_def GetOrNewStateObject_def so_AddBalance_def so_touch_def)
  moreover have "CanTransfer s1 b 0" using GetBalance_nonneg inv1 by (auto simp: CanTransfer_def)
  ultimately have run: "state_run env s1 [ETransfer b a 0] = Ret ?s2" by simp
  obtain s2: "sdb_inv env ?s2" "later env s1 ?s2" using state_run_later(2) [of env s1 "[ETransfer b a 0]"] inv1 run by auto
  obtain s3 where s3: "RevertToSnapshot ?s2 rid = Ret s3" "sdb_inv env s3" "later env s s3"
    using RevertToSnapshot_restores [OF inv sn s2(2,1)] by blast
  obtain rs where rs: "sdb_validRevisions ?s2 = sdb_validRevisions s1 @ rs" using s2(2) by (auto simp: later_def)
  have j: "sdb_journal ?s2 = sdb_journal s1 @ es @ [?e]" using t(1) by (simp add: sdb_defs)
  have "revs_ok ?s2" using s2(1) by (simp add: sdb_inv_def)
  then have "go_bind (undo_all (?e # rev es) ?s2) (\<lambda>s'. Ret (s'\<lparr>sdb_journal := sdb_journal s, sdb_validRevisions := sdb_validRevisions s\<rparr>)) = Ret s3"
    using RevertToSnapshot_eq [OF sn j rs] s3(1) by simp
  then obtain u v where u: "undo ?e ?s2 = Ret u" "undo_all (rev es) u = Ret v"
      "s3 = v\<lparr>sdb_journal := sdb_journal s, sdb_validRevisions := sdb_validRevisions s\<rparr>"
    by (auto simp: go_bind_eq_Ret simp del: undo.simps)
  have "stuck a u" using u(1) a(2) obj(3) nd by (auto simp: live_object_def Let_def stuck_def sdb_defs getStateObject_def)
  then have "stuck a v" using stuck_undo_all [OF _ _ u(2)] t(2) by simp
  then have "stuck a s3" using u(3) by (simp add: stuck_def)
  then show thesis using that [of s3] sn run s3 by simp
qed

text \<open>C30: A reverted touch loses changes. Take an existing empty account that the transaction has not modified yet (any but the
  one at address 3, which the code exempts). After a reverted call that transfers nothing to it, which touches it, the
  transaction may do whatever it likes short of creating the account anew: transfers to and from it, changes of its
  nonce, code and storage, self-destructs, nested and reverted frames. Finalise succeeds and leaves the account in the
  trie as it was.\<close>

theorem touch_revert_loses_changes:
  assumes "sdb_inv env s" "getStateObject s a = Some obj" "so_empty env obj" "so_onDirty obj" "\<not> so_touched obj"
    "a \<notin> sdb_dirty s" "a \<noteq> ripemd" "\<forall>e \<in> set es. no_create a e"
  shows "\<exists>s' t u. state_step env s (EFrame [ETransfer b a 0] True) = Ret s' \<and> state_run env s' es = Ret t \<and>
    Finalise env t d = Ret u \<and> sdb_trie u a = sdb_trie s a"
proof -
  obtain s' where s': "state_step env s (EFrame [ETransfer b a 0] True) = Ret s'" "sdb_inv env s'" "later env s s'" "stuck a s'"
    using touch_revert_stuck [OF assms(1-7)] by blast
  obtain t where t: "state_run env s' es = Ret t" "sdb_inv env t" "later env s' t" using state_run_later(2) [OF s'(2)] by blast
  obtain u where u: "Finalise env t d = Ret u" using Finalise_returns [OF t(2)] by blast
  have "stuck a t" using stuck_run(2) [OF s'(2,4) assms(8) t(1)] by (rule stays_stuckD)
  then have "sdb_trie u a = sdb_trie t a"
    using u by (auto simp: Finalise_def clearJournalAndRefund_def stuck_def split: if_splits)
  then show ?thesis using s'(1,3) t(1,3) u by (auto simp: later_def)
qed

theorem touch_revert_loses_changes_witness:
  "\<exists>s' t u. state_step ex_senv ex_sdb (EFrame [ETransfer 7 8 0] True) = Ret s' \<and> state_run ex_senv s' [ETransfer 7 8 40] = Ret t \<and>
     GetBalance t 7 = 60 \<and> GetBalance t 8 = 40 \<and> Finalise ex_senv t False = Ret u \<and> sdb_trie u 8 = Some (ex_acc 0)"
proof -
  have "\<exists>s' t u. state_step ex_senv ex_sdb (EFrame [ETransfer 7 8 0] True) = Ret s' \<and> state_run ex_senv s' [ETransfer 7 8 40] = Ret t \<and>
    Finalise ex_senv t False = Ret u \<and> sdb_trie u 8 = sdb_trie ex_sdb 8"
    by (rule touch_revert_loses_changes [OF ex_sdb_inv, of 8 "newObject (ex_acc 0)"])
      (simp_all add: ex_sdb_def sdb_New_def getStateObject_def newObject_def so_empty_def ex_acc_def)
  moreover have "go_bind (state_step ex_senv ex_sdb (EFrame [ETransfer 7 8 0] True)) (\<lambda>s'.
      go_bind (state_run ex_senv s' [ETransfer 7 8 40]) (\<lambda>t. Ret (GetBalance t 7, GetBalance t 8))) = Ret (60, 40)"
    by code_simp
  moreover have "sdb_trie ex_sdb 8 = Some (ex_acc 0)" by (simp add: ex_sdb_def sdb_New_def)
  ultimately show ?thesis by auto
qed

end
