(* ===== verification/Evm_Opcodes.thy ===== *)
theory Evm_Opcodes
  imports Go_Prelude
begin

text \<open>
  The opcodes of \<^verbatim>\<open>core/vm/opcodes.go\<close>, their names and the parser of names. An \<^verbatim>\<open>OpCode\<close> is a byte.
  The names are abbreviations of the byte values in the constant blocks of the file (lines 41 to 216); they
  carry the prefix \<open>OP_\<close>, since some of them are operators of the logic.
\<close>

section \<open>Opcodes\<close>

abbreviation (input) OP_STOP :: byte where "OP_STOP \<equiv> 0x00"
abbreviation (input) OP_ADD :: byte where "OP_ADD \<equiv> 0x01"
abbreviation (input) OP_MUL :: byte where "OP_MUL \<equiv> 0x02"
abbreviation (input) OP_SUB :: byte where "OP_SUB \<equiv> 0x03"
abbreviation (input) OP_DIV :: byte where "OP_DIV \<equiv> 0x04"
abbreviation (input) OP_SDIV :: byte where "OP_SDIV \<equiv> 0x05"
abbreviation (input) OP_MOD :: byte where "OP_MOD \<equiv> 0x06"
abbreviation (input) OP_SMOD :: byte where "OP_SMOD \<equiv> 0x07"
abbreviation (input) OP_ADDMOD :: byte where "OP_ADDMOD \<equiv> 0x08"
abbreviation (input) OP_MULMOD :: byte where "OP_MULMOD \<equiv> 0x09"
abbreviation (input) OP_EXP :: byte where "OP_EXP \<equiv> 0x0a"
abbreviation (input) OP_SIGNEXTEND :: byte where "OP_SIGNEXTEND \<equiv> 0x0b"
abbreviation (input) OP_LT :: byte where "OP_LT \<equiv> 0x10"
abbreviation (input) OP_GT :: byte where "OP_GT \<equiv> 0x11"
abbreviation (input) OP_SLT :: byte where "OP_SLT \<equiv> 0x12"
abbreviation (input) OP_SGT :: byte where "OP_SGT \<equiv> 0x13"
abbreviation (input) OP_EQ :: byte where "OP_EQ \<equiv> 0x14"
abbreviation (input) OP_ISZERO :: byte where "OP_ISZERO \<equiv> 0x15"
abbreviation (input) OP_AND :: byte where "OP_AND \<equiv> 0x16"
abbreviation (input) OP_OR :: byte where "OP_OR \<equiv> 0x17"
abbreviation (input) OP_XOR :: byte where "OP_XOR \<equiv> 0x18"
abbreviation (input) OP_NOT :: byte where "OP_NOT \<equiv> 0x19"
abbreviation (input) OP_BYTE :: byte where "OP_BYTE \<equiv> 0x1a"
abbreviation (input) OP_SHL :: byte where "OP_SHL \<equiv> 0x1b"
abbreviation (input) OP_SHR :: byte where "OP_SHR \<equiv> 0x1c"
abbreviation (input) OP_SAR :: byte where "OP_SAR \<equiv> 0x1d"
abbreviation (input) OP_SHA3 :: byte where "OP_SHA3 \<equiv> 0x20"
abbreviation (input) OP_ADDRESS :: byte where "OP_ADDRESS \<equiv> 0x30"
abbreviation (input) OP_BALANCE :: byte where "OP_BALANCE \<equiv> 0x31"
abbreviation (input) OP_ORIGIN :: byte where "OP_ORIGIN \<equiv> 0x32"
abbreviation (input) OP_CALLER :: byte where "OP_CALLER \<equiv> 0x33"
abbreviation (input) OP_CALLVALUE :: byte where "OP_CALLVALUE \<equiv> 0x34"
abbreviation (input) OP_CALLDATALOAD :: byte where "OP_CALLDATALOAD \<equiv> 0x35"
abbreviation (input) OP_CALLDATASIZE :: byte where "OP_CALLDATASIZE \<equiv> 0x36"
abbreviation (input) OP_CALLDATACOPY :: byte where "OP_CALLDATACOPY \<equiv> 0x37"
abbreviation (input) OP_CODESIZE :: byte where "OP_CODESIZE \<equiv> 0x38"
abbreviation (input) OP_CODECOPY :: byte where "OP_CODECOPY \<equiv> 0x39"
abbreviation (input) OP_GASPRICE :: byte where "OP_GASPRICE \<equiv> 0x3a"
abbreviation (input) OP_EXTCODESIZE :: byte where "OP_EXTCODESIZE \<equiv> 0x3b"
abbreviation (input) OP_EXTCODECOPY :: byte where "OP_EXTCODECOPY \<equiv> 0x3c"
abbreviation (input) OP_RETURNDATASIZE :: byte where "OP_RETURNDATASIZE \<equiv> 0x3d"
abbreviation (input) OP_RETURNDATACOPY :: byte where "OP_RETURNDATACOPY \<equiv> 0x3e"
abbreviation (input) OP_BLOCKHASH :: byte where "OP_BLOCKHASH \<equiv> 0x40"
abbreviation (input) OP_COINBASE :: byte where "OP_COINBASE \<equiv> 0x41"
abbreviation (input) OP_TIMESTAMP :: byte where "OP_TIMESTAMP \<equiv> 0x42"
abbreviation (input) OP_NUMBER :: byte where "OP_NUMBER \<equiv> 0x43"
abbreviation (input) OP_DIFFICULTY :: byte where "OP_DIFFICULTY \<equiv> 0x44"
abbreviation (input) OP_GASLIMIT :: byte where "OP_GASLIMIT \<equiv> 0x45"
abbreviation (input) OP_POP :: byte where "OP_POP \<equiv> 0x50"
abbreviation (input) OP_MLOAD :: byte where "OP_MLOAD \<equiv> 0x51"
abbreviation (input) OP_MSTORE :: byte where "OP_MSTORE \<equiv> 0x52"
abbreviation (input) OP_MSTORE8 :: byte where "OP_MSTORE8 \<equiv> 0x53"
abbreviation (input) OP_SLOAD :: byte where "OP_SLOAD \<equiv> 0x54"
abbreviation (input) OP_SSTORE :: byte where "OP_SSTORE \<equiv> 0x55"
abbreviation (input) OP_JUMP :: byte where "OP_JUMP \<equiv> 0x56"
abbreviation (input) OP_JUMPI :: byte where "OP_JUMPI \<equiv> 0x57"
abbreviation (input) OP_PC :: byte where "OP_PC \<equiv> 0x58"
abbreviation (input) OP_MSIZE :: byte where "OP_MSIZE \<equiv> 0x59"
abbreviation (input) OP_GAS :: byte where "OP_GAS \<equiv> 0x5a"
abbreviation (input) OP_JUMPDEST :: byte where "OP_JUMPDEST \<equiv> 0x5b"
abbreviation (input) OP_PUSH1 :: byte where "OP_PUSH1 \<equiv> 0x60"
abbreviation (input) OP_PUSH2 :: byte where "OP_PUSH2 \<equiv> 0x61"
abbreviation (input) OP_PUSH3 :: byte where "OP_PUSH3 \<equiv> 0x62"
abbreviation (input) OP_PUSH4 :: byte where "OP_PUSH4 \<equiv> 0x63"
abbreviation (input) OP_PUSH5 :: byte where "OP_PUSH5 \<equiv> 0x64"
abbreviation (input) OP_PUSH6 :: byte where "OP_PUSH6 \<equiv> 0x65"
abbreviation (input) OP_PUSH7 :: byte where "OP_PUSH7 \<equiv> 0x66"
abbreviation (input) OP_PUSH8 :: byte where "OP_PUSH8 \<equiv> 0x67"
abbreviation (input) OP_PUSH9 :: byte where "OP_PUSH9 \<equiv> 0x68"
abbreviation (input) OP_PUSH10 :: byte where "OP_PUSH10 \<equiv> 0x69"
abbreviation (input) OP_PUSH11 :: byte where "OP_PUSH11 \<equiv> 0x6a"
abbreviation (input) OP_PUSH12 :: byte where "OP_PUSH12 \<equiv> 0x6b"
abbreviation (input) OP_PUSH13 :: byte where "OP_PUSH13 \<equiv> 0x6c"
abbreviation (input) OP_PUSH14 :: byte where "OP_PUSH14 \<equiv> 0x6d"
abbreviation (input) OP_PUSH15 :: byte where "OP_PUSH15 \<equiv> 0x6e"
abbreviation (input) OP_PUSH16 :: byte where "OP_PUSH16 \<equiv> 0x6f"
abbreviation (input) OP_PUSH17 :: byte where "OP_PUSH17 \<equiv> 0x70"
abbreviation (input) OP_PUSH18 :: byte where "OP_PUSH18 \<equiv> 0x71"
abbreviation (input) OP_PUSH19 :: byte where "OP_PUSH19 \<equiv> 0x72"
abbreviation (input) OP_PUSH20 :: byte where "OP_PUSH20 \<equiv> 0x73"
abbreviation (input) OP_PUSH21 :: byte where "OP_PUSH21 \<equiv> 0x74"
abbreviation (input) OP_PUSH22 :: byte where "OP_PUSH22 \<equiv> 0x75"
abbreviation (input) OP_PUSH23 :: byte where "OP_PUSH23 \<equiv> 0x76"
abbreviation (input) OP_PUSH24 :: byte where "OP_PUSH24 \<equiv> 0x77"
abbreviation (input) OP_PUSH25 :: byte where "OP_PUSH25 \<equiv> 0x78"
abbreviation (input) OP_PUSH26 :: byte where "OP_PUSH26 \<equiv> 0x79"
abbreviation (input) OP_PUSH27 :: byte where "OP_PUSH27 \<equiv> 0x7a"
abbreviation (input) OP_PUSH28 :: byte where "OP_PUSH28 \<equiv> 0x7b"
abbreviation (input) OP_PUSH29 :: byte where "OP_PUSH29 \<equiv> 0x7c"
abbreviation (input) OP_PUSH30 :: byte where "OP_PUSH30 \<equiv> 0x7d"
abbreviation (input) OP_PUSH31 :: byte where "OP_PUSH31 \<equiv> 0x7e"
abbreviation (input) OP_PUSH32 :: byte where "OP_PUSH32 \<equiv> 0x7f"
abbreviation (input) OP_DUP1 :: byte where "OP_DUP1 \<equiv> 0x80"
abbreviation (input) OP_DUP2 :: byte where "OP_DUP2 \<equiv> 0x81"
abbreviation (input) OP_DUP3 :: byte where "OP_DUP3 \<equiv> 0x82"
abbreviation (input) OP_DUP4 :: byte where "OP_DUP4 \<equiv> 0x83"
abbreviation (input) OP_DUP5 :: byte where "OP_DUP5 \<equiv> 0x84"
abbreviation (input) OP_DUP6 :: byte where "OP_DUP6 \<equiv> 0x85"
abbreviation (input) OP_DUP7 :: byte where "OP_DUP7 \<equiv> 0x86"
abbreviation (input) OP_DUP8 :: byte where "OP_DUP8 \<equiv> 0x87"
abbreviation (input) OP_DUP9 :: byte where "OP_DUP9 \<equiv> 0x88"
abbreviation (input) OP_DUP10 :: byte where "OP_DUP10 \<equiv> 0x89"
abbreviation (input) OP_DUP11 :: byte where "OP_DUP11 \<equiv> 0x8a"
abbreviation (input) OP_DUP12 :: byte where "OP_DUP12 \<equiv> 0x8b"
abbreviation (input) OP_DUP13 :: byte where "OP_DUP13 \<equiv> 0x8c"
abbreviation (input) OP_DUP14 :: byte where "OP_DUP14 \<equiv> 0x8d"
abbreviation (input) OP_DUP15 :: byte where "OP_DUP15 \<equiv> 0x8e"
abbreviation (input) OP_DUP16 :: byte where "OP_DUP16 \<equiv> 0x8f"
abbreviation (input) OP_SWAP1 :: byte where "OP_SWAP1 \<equiv> 0x90"
abbreviation (input) OP_SWAP2 :: byte where "OP_SWAP2 \<equiv> 0x91"
abbreviation (input) OP_SWAP3 :: byte where "OP_SWAP3 \<equiv> 0x92"
abbreviation (input) OP_SWAP4 :: byte where "OP_SWAP4 \<equiv> 0x93"
abbreviation (input) OP_SWAP5 :: byte where "OP_SWAP5 \<equiv> 0x94"
abbreviation (input) OP_SWAP6 :: byte where "OP_SWAP6 \<equiv> 0x95"
abbreviation (input) OP_SWAP7 :: byte where "OP_SWAP7 \<equiv> 0x96"
abbreviation (input) OP_SWAP8 :: byte where "OP_SWAP8 \<equiv> 0x97"
abbreviation (input) OP_SWAP9 :: byte where "OP_SWAP9 \<equiv> 0x98"
abbreviation (input) OP_SWAP10 :: byte where "OP_SWAP10 \<equiv> 0x99"
abbreviation (input) OP_SWAP11 :: byte where "OP_SWAP11 \<equiv> 0x9a"
abbreviation (input) OP_SWAP12 :: byte where "OP_SWAP12 \<equiv> 0x9b"
abbreviation (input) OP_SWAP13 :: byte where "OP_SWAP13 \<equiv> 0x9c"
abbreviation (input) OP_SWAP14 :: byte where "OP_SWAP14 \<equiv> 0x9d"
abbreviation (input) OP_SWAP15 :: byte where "OP_SWAP15 \<equiv> 0x9e"
abbreviation (input) OP_SWAP16 :: byte where "OP_SWAP16 \<equiv> 0x9f"
abbreviation (input) OP_LOG0 :: byte where "OP_LOG0 \<equiv> 0xa0"
abbreviation (input) OP_LOG1 :: byte where "OP_LOG1 \<equiv> 0xa1"
abbreviation (input) OP_LOG2 :: byte where "OP_LOG2 \<equiv> 0xa2"
abbreviation (input) OP_LOG3 :: byte where "OP_LOG3 \<equiv> 0xa3"
abbreviation (input) OP_LOG4 :: byte where "OP_LOG4 \<equiv> 0xa4"
abbreviation (input) OP_PUSH :: byte where "OP_PUSH \<equiv> 0xb0"
abbreviation (input) OP_DUP :: byte where "OP_DUP \<equiv> 0xb1"
abbreviation (input) OP_SWAP :: byte where "OP_SWAP \<equiv> 0xb2"
abbreviation (input) OP_CREATE :: byte where "OP_CREATE \<equiv> 0xf0"
abbreviation (input) OP_CALL :: byte where "OP_CALL \<equiv> 0xf1"
abbreviation (input) OP_CALLCODE :: byte where "OP_CALLCODE \<equiv> 0xf2"
abbreviation (input) OP_RETURN :: byte where "OP_RETURN \<equiv> 0xf3"
abbreviation (input) OP_DELEGATECALL :: byte where "OP_DELEGATECALL \<equiv> 0xf4"
abbreviation (input) OP_STATICCALL :: byte where "OP_STATICCALL \<equiv> 0xfa"
abbreviation (input) OP_REVERT :: byte where "OP_REVERT \<equiv> 0xfd"
abbreviation (input) OP_SELFDESTRUCT :: byte where "OP_SELFDESTRUCT \<equiv> 0xff"

definition IsPush :: "byte \<Rightarrow> bool" where
  "IsPush op = (op \<in> {OP_PUSH1, OP_PUSH2, OP_PUSH3, OP_PUSH4, OP_PUSH5, OP_PUSH6, OP_PUSH7, OP_PUSH8, OP_PUSH9, OP_PUSH10, OP_PUSH11, OP_PUSH12, OP_PUSH13, OP_PUSH14, OP_PUSH15, OP_PUSH16, OP_PUSH17, OP_PUSH18, OP_PUSH19, OP_PUSH20, OP_PUSH21, OP_PUSH22, OP_PUSH23, OP_PUSH24, OP_PUSH25, OP_PUSH26, OP_PUSH27, OP_PUSH28, OP_PUSH29, OP_PUSH30, OP_PUSH31, OP_PUSH32})"

definition IsStaticJump :: "byte \<Rightarrow> bool" where
  "IsStaticJump op = (op = OP_JUMP)"

section \<open>Names\<close>

definition opCodeToString :: "(byte \<times> string) list" where
  "opCodeToString = [
     (OP_STOP, ''STOP''), (OP_ADD, ''ADD''), (OP_MUL, ''MUL''), (OP_SUB, ''SUB''), (OP_DIV, ''DIV''),
     (OP_SDIV, ''SDIV''), (OP_MOD, ''MOD''), (OP_SMOD, ''SMOD''), (OP_EXP, ''EXP''), (OP_NOT, ''NOT''),
     (OP_LT, ''LT''), (OP_GT, ''GT''), (OP_SLT, ''SLT''), (OP_SGT, ''SGT''), (OP_EQ, ''EQ''),
     (OP_ISZERO, ''ISZERO''), (OP_SIGNEXTEND, ''SIGNEXTEND''), (OP_AND, ''AND''), (OP_OR, ''OR''), (OP_XOR, ''XOR''),
     (OP_BYTE, ''BYTE''), (OP_SHL, ''SHL''), (OP_SHR, ''SHR''), (OP_SAR, ''SAR''), (OP_ADDMOD, ''ADDMOD''),
     (OP_MULMOD, ''MULMOD''), (OP_SHA3, ''SHA3''), (OP_ADDRESS, ''ADDRESS''), (OP_BALANCE, ''BALANCE''), (OP_ORIGIN, ''ORIGIN''),
     (OP_CALLER, ''CALLER''), (OP_CALLVALUE, ''CALLVALUE''), (OP_CALLDATALOAD, ''CALLDATALOAD''), (OP_CALLDATASIZE, ''CALLDATASIZE''), (OP_CALLDATACOPY, ''CALLDATACOPY''),
     (OP_CODESIZE, ''CODESIZE''), (OP_CODECOPY, ''CODECOPY''), (OP_GASPRICE, ''GASPRICE''), (OP_EXTCODESIZE, ''EXTCODESIZE''), (OP_EXTCODECOPY, ''EXTCODECOPY''),
     (OP_RETURNDATASIZE, ''RETURNDATASIZE''), (OP_RETURNDATACOPY, ''RETURNDATACOPY''), (OP_BLOCKHASH, ''BLOCKHASH''), (OP_COINBASE, ''COINBASE''), (OP_TIMESTAMP, ''TIMESTAMP''),
     (OP_NUMBER, ''NUMBER''), (OP_DIFFICULTY, ''DIFFICULTY''), (OP_GASLIMIT, ''GASLIMIT''), (OP_POP, ''POP''), (OP_MLOAD, ''MLOAD''),
     (OP_MSTORE, ''MSTORE''), (OP_MSTORE8, ''MSTORE8''), (OP_SLOAD, ''SLOAD''), (OP_SSTORE, ''SSTORE''), (OP_JUMP, ''JUMP''),
     (OP_JUMPI, ''JUMPI''), (OP_PC, ''PC''), (OP_MSIZE, ''MSIZE''), (OP_GAS, ''GAS''), (OP_JUMPDEST, ''JUMPDEST''),
     (OP_PUSH1, ''PUSH1''), (OP_PUSH2, ''PUSH2''), (OP_PUSH3, ''PUSH3''), (OP_PUSH4, ''PUSH4''), (OP_PUSH5, ''PUSH5''),
     (OP_PUSH6, ''PUSH6''), (OP_PUSH7, ''PUSH7''), (OP_PUSH8, ''PUSH8''), (OP_PUSH9, ''PUSH9''), (OP_PUSH10, ''PUSH10''),
     (OP_PUSH11, ''PUSH11''), (OP_PUSH12, ''PUSH12''), (OP_PUSH13, ''PUSH13''), (OP_PUSH14, ''PUSH14''), (OP_PUSH15, ''PUSH15''),
     (OP_PUSH16, ''PUSH16''), (OP_PUSH17, ''PUSH17''), (OP_PUSH18, ''PUSH18''), (OP_PUSH19, ''PUSH19''), (OP_PUSH20, ''PUSH20''),
     (OP_PUSH21, ''PUSH21''), (OP_PUSH22, ''PUSH22''), (OP_PUSH23, ''PUSH23''), (OP_PUSH24, ''PUSH24''), (OP_PUSH25, ''PUSH25''),
     (OP_PUSH26, ''PUSH26''), (OP_PUSH27, ''PUSH27''), (OP_PUSH28, ''PUSH28''), (OP_PUSH29, ''PUSH29''), (OP_PUSH30, ''PUSH30''),
     (OP_PUSH31, ''PUSH31''), (OP_PUSH32, ''PUSH32''), (OP_DUP1, ''DUP1''), (OP_DUP2, ''DUP2''), (OP_DUP3, ''DUP3''),
     (OP_DUP4, ''DUP4''), (OP_DUP5, ''DUP5''), (OP_DUP6, ''DUP6''), (OP_DUP7, ''DUP7''), (OP_DUP8, ''DUP8''),
     (OP_DUP9, ''DUP9''), (OP_DUP10, ''DUP10''), (OP_DUP11, ''DUP11''), (OP_DUP12, ''DUP12''), (OP_DUP13, ''DUP13''),
     (OP_DUP14, ''DUP14''), (OP_DUP15, ''DUP15''), (OP_DUP16, ''DUP16''), (OP_SWAP1, ''SWAP1''), (OP_SWAP2, ''SWAP2''),
     (OP_SWAP3, ''SWAP3''), (OP_SWAP4, ''SWAP4''), (OP_SWAP5, ''SWAP5''), (OP_SWAP6, ''SWAP6''), (OP_SWAP7, ''SWAP7''),
     (OP_SWAP8, ''SWAP8''), (OP_SWAP9, ''SWAP9''), (OP_SWAP10, ''SWAP10''), (OP_SWAP11, ''SWAP11''), (OP_SWAP12, ''SWAP12''),
     (OP_SWAP13, ''SWAP13''), (OP_SWAP14, ''SWAP14''), (OP_SWAP15, ''SWAP15''), (OP_SWAP16, ''SWAP16''), (OP_LOG0, ''LOG0''),
     (OP_LOG1, ''LOG1''), (OP_LOG2, ''LOG2''), (OP_LOG3, ''LOG3''), (OP_LOG4, ''LOG4''), (OP_CREATE, ''CREATE''),
     (OP_CALL, ''CALL''), (OP_RETURN, ''RETURN''), (OP_CALLCODE, ''CALLCODE''), (OP_DELEGATECALL, ''DELEGATECALL''), (OP_STATICCALL, ''STATICCALL''),
     (OP_REVERT, ''REVERT''), (OP_SELFDESTRUCT, ''SELFDESTRUCT''), (OP_PUSH, ''PUSH''), (OP_DUP, ''DUP''), (OP_SWAP, ''SWAP'')]"

text \<open>A byte without a name prints as a message that holds its value; \<open>hex_digits\<close> is \<^verbatim>\<open>%x\<close>.\<close>

definition hex_digit :: "nat \<Rightarrow> char" where
  "hex_digit n = ''0123456789abcdef'' ! n"

definition hex_digits :: "byte \<Rightarrow> string" where
  "hex_digits op = (if unat op < 16 then [hex_digit (unat op)] else [hex_digit (unat op div 16), hex_digit (unat op mod 16)])"

definition OpCode_String :: "byte \<Rightarrow> string" where
  "OpCode_String op =
     (let str = (case map_of opCodeToString op of Some n \<Rightarrow> n | None \<Rightarrow> []) in
      if length str = 0 then ''Missing opcode 0x'' @ hex_digits op else str)"

definition stringToOp :: "(string \<times> byte) list" where
  "stringToOp = [
     (''STOP'', OP_STOP), (''ADD'', OP_ADD), (''MUL'', OP_MUL), (''SUB'', OP_SUB), (''DIV'', OP_DIV),
     (''SDIV'', OP_SDIV), (''MOD'', OP_MOD), (''SMOD'', OP_SMOD), (''EXP'', OP_EXP), (''NOT'', OP_NOT),
     (''LT'', OP_LT), (''GT'', OP_GT), (''SLT'', OP_SLT), (''SGT'', OP_SGT), (''EQ'', OP_EQ),
     (''ISZERO'', OP_ISZERO), (''SIGNEXTEND'', OP_SIGNEXTEND), (''AND'', OP_AND), (''OR'', OP_OR), (''XOR'', OP_XOR),
     (''BYTE'', OP_BYTE), (''SHL'', OP_SHL), (''SHR'', OP_SHR), (''SAR'', OP_SAR), (''ADDMOD'', OP_ADDMOD),
     (''MULMOD'', OP_MULMOD), (''SHA3'', OP_SHA3), (''ADDRESS'', OP_ADDRESS), (''BALANCE'', OP_BALANCE), (''ORIGIN'', OP_ORIGIN),
     (''CALLER'', OP_CALLER), (''CALLVALUE'', OP_CALLVALUE), (''CALLDATALOAD'', OP_CALLDATALOAD), (''CALLDATASIZE'', OP_CALLDATASIZE), (''CALLDATACOPY'', OP_CALLDATACOPY),
     (''DELEGATECALL'', OP_DELEGATECALL), (''STATICCALL'', OP_STATICCALL), (''CODESIZE'', OP_CODESIZE), (''CODECOPY'', OP_CODECOPY), (''GASPRICE'', OP_GASPRICE),
     (''EXTCODESIZE'', OP_EXTCODESIZE), (''EXTCODECOPY'', OP_EXTCODECOPY), (''RETURNDATASIZE'', OP_RETURNDATASIZE), (''RETURNDATACOPY'', OP_RETURNDATACOPY), (''BLOCKHASH'', OP_BLOCKHASH),
     (''COINBASE'', OP_COINBASE), (''TIMESTAMP'', OP_TIMESTAMP), (''NUMBER'', OP_NUMBER), (''DIFFICULTY'', OP_DIFFICULTY), (''GASLIMIT'', OP_GASLIMIT),
     (''POP'', OP_POP), (''MLOAD'', OP_MLOAD), (''MSTORE'', OP_MSTORE), (''MSTORE8'', OP_MSTORE8), (''SLOAD'', OP_SLOAD),
     (''SSTORE'', OP_SSTORE), (''JUMP'', OP_JUMP), (''JUMPI'', OP_JUMPI), (''PC'', OP_PC), (''MSIZE'', OP_MSIZE),
     (''GAS'', OP_GAS), (''JUMPDEST'', OP_JUMPDEST), (''PUSH1'', OP_PUSH1), (''PUSH2'', OP_PUSH2), (''PUSH3'', OP_PUSH3),
     (''PUSH4'', OP_PUSH4), (''PUSH5'', OP_PUSH5), (''PUSH6'', OP_PUSH6), (''PUSH7'', OP_PUSH7), (''PUSH8'', OP_PUSH8),
     (''PUSH9'', OP_PUSH9), (''PUSH10'', OP_PUSH10), (''PUSH11'', OP_PUSH11), (''PUSH12'', OP_PUSH12), (''PUSH13'', OP_PUSH13),
     (''PUSH14'', OP_PUSH14), (''PUSH15'', OP_PUSH15), (''PUSH16'', OP_PUSH16), (''PUSH17'', OP_PUSH17), (''PUSH18'', OP_PUSH18),
     (''PUSH19'', OP_PUSH19), (''PUSH20'', OP_PUSH20), (''PUSH21'', OP_PUSH21), (''PUSH22'', OP_PUSH22), (''PUSH23'', OP_PUSH23),
     (''PUSH24'', OP_PUSH24), (''PUSH25'', OP_PUSH25), (''PUSH26'', OP_PUSH26), (''PUSH27'', OP_PUSH27), (''PUSH28'', OP_PUSH28),
     (''PUSH29'', OP_PUSH29), (''PUSH30'', OP_PUSH30), (''PUSH31'', OP_PUSH31), (''PUSH32'', OP_PUSH32), (''DUP1'', OP_DUP1),
     (''DUP2'', OP_DUP2), (''DUP3'', OP_DUP3), (''DUP4'', OP_DUP4), (''DUP5'', OP_DUP5), (''DUP6'', OP_DUP6),
     (''DUP7'', OP_DUP7), (''DUP8'', OP_DUP8), (''DUP9'', OP_DUP9), (''DUP10'', OP_DUP10), (''DUP11'', OP_DUP11),
     (''DUP12'', OP_DUP12), (''DUP13'', OP_DUP13), (''DUP14'', OP_DUP14), (''DUP15'', OP_DUP15), (''DUP16'', OP_DUP16),
     (''SWAP1'', OP_SWAP1), (''SWAP2'', OP_SWAP2), (''SWAP3'', OP_SWAP3), (''SWAP4'', OP_SWAP4), (''SWAP5'', OP_SWAP5),
     (''SWAP6'', OP_SWAP6), (''SWAP7'', OP_SWAP7), (''SWAP8'', OP_SWAP8), (''SWAP9'', OP_SWAP9), (''SWAP10'', OP_SWAP10),
     (''SWAP11'', OP_SWAP11), (''SWAP12'', OP_SWAP12), (''SWAP13'', OP_SWAP13), (''SWAP14'', OP_SWAP14), (''SWAP15'', OP_SWAP15),
     (''SWAP16'', OP_SWAP16), (''LOG0'', OP_LOG0), (''LOG1'', OP_LOG1), (''LOG2'', OP_LOG2), (''LOG3'', OP_LOG3),
     (''LOG4'', OP_LOG4), (''CREATE'', OP_CREATE), (''CALL'', OP_CALL), (''RETURN'', OP_RETURN), (''CALLCODE'', OP_CALLCODE),
     (''REVERT'', OP_REVERT), (''SELFDESTRUCT'', OP_SELFDESTRUCT)]"

text \<open>A string that is no name gives the zero value of the map, the opcode STOP.\<close>

definition StringToOp :: "string \<Rightarrow> byte" where
  "StringToOp str = (case map_of stringToOp str of Some op \<Rightarrow> op | None \<Rightarrow> 0)"

section \<open>Printing and parsing\<close>

definition official :: "byte \<Rightarrow> bool" where
  "official op \<longleftrightarrow> op \<in> set (map fst opCodeToString) \<and> op \<notin> {OP_PUSH, OP_DUP, OP_SWAP}"

definition name_ok :: "byte \<times> string \<Rightarrow> bool" where
  "name_ok = (\<lambda>(op, n). n \<noteq> [] \<and>
     (if op \<in> {OP_PUSH, OP_DUP, OP_SWAP} then map_of stringToOp n = None else map_of stringToOp n = Some op))"

lemma names_parse_1: "list_all name_ok (take 35 opCodeToString)"
  by code_simp

lemma names_parse_2: "list_all name_ok (take 35 (drop 35 opCodeToString))"
  by code_simp

lemma names_parse_3: "list_all name_ok (take 35 (drop 70 opCodeToString))"
  by code_simp

lemma names_parse_4: "list_all name_ok (drop 105 opCodeToString)"
  by code_simp

lemma names_parse: "list_all name_ok opCodeToString"
proof -
  have "drop 105 xs = drop 35 (drop 70 xs)" "drop 70 xs = drop 35 (drop 35 xs)" for xs :: "(byte \<times> string) list" by simp_all
  then have "xs = take 35 xs @ take 35 (drop 35 xs) @ take 35 (drop 70 xs) @ drop 105 xs" for xs :: "(byte \<times> string) list"
    by (simp only: append_take_drop_id)
  then show ?thesis using names_parse_1 names_parse_2 names_parse_3 names_parse_4 by (metis list_all_append)
qed

lemma no_missing_name: "list_all (\<lambda>(n, op). take 2 n \<noteq> ''Mi'') stringToOp"
  by code_simp

text \<open>Printing an opcode and parsing the name gives the opcode back, for every opcode of the
  instruction set; every other byte, the parsing helpers PUSH, DUP and SWAP included, parses as
  STOP.\<close>

theorem opcode_names_roundtrip:
  "StringToOp (OpCode_String op) = (if official op then op else OP_STOP)"
proof (cases "map_of opCodeToString op")
  case None
  then have "\<not> official op" by (simp add: official_def map_of_eq_None_iff)
  moreover have "map_of stringToOp (''Missing opcode 0x'' @ hex_digits op) = None"
  proof (rule ccontr)
    assume "map_of stringToOp (''Missing opcode 0x'' @ hex_digits op) \<noteq> None"
    then obtain c where "(''Missing opcode 0x'' @ hex_digits op, c) \<in> set stringToOp" by (auto dest: map_of_SomeD)
    then have "take 2 (''Missing opcode 0x'' @ hex_digits op) \<noteq> ''Mi''" using no_missing_name by (auto simp: list_all_iff)
    then show False by simp
  qed
  ultimately show ?thesis using None by (simp add: OpCode_String_def StringToOp_def)
next
  case (Some n)
  then have n: "(op, n) \<in> set opCodeToString" by (rule map_of_SomeD)
  then have "n \<noteq> []" "if op \<in> {OP_PUSH, OP_DUP, OP_SWAP} then map_of stringToOp n = None else map_of stringToOp n = Some op"
    using names_parse unfolding list_all_iff name_ok_def by blast+
  moreover have "op \<in> set (map fst opCodeToString)" using n by force
  ultimately show ?thesis using Some by (simp add: OpCode_String_def StringToOp_def official_def split: if_splits)
qed

end
