(* ===== verification/Evm_Base.thy ===== *)
theory Evm_Base
  imports State_DB Evm_Opcodes
begin

text \<open>
  The data of one contract execution: \<^verbatim>\<open>core/vm/stack.go\<close>, \<^verbatim>\<open>core/vm/memory.go\<close>,
  \<^verbatim>\<open>core/vm/common.go\<close>, \<^verbatim>\<open>core/vm/contract.go\<close>, \<^verbatim>\<open>core/vm/analysis.go\<close> and the opcodes of
  \<^verbatim>\<open>core/vm/opcodes.go\<close>. The stack is a list of integers with its top first (the source appends
  at the end of a slice). The pool of recycled integers (\<^verbatim>\<open>intpool.go\<close>) is not represented: an
  operation puts only operands into it that it has popped, and every use overwrites what it takes
  out. A slice of the memory beyond its length is a panic, whatever the capacity behind it.
\<close>

section \<open>Errors\<close>

text \<open>The errors of \<^verbatim>\<open>errors.go\<close>, \<^verbatim>\<open>instructions.go\<close> and \<^verbatim>\<open>jump_table.go\<close>, and those made by
  \<^verbatim>\<open>fmt.Errorf\<close>.\<close>

datatype vm_error =
    ErrOutOfGas | ErrCodeStoreOutOfGas | ErrDepth | ErrInsufficientBalance | ErrContractAddressCollision
  | errWriteProtection | errReturnDataOutOfBounds | errExecutionReverted | errMaxCodeSizeExceeded | errGasUintOverflow
  | errStackUnderflow | errStackLimit | errInvalidOpcode byte | errInvalidJump

section \<open>Stack\<close>

type_synonym Stack = "int list"

definition push :: "Stack \<Rightarrow> int \<Rightarrow> Stack" where
  "push st d = d # st"

definition pop :: "Stack \<Rightarrow> (int \<times> Stack) go" where
  "pop st = (case st of x # st' \<Rightarrow> Ret (x, st') | [] \<Rightarrow> Panic ''index out of range'')"

definition peek :: "Stack \<Rightarrow> int go" where
  "peek st = slice_get st 0"

definition Back :: "Stack \<Rightarrow> int \<Rightarrow> int go" where
  "Back st n = slice_get st n"

text \<open>\<open>set_top\<close>: the top item overwritten in place, as after \<^verbatim>\<open>y := stack.peek()\<close>.\<close>

definition set_top :: "Stack \<Rightarrow> int \<Rightarrow> Stack" where
  "set_top st x = (case st of [] \<Rightarrow> [] | y # st' \<Rightarrow> x # st')"

definition stack_swap :: "Stack \<Rightarrow> nat \<Rightarrow> Stack go" where
  "stack_swap st n =
     (if 0 < n \<and> n \<le> length st then Ret (st[n - 1 := st ! 0, 0 := st ! (n - 1)]) else Panic ''index out of range'')"

definition stack_dup :: "Stack \<Rightarrow> nat \<Rightarrow> Stack go" where
  "stack_dup st n = (if 0 < n \<and> n \<le> length st then Ret (push st (st ! (n - 1))) else Panic ''index out of range'')"

definition require :: "Stack \<Rightarrow> nat \<Rightarrow> vm_error option" where
  "require st n = (if length st < n then Some errStackUnderflow else None)"

section \<open>Memory\<close>

record Memory =
  mem_store :: bytes
  mem_lastGasCost :: uint64

definition NewMemory :: Memory where
  "NewMemory = \<lparr>mem_store = [], mem_lastGasCost = 0\<rparr>"

definition Memory_Set :: "Memory \<Rightarrow> uint64 \<Rightarrow> uint64 \<Rightarrow> bytes \<Rightarrow> Memory go" where
  "Memory_Set m offset sz v =
     (if sz > 0
      then (if offset + sz > word_of_nat (length (mem_store m)) then Panic ''invalid memory: store empty''
            else go_bind (go_slice (mem_store m) (uint offset) (uint (offset + sz))) (\<lambda>dst.
              Ret (m\<lparr>mem_store := copy_at (mem_store m) (unat offset) (length dst) v\<rparr>)))
      else Ret m)"

definition Memory_Set32 :: "Memory \<Rightarrow> uint64 \<Rightarrow> int \<Rightarrow> Memory go" where
  "Memory_Set32 m offset v =
     (if offset + 32 > word_of_nat (length (mem_store m)) then Panic ''invalid memory: store empty''
      else go_bind (go_slice (mem_store m) (uint offset) (uint (offset + 32))) (\<lambda>dst.
        Ret (m\<lparr>mem_store := copy_at (mem_store m) (unat offset) (length dst) (ReadBits v (replicate (length dst) 0))\<rparr>)))"

definition Memory_Resize :: "Memory \<Rightarrow> uint64 \<Rightarrow> Memory" where
  "Memory_Resize m sz =
     (if word_of_nat (length (mem_store m)) < sz
      then m\<lparr>mem_store := mem_store m @ replicate (unat (sz - word_of_nat (length (mem_store m)))) 0\<rparr> else m)"

definition Memory_Get :: "Memory \<Rightarrow> int \<Rightarrow> int \<Rightarrow> bytes go" where
  "Memory_Get m offset sz =
     (if sz = 0 then Ret []
      else if int (length (mem_store m)) > offset then go_slice (mem_store m) offset (offset + sz)
      else Ret [])"

definition Memory_GetPtr :: "Memory \<Rightarrow> int \<Rightarrow> int \<Rightarrow> bytes go" where
  "Memory_GetPtr m offset sz =
     (if sz = 0 then Ret []
      else if int (length (mem_store m)) > offset then go_slice (mem_store m) offset (offset + sz)
      else Ret [])"

definition Memory_Len :: "Memory \<Rightarrow> nat" where
  "Memory_Len m = length (mem_store m)"

section \<open>Helpers of common.go\<close>

definition calcMemSize :: "int \<Rightarrow> int \<Rightarrow> int" where
  "calcMemSize off l = (if l = 0 then 0 else off + l)"

definition getDataBig :: "bytes \<Rightarrow> int \<Rightarrow> int \<Rightarrow> bytes go" where
  "getDataBig data start sz =
     (let dlen = int (length data); s = BigMin start dlen; e = BigMin (s + sz) dlen in
      go_bind (go_slice data (uint (Big_Uint64 s)) (uint (Big_Uint64 e))) (\<lambda>d.
        Ret (RightPadBytes d (unat (Big_Uint64 sz)))))"

definition bigUint64 :: "int \<Rightarrow> uint64 \<times> bool" where
  "bigUint64 v = (Big_Uint64 v, BitLen v > 64)"

definition toWordSize :: "uint64 \<Rightarrow> uint64" where
  "toWordSize sz =
     (if sz > 18446744073709551615 - 31 then 18446744073709551615 div 32 + 1 else (sz + 31) div 32)"

definition allZero :: "bytes \<Rightarrow> bool" where
  "allZero b = list_all (\<lambda>x. x = 0) b"

section \<open>Contracts\<close>

text \<open>
  A \<^verbatim>\<open>ContractRef\<close> is an account reference or a running contract; of the latter \<^verbatim>\<open>AsDelegate\<close> reads
  the caller's address and the value. The map of jump-destination analyses that a contract shares
  with its parent is a cache: \<open>has_dest\<close> computes the analysis from the code, which is what the cache
  returns as long as no two codes have the same Keccak hash.
\<close>

datatype ContractRef = AccountRef address | ParentRef address address int

fun ref_Address :: "ContractRef \<Rightarrow> address" where
  "ref_Address (AccountRef a) = a"
| "ref_Address (ParentRef a c v) = a"

record Contract =
  c_CallerAddress :: address
  c_caller :: ContractRef
  c_self :: address
  c_Code :: bytes
  c_CodeHash :: hash
  c_CodeAddr :: "address option"
  c_Input :: bytes
  c_Gas :: uint64
  c_value :: int
  c_DelegateCall :: bool

definition NewContract :: "ContractRef \<Rightarrow> address \<Rightarrow> int \<Rightarrow> uint64 \<Rightarrow> Contract" where
  "NewContract caller obj v gas = \<lparr>c_CallerAddress = ref_Address caller, c_caller = caller, c_self = obj, c_Code = [],
     c_CodeHash = 0, c_CodeAddr = None, c_Input = [], c_Gas = gas, c_value = v, c_DelegateCall = False\<rparr>"

definition AsDelegate :: "Contract \<Rightarrow> Contract go" where
  "AsDelegate c =
     (case c_caller c of
        ParentRef a callerAddress v \<Rightarrow> Ret (c\<lparr>c_DelegateCall := True, c_CallerAddress := callerAddress, c_value := v\<rparr>)
      | AccountRef a \<Rightarrow> Panic ''interface conversion: vm.ContractRef is vm.AccountRef'')"

definition contract_ref :: "Contract \<Rightarrow> ContractRef" where
  "contract_ref c = ParentRef (c_self c) (c_CallerAddress c) (c_value c)"

definition GetByte :: "Contract \<Rightarrow> uint64 \<Rightarrow> byte" where
  "GetByte c n = (if n < word_of_nat (length (c_Code c)) then c_Code c ! unat n else 0)"

definition GetOp :: "Contract \<Rightarrow> uint64 \<Rightarrow> byte" where
  "GetOp c n = GetByte c n"

definition UseGas :: "Contract \<Rightarrow> uint64 \<Rightarrow> Contract \<times> bool" where
  "UseGas c gas = (if c_Gas c < gas then (c, False) else (c\<lparr>c_Gas := c_Gas c - gas\<rparr>, True))"

definition SetCallCode :: "Contract \<Rightarrow> address \<Rightarrow> hash \<Rightarrow> bytes \<Rightarrow> Contract" where
  "SetCallCode c addr h code = c\<lparr>c_Code := code, c_CodeHash := h, c_CodeAddr := Some addr\<rparr>"

section \<open>Jump destinations\<close>

type_synonym bitvec = bytes

definition bitvec_set :: "bitvec \<Rightarrow> nat \<Rightarrow> bitvec go" where
  "bitvec_set bits pos =
     go_bind (slice_get bits (int (pos div 8))) (\<lambda>b. slice_set bits (int (pos div 8)) (b OR drop_bit (pos mod 8) 0x80))"

definition bitvec_set8 :: "bitvec \<Rightarrow> nat \<Rightarrow> bitvec go" where
  "bitvec_set8 bits pos =
     go_bind (slice_get bits (int (pos div 8))) (\<lambda>b.
     go_bind (slice_set bits (int (pos div 8)) (b OR drop_bit (pos mod 8) 0xFF)) (\<lambda>bits1.
     go_bind (slice_get bits1 (int (pos div 8 + 1))) (\<lambda>b1.
       slice_set bits1 (int (pos div 8 + 1)) (b1 OR NOT (drop_bit (pos mod 8) 0xFF)))))"

definition codeSegment :: "bitvec \<Rightarrow> nat \<Rightarrow> bool go" where
  "codeSegment bits pos = go_bind (slice_get bits (int (pos div 8))) (\<lambda>b. Ret (b AND drop_bit (pos mod 8) 0x80 = 0))"

text \<open>The two inner loops of \<^verbatim>\<open>codeBitmap\<close>: by eight positions, then one by one.\<close>

fun mark1 :: "nat \<Rightarrow> bitvec \<Rightarrow> nat \<Rightarrow> (bitvec \<times> nat) go" where
  "mark1 0 bits pc = Ret (bits, pc)"
| "mark1 (Suc n) bits pc = go_bind (bitvec_set bits pc) (\<lambda>bits'. mark1 n bits' (pc + 1))"

fun mark8 :: "nat \<Rightarrow> bitvec \<Rightarrow> nat \<Rightarrow> (bitvec \<times> nat) go" where
  "mark8 numbits bits pc =
     (if numbits \<ge> 8 then go_bind (bitvec_set8 bits pc) (\<lambda>bits'. mark8 (numbits - 8) bits' (pc + 8))
      else mark1 numbits bits pc)"

declare mark8.simps [simp del]

text \<open>The outer loop; \<open>fuel\<close> bounds its iterations, each of which advances the position.\<close>

fun bitmap_loop :: "nat \<Rightarrow> bytes \<Rightarrow> bitvec \<Rightarrow> nat \<Rightarrow> bitvec go" where
  "bitmap_loop 0 code bits pc = Ret bits"
| "bitmap_loop (Suc fuel) code bits pc =
     (if pc < length code
      then (let op = code ! pc in
        if OP_PUSH1 \<le> op \<and> op \<le> OP_PUSH32
        then go_bind (mark8 (unat (op - OP_PUSH1) + 1) bits (pc + 1)) (\<lambda>(bits', pc'). bitmap_loop fuel code bits' pc')
        else bitmap_loop fuel code bits (pc + 1))
      else Ret bits)"

definition codeBitmap :: "bytes \<Rightarrow> bitvec go" where
  "codeBitmap code = bitmap_loop (length code) code (replicate (length code div 8 + 1 + 4) 0) 0"

definition has_dest :: "bytes \<Rightarrow> int \<Rightarrow> bool go" where
  "has_dest code dest =
     (let udest = Big_Uint64 dest in
      if BitLen dest \<ge> 63 \<or> udest \<ge> word_of_nat (length code) then Ret False
      else go_bind (codeBitmap code) (\<lambda>m.
        go_bind (slice_get code (uint udest)) (\<lambda>op.
          if op = OP_JUMPDEST then codeSegment m (unat udest) else Ret False)))"

section \<open>The jump-destination bitmap\<close>

text \<open>The reference: reading the code from the start, a byte is an opcode unless it belongs to the
  argument of an earlier PUSH; \<open>k\<close> argument bytes are still to come.\<close>

fun segs :: "nat \<Rightarrow> bytes \<Rightarrow> bool list" where
  "segs k [] = []"
| "segs (Suc k) (b # bs) = False # segs k bs"
| "segs 0 (b # bs) = True # segs (if OP_PUSH1 \<le> b \<and> b \<le> OP_PUSH32 then unat (b - OP_PUSH1) + 1 else 0) bs"

definition is_set :: "bitvec \<Rightarrow> nat \<Rightarrow> bool" where
  "is_set bits q \<longleftrightarrow> bit (bits ! (q div 8)) (7 - q mod 8)"

lemma bit_80: "bit (drop_bit k (0x80 :: byte)) i \<longleftrightarrow> k + i = 7"
proof -
  have "bit (0x80 :: byte) j \<longleftrightarrow> j = 7" for j
    using bit_exp_iff [where 'a = byte, of 7 j] by auto
  then show ?thesis by (simp add: bit_drop_bit_eq)
qed

lemma bit_FF: "bit (drop_bit k (0xFF :: byte)) i \<longleftrightarrow> k + i < 8"
proof -
  have "(0xFF :: byte) = mask 8" by (simp add: mask_eq_exp_minus_1)
  then have "bit (drop_bit k (0xFF :: byte)) i \<longleftrightarrow> bit (mask 8 :: byte) (k + i)" by (simp only: bit_drop_bit_eq o_apply)
  then show ?thesis by (simp only: bit_mask_iff) simp
qed

lemma pos_eq: "t < 8 \<Longrightarrow> r < 8 \<Longrightarrow> (b = a \<and> r + (7 - t) = (7 :: nat)) = (8 * b + t = 8 * a + r)"
  by presburger

lemma pos_within:
  "t < 8 \<Longrightarrow> r < 8 \<Longrightarrow> (b = a \<and> r + (7 - t) < 8 \<or> b = a + 1 \<and> \<not> r + (7 - t) < (8 :: nat)) = (8 * a + r \<le> 8 * b + t \<and> 8 * b + t < 8 * a + r + 8)"
  by presburger

lemma bitvec_set_spec:
  assumes "pos div 8 < length bits"
  shows "\<exists>bits'. bitvec_set bits pos = Ret bits' \<and> length bits' = length bits \<and>
    (\<forall>q. q div 8 < length bits \<longrightarrow> is_set bits' q = (is_set bits q \<or> q = pos))"
proof -
  let ?b = "bits[pos div 8 := bits ! (pos div 8) OR drop_bit (pos mod 8) 0x80]"
  have "bitvec_set bits pos = Ret ?b"
    using assms unfolding bitvec_set_def by (simp only: slice_get_in slice_set_in go_bind_simps of_nat_less_iff of_nat_0_le_iff nat_int)
  moreover have "is_set ?b q = (is_set bits q \<or> q = pos)" if "q div 8 < length bits" for q
  proof -
    have eq: "(q div 8 = pos div 8 \<and> pos mod 8 + (7 - q mod 8) = 7) = (q = pos)"
      using pos_eq [of "q mod 8" "pos mod 8" "q div 8" "pos div 8"] by simp
    show ?thesis using that unfolding is_set_def eq [symmetric]
      by (cases "q div 8 = pos div 8") (simp_all only: nth_list_update_eq nth_list_update_neq bit_or_iff bit_80 simp_thms)
  qed
  ultimately show ?thesis by simp
qed

lemma bitvec_set8_spec:
  assumes "pos div 8 + 1 < length bits"
  shows "\<exists>bits'. bitvec_set8 bits pos = Ret bits' \<and> length bits' = length bits \<and>
    (\<forall>q. q div 8 < length bits \<longrightarrow> is_set bits' q = (is_set bits q \<or> pos \<le> q \<and> q < pos + 8))"
proof -
  let ?i = "pos div 8" and ?k = "pos mod 8"
  let ?b = "bits[?i := bits ! ?i OR drop_bit ?k 0xFF]"
  let ?c = "?b[?i + 1 := ?b ! (?i + 1) OR NOT (drop_bit ?k 0xFF)]"
  have i: "?i < length bits" "?i \<noteq> ?i + 1" using assms by linarith+
  have "bitvec_set8 bits pos = Ret ?c" using assms i(1) unfolding bitvec_set8_def
    by (simp only: slice_get_in slice_set_in go_bind_simps of_nat_less_iff of_nat_0_le_iff nat_int length_list_update)
  moreover have "is_set ?c q = (is_set bits q \<or> pos \<le> q \<and> q < pos + 8)" if "q div 8 < length bits" for q
  proof -
    have eq: "(q div 8 = ?i \<and> ?k + (7 - q mod 8) < 8 \<or> q div 8 = ?i + 1 \<and> \<not> ?k + (7 - q mod 8) < 8) = (pos \<le> q \<and> q < pos + 8)"
      using pos_within [of "q mod 8" "pos mod 8" "q div 8" "pos div 8"] by simp
    have lt: "7 - q mod 8 < LENGTH(8)" by simp
    consider "q div 8 = ?i" | "q div 8 = ?i + 1" | "q div 8 \<noteq> ?i" "q div 8 \<noteq> ?i + 1" by blast
    then show ?thesis unfolding is_set_def eq [symmetric]
    proof cases
      case 1
      then have "?c ! (q div 8) = bits ! ?i OR drop_bit ?k 0xFF" using i by (simp only: nth_list_update_neq nth_list_update_eq)
      then show "bit (?c ! (q div 8)) (7 - q mod 8) = (bit (bits ! (q div 8)) (7 - q mod 8) \<or>
          (q div 8 = ?i \<and> ?k + (7 - q mod 8) < 8 \<or> q div 8 = ?i + 1 \<and> \<not> ?k + (7 - q mod 8) < 8))"
        using 1 i by (simp only: bit_or_iff bit_FF simp_thms)
    next
      case 2
      then have "?c ! (q div 8) = bits ! (?i + 1) OR NOT (drop_bit ?k 0xFF)"
        using assms by (simp only: nth_list_update_eq length_list_update nth_list_update_neq [OF i(2)])
      then show "bit (?c ! (q div 8)) (7 - q mod 8) = (bit (bits ! (q div 8)) (7 - q mod 8) \<or>
          (q div 8 = ?i \<and> ?k + (7 - q mod 8) < 8 \<or> q div 8 = ?i + 1 \<and> \<not> ?k + (7 - q mod 8) < 8))"
        using 2 i lt by (simp add: bit_or_iff bit_not_iff bit_FF)
    next
      case 3
      then have "?c ! (q div 8) = bits ! (q div 8)" by (simp only: nth_list_update_neq not_sym)
      then show "bit (?c ! (q div 8)) (7 - q mod 8) = (bit (bits ! (q div 8)) (7 - q mod 8) \<or>
          (q div 8 = ?i \<and> ?k + (7 - q mod 8) < 8 \<or> q div 8 = ?i + 1 \<and> \<not> ?k + (7 - q mod 8) < 8))"
        using 3 by (simp only: simp_thms)
    qed
  qed
  ultimately show ?thesis by simp
qed

lemma mark1_spec:
  "(pc + n) div 8 < length bits \<Longrightarrow>
   \<exists>bits'. mark1 n bits pc = Ret (bits', pc + n) \<and> length bits' = length bits \<and>
     (\<forall>q. q div 8 < length bits \<longrightarrow> is_set bits' q = (is_set bits q \<or> pc \<le> q \<and> q < pc + n))"
proof (induction n arbitrary: bits pc)
  case (Suc n)
  then have "pc div 8 < length bits" using div_le_mono [of pc "pc + Suc n" 8] by linarith
  then obtain b where b: "bitvec_set bits pc = Ret b" "length b = length bits"
      "\<forall>q. q div 8 < length bits \<longrightarrow> is_set b q = (is_set bits q \<or> q = pc)"
    using bitvec_set_spec by blast
  have "(pc + 1 + n) div 8 < length b" using Suc.prems b(2) by simp
  from Suc.IH [OF this] b show ?case by auto
qed auto

lemma mark8_spec:
  "(pc + n) div 8 < length bits \<Longrightarrow>
   \<exists>bits'. mark8 n bits pc = Ret (bits', pc + n) \<and> length bits' = length bits \<and>
     (\<forall>q. q div 8 < length bits \<longrightarrow> is_set bits' q = (is_set bits q \<or> pc \<le> q \<and> q < pc + n))"
proof (induction n bits pc rule: mark8.induct)
  case (1 n bits pc)
  show ?case
  proof (cases "n \<ge> 8")
    case True
    have "pc div 8 + 1 = (pc + 8) div 8" by simp
    also have "\<dots> \<le> (pc + n) div 8" using True by (intro div_le_mono) simp
    finally have "pc div 8 + 1 < length bits" using "1.prems" by linarith
    then obtain b where b: "bitvec_set8 bits pc = Ret b" "length b = length bits"
        "\<forall>q. q div 8 < length bits \<longrightarrow> is_set b q = (is_set bits q \<or> pc \<le> q \<and> q < pc + 8)"
      using bitvec_set8_spec by blast
    have "(pc + 8 + (n - 8)) div 8 < length b" using "1.prems" b(2) True by simp
    from "1.IH" [OF True this] b True show ?thesis by (auto simp: mark8.simps [of n])
  next
    case False
    then show ?thesis using mark1_spec [of pc n bits] "1.prems" by (simp add: mark8.simps [of n])
  qed
qed

lemma segs_data: "segs k bs = replicate (min k (length bs)) False @ segs 0 (drop k bs)"
proof (induction k arbitrary: bs)
  case (Suc k)
  then show ?case by (cases bs) auto
qed simp

lemma push_width: "OP_PUSH1 \<le> (b :: byte) \<Longrightarrow> b \<le> OP_PUSH32 \<Longrightarrow> unat (b - OP_PUSH1) < 32"
  by (simp add: word_le_nat_alt unat_sub)

lemma length_segs [simp]: "length (segs k bs) = length bs"
  by (induction k bs rule: segs.induct) auto

text \<open>The state of the outer loop: everything before the position is marked as the reference says,
  nothing from it on.\<close>

definition marked :: "bytes \<Rightarrow> bitvec \<Rightarrow> nat \<Rightarrow> bool" where
  "marked code bits pc \<longleftrightarrow> length bits = length code div 8 + 5 \<and> drop pc (segs 0 code) = segs 0 (drop pc code) \<and>
     (\<forall>q. q div 8 < length bits \<longrightarrow> (q < pc \<longrightarrow> q < length code \<longrightarrow> is_set bits q = (\<not> segs 0 code ! q)) \<and> (pc \<le> q \<longrightarrow> \<not> is_set bits q))"

lemma marked_push:
  assumes here: "drop pc (segs 0 code) = True # replicate (min n (length code - (pc + 1))) False @ segs 0 (drop (pc + 1 + n) code)"
  shows "drop (pc + 1 + n) (segs 0 code) = segs 0 (drop (pc + 1 + n) code)"
    and "pc \<le> q \<Longrightarrow> q < pc + 1 + n \<Longrightarrow> q < length code \<Longrightarrow> segs 0 code ! q = (q = pc)"
proof -
  have "drop (pc + 1 + n) (segs 0 code) = drop n (drop 1 (drop pc (segs 0 code)))" by (simp add: ac_simps)
  also have "\<dots> = segs 0 (drop (pc + 1 + n) code)"
    unfolding here by (cases "n \<le> length code - (pc + 1)") (auto simp: min_def)
  finally show "drop (pc + 1 + n) (segs 0 code) = segs 0 (drop (pc + 1 + n) code)" .
  assume that: "pc \<le> q" "q < pc + 1 + n" "q < length code"
  then have "segs 0 code ! q = drop pc (segs 0 code) ! (q - pc)" by simp
  also have "\<dots> = (q - pc = 0)" using that unfolding here by (cases "q - pc") (auto simp: nth_append)
  finally show "segs 0 code ! q = (q = pc)" using that(1) by auto
qed

lemma marked_step:
  assumes marked: "marked code bits pc" and pc: "pc < length code"
    and n: "n = (if OP_PUSH1 \<le> code ! pc \<and> code ! pc \<le> OP_PUSH32 then unat (code ! pc - OP_PUSH1) + 1 else 0)"
  shows "\<exists>bits'. mark8 n bits (pc + 1) = Ret (bits', pc + 1 + n) \<and> marked code bits' (pc + 1 + n)"
proof -
  have len: "length bits = length code div 8 + 5" and sync: "drop pc (segs 0 code) = segs 0 (drop pc code)"
    and m: "\<And>q. q div 8 < length bits \<Longrightarrow> (q < pc \<longrightarrow> q < length code \<longrightarrow> is_set bits q = (\<not> segs 0 code ! q)) \<and> (pc \<le> q \<longrightarrow> \<not> is_set bits q)"
    using marked by (auto simp: marked_def)
  have "drop pc code = code ! pc # drop (pc + 1) code" using pc by (simp add: Cons_nth_drop_Suc)
  then have here: "drop pc (segs 0 code) = True # replicate (min n (length code - (pc + 1))) False @ segs 0 (drop (pc + 1 + n) code)"
    using sync segs_data [of n "drop (pc + 1) code"] by (simp add: n add.commute)
  have "n \<le> 32" using push_width [of "code ! pc"] by (auto simp: n)
  then have "(pc + 1 + n) div 8 \<le> (length code + 32) div 8" using pc by (intro div_le_mono) linarith
  then have "(pc + 1 + n) div 8 < length bits" using len by simp
  from mark8_spec [OF this] obtain bits' where b: "mark8 n bits (pc + 1) = Ret (bits', pc + 1 + n)" "length bits' = length bits"
      "\<forall>q. q div 8 < length bits \<longrightarrow> is_set bits' q = (is_set bits q \<or> pc + 1 \<le> q \<and> q < pc + 1 + n)"
    by blast
  have "(q < pc + 1 + n \<longrightarrow> q < length code \<longrightarrow> is_set bits' q = (\<not> segs 0 code ! q)) \<and> (pc + 1 + n \<le> q \<longrightarrow> \<not> is_set bits' q)"
    if q: "q div 8 < length bits" for q
  proof (cases "q < pc")
    case False
    then have "is_set bits' q \<longleftrightarrow> pc + 1 \<le> q \<and> q < pc + 1 + n" using b(3) m [OF q] q by (simp only: not_less simp_thms)
    then show ?thesis using marked_push(2) [OF here, of q] False by linarith
  next
    case True
    then have "is_set bits' q = is_set bits q" using b(3) q by auto
    then show ?thesis using m [OF q] True by linarith
  qed
  then have "marked code bits' (pc + 1 + n)" unfolding marked_def using marked_push(1) [OF here] b(2) len by simp
  then show ?thesis using b(1) by blast
qed

lemma bitmap_loop_spec:
  assumes "marked code bits pc" "length code - pc \<le> fuel"
  shows "\<exists>m. bitmap_loop fuel code bits pc = Ret m \<and> length m = length code div 8 + 5 \<and>
    (\<forall>q < length code. is_set m q = (\<not> segs 0 code ! q))"
  using assms
proof (induction fuel arbitrary: bits pc)
  case 0
  then show ?case by (auto simp: marked_def)
next
  case (Suc fuel)
  let ?b = "code ! pc"
  let ?n = "if OP_PUSH1 \<le> ?b \<and> ?b \<le> OP_PUSH32 then unat (?b - OP_PUSH1) + 1 else 0"
  show ?case
  proof (cases "pc < length code")
    case True
    obtain bits' where b: "mark8 ?n bits (pc + 1) = Ret (bits', pc + 1 + ?n)" "marked code bits' (pc + 1 + ?n)"
      using marked_step [OF Suc.prems(1) True refl] by blast
    moreover have "length code - (pc + 1 + ?n) \<le> fuel" using Suc.prems(2) True by simp
    moreover have "bitmap_loop (Suc fuel) code bits pc = bitmap_loop fuel code bits' (pc + 1 + ?n)"
      using True b(1) mark8.simps [of 0 bits "pc + 1"] by (auto simp: Let_def)
    ultimately show ?thesis using Suc.IH by metis
  next
    case False
    then show ?thesis using Suc.prems(1) by (auto simp: marked_def)
  qed
qed

lemma marked_start: "marked code (replicate (length code div 8 + 1 + 4) 0) 0"
  by (simp add: marked_def is_set_def)

lemma codeBitmap_spec:
  "\<exists>m. codeBitmap code = Ret m \<and> length m = length code div 8 + 5 \<and> (\<forall>q < length code. is_set m q = (\<not> segs 0 code ! q))"
  unfolding codeBitmap_def using bitmap_loop_spec [OF marked_start] by simp

lemma codeSegment_eq: "q div 8 < length m \<Longrightarrow> codeSegment m q = Ret (\<not> is_set m q)"
proof -
  assume q: "q div 8 < length m"
  have "(b AND drop_bit (q mod 8) 0x80 = 0) = (\<not> bit b (7 - q mod 8))" for b :: byte
  proof -
    have "(x = 0) = (\<forall>i. \<not> bit x i)" for x :: byte by (metis bit_0_eq bit_eqI bot_apply bot_bool_def)
    then have "(b AND drop_bit (q mod 8) 0x80 = 0) = (\<forall>i. \<not> (bit b i \<and> q mod 8 + i = 7))"
      by (simp only: bit_and_iff bit_80)
    moreover have "(q mod 8 + i = 7) = (i = 7 - q mod 8)" for i by (auto dest: sym)
    ultimately show ?thesis by auto
  qed
  then show ?thesis using q by (simp add: codeSegment_def is_set_def)
qed

lemma has_dest_spec:
  assumes "0 \<le> dest" "length code < 2 ^ 62"
  shows "has_dest code dest = Ret (nat dest < length code \<and> code ! nat dest = OP_JUMPDEST \<and> segs 0 code ! nat dest)"
proof (cases "BitLen dest \<ge> 63")
  case True
  then have "2 ^ 62 \<le> dest" using BitLen_le [of dest 62] assms(1) by simp
  then have "\<not> nat dest < length code" using assms(2) by (simp add: not_less)
  then show ?thesis using True by (simp add: has_dest_def)
next
  case False
  then have d: "dest < 2 ^ 62" using BitLen_le [of dest 62] assms(1) by simp
  then have u: "uint (Big_Uint64 dest) = dest" "unat (Big_Uint64 dest) = nat dest" using assms(1) by simp_all
  have lt: "Big_Uint64 dest < word_of_nat (length code) \<longleftrightarrow> nat dest < length code"
    using u(2) assms by (simp add: word_less_nat_alt unat_of_nat)
  obtain m where m: "codeBitmap code = Ret m" "length m = length code div 8 + 5" "\<forall>q < length code. is_set m q = (\<not> segs 0 code ! q)"
    using codeBitmap_spec by blast
  have "codeSegment m (nat dest) = Ret (segs 0 code ! nat dest)" if "nat dest < length code"
    using m that codeSegment_eq [of "nat dest" m] div_le_mono [of "nat dest" "length code" 8] by auto
  then show ?thesis using False u assms(1) m(1) lt by (auto simp: has_dest_def Let_def not_le)
qed

text \<open>C32: The jump-destination check is exact: for every code and target it returns without panic,
  and it accepts the target exactly if it lies in the code, holds a JUMPDEST byte, and is an opcode
  rather than an argument of a PUSH when the code is read from its start.\<close>

theorem jumpdest_exact:
  assumes "0 \<le> dest" "length code < 2 ^ 62"
  shows "has_dest code dest = Ret (nat dest < length code \<and> code ! nat dest = OP_JUMPDEST \<and> segs 0 code ! nat dest)"
  using assms by (rule has_dest_spec)

theorem jumpdest_exact_witness: "has_dest [0x60, 0x5b, 0x5b] 2 = Ret True \<and> has_dest [0x60, 0x5b, 0x5b] 1 = Ret False"
  using jumpdest_exact [of 2 "[0x60, 0x5b, 0x5b]"] jumpdest_exact [of 1 "[0x60, 0x5b, 0x5b]"]
  by simp

end
