(* ===== verification/Lk_Txdb.thy ===== *)
theory Lk_Txdb
  imports Big_Math "HOL-Library.Sublist"
begin

text \<open>
  The record of internal transfers (\<^verbatim>\<open>third_part/txmgr/db/basic/basic.go\<close> and the transaction types of
  \<^verbatim>\<open>third_part/txmgr/types\<close>). The virtual machine puts a record per successful internal call and per
  self-destruct into a batch; the batch is committed to the database under a key by hash and a key
  by block and index. The database is a map, absent while \<^verbatim>\<open>gLDB\<close> is nil; its read and write errors
  are not modelled. A stored value stands for its JSON. Iterating over a Go map has no order: the model
  iterates in the order of the keys it is given.
\<close>

section \<open>Transactions\<close>

definition EthTxType :: string where "EthTxType = ''et''"
definition ContractTxType :: string where "ContractTxType = ''ct''"
definition SuicideTxType :: string where "SuicideTxType = ''st''"

lemmas tx_type_defs = EthTxType_def ContractTxType_def SuicideTxType_def

text \<open>Of the wrapped Ethereum transaction the code reads its hash, gas and gas price.\<close>

record EthTransaction =
  etx_Hash :: string
  etx_Gas :: int
  etx_GasPrice :: int
  etx_GasUsed :: int
  etx_Ret :: int
  etx_Errmsg :: string

record ContractTransaction =
  ctx_TxHash :: hash
  ctx_From :: address
  ctx_To :: address
  ctx_Value :: int
  ctx_Index :: int
  ctx_BlockNum :: "int option"

record SuicideTransaction =
  stx_TxHash :: hash
  stx_From :: address
  stx_To :: address
  stx_Target :: address
  stx_Index :: int
  stx_Value :: int
  stx_BlockNum :: "int option"

record LKTransaction =
  lkx_Type :: string
  lkx_ETx :: "EthTransaction option"
  lkx_CTx :: "ContractTransaction option"
  lkx_STx :: "SuicideTransaction option"
  lkx_Sign :: string

text \<open>\<^verbatim>\<open>jsonHash\<close> hashes the JSON of a list of fields; the model takes the printed hash as a function of
  the fields that each transaction type hashes.\<close>

record json_hash =
  jh_Contract :: "hash \<Rightarrow> address \<Rightarrow> address \<Rightarrow> int \<Rightarrow> int \<Rightarrow> string"
  jh_Suicide :: "hash \<Rightarrow> address \<Rightarrow> address \<Rightarrow> int \<Rightarrow> address \<Rightarrow> int \<Rightarrow> string"
  jh_zero :: string

definition ContractTransaction_Hash :: "json_hash \<Rightarrow> ContractTransaction \<Rightarrow> string" where
  "ContractTransaction_Hash jh tx = jh_Contract jh (ctx_TxHash tx) (ctx_From tx) (ctx_To tx) (ctx_Value tx) (ctx_Index tx)"

definition SuicideTransaction_Hash :: "json_hash \<Rightarrow> SuicideTransaction \<Rightarrow> string" where
  "SuicideTransaction_Hash jh tx =
     jh_Suicide jh (stx_TxHash tx) (stx_From tx) (stx_To tx) (stx_Value tx) (stx_Target tx) (stx_Index tx)"

definition nil_deref :: "'a go" where
  "nil_deref = Panic ''invalid memory address or nil pointer dereference''"

definition LKTransaction_Hash :: "json_hash \<Rightarrow> LKTransaction \<Rightarrow> string go" where
  "LKTransaction_Hash jh tx =
     (if lkx_Type tx = EthTxType then (case lkx_ETx tx of None \<Rightarrow> nil_deref | Some etx \<Rightarrow> Ret (etx_Hash etx))
      else if lkx_Type tx = ContractTxType
      then (case lkx_CTx tx of None \<Rightarrow> nil_deref | Some c \<Rightarrow> Ret (ContractTransaction_Hash jh c))
      else if lkx_Type tx = SuicideTxType
      then (case lkx_STx tx of None \<Rightarrow> nil_deref | Some s \<Rightarrow> Ret (SuicideTransaction_Hash jh s))
      else Ret (jh_zero jh))"

section \<open>Batches and the database\<close>

record EthTransactionGas =
  eg_GasLimit :: int
  eg_GasUsed :: int
  eg_GasPrice :: int
  eg_BlockNum :: "int option"
  eg_Ret :: int
  eg_Errmsg :: string

datatype tb_value = JGas EthTransactionGas | JLkx LKTransaction

record TxBatch =
  tb_items :: "(string \<times> tb_value) list"
  tb_Err :: "string option"

text \<open>The package variables.\<close>

record lk_db =
  gBlockNumBig :: "int option"
  gBlockNum :: string
  gTxIndex :: int
  gLDB :: "(string \<rightharpoonup> tb_value) option"

datatype lk_error = ErrLDBNil | ErrInvalidLkxType string

text \<open>Decimal printing.\<close>

definition dec_digit :: "nat \<Rightarrow> char" where
  "dec_digit n = char_of (48 + n)"

fun dec_nat :: "nat \<Rightarrow> string" where
  "dec_nat n = (if n < 10 then [dec_digit n] else dec_nat (n div 10) @ [dec_digit (n mod 10)])"

declare dec_nat.simps [simp del]

definition dec_int :: "int \<Rightarrow> string" where
  "dec_int i = (if i < 0 then ''-'' @ dec_nat (nat (- i)) else dec_nat (nat i))"

text \<open>\<open>put_item\<close> is \<^verbatim>\<open>tb.items[key] = value\<close>: the items are a map, here an association list without
  repeated keys.\<close>

definition put_item :: "TxBatch \<Rightarrow> string \<Rightarrow> tb_value \<Rightarrow> TxBatch" where
  "put_item tb k v = tb\<lparr>tb_items := filter (\<lambda>kv. fst kv \<noteq> k) (tb_items tb) @ [(k, v)]\<rparr>"

definition UpdateBlockNum :: "lk_db \<Rightarrow> int \<Rightarrow> lk_db" where
  "UpdateBlockNum g num = g\<lparr>gBlockNumBig := Some num, gBlockNum := dec_int num, gTxIndex := 1\<rparr>"

definition BeginBatch :: TxBatch where
  "BeginBatch = \<lparr>tb_items = [], tb_Err = None\<rparr>"

definition ctx_stamp :: "lk_db \<Rightarrow> ContractTransaction \<Rightarrow> ContractTransaction" where
  "ctx_stamp g c = (let c = c\<lparr>ctx_BlockNum := gBlockNumBig g\<rparr> in if ctx_Index c = 0 then c\<lparr>ctx_Index := gTxIndex g\<rparr> else c)"

definition stx_stamp :: "lk_db \<Rightarrow> SuicideTransaction \<Rightarrow> SuicideTransaction" where
  "stx_stamp g s = (let s = s\<lparr>stx_BlockNum := gBlockNumBig g\<rparr> in if stx_Index s = 0 then s\<lparr>stx_Index := gTxIndex g\<rparr> else s)"

text \<open>The end of \<^verbatim>\<open>putLKTx\<close>: the two keys and the next index.\<close>

definition put_indexed :: "json_hash \<Rightarrow> lk_db \<Rightarrow> TxBatch \<Rightarrow> LKTransaction \<Rightarrow> (lk_db \<times> TxBatch \<times> lk_error option) go" where
  "put_indexed jh g tb lkx =
     go_bind (LKTransaction_Hash jh lkx) (\<lambda>h.
       let tb = put_item tb (lkx_Type lkx @ ''-'' @ h) (JLkx lkx);
           tb = put_item tb (lkx_Type lkx @ ''-'' @ gBlockNum g @ ''-'' @ dec_int (gTxIndex g)) (JLkx lkx) in
       Ret (g\<lparr>gTxIndex := gTxIndex g + 1\<rparr>, tb, None))"

definition putLKTx :: "json_hash \<Rightarrow> lk_db \<Rightarrow> TxBatch \<Rightarrow> LKTransaction \<Rightarrow> (lk_db \<times> TxBatch \<times> lk_error option) go" where
  "putLKTx jh g tb lkx =
     (if lkx_Type lkx = EthTxType
      then (case lkx_ETx lkx of None \<Rightarrow> nil_deref
            | Some etx \<Rightarrow> Ret (g, put_item tb (EthTxType @ ''-'' @ etx_Hash etx)
                (JGas \<lparr>eg_GasLimit = etx_Gas etx, eg_GasUsed = etx_GasUsed etx, eg_GasPrice = etx_GasPrice etx,
                       eg_BlockNum = gBlockNumBig g, eg_Ret = etx_Ret etx, eg_Errmsg = etx_Errmsg etx\<rparr>), None))
      else if lkx_Type lkx = ContractTxType
      then (case lkx_CTx lkx of None \<Rightarrow> nil_deref
            | Some c \<Rightarrow> put_indexed jh g tb (lkx\<lparr>lkx_CTx := Some (ctx_stamp g c)\<rparr>))
      else if lkx_Type lkx = SuicideTxType
      then (case lkx_STx lkx of None \<Rightarrow> nil_deref
            | Some s \<Rightarrow> put_indexed jh g tb (lkx\<lparr>lkx_STx := Some (stx_stamp g s)\<rparr>))
      else Ret (g, tb, Some (ErrInvalidLkxType (lkx_Type lkx))))"

definition TxBatch_Put :: "json_hash \<Rightarrow> lk_db \<Rightarrow> TxBatch \<Rightarrow> LKTransaction \<Rightarrow> (lk_db \<times> TxBatch \<times> lk_error option) go" where
  "TxBatch_Put jh g tb lkx = putLKTx jh g tb lkx"

definition TxBatch_Commit :: "lk_db \<Rightarrow> TxBatch \<Rightarrow> lk_db \<times> lk_error option" where
  "TxBatch_Commit g tb =
     (if tb_items tb = [] then (g, None)
      else case gLDB g of None \<Rightarrow> (g, Some ErrLDBNil)
           | Some db \<Rightarrow> (g\<lparr>gLDB := Some (db ++ map_of (tb_items tb))\<rparr>, None))"

definition TxBatch_Cancel :: "TxBatch option \<Rightarrow> TxBatch option" where
  "TxBatch_Cancel tb = (case tb of None \<Rightarrow> None | Some b \<Rightarrow> Some (b\<lparr>tb_items := []\<rparr>))"

text \<open>The end of a delivery (\<^verbatim>\<open>deliverTx\<close>): a batch whose transaction failed in the virtual machine is emptied,
  the gas of the transaction is put, and the batch is committed.\<close>

definition settle_batch :: "json_hash \<Rightarrow> lk_db \<Rightarrow> TxBatch \<Rightarrow> string \<Rightarrow> int \<Rightarrow> int \<Rightarrow> int \<Rightarrow> (lk_db \<times> TxBatch \<times> lk_error option) go" where
  "settle_batch jh g tb txHash limit price gas =
     (let failed = tb_Err tb \<noteq> None;
          tb = (if failed then tb\<lparr>tb_items := []\<rparr> else tb);
          etx = \<lparr>etx_Hash = txHash, etx_Gas = limit, etx_GasPrice = price, etx_GasUsed = gas,
                 etx_Ret = (if failed then -1 else 0), etx_Errmsg = (case tb_Err tb of None \<Rightarrow> [] | Some e \<Rightarrow> e)\<rparr> in
      go_bind (TxBatch_Put jh g tb \<lparr>lkx_Type = EthTxType, lkx_ETx = Some etx, lkx_CTx = None, lkx_STx = None, lkx_Sign = []\<rparr>)
        (\<lambda>(g, tb, _). case TxBatch_Commit g tb of (g, err) \<Rightarrow> Ret (g, tb, err)))"

definition PutLKTransaction :: "json_hash \<Rightarrow> lk_db \<Rightarrow> LKTransaction \<Rightarrow> (lk_db \<times> lk_error option) go" where
  "PutLKTransaction jh g lkx =
     (case gLDB g of None \<Rightarrow> Ret (g, Some ErrLDBNil)
      | Some db \<Rightarrow> go_bind (putLKTx jh g BeginBatch lkx) (\<lambda>(g, tb, err).
          case err of Some e \<Rightarrow> Ret (g, Some e) | None \<Rightarrow> Ret (TxBatch_Commit g tb)))"

section \<open>Queries\<close>

text \<open>JSON of one kind read as the other kind gives the zero value: no field name of one occurs in the
  other at the top level.\<close>

definition lkx_zero :: LKTransaction where
  "lkx_zero = \<lparr>lkx_Type = [], lkx_ETx = None, lkx_CTx = None, lkx_STx = None, lkx_Sign = []\<rparr>"

definition gas_zero :: EthTransactionGas where
  "gas_zero = \<lparr>eg_GasLimit = 0, eg_GasUsed = 0, eg_GasPrice = 0, eg_BlockNum = None, eg_Ret = 0, eg_Errmsg = []\<rparr>"

fun as_lkx :: "tb_value \<Rightarrow> LKTransaction" where
  "as_lkx (JLkx lkx) = lkx"
| "as_lkx (JGas gas) = lkx_zero"

fun as_gas :: "tb_value \<Rightarrow> EthTransactionGas" where
  "as_gas (JGas gas) = gas"
| "as_gas (JLkx lkx) = gas_zero"

definition GetEthTransactionGas :: "lk_db \<Rightarrow> string \<Rightarrow> lk_error + EthTransactionGas option" where
  "GetEthTransactionGas g txHash =
     (case gLDB g of None \<Rightarrow> Inl ErrLDBNil
      | Some db \<Rightarrow> (case db (EthTxType @ ''-'' @ txHash) of None \<Rightarrow> Inr None | Some v \<Rightarrow> Inr (Some (as_gas v))))"

definition getKVs :: "(string \<rightharpoonup> tb_value) \<Rightarrow> string list \<Rightarrow> (string \<times> tb_value option) list" where
  "getKVs db ks = map (\<lambda>k. (k, db k)) ks"

definition GetLKTransaction :: "lk_db \<Rightarrow> string \<Rightarrow> string \<Rightarrow> lk_error + LKTransaction list" where
  "GetLKTransaction g txType txHash =
     (case gLDB g of None \<Rightarrow> Inl ErrLDBNil
      | Some db \<Rightarrow>
          if txType = ContractTxType \<or> txType = SuicideTxType
          then Inr (map as_lkx (List.map_filter snd (getKVs db [txType @ ''-'' @ txHash])))
          else if txType = ''*''
          then Inr (map as_lkx (List.map_filter snd
                 (getKVs db [ContractTxType @ ''-'' @ txHash, SuicideTxType @ ''-'' @ txHash])))
          else Inl (ErrInvalidLkxType txType))"

definition GetContractTransaction :: "lk_db \<Rightarrow> string \<Rightarrow> lk_error + LKTransaction option" where
  "GetContractTransaction g txHash =
     (case GetLKTransaction g ContractTxType txHash of Inl e \<Rightarrow> Inl e
      | Inr [] \<Rightarrow> Inr None | Inr (x # xs) \<Rightarrow> Inr (Some x))"

definition GetSuicideTransaction :: "lk_db \<Rightarrow> string \<Rightarrow> lk_error + LKTransaction option" where
  "GetSuicideTransaction g txHash =
     (case GetLKTransaction g SuicideTxType txHash of Inl e \<Rightarrow> Inl e
      | Inr [] \<Rightarrow> Inr None | Inr (x # xs) \<Rightarrow> Inr (Some x))"

text \<open>The iterator of the database visits the keys it holds, here in the order \<open>ks\<close>.\<close>

definition getKVsByPrefix :: "string list \<Rightarrow> (string \<rightharpoonup> tb_value) \<Rightarrow> string \<Rightarrow> (string \<times> tb_value) list" where
  "getKVsByPrefix ks db keyPrefix =
     List.map_filter (\<lambda>k. if prefix keyPrefix k then map_option (Pair k) (db k) else None) ks"

definition GetLKTransactionsByBlock :: "string list \<Rightarrow> lk_db \<Rightarrow> string \<Rightarrow> int \<Rightarrow> lk_error + LKTransaction list" where
  "GetLKTransactionsByBlock ks g txType num =
     (case gLDB g of None \<Rightarrow> Inl ErrLDBNil
      | Some db \<Rightarrow>
          if txType = ContractTxType \<or> txType = SuicideTxType
          then Inr (map (as_lkx \<circ> snd) (getKVsByPrefix ks db (txType @ ''-'' @ dec_int num @ ''-'')))
          else Inl (ErrInvalidLkxType txType))"

section \<open>Every internal transfer of a block is found\<close>

definition dec_val :: "string \<Rightarrow> nat" where
  "dec_val s = foldl (\<lambda>a c. 10 * a + (of_char c - 48)) 0 s"

lemma dec_val_snoc: "dec_val (s @ [c]) = 10 * dec_val s + (of_char c - 48)"
  by (simp add: dec_val_def)

lemma dec_val_digit: "n < 10 \<Longrightarrow> of_char (dec_digit n) - (48::nat) = n"
  by (simp add: dec_digit_def)

lemma dec_val_nat: "dec_val (dec_nat n) = n"
proof (induction n rule: dec_nat.induct)
  case (1 n)
  have "dec_val [] = 0" by (simp add: dec_val_def)
  then show ?case
    using 1 dec_val_snoc [of "[]" "dec_digit n"]
    by (subst dec_nat.simps) (simp add: dec_val_digit dec_val_snoc)
qed

lemma dec_digit_chars: "n < 10 \<Longrightarrow> dec_digit n \<noteq> CHR ''x''"
proof
  assume n: "n < 10" and x: "dec_digit n = CHR ''x''"
  have "of_char (dec_digit n) = (48 + n :: nat)" using n by (simp add: dec_digit_def)
  then show False using n x by simp
qed

lemma dec_nat_chars: "CHR ''x'' \<notin> set (dec_nat n) \<and> dec_nat n \<noteq> []"
proof (induction n rule: dec_nat.induct)
  case (1 n)
  show ?case
  proof (cases "n < 10")
    case True
    then show ?thesis using dec_digit_chars [OF True] by (subst (1 2) dec_nat.simps) auto
  next
    case False
    have "CHR ''x'' \<noteq> dec_digit (n mod 10)" using dec_digit_chars [of "n mod 10"] by simp
    then show ?thesis using 1 False by (subst (1 2) dec_nat.simps) simp
  qed
qed

lemma dec_int_chars: "CHR ''x'' \<notin> set (dec_int i) \<and> dec_int i \<noteq> []"
  using dec_nat_chars by (simp add: dec_int_def)

lemma dec_digit_dash: "n < 10 \<Longrightarrow> dec_digit n \<noteq> CHR ''-''"
proof
  assume n: "n < 10" and x: "dec_digit n = CHR ''-''"
  have "of_char (dec_digit n) = (48 + n :: nat)" using n by (simp add: dec_digit_def)
  then show False using x by simp
qed

lemma dec_nat_no_dash: "CHR ''-'' \<notin> set (dec_nat n)"
proof (induction n rule: dec_nat.induct)
  case (1 n)
  then show ?case using dec_digit_dash [of n] dec_digit_dash [of "n mod 10"] by (subst dec_nat.simps) auto
qed

lemma dec_int_no_dash: "0 \<le> i \<Longrightarrow> CHR ''-'' \<notin> set (dec_int i)"
  using dec_nat_no_dash by (simp add: dec_int_def)

lemma takeWhile_dashless: "c \<notin> set xs \<Longrightarrow> takeWhile (\<lambda>x. x \<noteq> c) (xs @ c # ys) = xs"
  by (induction xs) auto

lemma dec_int_inj: "0 \<le> i \<Longrightarrow> 0 \<le> j \<Longrightarrow> dec_int i = dec_int j \<Longrightarrow> i = j"
  using dec_val_nat by (metis dec_int_def linorder_not_less nat_eq_iff2)

definition block_prefix :: "string \<Rightarrow> int \<Rightarrow> string" where
  "block_prefix t num = t @ ''-'' @ dec_int num @ ''-''"

lemma hash_key_not_in_block:
  assumes "take 2 h = ''0x''" shows "\<not> prefix (dec_int num @ ''-'') h"
proof
  assume p: "prefix (dec_int num @ ''-'') h"
  define d where "d = dec_int num @ ''-''"
  have len: "2 \<le> length d" using dec_int_chars [of num] by (cases "dec_int num") (auto simp: d_def)
  obtain r where r: "h = d @ r" using p unfolding d_def by (rule prefixE)
  have "take 2 d = ''0x''" using assms len unfolding r by simp
  then have "CHR ''x'' \<in> set d" by (metis in_set_takeD list.set_intros(1) list.set_intros(2))
  then show False using dec_int_chars [of num] by (simp add: d_def)
qed

text \<open>What the virtual machine puts: a contract transfer or a self-destruct, not yet indexed.\<close>

definition internal_tx :: "LKTransaction \<Rightarrow> bool" where
  "internal_tx x \<longleftrightarrow>
     lkx_Type x = ContractTxType \<and> (\<exists>c. lkx_CTx x = Some c \<and> ctx_Index c = 0) \<or>
     lkx_Type x = SuicideTxType \<and> (\<exists>s. lkx_STx x = Some s \<and> stx_Index s = 0)"

text \<open>The record of \<open>x\<close> in block \<open>num\<close> at index \<open>i\<close>.\<close>

definition recorded :: "int \<Rightarrow> int \<Rightarrow> LKTransaction \<Rightarrow> LKTransaction" where
  "recorded num i x =
     (if lkx_Type x = ContractTxType
      then x\<lparr>lkx_CTx := map_option (\<lambda>c. c\<lparr>ctx_BlockNum := Some num, ctx_Index := i\<rparr>) (lkx_CTx x)\<rparr>
      else x\<lparr>lkx_STx := map_option (\<lambda>s. s\<lparr>stx_BlockNum := Some num, stx_Index := i\<rparr>) (lkx_STx x)\<rparr>)"

text \<open>What the virtual machine does with the batch of a transaction: it puts internal transfers (an error of
  \<^verbatim>\<open>Put\<close> is only logged) and empties the batch when a call fails.\<close>

datatype lk_call = LPut LKTransaction | LCancel

fun batch_calls :: "json_hash \<Rightarrow> lk_db \<Rightarrow> TxBatch \<Rightarrow> lk_call list \<Rightarrow> (lk_db \<times> TxBatch) go" where
  "batch_calls jh g tb [] = Ret (g, tb)"
| "batch_calls jh g tb (LPut x # cs) = go_bind (TxBatch_Put jh g tb x) (\<lambda>(g, tb, err). batch_calls jh g tb cs)"
| "batch_calls jh g tb (LCancel # cs) = batch_calls jh g (tb\<lparr>tb_items := []\<rparr>) cs"

text \<open>The deliveries of a block, each with a batch of its own: one that \<^verbatim>\<open>ApplyTransaction\<close> refuses drops its
  batch, an applied one is settled with the error of the virtual machine, its hash and its gas.\<close>

datatype lk_delivery = Refused "lk_call list" | Applied "lk_call list" "string option" string int int int

fun deliver_batch :: "json_hash \<Rightarrow> lk_db \<Rightarrow> lk_delivery \<Rightarrow> lk_db go" where
  "deliver_batch jh g (Refused cs) = go_bind (batch_calls jh g BeginBatch cs) (\<lambda>(g, tb). Ret g)"
| "deliver_batch jh g (Applied cs vmerr txHash limit price gas) =
     go_bind (batch_calls jh g BeginBatch cs) (\<lambda>(g, tb).
       go_bind (settle_batch jh g (tb\<lparr>tb_Err := vmerr\<rparr>) txHash limit price gas) (\<lambda>(g, tb, err). Ret g))"

fun deliver_batches :: "json_hash \<Rightarrow> lk_db \<Rightarrow> lk_delivery list \<Rightarrow> lk_db go" where
  "deliver_batches jh g [] = Ret g"
| "deliver_batches jh g (d # ds) = go_bind (deliver_batch jh g d) (\<lambda>g. deliver_batches jh g ds)"

definition record_block :: "json_hash \<Rightarrow> lk_db \<Rightarrow> int \<Rightarrow> lk_delivery list \<Rightarrow> lk_db go" where
  "record_block jh g num ds = deliver_batches jh (UpdateBlockNum g num) ds"

text \<open>The specification: each transfer put takes the next index of the block; those of a transaction count if
  no later call of the transaction empties the batch and the transaction succeeds.\<close>

definition puts :: "lk_call list \<Rightarrow> int" where
  "puts cs = int (length (filter (\<lambda>c. c \<noteq> LCancel) cs))"

fun batch_rows :: "int \<Rightarrow> (int \<times> LKTransaction) list \<Rightarrow> lk_call list \<Rightarrow> (int \<times> LKTransaction) list" where
  "batch_rows i rows [] = rows"
| "batch_rows i rows (LPut x # cs) = batch_rows (i + 1) (rows @ [(i, x)]) cs"
| "batch_rows i rows (LCancel # cs) = batch_rows i [] cs"

fun block_rows :: "int \<Rightarrow> lk_delivery list \<Rightarrow> (int \<times> LKTransaction) list" where
  "block_rows i [] = []"
| "block_rows i (Refused cs # ds) = block_rows (i + puts cs) ds"
| "block_rows i (Applied cs vmerr txHash limit price gas # ds) =
     (if vmerr = None then batch_rows i [] cs else []) @ block_rows (i + puts cs) ds"

definition calls_ok :: "lk_call list \<Rightarrow> bool" where
  "calls_ok cs \<longleftrightarrow> (\<forall>x. LPut x \<in> set cs \<longrightarrow> internal_tx x)"

definition hex_hashes :: "json_hash \<Rightarrow> bool" where
  "hex_hashes jh \<longleftrightarrow>
     (\<forall>h a b v i. take 2 (jh_Contract jh h a b v i) = ''0x'') \<and>
     (\<forall>h a b v t i. take 2 (jh_Suicide jh h a b v t i) = ''0x'')"

text \<open>The items of a batch that belong to a block.\<close>

definition in_block :: "string \<Rightarrow> int \<Rightarrow> TxBatch \<Rightarrow> (string \<times> tb_value) list" where
  "in_block t num tb = filter (\<lambda>kv. prefix (block_prefix t num) (fst kv)) (tb_items tb)"

lemma in_block_put_item:
  "in_block t num (put_item tb k v) =
     (if prefix (block_prefix t num) k then filter (\<lambda>kv. fst kv \<noteq> k) (in_block t num tb) @ [(k, v)] else in_block t num tb)"
  by (auto simp: in_block_def put_item_def conj_commute intro!: filter_cong)

definition is_kind :: "string \<Rightarrow> LKTransaction \<Rightarrow> bool" where
  "is_kind t x \<longleftrightarrow> lkx_Type x = t"

lemma two_kinds: "ContractTxType \<noteq> SuicideTxType" "EthTxType \<noteq> ContractTxType" "EthTxType \<noteq> SuicideTxType"
  "length ContractTxType = 2" "length SuicideTxType = 2"
  by (simp_all add: tx_type_defs)

lemma prefix_kind:
  assumes "length t = 2" "length t' = 2"
  shows "prefix (block_prefix t num) (t' @ ''-'' @ s) \<longleftrightarrow> t = t' \<and> prefix (dec_int num @ ''-'') s"
proof
  assume "prefix (block_prefix t num) (t' @ ''-'' @ s)"
  then obtain r where r: "t' @ ''-'' @ s = t @ ''-'' @ dec_int num @ ''-'' @ r"
    by (auto simp: prefix_def block_prefix_def)
  then have "t' = t" using assms by (simp add: append_eq_append_conv)
  then show "t = t' \<and> prefix (dec_int num @ ''-'') s" using r by (simp add: prefix_def)
qed (auto simp: block_prefix_def prefix_def)

lemma prefix_block:
  assumes "0 \<le> q" "0 \<le> num"
  shows "prefix (dec_int q @ ''-'') (dec_int num @ ''-'' @ r) \<longleftrightarrow> q = num"
proof
  assume "prefix (dec_int q @ ''-'') (dec_int num @ ''-'' @ r)"
  then obtain r' where "dec_int q @ ''-'' @ r' = dec_int num @ ''-'' @ r" by (auto simp: prefix_def)
  then have "takeWhile (\<lambda>c. c \<noteq> CHR ''-'') (dec_int q @ ''-'' @ r') = takeWhile (\<lambda>c. c \<noteq> CHR ''-'') (dec_int num @ ''-'' @ r)" by simp
  then have "dec_int q = dec_int num" using dec_int_no_dash [OF assms(1)] dec_int_no_dash [OF assms(2)] by (simp add: takeWhile_dashless)
  then show "q = num" by (rule dec_int_inj [OF assms])
qed (simp add: prefix_def)

text \<open>The row of the block table that a put adds.\<close>

definition row_at :: "string \<Rightarrow> int \<Rightarrow> int \<Rightarrow> LKTransaction \<Rightarrow> string \<times> tb_value" where
  "row_at t num i x = (block_prefix t num @ dec_int i, JLkx (recorded num i x))"

definition rows_at :: "string \<Rightarrow> int \<Rightarrow> int \<Rightarrow> (int \<times> LKTransaction) list \<Rightarrow> (string \<times> tb_value) list" where
  "rows_at t q num rows = (if q = num then map (\<lambda>(i, x). row_at t num i x) (filter (\<lambda>(i, x). is_kind t x) rows) else [])"

lemma rows_at_Nil [simp]: "rows_at t q num [] = []"
  by (simp add: rows_at_def)

lemma put_one:
  assumes x: "internal_tx x" and h: "hex_hashes jh" and t: "t = ContractTxType \<or> t = SuicideTxType"
    and g: "gBlockNumBig g = Some num" "gBlockNum g = dec_int num" and q: "0 \<le> q" "0 \<le> num"
  obtains tb' where "TxBatch_Put jh g tb x = Ret (g\<lparr>gTxIndex := gTxIndex g + 1\<rparr>, tb', None)"
    "in_block t q tb' = (if is_kind t x \<and> q = num
       then filter (\<lambda>kv. fst kv \<noteq> block_prefix t num @ dec_int (gTxIndex g)) (in_block t q tb) @ [row_at t num (gTxIndex g) x]
       else in_block t q tb)"
proof -
  let ?y = "recorded num (gTxIndex g) x"
  have ty: "lkx_Type x = ContractTxType \<or> lkx_Type x = SuicideTxType" "lkx_Type ?y = lkx_Type x"
    using x by (auto simp: internal_tx_def recorded_def)
  have len: "length t = 2" "length (lkx_Type x) = 2" using t ty two_kinds by auto
  obtain k where k: "LKTransaction_Hash jh ?y = Ret k" "take 2 k = ''0x''"
    using x h two_kinds
    by (auto simp: internal_tx_def recorded_def LKTransaction_Hash_def hex_hashes_def ContractTransaction_Hash_def
        SuicideTransaction_Hash_def)
  have put: "TxBatch_Put jh g tb x = put_indexed jh g tb ?y"
    using x g two_kinds
    by (auto simp: TxBatch_Put_def putLKTx_def internal_tx_def recorded_def ctx_stamp_def stx_stamp_def)
  define k1 where "k1 = lkx_Type x @ ''-'' @ k"
  define k2 where "k2 = lkx_Type x @ ''-'' @ dec_int num @ ''-'' @ dec_int (gTxIndex g)"
  have nk1: "\<not> prefix (block_prefix t n) k1" for n
    using prefix_kind [OF len] hash_key_not_in_block [OF k(2)] unfolding k1_def by simp
  have nk2: "prefix (block_prefix t q) k2 \<longleftrightarrow> is_kind t x \<and> q = num"
    using prefix_kind [OF len] prefix_block [OF q] unfolding k2_def is_kind_def by auto
  have key: "is_kind t x \<Longrightarrow> k2 = block_prefix t num @ dec_int (gTxIndex g)"
    by (simp add: is_kind_def block_prefix_def k2_def)
  have "put_indexed jh g tb ?y = Ret (g\<lparr>gTxIndex := gTxIndex g + 1\<rparr>, put_item (put_item tb k1 (JLkx ?y)) k2 (JLkx ?y), None)"
    by (simp add: put_indexed_def k(1) ty(2) g(2) k1_def k2_def)
  then show thesis by (rule that [OF put [THEN trans]]) (simp add: in_block_put_item nk1 nk2 key row_at_def cong: if_cong)
qed

lemma row_fresh:
  assumes "\<forall>(j, y) \<in> set rows. 0 \<le> j \<and> j < i" "kv \<in> set (rows_at t q num rows)"
  shows "fst kv \<noteq> block_prefix t num @ dec_int i"
proof
  assume eq: "fst kv = block_prefix t num @ dec_int i"
  obtain j y where "(j, y) \<in> set rows" "fst kv = block_prefix t num @ dec_int j"
    using assms(2) by (auto simp: rows_at_def row_at_def split: if_splits)
  with assms(1) eq have "0 \<le> j" "j < i" "dec_int j = dec_int i" by auto
  then show False using dec_int_inj [of j i] by simp
qed

text \<open>The batch of a transaction holds the rows put since it was last emptied.\<close>

lemma batch_calls_spec:
  assumes "calls_ok cs" "hex_hashes jh" "t = ContractTxType \<or> t = SuicideTxType" "0 \<le> q" "0 \<le> num"
    "gBlockNumBig g = Some num" "gBlockNum g = dec_int num" "\<forall>(j, y) \<in> set rows. 0 \<le> j \<and> j < gTxIndex g" "0 \<le> gTxIndex g"
    "in_block t q tb = rows_at t q num rows"
  shows "\<exists>tb'. batch_calls jh g tb cs = Ret (g\<lparr>gTxIndex := gTxIndex g + puts cs\<rparr>, tb') \<and>
     in_block t q tb' = rows_at t q num (batch_rows (gTxIndex g) rows cs)"
  using assms
proof (induction cs arbitrary: g tb rows)
  case (Cons c cs)
  show ?case
  proof (cases c)
    case (LPut x)
    let ?g = "g\<lparr>gTxIndex := gTxIndex g + 1\<rparr>" and ?rows = "rows @ [(gTxIndex g, x)]"
    have x: "internal_tx x" and cs: "calls_ok cs" using Cons.prems(1) by (auto simp: calls_ok_def LPut)
    obtain tb1 where put: "TxBatch_Put jh g tb x = Ret (?g, tb1, None)"
      and blk: "in_block t q tb1 = (if is_kind t x \<and> q = num
         then filter (\<lambda>kv. fst kv \<noteq> block_prefix t num @ dec_int (gTxIndex g)) (in_block t q tb) @ [row_at t num (gTxIndex g) x]
         else in_block t q tb)"
      using put_one [OF x Cons.prems(2,3,6,7,4,5), of tb] by blast
    have fl: "filter (\<lambda>kv. fst kv \<noteq> block_prefix t num @ dec_int (gTxIndex g)) (in_block t q tb) = in_block t q tb"
      using row_fresh [OF Cons.prems(8)] Cons.prems(10) by simp
    have "in_block t q tb1 = rows_at t q num ?rows"
      unfolding blk fl unfolding Cons.prems(10) by (simp add: rows_at_def)
    moreover have "\<forall>(j, y) \<in> set ?rows. 0 \<le> j \<and> j < gTxIndex ?g" using Cons.prems(8,9) by fastforce
    ultimately obtain tb' where "batch_calls jh ?g tb1 cs = Ret (?g\<lparr>gTxIndex := gTxIndex ?g + puts cs\<rparr>, tb')"
        "in_block t q tb' = rows_at t q num (batch_rows (gTxIndex ?g) ?rows cs)"
      using Cons.IH [of ?g ?rows tb1] Cons.prems cs by auto
    then show ?thesis by (simp add: LPut put puts_def algebra_simps)
  next
    case LCancel
    have "calls_ok cs" using Cons.prems(1) by (simp add: calls_ok_def LCancel)
    then show ?thesis using Cons.IH [of g "[]" "tb\<lparr>tb_items := []\<rparr>"] Cons.prems by (simp add: LCancel in_block_def rows_at_def puts_def)
  qed
qed (simp add: puts_def)

lemma batch_rows_range:
  assumes "sorted_wrt (<) (map fst rows)" "\<forall>(j, y) \<in> set rows. l \<le> j \<and> j < i" "l \<le> i"
  shows "sorted_wrt (<) (map fst (batch_rows i rows cs)) \<and> (\<forall>(j, y) \<in> set (batch_rows i rows cs). l \<le> j \<and> j < i + puts cs)"
  using assms
proof (induction i rows cs rule: batch_rows.induct)
  case (2 i rows x cs)
  have "sorted_wrt (<) (map fst (rows @ [(i, x)]))" using 2(2,3) by (auto simp: sorted_wrt_append)
  moreover have "\<forall>(j, y) \<in> set (rows @ [(i, x)]). l \<le> j \<and> j < i + 1" using 2(3,4) by fastforce
  ultimately show ?case using 2 by (simp add: puts_def algebra_simps)
qed (auto simp: puts_def)

lemma block_rows_range:
  "sorted_wrt (<) (map fst (block_rows i ds)) \<and> (\<forall>(j, y) \<in> set (block_rows i ds). i \<le> j)"
proof (induction i ds rule: block_rows.induct)
  case (2 i cs ds)
  have "0 \<le> puts cs" by (simp add: puts_def)
  then show ?case using 2 by fastforce
next
  case (3 i cs vmerr txHash limit price gas ds)
  have p: "0 \<le> puts cs" by (simp add: puts_def)
  note b = batch_rows_range [of "[]" i i cs]
  have "j < k" if "(j, y) \<in> set (batch_rows i [] cs)" "(k, z) \<in> set (block_rows (i + puts cs) ds)" for j y k z
    using b that 3 by fastforce
  then show ?case using b 3 p by (fastforce simp: sorted_wrt_append)
qed simp

lemma map_of_filter_key: "P k \<Longrightarrow> map_of (filter (\<lambda>kv. P (fst kv)) xs) k = map_of xs k"
  by (induction xs) auto

text \<open>A committed batch overrides the database at the keys of its rows; a block does so with the rows of all its
  transactions, whose keys differ.\<close>

lemma commit_at:
  assumes "gLDB g = Some db"
  obtains db' where "TxBatch_Commit g tb = (g\<lparr>gLDB := Some db'\<rparr>, None)"
    "\<And>k. prefix (block_prefix t q) k \<Longrightarrow> db' k = (db ++ map_of (in_block t q tb)) k"
proof
  show "TxBatch_Commit g tb = (g\<lparr>gLDB := Some (db ++ map_of (tb_items tb))\<rparr>, None)"
    using assms by (cases g) (auto simp: TxBatch_Commit_def)
  show "(db ++ map_of (tb_items tb)) k = (db ++ map_of (in_block t q tb)) k" if "prefix (block_prefix t q) k" for k
    using map_of_filter_key [of "prefix (block_prefix t q)" k "tb_items tb"] that by (simp add: in_block_def map_add_def)
qed

lemma put_eth:
  "\<exists>v. TxBatch_Put jh g tb \<lparr>lkx_Type = EthTxType, lkx_ETx = Some etx, lkx_CTx = None, lkx_STx = None, lkx_Sign = []\<rparr> =
     Ret (g, put_item tb (EthTxType @ ''-'' @ etx_Hash etx) v, None)"
  by (auto simp: TxBatch_Put_def putLKTx_def)

lemma settle_at:
  assumes "gLDB g = Some db" "t = ContractTxType \<or> t = SuicideTxType"
  obtains db' tb' where "settle_batch jh g tb txHash limit price gas = Ret (g\<lparr>gLDB := Some db'\<rparr>, tb', None)"
    "\<And>k. prefix (block_prefix t q) k \<Longrightarrow> db' k = (db ++ map_of (if tb_Err tb = None then in_block t q tb else [])) k"
proof -
  define tb1 where "tb1 = (if tb_Err tb \<noteq> None then tb\<lparr>tb_items := []\<rparr> else tb)"
  define etx where "etx = \<lparr>etx_Hash = txHash, etx_Gas = limit, etx_GasPrice = price, etx_GasUsed = gas,
    etx_Ret = (if tb_Err tb \<noteq> None then -1 else 0), etx_Errmsg = (case tb_Err tb1 of None \<Rightarrow> [] | Some e \<Rightarrow> e)\<rparr>"
  let ?k = "EthTxType @ ''-'' @ etx_Hash etx"
  obtain v where put: "TxBatch_Put jh g tb1 \<lparr>lkx_Type = EthTxType, lkx_ETx = Some etx, lkx_CTx = None, lkx_STx = None, lkx_Sign = []\<rparr> =
      Ret (g, put_item tb1 ?k v, None)"
    using put_eth by blast
  have "\<not> prefix (block_prefix t q) ?k"
    using prefix_kind [of t EthTxType q "etx_Hash etx"] two_kinds assms(2) by (auto simp: tx_type_defs)
  then have i: "in_block t q (put_item tb1 ?k v) = (if tb_Err tb = None then in_block t q tb else [])"
    by (simp add: in_block_put_item tb1_def) (simp add: in_block_def)
  obtain db' where c: "TxBatch_Commit g (put_item tb1 ?k v) = (g\<lparr>gLDB := Some db'\<rparr>, None)"
      "\<And>k. prefix (block_prefix t q) k \<Longrightarrow> db' k = (db ++ map_of (in_block t q (put_item tb1 ?k v))) k"
    using commit_at [OF assms(1)] by blast
  have "settle_batch jh g tb txHash limit price gas = Ret (g\<lparr>gLDB := Some db'\<rparr>, put_item tb1 ?k v, None)"
    unfolding settle_batch_def Let_def tb1_def [symmetric] etx_def [symmetric] put using c(1) by simp
  then show thesis by (rule that) (use c(2) i in simp)
qed

lemma rows_at_distinct:
  assumes "sorted_wrt (<) (map fst rows)" "\<forall>(j, y) \<in> set rows. 0 \<le> j"
  shows "distinct (map fst (rows_at t q num rows))"
proof -
  let ?f = "\<lambda>(i, x). is_kind t x"
  have d: "distinct (map fst (filter ?f rows))"
    using assms(1) by (simp add: distinct_map_filter strict_sorted_iff)
  have "inj_on dec_int (set (map fst (filter ?f rows)))"
    using assms(2) by (intro inj_onI dec_int_inj) auto
  then have "distinct (map dec_int (map fst (filter ?f rows)))" using d by (simp only: distinct_map simp_thms)
  then have "distinct (map (append (block_prefix t num)) (map dec_int (map fst (filter ?f rows))))"
    by (subst distinct_map, intro conjI) (assumption, simp add: inj_on_def)
  moreover have "map fst (map (\<lambda>(i, x). row_at t num i x) (filter ?f rows)) =
      map (append (block_prefix t num)) (map dec_int (map fst (filter ?f rows)))"
    by (auto simp: row_at_def)
  ultimately have "distinct (map fst (map (\<lambda>(i, x). row_at t num i x) (filter ?f rows)))" by (simp only:)
  then show ?thesis unfolding rows_at_def by (cases "q = num") (simp_all only: simp_thms if_True if_False list.map distinct.simps)
qed

lemma map_of_append_distinct: "distinct (map fst (xs @ ys)) \<Longrightarrow> map_of (xs @ ys) = map_of xs ++ map_of ys"
  by (subst map_of_append, rule map_add_comm) (auto simp: dom_map_of_conv_image_fst)

lemma rows_at_append: "rows_at t q num (xs @ ys) = rows_at t q num xs @ rows_at t q num ys"
  by (simp add: rows_at_def)

fun delivery_calls :: "lk_delivery \<Rightarrow> lk_call list" where
  "delivery_calls (Refused cs) = cs"
| "delivery_calls (Applied cs _ _ _ _ _) = cs"

lemma deliver_batch_at:
  assumes d: "calls_ok (delivery_calls d)" and env: "hex_hashes jh" "t = ContractTxType \<or> t = SuicideTxType" "0 \<le> q" "0 \<le> num"
    and g: "gBlockNumBig g = Some num" "gBlockNum g = dec_int num" "0 \<le> gTxIndex g" "gLDB g = Some db"
  obtains db' where "deliver_batch jh g d = Ret (g\<lparr>gTxIndex := gTxIndex g + puts (delivery_calls d), gLDB := Some db'\<rparr>)"
    "\<And>k. prefix (block_prefix t q) k \<Longrightarrow> db' k = (db ++ map_of (rows_at t q num (block_rows (gTxIndex g) [d]))) k"
proof -
  let ?g = "g\<lparr>gTxIndex := gTxIndex g + puts (delivery_calls d)\<rparr>"
  have empty: "in_block t q BeginBatch = rows_at t q num []" by (simp add: in_block_def rows_at_def BeginBatch_def)
  obtain tb where b: "batch_calls jh g BeginBatch (delivery_calls d) = Ret (?g, tb)"
      "in_block t q tb = rows_at t q num (batch_rows (gTxIndex g) [] (delivery_calls d))"
    using batch_calls_spec [OF d env g(1,2) _ g(3), of "[]" BeginBatch] empty by auto
  show thesis
  proof (cases d)
    case (Refused cs)
    have "deliver_batch jh g d = Ret (?g\<lparr>gLDB := Some db\<rparr>)" using b(1) g(4) by (cases g) (simp add: Refused)
    then show thesis using that by (simp add: Refused rows_at_def)
  next
    case (Applied cs vmerr txHash limit price gas)
    have "gLDB ?g = Some db" using g(4) by simp
    then obtain db' tb' where s: "settle_batch jh ?g (tb\<lparr>tb_Err := vmerr\<rparr>) txHash limit price gas = Ret (?g\<lparr>gLDB := Some db'\<rparr>, tb', None)"
        "\<And>k. prefix (block_prefix t q) k \<Longrightarrow> db' k = (db ++ map_of (if vmerr = None then in_block t q (tb\<lparr>tb_Err := vmerr\<rparr>) else [])) k"
      using settle_at [OF _ env(2), of ?g db jh "tb\<lparr>tb_Err := vmerr\<rparr>" txHash limit price gas q] by auto
    have rows: "(if vmerr = None then in_block t q (tb\<lparr>tb_Err := vmerr\<rparr>) else []) = rows_at t q num (block_rows (gTxIndex g) [d])"
      using b(2) by (cases vmerr) (simp_all add: Applied in_block_def)
    show thesis
    proof (rule that)
      show "deliver_batch jh g d = Ret (g\<lparr>gTxIndex := gTxIndex g + puts (delivery_calls d), gLDB := Some db'\<rparr>)"
        using b(1) s(1) by (simp add: Applied)
      show "db' k = (db ++ map_of (rows_at t q num (block_rows (gTxIndex g) [d]))) k" if "prefix (block_prefix t q) k" for k
        using s(2) [OF that] unfolding rows .
    qed
  qed
qed

lemma deliver_batches_at:
  assumes "\<forall>d \<in> set ds. calls_ok (delivery_calls d)" "hex_hashes jh" "t = ContractTxType \<or> t = SuicideTxType" "0 \<le> q" "0 \<le> num"
    "gBlockNumBig g = Some num" "gBlockNum g = dec_int num" "0 \<le> gTxIndex g" "gLDB g = Some db"
  shows "\<exists>g' db'. deliver_batches jh g ds = Ret g' \<and> gLDB g' = Some db' \<and>
     (\<forall>k. prefix (block_prefix t q) k \<longrightarrow> db' k = (db ++ map_of (rows_at t q num (block_rows (gTxIndex g) ds))) k)"
  using assms
proof (induction ds arbitrary: g db)
  case (Cons d ds)
  let ?n = "puts (delivery_calls d)" and ?i = "gTxIndex g"
  have d: "calls_ok (delivery_calls d)" using Cons.prems(1) by simp
  obtain db1 where d1: "deliver_batch jh g d = Ret (g\<lparr>gTxIndex := ?i + ?n, gLDB := Some db1\<rparr>)"
      "\<And>k. prefix (block_prefix t q) k \<Longrightarrow> db1 k = (db ++ map_of (rows_at t q num (block_rows ?i [d]))) k"
    using deliver_batch_at [OF d Cons.prems(2-9)] by blast
  let ?g = "g\<lparr>gTxIndex := ?i + ?n, gLDB := Some db1\<rparr>"
  have i: "0 \<le> ?i + ?n" using Cons.prems(8) by (simp add: puts_def)
  obtain g' db' where r: "deliver_batches jh ?g ds = Ret g'" "gLDB g' = Some db'"
      "\<And>k. prefix (block_prefix t q) k \<Longrightarrow> db' k = (db1 ++ map_of (rows_at t q num (block_rows (?i + ?n) ds))) k"
    using Cons.IH [of ?g db1] Cons.prems i by auto
  have split: "block_rows ?i (d # ds) = block_rows ?i [d] @ block_rows (?i + ?n) ds" by (cases d) simp_all
  have "distinct (map fst (rows_at t q num (block_rows ?i (d # ds))))"
    using block_rows_range [of ?i "d # ds"] Cons.prems(8) by (intro rows_at_distinct) fastforce+
  then have "map_of (rows_at t q num (block_rows ?i (d # ds))) =
      map_of (rows_at t q num (block_rows ?i [d])) ++ map_of (rows_at t q num (block_rows (?i + ?n) ds))"
    unfolding split rows_at_append by (rule map_of_append_distinct)
  then have "db' k = (db ++ map_of (rows_at t q num (block_rows ?i (d # ds)))) k" if "prefix (block_prefix t q) k" for k
    using d1(2) [OF that] r(3) [OF that] by (simp add: map_add_def split: option.splits)
  then show ?case using d1(1) r(1,2) by auto
qed (simp add: rows_at_def)

lemma record_block_at:
  assumes "\<forall>d \<in> set ds. calls_ok (delivery_calls d)" "hex_hashes jh" "t = ContractTxType \<or> t = SuicideTxType" "0 \<le> q" "0 \<le> num"
    "gLDB g = Some db"
  obtains g' db' where "record_block jh g num ds = Ret g'" "gLDB g' = Some db'"
    "\<And>k. prefix (block_prefix t q) k \<Longrightarrow> db' k = (db ++ map_of (rows_at t q num (block_rows 1 ds))) k"
  using deliver_batches_at [OF assms(1-5), of "UpdateBlockNum g num" db] assms(6)
  by (auto simp: record_block_def UpdateBlockNum_def)

lemma mset_lookup:
  assumes "distinct ks" "distinct (map fst xs)" "set ks = fst ` set xs"
  shows "mset (map (\<lambda>k. the (map_of xs k)) ks) = mset (map snd xs)"
proof -
  have ks: "mset ks = mset (map fst xs)" using assms by (metis set_eq_iff_mset_eq_distinct set_map)
  have "map (\<lambda>k. the (map_of xs k)) (map fst xs) = map snd xs"
    using assms(2) by (auto simp: map_of_is_SomeI intro!: map_cong)
  then show ?thesis using ks by (metis mset_map)
qed

lemma map_filter_total: "(\<And>k. k \<in> set ks \<Longrightarrow> f k = Some (g k)) \<Longrightarrow> List.map_filter f ks = map g ks"
  by (induction ks) (auto simp: List.map_filter_simps)

lemma map_filter_guard: "List.map_filter (\<lambda>k. if P k then f k else None) ks = List.map_filter f (filter P ks)"
  by (induction ks) (auto simp: List.map_filter_simps split: option.splits)

lemma map_filter_cong: "(\<And>k. k \<in> set ks \<Longrightarrow> f k = g k) \<Longrightarrow> List.map_filter f ks = List.map_filter g ks"
  by (induction ks) (auto simp: List.map_filter_simps split: option.split)

text \<open>What the database held for the block at indices that the block does not use.\<close>

definition left_over :: "string \<Rightarrow> int \<Rightarrow> (string \<rightharpoonup> tb_value) \<Rightarrow> lk_delivery list \<Rightarrow> string set" where
  "left_over t num db ds = {k \<in> dom db. prefix (block_prefix t num) k} - fst ` set (rows_at t num num (block_rows 1 ds))"

lemma query_rows:
  assumes ks: "distinct ks" "set ks = dom db'" and at: "\<And>k. prefix (block_prefix t num) k \<Longrightarrow> db' k = (db ++ map_of (rows_at t num num (block_rows 1 ds))) k"
  shows "mset (map as_lkx (map snd (getKVsByPrefix ks db' (block_prefix t num)))) =
    mset (map (as_lkx \<circ> snd) (rows_at t num num (block_rows 1 ds))) + image_mset (\<lambda>k. as_lkx (the (db k))) (mset_set (left_over t num db ds))"
proof -
  let ?p = "block_prefix t num" and ?F = "rows_at t num num (block_rows 1 ds)" and ?L = "left_over t num db ds"
  let ?v = "\<lambda>k. as_lkx (the (db' k))"
  have dist: "distinct (map fst ?F)" using block_rows_range [of 1 ds] by (intro rows_at_distinct) fastforce+
  have pre: "prefix ?p k" if "k \<in> fst ` set ?F" for k using that by (auto simp: rows_at_def row_at_def)
  have "k \<in> dom db' \<longleftrightarrow> k \<in> fst ` set ?F \<union> dom db" if "prefix ?p k" for k
    using at [OF that] by (auto simp: domIff map_add_def dom_map_of_conv_image_fst [symmetric] split: option.splits)
  then have keys: "set (filter (prefix ?p) ks) = fst ` set ?F \<union> ?L"
    using ks(2) pre unfolding left_over_def by (simp only: set_filter) blast
  have fin: "finite ?L" using keys finite_set [of "filter (prefix ?p) ks"] by (metis finite_Un)
  have "map snd (getKVsByPrefix ks db' ?p) = map (\<lambda>k. the (db' k)) (filter (prefix ?p) ks)"
    unfolding getKVsByPrefix_def map_filter_guard
    by (subst map_filter_total [where g = "\<lambda>k. (k, the (db' k))"]) (use ks(2) in auto)
  then have "mset (map as_lkx (map snd (getKVsByPrefix ks db' ?p))) = image_mset ?v (mset_set (set (filter (prefix ?p) ks)))"
    using ks(1) by (simp add: comp_def mset_set_set del: set_filter)
  also have "\<dots> = image_mset ?v (mset_set (fst ` set ?F)) + image_mset ?v (mset_set ?L)"
    unfolding keys using fin by (subst mset_set_Union) (auto simp: left_over_def)
  also have "mset_set (fst ` set ?F) = mset (map fst ?F)" using mset_set_set [OF dist] by simp
  also have "image_mset ?v (mset (map fst ?F)) = mset (map (as_lkx \<circ> snd) ?F)"
  proof -
    have "?v (fst kv) = as_lkx (snd kv)" if "kv \<in> set ?F" for kv
      using at [OF pre, OF imageI [OF that]] map_of_is_SomeI [OF dist, of "fst kv" "snd kv"] that by (simp add: map_add_def)
    then have "map (?v \<circ> fst) ?F = map (as_lkx \<circ> snd) ?F" by simp
    then show ?thesis by (metis mset_map map_map)
  qed
  also have "image_mset ?v (mset_set ?L) = image_mset (\<lambda>k. as_lkx (the (db k))) (mset_set ?L)"
  proof (rule image_mset_cong)
    fix k assume "k \<in># mset_set ?L"
    then have "prefix ?p k" "map_of ?F k = None" using fin by (auto simp: left_over_def map_of_eq_None_iff)
    then show "?v k = as_lkx (the (db k))" using at [of k] by (simp add: map_add_def)
  qed
  finally show ?thesis .
qed

text \<open>C33: internal transfers are not lost between the virtual machine and a query by block. Take a block in which every
  transaction has a batch of its own, as \<^verbatim>\<open>deliverTx\<close> does it, with any calls of \<^verbatim>\<open>Put\<close> and \<^verbatim>\<open>Cancel\<close> by the
  virtual machine. Afterwards the query by block returns the transfers that were put after the last \<^verbatim>\<open>Cancel\<close> of their
  transaction, over all transactions that were applied without an error of the virtual machine, each once and stamped
  with the block and its index, and besides them only what the database held for that block at other indices before.
  The query for any other block returns what it returned before.\<close>

theorem internal_transfers_recorded:
  assumes "\<forall>d \<in> set ds. calls_ok (delivery_calls d)" "hex_hashes jh" "t = ContractTxType \<or> t = SuicideTxType" "0 \<le> num"
    and db: "gLDB g = Some db"
  shows "\<exists>g' db'. record_block jh g num ds = Ret g' \<and> gLDB g' = Some db' \<and>
     (\<forall>ks. distinct ks \<and> set ks = dom db' \<longrightarrow>
       (\<exists>ys. GetLKTransactionsByBlock ks g' t num = Inr ys \<and>
          mset ys = mset (map (\<lambda>(i, x). recorded num i x) (filter (\<lambda>(i, x). is_kind t x) (block_rows 1 ds))) +
            image_mset (\<lambda>k. as_lkx (the (db k))) (mset_set (left_over t num db ds))) \<and>
       (\<forall>q. 0 \<le> q \<and> q \<noteq> num \<longrightarrow> GetLKTransactionsByBlock ks g' t q = GetLKTransactionsByBlock ks g t q))"
proof -
  let ?p = "block_prefix t num" and ?F = "rows_at t num num (block_rows 1 ds)"
  obtain g' db' where r: "record_block jh g num ds = Ret g'" "gLDB g' = Some db'"
    and at: "\<And>k. prefix ?p k \<Longrightarrow> db' k = (db ++ map_of ?F) k"
    using record_block_at [OF assms(1-3) assms(4,4) db] by blast
  have "mset (map as_lkx (map snd (getKVsByPrefix ks db' ?p))) =
      mset (map (\<lambda>(i, x). recorded num i x) (filter (\<lambda>(i, x). is_kind t x) (block_rows 1 ds))) +
        image_mset (\<lambda>k. as_lkx (the (db k))) (mset_set (left_over t num db ds))" if "distinct ks" "set ks = dom db'" for ks
    using query_rows [OF that at] by (simp add: rows_at_def row_at_def comp_def case_prod_unfold left_over_def)
  moreover have "GetLKTransactionsByBlock ks g' t q = GetLKTransactionsByBlock ks g t q" if q: "0 \<le> q" "q \<noteq> num" for ks q
  proof -
    obtain g2 db2 where "record_block jh g num ds = Ret g2" "gLDB g2 = Some db2"
        "\<And>k. prefix (block_prefix t q) k \<Longrightarrow> db2 k = (db ++ map_of (rows_at t q num (block_rows 1 ds))) k"
      using record_block_at [OF assms(1-3) q(1) assms(4) db] by blast
    then have "db' k = db k" if "prefix (block_prefix t q) k" for k
      using r that q(2) by (simp add: rows_at_def)
    then have "getKVsByPrefix ks db' (block_prefix t q) = getKVsByPrefix ks db (block_prefix t q)"
      unfolding getKVsByPrefix_def by (intro map_filter_cong) simp
    then show ?thesis using r(2) db by (simp add: GetLKTransactionsByBlock_def block_prefix_def)
  qed
  ultimately show ?thesis
    using r assms(3) by (auto simp: GetLKTransactionsByBlock_def block_prefix_def comp_def)
qed

definition ex_jh :: json_hash where
  "ex_jh = \<lparr>jh_Contract = \<lambda>h a b v i. ''0xa'', jh_Suicide = \<lambda>h a b v t i. ''0xb'', jh_zero = ''0x0''\<rparr>"

definition ex_ctx :: "int \<Rightarrow> LKTransaction" where
  "ex_ctx v = \<lparr>lkx_Type = ''ct'', lkx_ETx = None, lkx_CTx = Some \<lparr>ctx_TxHash = 7, ctx_From = 1, ctx_To = 2,
     ctx_Value = v, ctx_Index = 0, ctx_BlockNum = None\<rparr>, lkx_STx = None, lkx_Sign = []\<rparr>"

definition ex_lk_db :: lk_db where
  "ex_lk_db = \<lparr>gBlockNumBig = None, gBlockNum = [], gTxIndex = 1, gLDB = Some Map.empty\<rparr>"

definition ex_deliveries :: "lk_delivery list" where
  "ex_deliveries = [Applied [LPut (ex_ctx 3)] None ''0xe1'' 0 0 0, Refused [LPut (ex_ctx 9)],
     Applied [LPut (ex_ctx 4), LCancel, LPut (ex_ctx 5)] None ''0xe2'' 0 0 0, Applied [LPut (ex_ctx 6)] (Some ''out of gas'') ''0xe3'' 0 0 0]"

theorem internal_transfers_recorded_witness:
  "\<exists>g' db'. record_block ex_jh ex_lk_db 5 ex_deliveries = Ret g' \<and> gLDB g' = Some db' \<and>
     (\<exists>ks ys. distinct ks \<and> set ks = dom db' \<and> GetLKTransactionsByBlock ks g' ContractTxType 5 = Inr ys \<and>
        mset ys = {#recorded 5 1 (ex_ctx 3), recorded 5 4 (ex_ctx 5)#})"
proof -
  have "\<exists>g' db'. record_block ex_jh ex_lk_db 5 ex_deliveries = Ret g' \<and> gLDB g' = Some db' \<and>
     (\<forall>ks. distinct ks \<and> set ks = dom db' \<longrightarrow>
       (\<exists>ys. GetLKTransactionsByBlock ks g' ContractTxType 5 = Inr ys \<and>
          mset ys = mset (map (\<lambda>(i, x). recorded 5 i x) (filter (\<lambda>(i, x). is_kind ContractTxType x) (block_rows 1 ex_deliveries))) +
            image_mset (\<lambda>k. as_lkx (the (None :: tb_value option))) (mset_set (left_over ContractTxType 5 Map.empty ex_deliveries))) \<and>
       (\<forall>q. 0 \<le> q \<and> q \<noteq> 5 \<longrightarrow> GetLKTransactionsByBlock ks g' ContractTxType q = GetLKTransactionsByBlock ks ex_lk_db ContractTxType q))"
    by (rule internal_transfers_recorded [where db = Map.empty])
      (auto simp: calls_ok_def ex_deliveries_def internal_tx_def ex_ctx_def tx_type_defs hex_hashes_def ex_jh_def ex_lk_db_def)
  then obtain g' db' where r: "record_block ex_jh ex_lk_db 5 ex_deliveries = Ret g'" "gLDB g' = Some db'"
    and all: "\<And>ks. distinct ks \<Longrightarrow> set ks = dom db' \<Longrightarrow> \<exists>ys. GetLKTransactionsByBlock ks g' ContractTxType 5 = Inr ys \<and>
          mset ys = mset (map (\<lambda>(i, x). recorded 5 i x) (filter (\<lambda>(i, x). is_kind ContractTxType x) (block_rows 1 ex_deliveries))) +
            image_mset (\<lambda>k. as_lkx (the None)) (mset_set (left_over ContractTxType 5 Map.empty ex_deliveries))"
    by blast
  have "finite (dom db')"
    using r by (auto simp: ex_deliveries_def record_block_def settle_batch_def TxBatch_Commit_def ex_lk_db_def UpdateBlockNum_def
        TxBatch_Put_def putLKTx_def put_indexed_def put_item_def LKTransaction_Hash_def ContractTransaction_Hash_def ex_jh_def
        ctx_stamp_def ex_ctx_def tx_type_defs BeginBatch_def Let_def)
  then obtain ks where ks: "distinct ks" "set ks = dom db'" using finite_distinct_list by metis
  have "block_rows 1 ex_deliveries = [(1, ex_ctx 3), (4, ex_ctx 5)]" by (simp add: ex_deliveries_def puts_def)
  moreover have "left_over ContractTxType 5 Map.empty ex_deliveries = {}" by (simp add: left_over_def)
  moreover have "is_kind ContractTxType (ex_ctx v)" for v by (simp add: is_kind_def ex_ctx_def tx_type_defs)
  ultimately have "\<exists>ys. GetLKTransactionsByBlock ks g' ContractTxType 5 = Inr ys \<and> mset ys = {#recorded 5 1 (ex_ctx 3), recorded 5 4 (ex_ctx 5)#}"
    using all [OF ks] by simp
  then show ?thesis using r ks by blast
qed

end
