(* ===== verification/Evm_Gas.thy ===== *)
theory Evm_Gas
  imports Evm_Base Lk_Txdb
begin

text \<open>
  What an instruction costs: the constants of \<^verbatim>\<open>params/protocol_params.go\<close>, \<^verbatim>\<open>params/gas_table.go\<close>,
  \<^verbatim>\<open>core/vm/gas.go\<close> and \<^verbatim>\<open>core/vm/gas_table.go\<close>, the memory an instruction needs
  (\<^verbatim>\<open>core/vm/memory_table.go\<close>) and the stack it needs (\<^verbatim>\<open>core/vm/stack_table.go\<close>). The theory opens
  with the record of the virtual machine, since the gas functions read and change it.
\<close>

section \<open>The virtual machine\<close>

text \<open>The block and transaction context of \<^verbatim>\<open>core/vm/evm.go\<close>; \<^verbatim>\<open>CanTransfer\<close> and \<^verbatim>\<open>Transfer\<close> are those
  of \<^verbatim>\<open>core/evm.go\<close>, as \<^verbatim>\<open>NewEVMContext\<close> sets them.\<close>

record Context =
  ctx_GetHash :: "uint64 \<Rightarrow> hash"
  ctx_Origin :: address
  ctx_GasPrice :: int
  ctx_Coinbase :: address
  ctx_GasLimit :: uint64
  ctx_BlockNumber :: int
  ctx_Time :: int
  ctx_Difficulty :: int
  ctx_Nonce :: uint64

record Config =
  cfg_NoRecursion :: bool
  cfg_EnablePreimageRecording :: bool
  cfg_FeeUpdateTime :: uint64

text \<open>The cryptographic functions behind the precompiled contracts.\<close>

record crypto_fns =
  cf_Ecrecover :: "bytes \<Rightarrow> bytes \<Rightarrow> bytes option"
  cf_Sha256 :: "bytes \<Rightarrow> bytes"
  cf_Ripemd160 :: "bytes \<Rightarrow> bytes"

text \<open>\<open>evm_readOnly\<close> and \<open>evm_returnData\<close> are fields of the interpreter in the source; \<open>evm_lkdb\<close> holds the
  package variables of the record of internal transfers, \<open>evm_jh\<close> their hashes. The state database of the
  source is shared by all frames, so it is a field of the machine.\<close>

record EVM =
  evm_ctx :: Context
  evm_env :: state_env
  evm_crypto :: crypto_fns
  evm_cfg :: Config
  evm_StateDB :: StateDB
  evm_depth :: int
  evm_abort :: bool
  evm_callGasTemp :: uint64
  evm_readOnly :: bool
  evm_returnData :: bytes
  evm_tb :: "TxBatch option"
  evm_lkdb :: lk_db
  evm_jh :: json_hash

section \<open>Constants\<close>

text \<open>The amounts of gas are names of their values in \<^verbatim>\<open>params/protocol_params.go\<close> and \<^verbatim>\<open>core/vm/gas.go\<close>.\<close>

abbreviation (input) CallValueTransferGas :: uint64 where "CallValueTransferGas \<equiv> 9000"
abbreviation (input) CallNewAccountGas :: uint64 where "CallNewAccountGas \<equiv> 25000"
abbreviation (input) TxGas :: uint64 where "TxGas \<equiv> 21000"
abbreviation (input) TxGasContractCreation :: uint64 where "TxGasContractCreation \<equiv> 53000"
abbreviation (input) TxDataZeroGas :: uint64 where "TxDataZeroGas \<equiv> 4"
abbreviation (input) QuadCoeffDiv :: uint64 where "QuadCoeffDiv \<equiv> 512"
abbreviation (input) SstoreSetGas :: uint64 where "SstoreSetGas \<equiv> 20000"
abbreviation (input) LogDataGas :: uint64 where "LogDataGas \<equiv> 8"
abbreviation (input) CallStipend :: uint64 where "CallStipend \<equiv> 2300"
abbreviation (input) Sha3Gas :: uint64 where "Sha3Gas \<equiv> 30"
abbreviation (input) Sha3WordGas :: uint64 where "Sha3WordGas \<equiv> 6"
abbreviation (input) SstoreResetGas :: uint64 where "SstoreResetGas \<equiv> 5000"
abbreviation (input) SstoreClearGas :: uint64 where "SstoreClearGas \<equiv> 5000"
abbreviation (input) SstoreRefundGas :: uint64 where "SstoreRefundGas \<equiv> 15000"
abbreviation (input) JumpdestGas :: uint64 where "JumpdestGas \<equiv> 1"
abbreviation (input) CreateDataGas :: uint64 where "CreateDataGas \<equiv> 200"
definition CallCreateDepth :: nat where "CallCreateDepth = 1024"
abbreviation (input) LogGas :: uint64 where "LogGas \<equiv> 375"
abbreviation (input) CopyGas :: uint64 where "CopyGas \<equiv> 3"
definition StackLimit :: nat where "StackLimit = 1024"
abbreviation (input) LogTopicGas :: uint64 where "LogTopicGas \<equiv> 375"
abbreviation (input) CreateGas :: uint64 where "CreateGas \<equiv> 32000"
abbreviation (input) SuicideRefundGas :: uint64 where "SuicideRefundGas \<equiv> 24000"
abbreviation (input) MemoryGas :: uint64 where "MemoryGas \<equiv> 3"
abbreviation (input) TxDataNonZeroGas :: uint64 where "TxDataNonZeroGas \<equiv> 68"
definition MaxCodeSize :: nat where "MaxCodeSize = 24576"
abbreviation (input) EcrecoverGas :: uint64 where "EcrecoverGas \<equiv> 3000"
abbreviation (input) Sha256BaseGas :: uint64 where "Sha256BaseGas \<equiv> 60"
abbreviation (input) Sha256PerWordGas :: uint64 where "Sha256PerWordGas \<equiv> 12"
abbreviation (input) Ripemd160BaseGas :: uint64 where "Ripemd160BaseGas \<equiv> 600"
abbreviation (input) Ripemd160PerWordGas :: uint64 where "Ripemd160PerWordGas \<equiv> 120"
abbreviation (input) IdentityBaseGas :: uint64 where "IdentityBaseGas \<equiv> 15"
abbreviation (input) IdentityPerWordGas :: uint64 where "IdentityPerWordGas \<equiv> 3"

abbreviation (input) GasQuickStep :: uint64 where "GasQuickStep \<equiv> 2"
abbreviation (input) GasFastestStep :: uint64 where "GasFastestStep \<equiv> 3"
abbreviation (input) GasFastStep :: uint64 where "GasFastStep \<equiv> 5"
abbreviation (input) GasMidStep :: uint64 where "GasMidStep \<equiv> 8"
abbreviation (input) GasSlowStep :: uint64 where "GasSlowStep \<equiv> 10"
abbreviation (input) GasExtStep :: uint64 where "GasExtStep \<equiv> 20"

record GasTable =
  gt_ExtcodeSize :: uint64
  gt_ExtcodeCopy :: uint64
  gt_Balance :: uint64
  gt_SLoad :: uint64
  gt_Calls :: uint64
  gt_Suicide :: uint64
  gt_ExpByte :: uint64
  gt_CreateBySuicide :: uint64

definition GasTableHomestead :: GasTable where
  "GasTableHomestead = \<lparr>gt_ExtcodeSize = 20, gt_ExtcodeCopy = 20, gt_Balance = 20, gt_SLoad = 50, gt_Calls = 40,
     gt_Suicide = 0, gt_ExpByte = 10, gt_CreateBySuicide = 0\<rparr>"

definition GasTableEIP158 :: GasTable where
  "GasTableEIP158 = \<lparr>gt_ExtcodeSize = 700, gt_ExtcodeCopy = 700, gt_Balance = 400, gt_SLoad = 200, gt_Calls = 700,
     gt_Suicide = 5000, gt_ExpByte = 50, gt_CreateBySuicide = 25000\<rparr>"

definition Gastable :: "int option \<Rightarrow> GasTable" where
  "Gastable num = (case num of None \<Rightarrow> GasTableHomestead | Some n \<Rightarrow> GasTableEIP158)"

section \<open>Stack requirements\<close>

type_synonym stackValidationFunc = "Stack \<Rightarrow> vm_error option"

definition makeStackFunc :: "nat \<Rightarrow> nat \<Rightarrow> stackValidationFunc" where
  "makeStackFunc pops pushes st =
     (case require st pops of Some err \<Rightarrow> Some err
      | None \<Rightarrow> if int (length st) + int pushes - int pops > int StackLimit then Some errStackLimit else None)"

definition makeDupStackFunc :: "nat \<Rightarrow> stackValidationFunc" where
  "makeDupStackFunc n = makeStackFunc n (n + 1)"

definition makeSwapStackFunc :: "nat \<Rightarrow> stackValidationFunc" where
  "makeSwapStackFunc n = makeStackFunc n n"

section \<open>Memory requirements\<close>

type_synonym memorySizeFunc = "Stack \<Rightarrow> int go"

definition memory_at :: "int \<Rightarrow> int \<Rightarrow> memorySizeFunc" where
  "memory_at i j st = go_bind (Back st i) (\<lambda>off. go_bind (Back st j) (\<lambda>l. Ret (calcMemSize off l)))"

definition memorySha3 :: memorySizeFunc where "memorySha3 = memory_at 0 1"
definition memoryCallDataCopy :: memorySizeFunc where "memoryCallDataCopy = memory_at 0 2"
definition memoryReturnDataCopy :: memorySizeFunc where "memoryReturnDataCopy = memory_at 0 2"
definition memoryCodeCopy :: memorySizeFunc where "memoryCodeCopy = memory_at 0 2"
definition memoryExtCodeCopy :: memorySizeFunc where "memoryExtCodeCopy = memory_at 1 3"

definition memoryMLoad :: memorySizeFunc where
  "memoryMLoad st = go_bind (Back st 0) (\<lambda>off. Ret (calcMemSize off 32))"

definition memoryMStore8 :: memorySizeFunc where
  "memoryMStore8 st = go_bind (Back st 0) (\<lambda>off. Ret (calcMemSize off 1))"

definition memoryMStore :: memorySizeFunc where
  "memoryMStore st = go_bind (Back st 0) (\<lambda>off. Ret (calcMemSize off 32))"

definition memoryCreate :: memorySizeFunc where "memoryCreate = memory_at 1 2"

definition memoryCall :: memorySizeFunc where
  "memoryCall st = go_bind (memory_at 5 6 st) (\<lambda>x. go_bind (memory_at 3 4 st) (\<lambda>y. Ret (BigMax x y)))"

definition memoryDelegateCall :: memorySizeFunc where
  "memoryDelegateCall st = go_bind (memory_at 4 5 st) (\<lambda>x. go_bind (memory_at 2 3 st) (\<lambda>y. Ret (BigMax x y)))"

definition memoryStaticCall :: memorySizeFunc where
  "memoryStaticCall st = go_bind (memory_at 4 5 st) (\<lambda>x. go_bind (memory_at 2 3 st) (\<lambda>y. Ret (BigMax x y)))"

definition memoryReturn :: memorySizeFunc where "memoryReturn = memory_at 0 1"
definition memoryRevert :: memorySizeFunc where "memoryRevert = memory_at 0 1"
definition memoryLog :: memorySizeFunc where "memoryLog = memory_at 0 1"

section \<open>Gas\<close>

definition callGas :: "GasTable \<Rightarrow> uint64 \<Rightarrow> uint64 \<Rightarrow> int \<Rightarrow> vm_error + uint64" where
  "callGas gasTable availableGas base callCost =
     (let availableGas' = availableGas - base; gas = availableGas' - availableGas' div 64 in
      if gt_CreateBySuicide gasTable > 0 \<and> (BitLen callCost > 64 \<or> gas < Big_Uint64 callCost) then Inr gas
      else if BitLen callCost > 64 then Inl errGasUintOverflow
      else Inr (Big_Uint64 callCost))"

definition memoryGasCost :: "Memory \<Rightarrow> uint64 \<Rightarrow> Memory \<times> (vm_error + uint64)" where
  "memoryGasCost mem newMemSize =
     (if newMemSize = 0 then (mem, Inr 0)
      else if newMemSize > 0xffffffffe0 then (mem, Inl errGasUintOverflow)
      else (let newMemSizeWords = toWordSize newMemSize; newMemSize' = newMemSizeWords * 32 in
        if newMemSize' > word_of_nat (Memory_Len mem)
        then (let square = newMemSizeWords * newMemSizeWords;
                  linCoef = newMemSizeWords * MemoryGas;
                  quadCoef = square div QuadCoeffDiv;
                  newTotalFee = linCoef + quadCoef;
                  fee = newTotalFee - mem_lastGasCost mem in
              (mem\<lparr>mem_lastGasCost := newTotalFee\<rparr>, Inr fee))
        else (mem, Inr 0)))"

text \<open>A gas function returns the machine, the memory and the cost or an error: it may change the
  refund counter, the gas set aside for a call, and the recorded memory fee.\<close>

type_synonym gas_result = "(EVM \<times> Memory \<times> (vm_error + uint64)) go"
type_synonym gasFunc = "GasTable \<Rightarrow> EVM \<Rightarrow> Contract \<Rightarrow> Stack \<Rightarrow> Memory \<Rightarrow> uint64 \<Rightarrow> gas_result"

text \<open>The pattern \<^verbatim>\<open>if x, overflow = op(...); overflow { return 0, errGasUintOverflow }\<close>.\<close>

definition check_overflow :: "uint64 \<times> bool \<Rightarrow> (uint64 \<Rightarrow> vm_error + uint64) \<Rightarrow> vm_error + uint64" where
  "check_overflow r k = (case r of (x, overflow) \<Rightarrow> if overflow then Inl errGasUintOverflow else k x)"

definition sum_bind :: "vm_error + uint64 \<Rightarrow> (uint64 \<Rightarrow> vm_error + uint64) \<Rightarrow> vm_error + uint64" where
  "sum_bind m k = (case m of Inl e \<Rightarrow> Inl e | Inr x \<Rightarrow> k x)"

definition constGasFunc :: "uint64 \<Rightarrow> gasFunc" where
  "constGasFunc gas gt evm c st mem memorySize = Ret (evm, mem, Inr gas)"

text \<open>The shape shared by the copying instructions: the memory fee, a base cost, and a cost per word of
  the length at stack position \<open>i\<close>.\<close>

definition gas_copy :: "uint64 \<Rightarrow> int \<Rightarrow> uint64 \<Rightarrow> EVM \<Rightarrow> Stack \<Rightarrow> Memory \<Rightarrow> uint64 \<Rightarrow> gas_result" where
  "gas_copy base i perWord evm st mem memorySize =
     (case memoryGasCost mem memorySize of (mem', fee) \<Rightarrow>
       go_bind (Back st i) (\<lambda>len.
         Ret (evm, mem', sum_bind fee (\<lambda>gas.
           check_overflow (SafeAdd gas base) (\<lambda>gas.
           check_overflow (bigUint64 len) (\<lambda>words.
           check_overflow (SafeMul (toWordSize words) perWord) (\<lambda>words.
           check_overflow (SafeAdd gas words) Inr)))))))"

definition gasCallDataCopy :: gasFunc where
  "gasCallDataCopy gt evm c st mem memorySize = gas_copy GasFastestStep 2 CopyGas evm st mem memorySize"

definition gasReturnDataCopy :: gasFunc where
  "gasReturnDataCopy gt evm c st mem memorySize = gas_copy GasFastestStep 2 CopyGas evm st mem memorySize"

definition gasSha3 :: gasFunc where
  "gasSha3 gt evm c st mem memorySize = gas_copy Sha3Gas 1 Sha3WordGas evm st mem memorySize"

definition gasCodeCopy :: gasFunc where
  "gasCodeCopy gt evm c st mem memorySize = gas_copy GasFastestStep 2 CopyGas evm st mem memorySize"

definition gasExtCodeCopy :: gasFunc where
  "gasExtCodeCopy gt evm c st mem memorySize = gas_copy (gt_ExtcodeCopy gt) 3 CopyGas evm st mem memorySize"

definition gasSStore :: gasFunc where
  "gasSStore gt evm c st mem memorySize =
     go_bind (Back st 1) (\<lambda>y. go_bind (Back st 0) (\<lambda>x.
       let v = GetState (evm_env evm) (evm_StateDB evm) (c_self c) (BigToHash x) in
       if v = 0 \<and> y \<noteq> 0 then Ret (evm, mem, Inr SstoreSetGas)
       else if v \<noteq> 0 \<and> y = 0
       then Ret (evm\<lparr>evm_StateDB := AddRefund (evm_StateDB evm) (uint SstoreRefundGas)\<rparr>, mem, Inr SstoreClearGas)
       else Ret (evm, mem, Inr SstoreResetGas)))"

definition makeGasLog :: "uint64 \<Rightarrow> gasFunc" where
  "makeGasLog n gt evm c st mem memorySize =
     go_bind (Back st 1) (\<lambda>len.
       case bigUint64 len of (requestedSize, overflow) \<Rightarrow>
         if overflow then Ret (evm, mem, Inl errGasUintOverflow)
         else (case memoryGasCost mem memorySize of (mem', fee) \<Rightarrow>
           Ret (evm, mem', sum_bind fee (\<lambda>gas.
             check_overflow (SafeAdd gas LogGas) (\<lambda>gas.
             check_overflow (SafeAdd gas (n * LogTopicGas)) (\<lambda>gas.
             check_overflow (SafeMul requestedSize LogDataGas) (\<lambda>memorySizeGas.
             check_overflow (SafeAdd gas memorySizeGas) Inr)))))))"

text \<open>The memory fee and one constant.\<close>

definition gas_mem_plus :: "uint64 \<Rightarrow> EVM \<Rightarrow> Memory \<Rightarrow> uint64 \<Rightarrow> gas_result" where
  "gas_mem_plus base evm mem memorySize =
     (case memoryGasCost mem memorySize of (mem', fee) \<Rightarrow>
       Ret (evm, mem', sum_bind fee (\<lambda>gas. check_overflow (SafeAdd gas base) Inr)))"

definition gasMLoad :: gasFunc where
  "gasMLoad gt evm c st mem memorySize = gas_mem_plus GasFastestStep evm mem memorySize"

definition gasMStore8 :: gasFunc where
  "gasMStore8 gt evm c st mem memorySize = gas_mem_plus GasFastestStep evm mem memorySize"

definition gasMStore :: gasFunc where
  "gasMStore gt evm c st mem memorySize = gas_mem_plus GasFastestStep evm mem memorySize"

definition gasCreate :: gasFunc where
  "gasCreate gt evm c st mem memorySize = gas_mem_plus CreateGas evm mem memorySize"

definition gasBalance :: gasFunc where
  "gasBalance gt evm c st mem memorySize = Ret (evm, mem, Inr (gt_Balance gt))"

definition gasExtCodeSize :: gasFunc where
  "gasExtCodeSize gt evm c st mem memorySize = Ret (evm, mem, Inr (gt_ExtcodeSize gt))"

definition gasSLoad :: gasFunc where
  "gasSLoad gt evm c st mem memorySize = Ret (evm, mem, Inr (gt_SLoad gt))"

definition gasExp :: gasFunc where
  "gasExp gt evm c st mem memorySize =
     go_bind (slice_get st 1) (\<lambda>e.
       let expByteLen = word_of_nat ((BitLen e + 7) div 8); gas = expByteLen * gt_ExpByte gt in
       Ret (evm, mem, check_overflow (SafeAdd gas GasSlowStep) Inr))"

text \<open>The end of the four call costs: the gas for the callee is set aside in \<open>evm_callGasTemp\<close>.\<close>

definition gas_call_end :: "GasTable \<Rightarrow> EVM \<Rightarrow> Contract \<Rightarrow> Stack \<Rightarrow> Memory \<Rightarrow> uint64 \<Rightarrow> gas_result" where
  "gas_call_end gt evm c st mem gas =
     go_bind (Back st 0) (\<lambda>cost.
       case callGas gt (c_Gas c) gas cost of
         Inl err \<Rightarrow> Ret (evm\<lparr>evm_callGasTemp := 0\<rparr>, mem, Inl err)
       | Inr temp \<Rightarrow> Ret (evm\<lparr>evm_callGasTemp := temp\<rparr>, mem, check_overflow (SafeAdd gas temp) Inr))"

definition gasCall :: gasFunc where
  "gasCall gt evm c st mem memorySize =
     go_bind (Back st 2) (\<lambda>v. go_bind (Back st 1) (\<lambda>addr.
       let transfersValue = (v \<noteq> 0);
           gas = gt_Calls gt;
           gas = (if transfersValue \<and> Empty (evm_env evm) (evm_StateDB evm) (BigToAddress addr) then gas + CallNewAccountGas else gas);
           gas = (if transfersValue then gas + CallValueTransferGas else gas) in
       case memoryGasCost mem memorySize of
         (mem', Inl err) \<Rightarrow> Ret (evm, mem', Inl err)
       | (mem', Inr memoryGas) \<Rightarrow>
           (case SafeAdd gas memoryGas of (gas, overflow) \<Rightarrow>
             if overflow then Ret (evm, mem', Inl errGasUintOverflow) else gas_call_end gt evm c st mem' gas)))"

definition gasCallCode :: gasFunc where
  "gasCallCode gt evm c st mem memorySize =
     go_bind (Back st 2) (\<lambda>v.
       let gas = gt_Calls gt; gas = (if v \<noteq> 0 then gas + CallValueTransferGas else gas) in
       case memoryGasCost mem memorySize of
         (mem', Inl err) \<Rightarrow> Ret (evm, mem', Inl err)
       | (mem', Inr memoryGas) \<Rightarrow>
           (case SafeAdd gas memoryGas of (gas, overflow) \<Rightarrow>
             if overflow then Ret (evm, mem', Inl errGasUintOverflow) else gas_call_end gt evm c st mem' gas))"

definition gasReturn :: gasFunc where
  "gasReturn gt evm c st mem memorySize = (case memoryGasCost mem memorySize of (mem', fee) \<Rightarrow> Ret (evm, mem', fee))"

definition gasRevert :: gasFunc where
  "gasRevert gt evm c st mem memorySize = (case memoryGasCost mem memorySize of (mem', fee) \<Rightarrow> Ret (evm, mem', fee))"

definition gasSuicide :: gasFunc where
  "gasSuicide gt evm c st mem memorySize =
     Ret (if \<not> HasSuicided (evm_StateDB evm) (c_self c)
          then evm\<lparr>evm_StateDB := AddRefund (evm_StateDB evm) (uint SuicideRefundGas)\<rparr> else evm, mem, Inr 0)"

definition gasDelegateCall :: gasFunc where
  "gasDelegateCall gt evm c st mem memorySize =
     (case memoryGasCost mem memorySize of
        (mem', Inl err) \<Rightarrow> Ret (evm, mem', Inl err)
      | (mem', Inr gas) \<Rightarrow>
          (case SafeAdd gas (gt_Calls gt) of (gas, overflow) \<Rightarrow>
            if overflow then Ret (evm, mem', Inl errGasUintOverflow) else gas_call_end gt evm c st mem' gas))"

definition gasStaticCall :: gasFunc where
  "gasStaticCall gt evm c st mem memorySize =
     (case memoryGasCost mem memorySize of
        (mem', Inl err) \<Rightarrow> Ret (evm, mem', Inl err)
      | (mem', Inr gas) \<Rightarrow>
          (case SafeAdd gas (gt_Calls gt) of (gas, overflow) \<Rightarrow>
            if overflow then Ret (evm, mem', Inl errGasUintOverflow) else gas_call_end gt evm c st mem' gas))"

definition gasPush :: gasFunc where "gasPush gt evm c st mem memorySize = Ret (evm, mem, Inr GasFastestStep)"
definition gasSwap :: gasFunc where "gasSwap gt evm c st mem memorySize = Ret (evm, mem, Inr GasFastestStep)"
definition gasDup :: gasFunc where "gasDup gt evm c st mem memorySize = Ret (evm, mem, Inr GasFastestStep)"

end
