(* ===== verification/Rlp.thy ===== *)
theory Rlp
  imports Big_Math
begin

text \<open>
  The RLP codec: the encoder of \<^verbatim>\<open>rlp/encode.go\<close> with its two-part buffer (string data, and list headers
  kept apart until the sizes are known) and the splitting functions of \<^verbatim>\<open>rlp/raw.go\<close>. The type dispatch
  by reflection is represented by the constructors of \<open>rlp_value\<close>; a buffer that failed is dropped by
  every caller, so an error carries no buffer.
\<close>

section \<open>Encoding\<close>

datatype rlp_value =
    VUint uint64
  | VBool bool
  | VBig int
  | VBytes bytes
  | VRaw bytes
  | VNil
  | VList "rlp_value list"

datatype rlp_error = ErrNegativeBigInt | ErrUnexpectedEOF | ErrCanonSize | ErrValueTooLarge | ErrExpectedString | ErrExpectedList

record encbuf =
  eb_str :: bytes
  eb_lheads :: "(nat \<times> nat) list"
  eb_lhsize :: nat

lemma unat_numeral_256: "unat (256 :: uint64) = 256"
  by simp

function intsize :: "uint64 \<Rightarrow> nat" where
  "intsize i = (if i div 256 = 0 then 1 else 1 + intsize (i div 256))"
  by pat_completeness auto

termination intsize
proof (relation "measure unat")
  fix i :: uint64
  assume "i div 256 \<noteq> 0"
  then have "unat i div 256 \<noteq> 0" by (metis unat_0_iff unat_div unat_numeral_256)
  then show "(i div 256, i) \<in> measure unat" by (simp add: unat_div)
qed simp

declare intsize.simps [simp del]

definition headsize :: "uint64 \<Rightarrow> nat" where
  "headsize sz = (if sz < 56 then 1 else 1 + intsize sz)"

text \<open>\<open>put_be b n i\<close> writes the low \<open>n\<close> bytes of \<open>i\<close>, the highest first, one branch of \<^verbatim>\<open>putint\<close>.\<close>

definition put_be :: "bytes \<Rightarrow> nat \<Rightarrow> uint64 \<Rightarrow> (bytes \<times> nat) go" where
  "put_be b n i =
     (if n \<le> length b then Ret (map (\<lambda>k. ucast (drop_bit (8 * (n - 1 - k)) i)) [0..<n] @ drop n b, n)
      else Panic ''index out of range'')"

definition putint :: "bytes \<Rightarrow> uint64 \<Rightarrow> (bytes \<times> nat) go" where
  "putint b i =
     (if i < 2 ^ 8 then put_be b 1 i
      else if i < 2 ^ 16 then put_be b 2 i
      else if i < 2 ^ 24 then put_be b 3 i
      else if i < 2 ^ 32 then put_be b 4 i
      else if i < 2 ^ 40 then put_be b 5 i
      else if i < 2 ^ 48 then put_be b 6 i
      else if i < 2 ^ 56 then put_be b 7 i
      else put_be b 8 i)"

definition puthead :: "bytes \<Rightarrow> byte \<Rightarrow> byte \<Rightarrow> uint64 \<Rightarrow> (bytes \<times> nat) go" where
  "puthead buf smalltag largetag sz =
     (if sz < 56 then go_bind (slice_set buf 0 (smalltag + ucast sz)) (\<lambda>buf. Ret (buf, 1))
      else go_bind (go_slice buf 1 (int (length buf))) (\<lambda>rest. go_bind (putint rest sz) (\<lambda>(rest, sizesize).
        go_bind (slice_set (take 1 buf @ rest) 0 (largetag + word_of_nat sizesize)) (\<lambda>buf. Ret (buf, sizesize + 1)))))"

definition append_str :: "encbuf \<Rightarrow> bytes \<Rightarrow> encbuf" where
  "append_str w b = w\<lparr>eb_str := eb_str w @ b\<rparr>"

text \<open>The auxiliary buffer has nine bytes.\<close>

definition encodeStringHeader :: "encbuf \<Rightarrow> nat \<Rightarrow> encbuf go" where
  "encodeStringHeader w sz =
     (if sz < 56 then Ret (append_str w [0x80 + word_of_nat sz])
      else go_bind (putint (replicate 8 0) (word_of_nat sz)) (\<lambda>(b, sizesize).
        Ret (append_str w ((0xB7 + word_of_nat sizesize) # take sizesize b))))"

definition encodeString :: "encbuf \<Rightarrow> bytes \<Rightarrow> encbuf go" where
  "encodeString w b =
     (if length b = 1 \<and> b ! 0 \<le> 0x7F then Ret (append_str w [b ! 0])
      else go_bind (encodeStringHeader w (length b)) (\<lambda>w. Ret (append_str w b)))"

definition encbuf_size :: "encbuf \<Rightarrow> nat" where
  "encbuf_size w = length (eb_str w) + eb_lhsize w"

text \<open>\<^verbatim>\<open>list\<close> returns a pointer to the new header: its index.\<close>

definition encbuf_list :: "encbuf \<Rightarrow> encbuf \<times> nat" where
  "encbuf_list w = (w\<lparr>eb_lheads := eb_lheads w @ [(length (eb_str w), eb_lhsize w)]\<rparr>, length (eb_lheads w))"

definition listEnd :: "encbuf \<Rightarrow> nat \<Rightarrow> encbuf" where
  "listEnd w lh =
     (case eb_lheads w ! lh of (offset, sz0) \<Rightarrow>
       let sz = encbuf_size w - offset - sz0;
           w = w\<lparr>eb_lheads := (eb_lheads w)[lh := (offset, sz)]\<rparr> in
       if sz < 56 then w\<lparr>eb_lhsize := eb_lhsize w + 1\<rparr> else w\<lparr>eb_lhsize := eb_lhsize w + (1 + intsize (word_of_nat sz))\<rparr>)"

text \<open>\<open>big_bytes\<close> is \<^verbatim>\<open>i.Bytes()\<close> of a positive number: big-endian without leading zeros.\<close>

definition big_bytes :: "int \<Rightarrow> bytes" where
  "big_bytes i = be_bytes ((BitLen i + 7) div 8) i"

definition writeUint :: "uint64 \<Rightarrow> encbuf \<Rightarrow> encbuf go" where
  "writeUint i w =
     (if i = 0 then Ret (append_str w [0x80])
      else if i < 128 then Ret (append_str w [ucast i])
      else go_bind (putint (replicate 8 0) i) (\<lambda>(b, s). Ret (append_str w ((0x80 + word_of_nat s) # take s b))))"

definition writeBool :: "bool \<Rightarrow> encbuf \<Rightarrow> encbuf" where
  "writeBool b w = append_str w [if b then 0x01 else 0x80]"

definition writeBigInt :: "int \<Rightarrow> encbuf \<Rightarrow> (rlp_error + encbuf) go" where
  "writeBigInt i w =
     (if i < 0 then Ret (Inl ErrNegativeBigInt)
      else if i = 0 then Ret (Inr (append_str w [0x80]))
      else go_bind (encodeString w (big_bytes i)) (\<lambda>w. Ret (Inr w)))"

fun write_value :: "rlp_value \<Rightarrow> encbuf \<Rightarrow> (rlp_error + encbuf) go"
and write_values :: "rlp_value list \<Rightarrow> encbuf \<Rightarrow> (rlp_error + encbuf) go" where
  "write_value (VUint i) w = go_bind (writeUint i w) (\<lambda>w. Ret (Inr w))"
| "write_value (VBool b) w = Ret (Inr (writeBool b w))"
| "write_value (VBig i) w = writeBigInt i w"
| "write_value (VBytes b) w = go_bind (encodeString w b) (\<lambda>w. Ret (Inr w))"
| "write_value (VRaw b) w = Ret (Inr (append_str w b))"
| "write_value VNil w = Ret (Inr (append_str w [0xC0]))"
| "write_value (VList vs) w =
     (case encbuf_list w of (w, lh) \<Rightarrow>
       go_bind (write_values vs w) (\<lambda>r. case r of Inl e \<Rightarrow> Ret (Inl e) | Inr w \<Rightarrow> Ret (Inr (listEnd w lh))))"
| "write_values [] w = Ret (Inr w)"
| "write_values (v # vs) w =
     go_bind (write_value v w) (\<lambda>r. case r of Inl e \<Rightarrow> Ret (Inl e) | Inr w \<Rightarrow> write_values vs w)"

text \<open>\<^verbatim>\<open>toBytes\<close> merges the string data and the headers into one buffer of the computed size.\<close>

fun merge_heads :: "bytes \<Rightarrow> (nat \<times> nat) list \<Rightarrow> bytes \<Rightarrow> nat \<Rightarrow> nat \<Rightarrow> (bytes \<times> nat \<times> nat) go" where
  "merge_heads str [] out pos strpos = Ret (out, pos, strpos)"
| "merge_heads str ((offset, sz) # heads) out pos strpos =
     go_bind (go_slice str (int strpos) (int offset)) (\<lambda>src.
     go_bind (go_slice out (int pos) (int (length out))) (\<lambda>dst.
       let n = min (length dst) (length src);
           out = copy_at out pos n src in
     go_bind (go_slice out (int (pos + n)) (int (length out))) (\<lambda>buf.
     go_bind (puthead buf 0xC0 0xF7 (word_of_nat sz)) (\<lambda>(buf, len).
       merge_heads str heads (copy_at out (pos + n) (length buf) buf) (pos + n + len) (strpos + n)))))"

definition toBytes :: "encbuf \<Rightarrow> bytes go" where
  "toBytes w =
     go_bind (merge_heads (eb_str w) (eb_lheads w) (replicate (encbuf_size w) 0) 0 0) (\<lambda>(out, pos, strpos).
     go_bind (go_slice (eb_str w) (int strpos) (int (length (eb_str w)))) (\<lambda>src.
     go_bind (go_slice out (int pos) (int (length out))) (\<lambda>dst. Ret (copy_at out pos (length dst) src))))"

definition encbuf_reset :: encbuf where
  "encbuf_reset = \<lparr>eb_str = [], eb_lheads = [], eb_lhsize = 0\<rparr>"

definition EncodeToBytes :: "rlp_value \<Rightarrow> (rlp_error + bytes) go" where
  "EncodeToBytes v =
     go_bind (write_value v encbuf_reset) (\<lambda>r.
       case r of Inl e \<Rightarrow> Ret (Inl e) | Inr w \<Rightarrow> go_bind (toBytes w) (\<lambda>b. Ret (Inr b)))"

section \<open>Splitting\<close>

datatype Kind = KByte | KString | KList

definition ListSize :: "uint64 \<Rightarrow> uint64" where
  "ListSize contentSize = word_of_nat (headsize contentSize) + contentSize"

text \<open>\<open>read_be\<close>: the big-endian number that the eight branches of \<^verbatim>\<open>readSize\<close> assemble.\<close>

definition read_be :: "bytes \<Rightarrow> uint64" where
  "read_be b = foldl (\<lambda>s x. push_bit 8 s OR ucast x) 0 b"

definition readSize :: "bytes \<Rightarrow> byte \<Rightarrow> (rlp_error + uint64) go" where
  "readSize b slen =
     (if unat slen > length b then Ret (Inl ErrUnexpectedEOF)
      else let s = (if 1 \<le> slen \<and> slen \<le> 8 then read_be (take (unat slen) b) else 0) in
        if s < 56 then Ret (Inl ErrCanonSize)
        else go_bind (slice_get b 0) (\<lambda>b0. Ret (if b0 = 0 then Inl ErrCanonSize else Inr s)))"

text \<open>The end of \<^verbatim>\<open>readKind\<close>: a value larger than the input is rejected.\<close>

definition check_size :: "bytes \<Rightarrow> Kind \<Rightarrow> uint64 \<Rightarrow> uint64 \<Rightarrow> rlp_error + Kind \<times> uint64 \<times> uint64" where
  "check_size buf k tagsize contentsize =
     (if contentsize > word_of_nat (length buf) - tagsize then Inl ErrValueTooLarge else Inr (k, tagsize, contentsize))"

definition readKind :: "bytes \<Rightarrow> (rlp_error + Kind \<times> uint64 \<times> uint64) go" where
  "readKind buf =
     (case buf of [] \<Rightarrow> Ret (Inl ErrUnexpectedEOF)
      | b # bs \<Rightarrow>
          if b < 0x80 then Ret (check_size buf KByte 0 1)
          else if b < 0xB8
          then (let contentsize = ucast (b - 0x80) in
            if contentsize = 1
            then go_bind (slice_get buf 1) (\<lambda>b1. Ret (if b1 < 128 then Inl ErrCanonSize else check_size buf KString 1 contentsize))
            else Ret (check_size buf KString 1 contentsize))
          else if b < 0xC0
          then go_bind (readSize bs (b - 0xB7)) (\<lambda>r. Ret (case r of Inl e \<Rightarrow> Inl e
                 | Inr contentsize \<Rightarrow> check_size buf KString (ucast (b - 0xB7) + 1) contentsize))
          else if b < 0xF8 then Ret (check_size buf KList 1 (ucast (b - 0xC0)))
          else go_bind (readSize bs (b - 0xF7)) (\<lambda>r. Ret (case r of Inl e \<Rightarrow> Inl e
                 | Inr contentsize \<Rightarrow> check_size buf KList (ucast (b - 0xF7) + 1) contentsize)))"

definition Split :: "bytes \<Rightarrow> (rlp_error + Kind \<times> bytes \<times> bytes) go" where
  "Split b =
     go_bind (readKind b) (\<lambda>r. case r of Inl e \<Rightarrow> Ret (Inl e)
       | Inr (k, ts, cs) \<Rightarrow>
           go_bind (go_slice b (uint ts) (uint (ts + cs))) (\<lambda>content.
           go_bind (go_slice b (uint (ts + cs)) (int (length b))) (\<lambda>rest. Ret (Inr (k, content, rest)))))"

definition SplitString :: "bytes \<Rightarrow> (rlp_error + bytes \<times> bytes) go" where
  "SplitString b =
     go_bind (Split b) (\<lambda>r. Ret (case r of Inl e \<Rightarrow> Inl e
       | Inr (k, content, rest) \<Rightarrow> if k = KList then Inl ErrExpectedString else Inr (content, rest)))"

definition SplitList :: "bytes \<Rightarrow> (rlp_error + bytes \<times> bytes) go" where
  "SplitList b =
     go_bind (Split b) (\<lambda>r. Ret (case r of Inl e \<Rightarrow> Inl e
       | Inr (k, content, rest) \<Rightarrow> if k \<noteq> KList then Inl ErrExpectedList else Inr (content, rest)))"

text \<open>The loop of \<^verbatim>\<open>CountValues\<close>; every value takes at least one byte, so the length bounds the iterations.\<close>

primrec count_loop :: "nat \<Rightarrow> bytes \<Rightarrow> nat \<Rightarrow> (rlp_error + nat) go" where
  "count_loop 0 b i = (if b = [] then Ret (Inr i) else Panic ''fuel'')"
| "count_loop (Suc n) b i =
     (if b = [] then Ret (Inr i)
      else go_bind (readKind b) (\<lambda>r. case r of Inl e \<Rightarrow> Ret (Inl e)
        | Inr (k, tagsize, sz) \<Rightarrow> go_bind (go_slice b (uint (tagsize + sz)) (int (length b))) (\<lambda>b. count_loop n b (i + 1))))"

definition CountValues :: "bytes \<Rightarrow> (rlp_error + nat) go" where
  "CountValues b = count_loop (length b) b 0"

section \<open>The encoding as a function of the value\<close>

definition rlp_head :: "byte \<Rightarrow> byte \<Rightarrow> nat \<Rightarrow> bytes" where
  "rlp_head small large n =
     (if n < 56 then [small + word_of_nat n]
      else (large + word_of_nat (intsize (word_of_nat n))) # be_bytes (intsize (word_of_nat n)) (int n))"

definition rlp_string :: "bytes \<Rightarrow> bytes" where
  "rlp_string b = (if length b = 1 \<and> b ! 0 \<le> 0x7F then b else rlp_head 0x80 0xB7 (length b) @ b)"

definition uint_bytes :: "uint64 \<Rightarrow> bytes" where
  "uint_bytes i = (if i = 0 then [] else be_bytes (intsize i) (uint i))"

fun rlp_enc :: "rlp_value \<Rightarrow> bytes" where
  "rlp_enc (VUint i) = rlp_string (uint_bytes i)"
| "rlp_enc (VBool b) = [if b then 0x01 else 0x80]"
| "rlp_enc (VBig i) = rlp_string (if i = 0 then [] else big_bytes i)"
| "rlp_enc (VBytes b) = rlp_string b"
| "rlp_enc (VRaw b) = b"
| "rlp_enc VNil = [0xC0]"
| "rlp_enc (VList vs) = (let body = concat (map rlp_enc vs) in rlp_head 0xC0 0xF7 (length body) @ body)"

fun negative_free :: "rlp_value \<Rightarrow> bool" where
  "negative_free (VBig i) = (0 \<le> i)"
| "negative_free (VList vs) = list_all negative_free vs"
| "negative_free v = True"

section \<open>Integers of one to eight bytes\<close>

lemma unat_div_256: "unat (i div 256 :: uint64) = unat i div 256"
  by (simp add: unat_div)

lemma intsize_eq:
  assumes "0 < n" "unat i < 256 ^ n" "n = 1 \<or> 256 ^ (n - 1) \<le> unat i"
  shows "intsize i = n"
  using assms
proof (induction n arbitrary: i)
  case (Suc n)
  show ?case
  proof (cases "n = 0")
    case True
    then have "unat (i div 256) = 0" using Suc.prems by (simp add: unat_div_256)
    then have "i div 256 = 0" by (metis unat_0_iff)
    then show ?thesis using True by (subst intsize.simps) simp
  next
    case False
    then have le: "256 ^ n \<le> unat i" using Suc.prems by simp
    have "256 * 256 ^ (n - 1) = (256 :: nat) ^ n" using False by (metis Suc_pred' neq0_conv power_Suc)
    then have "256 ^ (n - 1) \<le> unat i div 256" using le by (simp add: less_eq_div_iff_mult_less_eq mult.commute)
    then have low: "256 ^ (n - 1) \<le> unat (i div 256)" by (simp add: unat_div_256)
    have "unat (i div 256) < 256 ^ n" using Suc.prems by (simp add: unat_div_256 less_mult_imp_div_less mult.commute)
    then have "intsize (i div 256) = n" using Suc.IH False low by blast
    moreover have "i div 256 \<noteq> 0" using low by (metis le_zero_eq power_not_zero unat_0 zero_neq_numeral)
    ultimately show ?thesis by (subst intsize.simps) simp
  qed
qed simp

lemma intsize_bounds:
  "0 < intsize i \<and> unat i < 256 ^ intsize i \<and> (i \<noteq> 0 \<longrightarrow> 256 ^ (intsize i - 1) \<le> unat i)"
proof (induction i rule: intsize.induct)
  case (1 i)
  show ?case
  proof (cases "i div 256 = 0")
    case True
    then have "unat i div 256 = 0" by (metis unat_0 unat_div_256)
    then have "unat i < 256" by simp
    moreover have "intsize i = 1" using True by (subst intsize.simps) simp
    ultimately show ?thesis by (auto simp: Suc_le_eq unat_gt_0)
  next
    case False
    define j where "j = i div 256"
    have size: "intsize i = Suc (intsize j)" using False by (subst intsize.simps) (simp add: j_def)
    have j: "0 < intsize j" "unat j < 256 ^ intsize j" "256 ^ (intsize j - 1) \<le> unat j"
      using 1 False by (auto simp: j_def)
    have ij: "unat j = unat i div 256" by (simp add: j_def unat_div_256)
    have "unat i < 256 * Suc (unat j)" using ij by (metis add.commute dividend_less_times_div mult_Suc_right zero_less_numeral)
    also have "\<dots> \<le> 256 ^ Suc (intsize j)" using j(2) by simp
    finally have up: "unat i < 256 ^ intsize i" by (simp add: size)
    have "256 ^ intsize j = 256 * (256 :: nat) ^ (intsize j - 1)" using j(1) by (metis Suc_pred' power_Suc)
    also have "\<dots> \<le> 256 * unat j" using j(3) by simp
    also have "\<dots> \<le> unat i" using ij by simp
    finally show ?thesis using up size by simp
  qed
qed

lemma intsize_le_8: "intsize i \<le> 8"
proof (rule ccontr)
  assume "\<not> intsize i \<le> 8"
  then have "8 \<le> intsize i - 1" "i \<noteq> 0" by (auto simp: intsize.simps)
  then have "(256 :: nat) ^ 8 \<le> 256 ^ (intsize i - 1)" by (intro power_increasing) auto
  then have "256 ^ 8 \<le> unat i" using intsize_bounds [of i] \<open>i \<noteq> 0\<close> by linarith
  then show False using unat64_lt [of i] by simp
qed

lemma put_be_map: "map (\<lambda>k. ucast (drop_bit (8 * (n - 1 - k)) i)) [0..<n] = be_bytes n (uint (i :: uint64))"
proof -
  have byte: "(ucast (drop_bit (8 * m) i) :: byte) = word_of_int (uint i div 256 ^ m)" for m
  proof -
    have "(ucast (drop_bit (8 * m) i) :: byte) = word_of_int (uint (drop_bit (8 * m) i))" by (rule ucast_eq)
    also have "uint (drop_bit (8 * m) i) = uint i div 256 ^ m"
      by (subst unsigned_drop_bit_eq, subst drop_bit_eq_div)
        (simp add: power_mult take_bit_int_eq_self uint_lt2p [where 'a = 64, simplified])
    finally show ?thesis .
  qed
  have "map (\<lambda>k. word_of_int (x div 256 ^ (n - 1 - k))) [0..<n] = be_bytes n x" for x :: int
  proof (induction n arbitrary: x)
    case (Suc n)
    have "map (\<lambda>k. word_of_int (x div 256 ^ (n - k)) :: byte) [0..<n] = map (\<lambda>k. word_of_int ((x div 256) div 256 ^ (n - 1 - k))) [0..<n]"
    proof (rule map_cong)
      fix k assume "k \<in> set [0..<n]"
      then have "n - k = Suc (n - 1 - k)" by auto
      then show "(word_of_int (x div 256 ^ (n - k)) :: byte) = word_of_int ((x div 256) div 256 ^ (n - 1 - k))"
        by (simp add: zdiv_zmult2_eq)
    qed simp
    then have "map (\<lambda>k. word_of_int (x div 256 ^ (n - k)) :: byte) [0..<n] = be_bytes n (x div 256)"
      using Suc.IH [of "x div 256"] by (rule trans)
    then show ?case by simp
  qed simp
  then show ?thesis by (simp add: byte)
qed

lemma putint_spec:
  assumes "intsize i \<le> length b"
  shows "putint b i = Ret (be_bytes (intsize i) (uint i) @ drop (intsize i) b, intsize i)"
proof -
  have less: "i < 2 ^ j \<longleftrightarrow> unat i < 256 ^ k" if "j = 8 * k" "k < 8" for j k
  proof -
    have "(2 ^ j :: uint64) = word_of_nat (2 ^ j)" by simp
    then have "unat (2 ^ j :: uint64) = 2 ^ j mod 2 ^ 64" using unat_of_nat [of "2 ^ j", where 'a = 64] by simp
    also have "\<dots> = 2 ^ j" using that by (intro mod_less power_strict_increasing) auto
    finally show ?thesis using that(1) by (simp add: word_less_nat_alt power_mult)
  qed
  have size: "unat i < 256 ^ k \<longleftrightarrow> intsize i \<le> k" if "0 < k" for k
  proof
    assume lt: "unat i < 256 ^ k"
    show "intsize i \<le> k"
    proof (rule ccontr)
      assume n: "\<not> intsize i \<le> k"
      then have "i \<noteq> 0" using that by (auto simp: intsize.simps)
      then have "256 ^ (intsize i - 1) \<le> unat i" using intsize_bounds [of i] by simp
      moreover have "(256 :: nat) ^ k \<le> 256 ^ (intsize i - 1)" using n by (intro power_increasing) auto
      ultimately show False using lt by linarith
    qed
  next
    assume "intsize i \<le> k"
    then have "(256 :: nat) ^ intsize i \<le> 256 ^ k" by (intro power_increasing) auto
    then show "unat i < 256 ^ k" using intsize_bounds [of i] by linarith
  qed
  have lt: "i < 2 ^ j \<longleftrightarrow> intsize i \<le> k" if "j = 8 * k" "0 < k" "k < 8" for j k
    using less [OF that(1,3)] size [OF that(2)] by blast
  have l: "i < 2 ^ 8 \<longleftrightarrow> intsize i \<le> 1" "i < 2 ^ 16 \<longleftrightarrow> intsize i \<le> 2" "i < 2 ^ 24 \<longleftrightarrow> intsize i \<le> 3"
    "i < 2 ^ 32 \<longleftrightarrow> intsize i \<le> 4" "i < 2 ^ 40 \<longleftrightarrow> intsize i \<le> 5" "i < 2 ^ 48 \<longleftrightarrow> intsize i \<le> 6"
    "i < 2 ^ 56 \<longleftrightarrow> intsize i \<le> 7"
    by (rule lt; simp)+
  have "intsize i \<in> {1, 2, 3, 4, 5, 6, 7, 8}" using intsize_le_8 [of i] intsize_bounds [of i] by auto
  then have "putint b i = put_be b (intsize i) i"
    unfolding putint_def l by (elim insertE) simp_all
  then show ?thesis using assms put_be_map [of "intsize i" i] by (simp add: put_be_def)
qed

section \<open>The two-part buffer computes the encoding\<close>

text \<open>What a value adds to the buffer: string data and list headers, in order.\<close>

fun segs_of :: "rlp_value \<Rightarrow> (bytes + nat) list" where
  "segs_of (VList vs) = Inr (length (concat (map rlp_enc vs))) # concat (map segs_of vs)"
| "segs_of v = [Inl (rlp_enc v)]"

fun seg_str :: "(bytes + nat) list \<Rightarrow> bytes" where
  "seg_str [] = []"
| "seg_str (Inl b # S) = b @ seg_str S"
| "seg_str (Inr n # S) = seg_str S"

fun seg_heads :: "nat \<Rightarrow> (bytes + nat) list \<Rightarrow> (nat \<times> nat) list" where
  "seg_heads off [] = []"
| "seg_heads off (Inl b # S) = seg_heads (off + length b) S"
| "seg_heads off (Inr n # S) = (off, n) # seg_heads off S"

definition list_head :: "nat \<Rightarrow> bytes" where
  "list_head n = rlp_head 0xC0 0xF7 n"

fun seg_hsize :: "(bytes + nat) list \<Rightarrow> nat" where
  "seg_hsize [] = 0"
| "seg_hsize (Inl b # S) = seg_hsize S"
| "seg_hsize (Inr n # S) = length (list_head n) + seg_hsize S"

fun seg_bytes :: "(bytes + nat) list \<Rightarrow> bytes" where
  "seg_bytes [] = []"
| "seg_bytes (Inl b # S) = b @ seg_bytes S"
| "seg_bytes (Inr n # S) = list_head n @ seg_bytes S"

lemma seg_append [simp]:
  "seg_str (S @ T) = seg_str S @ seg_str T"
  "seg_heads off (S @ T) = seg_heads off S @ seg_heads (off + length (seg_str S)) T"
  "seg_hsize (S @ T) = seg_hsize S + seg_hsize T"
  "seg_bytes (S @ T) = seg_bytes S @ seg_bytes T"
proof -
  show "seg_str (S @ T) = seg_str S @ seg_str T" by (induction S rule: seg_str.induct) auto
  show "seg_heads off (S @ T) = seg_heads off S @ seg_heads (off + length (seg_str S)) T"
    by (induction off S rule: seg_heads.induct) (auto simp: add.assoc)
  show "seg_hsize (S @ T) = seg_hsize S + seg_hsize T" by (induction S rule: seg_hsize.induct) auto
  show "seg_bytes (S @ T) = seg_bytes S @ seg_bytes T" by (induction S rule: seg_bytes.induct) auto
qed

lemma length_seg_bytes: "length (seg_bytes S) = length (seg_str S) + seg_hsize S"
  by (induction S rule: seg_bytes.induct) auto

lemma seg_bytes_of: "seg_bytes (segs_of v) = rlp_enc v"
proof (induction v)
  case (VList vs)
  then have "seg_bytes (concat (map segs_of vs)) = concat (map rlp_enc vs)"
    by (induction vs) auto
  then show ?case by (simp add: list_head_def Let_def)
qed auto

definition add_segs :: "encbuf \<Rightarrow> (bytes + nat) list \<Rightarrow> encbuf" where
  "add_segs w S = \<lparr>eb_str = eb_str w @ seg_str S, eb_lheads = eb_lheads w @ seg_heads (length (eb_str w)) S,
     eb_lhsize = eb_lhsize w + seg_hsize S\<rparr>"

lemma add_segs_append: "add_segs w (S @ T) = add_segs (add_segs w S) T"
  by (simp add: add_segs_def)

lemma add_segs_Nil [simp]: "add_segs w [] = w"
  by (simp add: add_segs_def)

lemma add_segs_str: "append_str w b = add_segs w [Inl b]"
  by (simp add: append_str_def add_segs_def)

lemma uint_of_nat_small: "n < 2 ^ 64 \<Longrightarrow> uint (word_of_nat n :: uint64) = int n"
  by (simp add: unsigned_of_nat take_bit_nat_eq_self)

lemma unat_ucast_byte: "unat (i :: uint64) < 256 \<Longrightarrow> unat (ucast i :: byte) = unat i"
  by (simp add: unsigned_ucast_eq take_bit_nat_eq_self)

lemma encodeString_eq:
  assumes "length b < 2 ^ 64"
  shows "encodeString w b = Ret (append_str w (rlp_string b))"
proof -
  define i where "i = (word_of_nat (length b) :: uint64)"
  have u: "uint i = int (length b)" unfolding i_def by (rule uint_of_nat_small [OF assms])
  have "putint (replicate 8 0) i = Ret (be_bytes (intsize i) (uint i) @ drop (intsize i) (replicate 8 0), intsize i)"
    by (rule putint_spec) (simp add: intsize_le_8)
  then have "encodeStringHeader w (length b) = Ret (append_str w (rlp_head 0x80 0xB7 (length b)))"
    by (simp add: encodeStringHeader_def rlp_head_def u flip: i_def)
  then show ?thesis
    by (cases b) (auto simp: encodeString_def rlp_string_def append_str_def)
qed

lemma writeUint_eq: "writeUint i w = Ret (append_str w (rlp_string (uint_bytes i)))"
proof -
  have put: "putint (replicate 8 0) i = Ret (be_bytes (intsize i) (uint i) @ drop (intsize i) (replicate 8 0), intsize i)"
    by (rule putint_spec) (simp add: intsize_le_8)
  consider "i = 0" | "i \<noteq> 0" "i < 128" | "128 \<le> i" by fastforce
  then show ?thesis
  proof cases
    case 1
    then show ?thesis by (simp add: writeUint_def uint_bytes_def rlp_string_def rlp_head_def)
  next
    case 2
    then have u: "unat i < 128" by (simp add: word_less_nat_alt)
    then have "intsize i = 1" using intsize_eq [of 1 i] by simp
    moreover have "(word_of_int (uint i) :: byte) = ucast i" by (rule ucast_eq [symmetric])
    moreover have "(ucast i :: byte) \<le> 0x7F" using u
      by (simp add: word_le_nat_alt unat_ucast_byte)
    ultimately show ?thesis using 2 by (simp add: writeUint_def uint_bytes_def rlp_string_def)
  next
    case 3
    then have u: "128 \<le> unat i" by (simp add: word_le_nat_alt)
    let ?b = "be_bytes (intsize i) (uint i)"
    have neg: "\<not> (length ?b = 1 \<and> ?b ! 0 \<le> 0x7F)"
    proof
      assume a: "length ?b = 1 \<and> ?b ! 0 \<le> 0x7F"
      then have one: "intsize i = 1" by simp
      then have "unat i < 256" using intsize_bounds [of i] by simp
      then have "unat (word_of_int (uint i) :: byte) = unat i"
        using unat_ucast_byte by (simp only: ucast_eq)
      then show False using a one u by (simp add: word_le_nat_alt)
    qed
    have nz: "i \<noteq> 0" "\<not> i < 128" using 3 by auto
    have "rlp_string (uint_bytes i) = rlp_head 0x80 0xB7 (length ?b) @ ?b"
      unfolding rlp_string_def uint_bytes_def using neg nz by (simp only: if_False)
    also have "\<dots> = (0x80 + word_of_nat (intsize i)) # ?b"
      using intsize_le_8 [of i] by (simp add: rlp_head_def)
    finally show ?thesis using put nz by (simp add: writeUint_def)
  qed
qed

lemma big_bytes_nonempty: "0 < i \<Longrightarrow> big_bytes i \<noteq> []"
proof -
  assume "0 < i"
  then have "\<not> BitLen i \<le> 0" using BitLen_le [of i 0] by simp
  then have "(BitLen i + 7) div 8 \<noteq> 0" by simp
  then show ?thesis by (metis big_bytes_def length_0_conv length_be_bytes)
qed

lemma length_rlp_string: "length b \<le> length (rlp_string b)"
  by (simp add: rlp_string_def)

lemma length_concat_mem: "v \<in> set vs \<Longrightarrow> length (f v) \<le> length (concat (map f vs))"
  by (induction vs) auto

lemma listEnd_spec:
  assumes lh: "lh = length (eb_lheads w)" and n: "n = length (seg_str S) + seg_hsize S" "n < 2 ^ 64"
    and w: "w' = add_segs (fst (encbuf_list w)) S"
  shows "listEnd w' lh = add_segs w (Inr n # S)"
proof -
  have sz: "encbuf_size w' - length (eb_str w) - eb_lhsize w = n"
    using n by (simp add: w encbuf_size_def add_segs_def encbuf_list_def)
  have head: "eb_lheads w' ! lh = (length (eb_str w), eb_lhsize w)"
    "(eb_lheads w')[lh := (length (eb_str w), n)] = eb_lheads w @ (length (eb_str w), n) # seg_heads (length (eb_str w)) S"
    by (simp_all add: w add_segs_def encbuf_list_def lh nth_append)
  have len: "length (list_head n) = (if n < 56 then 1 else 1 + intsize (word_of_nat n))"
    by (simp add: list_head_def rlp_head_def)
  have rest: "eb_str w' = eb_str w @ seg_str S" "eb_lhsize w' = eb_lhsize w + seg_hsize S"
    by (simp_all add: w add_segs_def encbuf_list_def)
  show ?thesis
    unfolding listEnd_def head(1) prod.case sz Let_def
    by (rule encbuf.equality) (simp_all add: add_segs_def head(2) rest len)
qed

lemma write_spec:
  shows "negative_free v \<Longrightarrow> length (rlp_enc v) < 2 ^ 64 \<Longrightarrow> write_value v w = Ret (Inr (add_segs w (segs_of v)))"
    and "list_all negative_free vs \<Longrightarrow> length (concat (map rlp_enc vs)) < 2 ^ 64 \<Longrightarrow>
      write_values vs w = Ret (Inr (add_segs w (concat (map segs_of vs))))"
proof (induction v w and vs w rule: write_value_write_values.induct)
  case (1 i w)
  then show ?case by (simp add: writeUint_eq add_segs_str)
next
  case (2 b w)
  then show ?case by (simp add: writeBool_def add_segs_str)
next
  case (3 i w)
  then have "length (big_bytes i) < 2 ^ 64" if "i \<noteq> 0"
    using that le_less_trans [OF length_rlp_string] by simp
  then show ?case using 3 by (auto simp: writeBigInt_def encodeString_eq add_segs_str rlp_string_def rlp_head_def)
next
  case (4 b w)
  then have "length b < 2 ^ 64" using le_less_trans [OF length_rlp_string] by simp
  then show ?case by (simp add: encodeString_eq add_segs_str)
next
  case (7 vs w)
  have len: "length (concat (map rlp_enc vs)) < 2 ^ 64" using 7(3) by (simp add: Let_def)
  obtain w1 lh where l: "encbuf_list w = (w1, lh)" by fastforce
  have "write_values vs w1 = Ret (Inr (add_segs w1 (concat (map segs_of vs))))"
    using 7(1) [OF l [symmetric]] 7(2) len by simp
  moreover have "seg_bytes (concat (map segs_of vs)) = concat (map rlp_enc vs)"
    by (induction vs) (auto simp: seg_bytes_of)
  then have "length (concat (map rlp_enc vs)) = length (seg_str (concat (map segs_of vs))) + seg_hsize (concat (map segs_of vs))"
    using length_seg_bytes by metis
  ultimately show ?case using l len
    by (simp add: listEnd_spec [of lh w _ "concat (map segs_of vs)"] encbuf_list_def)
next
  case (9 v vs w)
  then show ?case by (simp add: add_segs_append)
qed (simp_all add: add_segs_str)

lemma negative_write:
  shows "\<not> negative_free v \<Longrightarrow> length (rlp_enc v) < 2 ^ 64 \<Longrightarrow> write_value v w = Ret (Inl ErrNegativeBigInt)"
    and "\<not> list_all negative_free vs \<Longrightarrow> length (concat (map rlp_enc vs)) < 2 ^ 64 \<Longrightarrow>
      write_values vs w = Ret (Inl ErrNegativeBigInt)"
proof (induction v w and vs w rule: write_value_write_values.induct)
  case (3 i w)
  then show ?case by (simp add: writeBigInt_def)
next
  case (7 vs w)
  then show ?case by (auto simp: Let_def encbuf_list_def)
next
  case (9 v vs w)
  show ?case
  proof (cases "negative_free v")
    case True
    then have "write_value v w = Ret (Inr (add_segs w (segs_of v)))" using 9 by (intro write_spec(1)) auto
    then show ?thesis using 9 True by auto
  next
    case False
    then show ?thesis using 9 by auto
  qed
qed auto

lemma puthead_spec:
  assumes "n < 2 ^ 64" "length (list_head n) \<le> length buf"
  shows "puthead buf 0xC0 0xF7 (word_of_nat n) = Ret (list_head n @ drop (length (list_head n)) buf, length (list_head n))"
proof -
  define i where "i = (word_of_nat n :: uint64)"
  have u: "uint i = int n" unfolding i_def by (rule uint_of_nat_small [OF assms(1)])
  have un: "unat i = n" using u by (simp add: unat_eq_nat_uint)
  obtain b bs where b: "buf = b # bs" using assms(2) by (cases buf) (auto simp: list_head_def rlp_head_def split: if_splits)
  show ?thesis
  proof (cases "n < 56")
    case True
    then have "i < 56" by (simp add: word_less_nat_alt un)
    moreover have "(ucast i :: byte) = word_of_nat n"
      using True un by (simp add: word_unat_eq_iff unat_ucast_byte unsigned_of_nat take_bit_nat_eq_self)
    ultimately show ?thesis using True by (simp add: puthead_def b list_head_def rlp_head_def slice_set_def flip: i_def)
  next
    case False
    then have big: "\<not> i < 56" by (simp add: word_less_nat_alt un)
    have len: "intsize i \<le> length bs" using assms(2) False by (simp add: list_head_def rlp_head_def b i_def)
    have "putint bs i = Ret (be_bytes (intsize i) (int n) @ drop (intsize i) bs, intsize i)"
      using putint_spec [OF len] by (simp add: u)
    then show ?thesis using False big
      by (simp add: puthead_def b list_head_def rlp_head_def slice_set_def go_slice_def flip: i_def)
  qed
qed

text \<open>Merging: \<open>q\<close> is string data not yet copied, \<open>out\<close> what has been written.\<close>

definition finish_merge :: "bytes \<Rightarrow> (bytes \<times> nat \<times> nat) go \<Rightarrow> bytes go" where
  "finish_merge str r =
     go_bind r (\<lambda>(out, pos, strpos).
       go_bind (go_slice str (int strpos) (int (length str))) (\<lambda>src.
       go_bind (go_slice out (int pos) (int (length out))) (\<lambda>dst. Ret (copy_at out pos (length dst) src))))"

fun small_seg :: "bytes + nat \<Rightarrow> bool" where
  "small_seg (Inl b) = True"
| "small_seg (Inr n) = (n < 2 ^ 64)"

lemma merge_spec:
  assumes "str = pre @ q @ seg_str S" "list_all small_seg S"
    "length free = length q + length (seg_bytes S)"
  shows "finish_merge str (merge_heads str (seg_heads (length pre + length q) S) (out @ free) (length out) (length pre)) =
     Ret (out @ q @ seg_bytes S)"
  using assms
proof (induction S arbitrary: pre q out free)
  case Nil
  then show ?case by (simp add: finish_merge_def go_slice_def copy_at_def)
next
  case (Cons x S)
  show ?case
  proof (cases x)
    case (Inl b)
    then show ?thesis using Cons.IH [of pre "q @ b" free out] Cons.prems by (simp add: add.assoc)
  next
    case (Inr n)
    define free' where "free' = drop (length q + length (list_head n)) free"
    have n: "n < 2 ^ 64" using Cons.prems(2) Inr by simp
    have src: "go_slice str (int (length pre)) (int (length pre + length q)) = Ret q"
      using Cons.prems(1) by (simp add: go_slice_def)
    have dst: "go_slice (out @ free) (int (length out)) (int (length (out @ free))) = Ret free" by (simp add: go_slice_def)
    have min: "min (length free) (length q) = length q" using Cons.prems(3) by simp
    have copy: "copy_at (out @ free) (length out) (length q) q = out @ q @ drop (length q) free" by (simp add: copy_at_def)
    have buf: "go_slice (out @ q @ drop (length q) free) (int (length out + length q)) (int (length (out @ q @ drop (length q) free))) =
        Ret (drop (length q) free)"
      by (simp add: go_slice_def)
    have head: "puthead (drop (length q) free) 0xC0 0xF7 (word_of_nat n) = Ret (list_head n @ free', length (list_head n))"
      using puthead_spec [OF n, of "drop (length q) free"] Cons.prems(3) Inr by (simp add: free'_def add.commute)
    have len: "length (drop (length q) free) = length (list_head n) + length free'"
      using Cons.prems(3) Inr by (simp add: free'_def)
    have copy2: "copy_at (out @ q @ drop (length q) free) (length out + length q) (length (list_head n @ free')) (list_head n @ free') =
        (out @ q @ list_head n) @ free'"
      using len by (simp add: copy_at_def)
    have "finish_merge str (merge_heads str (seg_heads (length (pre @ q) + length ([] :: bytes)) S) ((out @ q @ list_head n) @ free')
        (length (out @ q @ list_head n)) (length (pre @ q))) = Ret ((out @ q @ list_head n) @ [] @ seg_bytes S)"
      using Cons.prems Inr by (intro Cons.IH) (auto simp: free'_def)
    then show ?thesis
      by (simp only: Inr seg_heads.simps merge_heads.simps src dst go_bind_simps Let_def min copy buf head prod.case copy2)
        (simp add: add.assoc Inr)
  qed
qed

lemma segs_small: "length (rlp_enc v) < 2 ^ 64 \<Longrightarrow> list_all small_seg (segs_of v)"
proof (induction v)
  case (VList vs)
  have body: "length (concat (map rlp_enc vs)) < 2 ^ 64" using VList.prems by (simp add: Let_def)
  have "list_all small_seg (segs_of v)" if "v \<in> set vs" for v
    using VList.IH [OF that] le_less_trans [OF length_concat_mem [OF that, of rlp_enc] body] by blast
  then show ?case using body by (auto simp: list_all_iff)
qed auto

lemma EncodeToBytes_eq:
  assumes "negative_free v" "length (rlp_enc v) < 2 ^ 64"
  shows "EncodeToBytes v = Ret (Inr (rlp_enc v))"
proof -
  let ?S = "segs_of v"
  have w: "write_value v encbuf_reset = Ret (Inr (add_segs encbuf_reset ?S))" by (rule write_spec(1) [OF assms])
  have size: "encbuf_size (add_segs encbuf_reset ?S) = length (rlp_enc v)"
    using length_seg_bytes [of ?S] by (simp add: encbuf_size_def add_segs_def encbuf_reset_def seg_bytes_of)
  have "finish_merge (seg_str ?S) (merge_heads (seg_str ?S) (seg_heads 0 ?S) (replicate (length (rlp_enc v)) 0) 0 0) =
      Ret (seg_bytes ?S)"
    using merge_spec [of "seg_str ?S" "[]" "[]" ?S "replicate (length (rlp_enc v)) 0" "[]"] segs_small [OF assms(2)]
    by (simp add: seg_bytes_of)
  then have "toBytes (add_segs encbuf_reset ?S) = Ret (rlp_enc v)"
    unfolding toBytes_def finish_merge_def size by (simp add: add_segs_def encbuf_reset_def seg_bytes_of)
  then show ?thesis using w by (simp add: EncodeToBytes_def)
qed

text \<open>C34: the encoder of RLP values, which collects string data and list headers in two separate buffers and
  merges them at the end, writes exactly the recursive encoding of the value: a string with its header,
  a list as the header of its body followed by the encodings of its elements. It never panics, the
  buffer it allocates has exactly the right size, and the only error is a negative number.\<close>

theorem EncodeToBytes_refines:
  assumes "length (rlp_enc v) < 2 ^ 64"
  shows "EncodeToBytes v = Ret (if negative_free v then Inr (rlp_enc v) else Inl ErrNegativeBigInt)"
  using EncodeToBytes_eq [OF _ assms] negative_write(1) [OF _ assms] by (auto simp: EncodeToBytes_def)

section \<open>Splitting what was encoded\<close>

lemma read_be_snoc: "read_be (b @ [x]) = push_bit 8 (read_be b) OR ucast x"
  by (simp add: read_be_def)

lemma read_be_step:
  assumes "uint s < 2 ^ 56"
  shows "uint (push_bit 8 s OR ucast (x :: byte) :: uint64) = uint s * 256 + uint x"
proof -
  have dis: "push_bit 8 s AND (ucast x :: uint64) = 0"
    by (rule bit_eqI) (auto simp: bit_simps dest: bit_imp_le_length)
  have "push_bit 8 s OR (ucast x :: uint64) = push_bit 8 s + ucast x"
    using dis by (simp add: disjunctive_add_eq_or)
  also have "\<dots> = s * 256 + ucast x" by (simp add: push_bit_eq_mult)
  finally have eq: "push_bit 8 s OR (ucast x :: uint64) = s * 256 + ucast x" .
  have x: "0 \<le> uint x" "uint x < 2 ^ 8" "0 \<le> uint s" using unsigned_less [of x, where 'a = int] by simp_all
  have "uint (ucast x :: uint64) = uint x" using x by (simp add: unsigned_ucast_eq take_bit_int_eq_self)
  then have "uint (s * 256 + ucast x :: uint64) = (uint s * 256 + uint x) mod 2 ^ 64"
    by (simp add: uint_word_ariths mod_simps)
  then show ?thesis using assms x unfolding eq by simp
qed

lemma read_be_value: "length b \<le> 8 \<Longrightarrow> uint (read_be b) = be_int b"
proof (induction b rule: rev_induct)
  case (snoc x b)
  have "be_int b < 256 ^ length b" using be_int_range [of b] by simp
  also have "(256 :: int) ^ length b \<le> 256 ^ 7" using snoc.prems by (intro power_increasing) auto
  finally have "uint (read_be b) < 2 ^ 56" using snoc by simp
  then show ?case using snoc by (simp add: read_be_snoc read_be_step)
qed (simp add: read_be_def)

lemma be_bytes_top:
  assumes "256 ^ (n - 1) \<le> x" "x < 256 ^ n" "0 < n"
  shows "be_bytes n x ! 0 \<noteq> 0"
proof -
  obtain m where m: "n = Suc m" using assms(3) by (cases n) auto
  have "be_bytes n x = be_bytes 1 (x div 256 ^ m) @ be_bytes m x"
    using be_bytes_add [of 1 m x] by (simp add: m)
  then have top: "be_bytes n x ! 0 = word_of_int (x div 256 ^ m)" by simp
  define p where "p = (256 :: int) ^ m"
  have p: "0 < p" by (simp add: p_def)
  have x: "p \<le> x" "x < 256 * p" using assms(1,2) by (simp_all add: m p_def)
  have low: "1 \<le> x div p" using zdiv_mono1 [OF x(1) p] p by simp
  moreover have "x div p < 256"
  proof (rule ccontr)
    assume "\<not> x div p < 256"
    then have "256 * p \<le> (x div p) * p" using p by (intro mult_right_mono) auto
    also have "\<dots> \<le> x" using p by (simp add: minus_mod_eq_div_mult [symmetric])
    finally show False using x(2) by simp
  qed
  ultimately have "uint (word_of_int (x div p) :: byte) = x div p" by (simp add: uint_word_of_int)
  then show ?thesis using top low unfolding p_def by auto
qed

lemma readSize_head:
  assumes "56 \<le> n" "n < 2 ^ 64"
  defines "i \<equiv> (word_of_nat n :: uint64)"
  shows "readSize (be_bytes (intsize i) (int n) @ rest) (word_of_nat (intsize i)) = Ret (Inr i)"
proof -
  have u: "uint i = int n" unfolding i_def by (rule uint_of_nat_small [OF assms(2)])
  then have un: "unat i = n" by (simp add: unat_eq_nat_uint)
  have b: "0 < intsize i" "n < 256 ^ intsize i" "256 ^ (intsize i - 1) \<le> n"
    using intsize_bounds [of i] assms(1) un by auto
  let ?bs = "be_bytes (intsize i) (int n)"
  have s8: "intsize i \<le> 8" by (rule intsize_le_8)
  have sl: "unat (word_of_nat (intsize i) :: byte) = intsize i"
    using s8 by (simp add: unsigned_of_nat take_bit_nat_eq_self)
  have "be_int ?bs = int n" using b(2) by (simp add: be_int_be_bytes flip: of_nat_less_iff)
  then have "uint (read_be ?bs) = uint i" using read_be_value [of ?bs] s8 u by simp
  then have rd: "read_be ?bs = i" by (simp only: word_uint_eq_iff)
  have "int (256 ^ (intsize i - 1)) \<le> int n" "int n < int (256 ^ intsize i)" using b by linarith+
  then have "?bs ! 0 \<noteq> 0" using b(1) by (intro be_bytes_top) auto
  then have b0: "(?bs @ rest) ! 0 \<noteq> 0" using b(1) by (simp add: nth_append)
  have "\<not> i < 56" using assms(1) by (simp add: word_less_nat_alt un)
  moreover have "1 \<le> (word_of_nat (intsize i) :: byte)" "(word_of_nat (intsize i) :: byte) \<le> 8"
    using s8 b(1) sl by (simp_all add: word_le_nat_alt)
  ultimately show ?thesis
    using b0 sl s8 b(1) by (simp add: readSize_def rd slice_get_def)
qed

lemma unat_byte_add: "unat (c :: byte) + n < 256 \<Longrightarrow> unat (c + word_of_nat n) = unat c + n"
  by (simp add: unat_word_ariths unsigned_of_nat take_bit_nat_eq_self)

lemma ucast_byte_nat: "n < 256 \<Longrightarrow> (ucast (word_of_nat n :: byte) :: uint64) = word_of_nat n"
  by (simp add: word_unat_eq_iff unsigned_ucast_eq unsigned_of_nat take_bit_nat_eq_self)

lemma unat_ucast_byte_up: "unat (ucast (x :: byte) :: uint64) = unat x"
proof -
  have "unat x < 256" using unsigned_less [of x, where 'a = nat] by simp
  then show ?thesis by (simp add: unsigned_ucast_eq take_bit_nat_eq_self)
qed

lemma check_size_ok:
  assumes "unat ts + unat cs \<le> length buf" "length buf < 2 ^ 64"
  shows "check_size buf k ts cs = Inr (k, ts, cs)"
proof -
  have l: "unat (word_of_nat (length buf) :: uint64) = length buf"
    using assms(2) by (simp add: unsigned_of_nat take_bit_nat_eq_self)
  have "unat (word_of_nat (length buf) - ts) = length buf - unat ts"
    using assms(1) l by (subst unat_sub) (simp_all add: word_le_nat_alt)
  then show ?thesis using assms(1) by (simp add: check_size_def word_less_nat_alt)
qed

lemma unat_add_small: "unat (a :: uint64) + unat b < 2 ^ 64 \<Longrightarrow> unat (a + b) = unat a + unat b"
  by (simp add: unat_word_ariths)

lemma uint_of_unat: "unat (w :: uint64) = n \<Longrightarrow> uint w = int n"
  by auto

lemma Split_of_kind:
  assumes "readKind (pre @ c @ rest) = Ret (Inr (k, ts, cs))" "unat ts = length pre" "unat cs = length c"
    "length (pre @ c @ rest) < 2 ^ 64"
  shows "Split (pre @ c @ rest) = Ret (Inr (k, c, rest))"
proof -
  have "unat (ts + cs) = length pre + length c" using assms unat_add_small [of ts cs] by simp
  then have "uint (ts + cs) = int (length pre + length c)" by (rule uint_of_unat)
  moreover have "uint ts = int (length pre)" by (rule uint_of_unat [OF assms(2)])
  ultimately show ?thesis using assms(1) by (simp add: Split_def go_slice_def)
qed

lemma readKind_short:
  assumes "n < 56" "length (h # c @ rest) < 2 ^ 64" "length c = n"
  shows "h = 0x80 + word_of_nat n \<Longrightarrow> n = 1 \<longrightarrow> \<not> c ! 0 \<le> 0x7F \<Longrightarrow>
      readKind (h # c @ rest) = Ret (Inr (KString, 1, word_of_nat n))"
    and "h = 0xC0 + word_of_nat n \<Longrightarrow> readKind (h # c @ rest) = Ret (Inr (KList, 1, word_of_nat n))"
proof -
  have un: "unat (word_of_nat n :: uint64) = n" using assms(1) by (simp add: unsigned_of_nat take_bit_nat_eq_self)
  have chk: "check_size (h # c @ rest) k 1 (word_of_nat n) = Inr (k, 1, word_of_nat n)" for k
    using assms un by (intro check_size_ok) auto
  have uc: "(ucast (word_of_nat n :: byte) :: uint64) = word_of_nat n" using assms(1) by (intro ucast_byte_nat) simp
  show "readKind (h # c @ rest) = Ret (Inr (KString, 1, word_of_nat n))"
    if h: "h = 0x80 + word_of_nat n" and one: "n = 1 \<longrightarrow> \<not> c ! 0 \<le> 0x7F"
  proof -
    have "unat h = 128 + n" using assms(1) unat_byte_add [of "0x80" n] by (simp add: h)
    then have b: "\<not> h < 0x80" "h < 0xB8" using assms(1) by (simp_all add: word_less_nat_alt)
    have "n = 1 \<longleftrightarrow> (word_of_nat n :: uint64) = 1" using un by (metis of_nat_1 unat_1)
    moreover have "slice_get (h # c @ rest) 1 = Ret (c ! 0)" if "n = 1" using assms(3) that by (cases c) (auto simp: slice_get_def)
    moreover have "\<not> c ! 0 < 128" if "n = 1" using one that by (simp add: word_less_nat_alt word_le_nat_alt)
    ultimately show ?thesis using b h chk uc by (auto simp: readKind_def Let_def)
  qed
  show "readKind (h # c @ rest) = Ret (Inr (KList, 1, word_of_nat n))" if h: "h = 0xC0 + word_of_nat n"
  proof -
    have "unat h = 192 + n" using assms(1) unat_byte_add [of "0xC0" n] by (simp add: h)
    then have "\<not> h < 0x80" "\<not> h < 0xB8" "\<not> h < 0xC0" "h < 0xF8" using assms(1) by (simp_all add: word_less_nat_alt)
    then show ?thesis using h chk uc by (simp add: readKind_def)
  qed
qed

lemma readKind_long:
  assumes "56 \<le> n" "length (h # be_bytes s (int n) @ c @ rest) < 2 ^ 64" "length c = n"
  defines "i \<equiv> (word_of_nat n :: uint64)"
  assumes s: "s = intsize i"
  shows "h = 0xB7 + word_of_nat s \<Longrightarrow> readKind (h # be_bytes s (int n) @ c @ rest) = Ret (Inr (KString, word_of_nat s + 1, i))"
    and "h = 0xF7 + word_of_nat s \<Longrightarrow> readKind (h # be_bytes s (int n) @ c @ rest) = Ret (Inr (KList, word_of_nat s + 1, i))"
proof -
  have n: "n < 2 ^ 64" using assms(2,3) by simp
  have s8: "0 < s" "s \<le> 8" using intsize_le_8 [of i] intsize_bounds [of i] by (simp_all add: s)
  have rs: "readSize (be_bytes s (int n) @ c @ rest) (word_of_nat s) = Ret (Inr i)"
    unfolding s i_def by (rule readSize_head [OF assms(1) n])
  have un: "unat i = n" using n by (simp add: i_def unsigned_of_nat take_bit_nat_eq_self)
  have us: "unat (word_of_nat s + 1 :: uint64) = s + 1"
    using s8 by (simp add: unat_word_ariths unsigned_of_nat take_bit_nat_eq_self)
  have chk: "check_size (h # be_bytes s (int n) @ c @ rest) k (word_of_nat s + 1) i = Inr (k, word_of_nat s + 1, i)" for k
    using assms un us by (intro check_size_ok) auto
  have uc: "(ucast (word_of_nat s :: byte) :: uint64) = word_of_nat s" using s8 by (intro ucast_byte_nat) simp
  show "readKind (h # be_bytes s (int n) @ c @ rest) = Ret (Inr (KString, word_of_nat s + 1, i))"
    if h: "h = 0xB7 + word_of_nat s"
  proof -
    have "unat h = 183 + s" using s8 unat_byte_add [of "0xB7" s] by (simp add: h)
    then have "\<not> h < 0x80" "\<not> h < 0xB8" "h < 0xC0" using s8 by (simp_all add: word_less_nat_alt)
    then show ?thesis using h chk uc rs by (simp add: readKind_def)
  qed
  show "readKind (h # be_bytes s (int n) @ c @ rest) = Ret (Inr (KList, word_of_nat s + 1, i))"
    if h: "h = 0xF7 + word_of_nat s"
  proof -
    have "unat h = 247 + s" using s8 unat_byte_add [of "0xF7" s] by (simp add: h)
    then have "\<not> h < 0x80" "\<not> h < 0xB8" "\<not> h < 0xC0" "\<not> h < 0xF8" using s8 by (simp_all add: word_less_nat_alt)
    then show ?thesis using h chk uc rs by (simp add: readKind_def)
  qed
qed

definition string_kind :: "bytes \<Rightarrow> Kind" where
  "string_kind b = (if length b = 1 \<and> b ! 0 \<le> 0x7F then KByte else KString)"

text \<open>A header splits off: the kind and the sizes that \<^verbatim>\<open>readKind\<close> returns.\<close>

lemma head_kind:
  assumes "length (rlp_head t l (length c) @ c @ rest) < 2 ^ 64"
    "(t, l, k) = (0x80, 0xB7, KString) \<and> \<not> (length c = 1 \<and> c ! 0 \<le> 0x7F) \<or> (t, l, k) = (0xC0, 0xF7, KList)"
  shows "\<exists>ts cs. readKind (rlp_head t l (length c) @ c @ rest) = Ret (Inr (k, ts, cs)) \<and>
     unat ts = length (rlp_head t l (length c)) \<and> unat cs = length c"
proof (cases "length c < 56")
  case True
  have un: "unat (word_of_nat (length c) :: uint64) = length c" using True by (simp add: unsigned_of_nat take_bit_nat_eq_self)
  have "length ((t + word_of_nat (length c)) # c @ rest) < 2 ^ 64" using assms(1) True by (simp add: rlp_head_def)
  note short = readKind_short [OF True this refl]
  have "readKind ((t + word_of_nat (length c)) # c @ rest) = Ret (Inr (k, 1, word_of_nat (length c)))"
    using assms(2) short by auto
  then show ?thesis using True un by (auto simp: rlp_head_def)
next
  case False
  define i where "i = (word_of_nat (length c) :: uint64)"
  define s where "s = intsize i"
  have "length c < 2 ^ 64" using assms(1) by simp
  then have un: "unat i = length c" by (simp add: i_def unsigned_of_nat take_bit_nat_eq_self)
  have s8: "s \<le> 8" using intsize_le_8 by (simp add: s_def)
  then have us: "unat (word_of_nat s + 1 :: uint64) = s + 1"
    by (simp add: unat_word_ariths unsigned_of_nat take_bit_nat_eq_self)
  have head: "rlp_head t l (length c) = (l + word_of_nat s) # be_bytes s (int (length c))"
    using False by (simp add: rlp_head_def s_def i_def)
  have len: "length ((l + word_of_nat s) # be_bytes s (int (length c)) @ c @ rest) < 2 ^ 64" using assms(1) by (simp add: head)
  have "56 \<le> length c" using False by simp
  note long = readKind_long [OF this len refl s_def [unfolded i_def]]
  have "readKind ((l + word_of_nat s) # be_bytes s (int (length c)) @ c @ rest) = Ret (Inr (k, word_of_nat s + 1, i))"
    using assms(2) long by (auto simp: i_def)
  then show ?thesis using un us by (auto simp: head)
qed

fun rlp_payload :: "rlp_value \<Rightarrow> bytes" where
  "rlp_payload (VUint i) = uint_bytes i"
| "rlp_payload (VBool b) = (if b then [1] else [])"
| "rlp_payload (VBig i) = (if i = 0 then [] else big_bytes i)"
| "rlp_payload (VBytes b) = b"
| "rlp_payload (VRaw b) = b"
| "rlp_payload VNil = []"
| "rlp_payload (VList vs) = concat (map rlp_enc vs)"

fun is_list_value :: "rlp_value \<Rightarrow> bool" where
  "is_list_value (VList vs) = True"
| "is_list_value VNil = True"
| "is_list_value v = False"

definition rlp_kind :: "rlp_value \<Rightarrow> Kind" where
  "rlp_kind v = (if is_list_value v then KList else string_kind (rlp_payload v))"

fun is_raw :: "rlp_value \<Rightarrow> bool" where
  "is_raw (VRaw b) = True"
| "is_raw v = False"

lemma enc_payload:
  assumes "\<not> is_raw v"
  shows "rlp_enc v = (if is_list_value v then list_head (length (rlp_payload v)) @ rlp_payload v else rlp_string (rlp_payload v))"
  using assms by (cases v) (auto simp: list_head_def rlp_head_def rlp_string_def Let_def)

lemma kind_of_enc:
  assumes "\<not> is_raw v" "length (rlp_enc v @ rest) < 2 ^ 64"
  shows "\<exists>pre ts cs. rlp_enc v = pre @ rlp_payload v \<and> readKind (rlp_enc v @ rest) = Ret (Inr (rlp_kind v, ts, cs)) \<and>
     unat ts = length pre \<and> unat cs = length (rlp_payload v) \<and> 0 < length (rlp_enc v)"
proof -
  let ?c = "rlp_payload v"
  consider "is_list_value v" | "\<not> is_list_value v" "length ?c = 1 \<and> ?c ! 0 \<le> 0x7F"
    | "\<not> is_list_value v" "\<not> (length ?c = 1 \<and> ?c ! 0 \<le> 0x7F)" by blast
  then show ?thesis
  proof cases
    case 1
    then have "rlp_enc v = rlp_head 0xC0 0xF7 (length ?c) @ ?c" using enc_payload [OF assms(1)] by (simp add: list_head_def)
    moreover from this have "\<exists>ts cs. readKind (rlp_head 0xC0 0xF7 (length ?c) @ ?c @ rest) = Ret (Inr (KList, ts, cs)) \<and>
        unat ts = length (rlp_head 0xC0 0xF7 (length ?c)) \<and> unat cs = length ?c"
      using assms(2) by (intro head_kind) auto
    ultimately show ?thesis using 1 by (auto simp: rlp_kind_def rlp_head_def)
  next
    case 2
    then obtain x where x: "?c = [x]" "x \<le> 0x7F" by (cases ?c) auto
    have e: "rlp_enc v = [x]" using enc_payload [OF assms(1)] 2 x by (simp add: rlp_string_def)
    have "check_size (x # rest) KByte 0 1 = Inr (KByte, 0, 1)" using assms(2) e by (intro check_size_ok) auto
    moreover have "x < 0x80" using x(2) by (simp add: word_less_nat_alt word_le_nat_alt)
    ultimately have "readKind (rlp_enc v @ rest) = Ret (Inr (KByte, 0, 1))" by (simp add: e readKind_def)
    then show ?thesis using 2 x e by (auto simp: rlp_kind_def string_kind_def)
  next
    case 3
    then have "rlp_enc v = rlp_head 0x80 0xB7 (length ?c) @ ?c"
      using enc_payload [OF assms(1)] unfolding rlp_string_def by (simp only: if_False)
    moreover from this have "\<exists>ts cs. readKind (rlp_head 0x80 0xB7 (length ?c) @ ?c @ rest) = Ret (Inr (KString, ts, cs)) \<and>
        unat ts = length (rlp_head 0x80 0xB7 (length ?c)) \<and> unat cs = length ?c"
      using assms(2) 3 by (intro head_kind) auto
    moreover have "rlp_kind v = KString" using 3 unfolding rlp_kind_def string_kind_def by (simp only: if_False)
    ultimately show ?thesis by (auto simp: rlp_head_def)
  qed
qed

lemma count_values:
  assumes "list_all (\<lambda>v. \<not> is_raw v) vs" "length (concat (map rlp_enc vs)) < 2 ^ 64" "length (concat (map rlp_enc vs)) \<le> n"
  shows "count_loop n (concat (map rlp_enc vs)) i = Ret (Inr (i + length vs))"
  using assms
proof (induction vs arbitrary: n i)
  case Nil
  then show ?case by (cases n) auto
next
  case (Cons v vs)
  let ?rest = "concat (map rlp_enc vs)"
  have "\<not> is_raw v" "length (rlp_enc v @ ?rest) < 2 ^ 64" using Cons.prems by auto
  from kind_of_enc [OF this] obtain pre ts cs where k: "rlp_enc v = pre @ rlp_payload v"
      "readKind (rlp_enc v @ ?rest) = Ret (Inr (rlp_kind v, ts, cs))" "unat ts = length pre" "unat cs = length (rlp_payload v)"
      "0 < length (rlp_enc v)"
    by blast
  obtain m where m: "n = Suc m" using Cons.prems(3) k(5) by (cases n) auto
  have "unat (ts + cs) = length (rlp_enc v)" using k Cons.prems(2) unat_add_small [of ts cs] by simp
  then have "uint (ts + cs) = int (length (rlp_enc v))" by (rule uint_of_unat)
  then have "go_slice (rlp_enc v @ ?rest) (uint (ts + cs)) (int (length (rlp_enc v @ ?rest))) = Ret ?rest"
    by (simp add: go_slice_def)
  moreover have "length (rlp_enc v) + length ?rest \<le> Suc m" using Cons.prems(3) m by simp
  then have "length ?rest \<le> m" using k(5) by linarith
  then have "count_loop m ?rest (i + 1) = Ret (Inr (i + 1 + length vs))"
    using Cons.prems by (intro Cons.IH) auto
  ultimately show ?case using k(2,5) m by auto
qed

text \<open>C35: splitting undoes encoding. Whatever follows the encoding of a value, \<^verbatim>\<open>Split\<close> returns the kind of the
  value, its content and exactly what followed; for a list, \<^verbatim>\<open>CountValues\<close> of the content is the number of
  elements.\<close>

theorem Split_inverts_EncodeToBytes:
  assumes "negative_free v" "\<not> is_raw v" "length (rlp_enc v @ rest) < 2 ^ 64"
  shows "\<exists>b. EncodeToBytes v = Ret (Inr b) \<and> Split (b @ rest) = Ret (Inr (rlp_kind v, rlp_payload v, rest)) \<and>
     (\<forall>vs. v = VList vs \<and> list_all (\<lambda>x. \<not> is_raw x) vs \<longrightarrow> CountValues (rlp_payload v) = Ret (Inr (length vs)))"
proof -
  have len: "length (rlp_enc v) < 2 ^ 64" using assms(3) by simp
  obtain pre ts cs where k: "rlp_enc v = pre @ rlp_payload v" "readKind (rlp_enc v @ rest) = Ret (Inr (rlp_kind v, ts, cs))"
      "unat ts = length pre" "unat cs = length (rlp_payload v)"
    using kind_of_enc [OF assms(2,3)] by blast
  have split: "Split (rlp_enc v @ rest) = Ret (Inr (rlp_kind v, rlp_payload v, rest))"
    using Split_of_kind [of pre "rlp_payload v" rest] k assms(3) by simp
  have count: "CountValues (rlp_payload v) = Ret (Inr (length vs))" if "v = VList vs" "list_all (\<lambda>x. \<not> is_raw x) vs" for vs
    using count_values [OF that(2), of _ 0] len that(1) by (simp add: CountValues_def Let_def)
  show ?thesis using EncodeToBytes_eq [OF assms(1) len] split count by blast
qed

definition ex_rlp :: rlp_value where
  "ex_rlp = VList [VUint 1024, VBytes [1, 2, 3], VList [VBool True, VBig 0]]"

lemma ex_rlp_enc: "rlp_enc ex_rlp = [0xCA, 0x82, 4, 0, 0x83, 1, 2, 3, 0xC2, 1, 0x80]"
  by code_simp

theorem EncodeToBytes_refines_witness:
  "EncodeToBytes ex_rlp = Ret (Inr [0xCA, 0x82, 4, 0, 0x83, 1, 2, 3, 0xC2, 1, 0x80])"
  using EncodeToBytes_refines [of ex_rlp] by (simp add: ex_rlp_enc) (simp add: ex_rlp_def)

theorem Split_inverts_EncodeToBytes_witness:
  "\<exists>b. EncodeToBytes ex_rlp = Ret (Inr b) \<and> Split (b @ [7]) = Ret (Inr (KList, [0x82, 4, 0, 0x83, 1, 2, 3, 0xC2, 1, 0x80], [7])) \<and>
     CountValues [0x82, 4, 0, 0x83, 1, 2, 3, 0xC2, 1, 0x80] = Ret (Inr 3)"
proof -
  have "rlp_payload ex_rlp = [0x82, 4, 0, 0x83, 1, 2, 3, 0xC2, 1, 0x80]" by code_simp
  moreover have "rlp_kind ex_rlp = KList" by (simp add: rlp_kind_def ex_rlp_def)
  ultimately show ?thesis
    using Split_inverts_EncodeToBytes [of ex_rlp "[7]"] by (simp add: ex_rlp_enc) (simp add: ex_rlp_def numeral_3_eq_3)
qed

section \<open>Malformed input\<close>

lemma readSize_returns: "0 < slen \<Longrightarrow> returns (readSize b slen)"
proof -
  assume "0 < slen"
  then have "0 < unat slen" by (simp add: word_less_nat_alt)
  then show ?thesis by (cases b) (auto simp: readSize_def Let_def slice_get_def)
qed

lemma readSize_Inr: "readSize b slen = Ret (Inr s) \<Longrightarrow> unat slen \<le> length b"
  by (auto simp: readSize_def split: if_splits)

lemma check_size_Inr: "check_size buf k ts cs = Inr (k', ts', cs') \<longleftrightarrow>
    k' = k \<and> ts' = ts \<and> cs' = cs \<and> \<not> cs > word_of_nat (length buf) - ts"
  by (auto simp: check_size_def)

lemma readKind_panics_iff: "(\<exists>m. readKind b = Panic m) \<longleftrightarrow> b = [0x81]"
proof (cases b)
  case (Cons x bs)
  have size: "\<exists>r. readSize bs (x - c) = Ret r" if "c < x" for c
  proof -
    have "0 < x - c" using that by (simp add: word_less_nat_alt unat_sub word_le_nat_alt)
    then show ?thesis using readSize_returns [of "x - c" bs] by (simp add: returns_def)
  qed
  show ?thesis
  proof (cases "x = 0x81")
    case True
    then show ?thesis using Cons by (cases bs) (auto simp: readKind_def Let_def slice_get_def)
  next
    case False
    have "ucast (x - 0x80) \<noteq> (1 :: uint64)"
    proof
      assume "ucast (x - 0x80) = (1 :: uint64)"
      then have "unat (x - 0x80) = 1"
        by (metis unat_1 unat_ucast_byte_up)
      then have "x - 0x80 = 1" by (metis unat_1 word_unat_eq_iff)
      then have "x = 0x81" by (simp add: diff_eq_eq)
      then show False using False by simp
    qed
    moreover have "\<exists>r. readSize bs (x - 0xB7) = Ret r" if "\<not> x < 0xB8" using that by (intro size) (simp add: word_less_nat_alt)
    moreover have "\<exists>r. readSize bs (x - 0xF7) = Ret r" if "\<not> x < 0xF8" using that by (intro size) (simp add: word_less_nat_alt)
    ultimately show ?thesis using Cons False by (auto simp: readKind_def Let_def)
  qed
qed (simp add: readKind_def)

lemma case_sum_Inr: "(case a of Inl e \<Rightarrow> Inl e | Inr c \<Rightarrow> f c) = Inr z \<longleftrightarrow> (\<exists>c. a = Inr c \<and> f c = Inr z)"
  by (cases a) auto

lemma readKind_fits:
  assumes "readKind b = Ret (Inr (k, ts, cs))" "length b < 2 ^ 64"
  shows "unat ts + unat cs \<le> length b"
proof -
  have l: "unat (word_of_nat (length b) :: uint64) = length b" using assms(2) by (simp add: unsigned_of_nat take_bit_nat_eq_self)
  obtain x bs where b: "b = x # bs" using assms(1) by (cases b) (auto simp: readKind_def)
  have tag: "unat (ucast (x - c) + 1 :: uint64) \<le> length b" if "readSize bs (x - c) = Ret (Inr s)" for c s
  proof -
    have "unat (ucast (x - c) :: uint64) = unat (x - c)" by (rule unat_ucast_byte_up)
    moreover have "unat (x - c) < 256" using unsigned_less [of "x - c", where 'a = nat] by simp
    ultimately have "unat (ucast (x - c) + 1 :: uint64) = unat (x - c) + 1" using unat_add_small [of "ucast (x - c)" 1] by simp
    then show ?thesis using readSize_Inr [OF that] by (simp add: b)
  qed
  have "unat ts \<le> length b \<and> \<not> cs > word_of_nat (length b) - ts"
    using assms(1) tag
    by (auto simp: b readKind_def Let_def check_size_Inr go_bind_eq_Ret case_sum_Inr split: if_split_asm)
  then show ?thesis using l by (auto simp: word_less_nat_alt unat_sub word_le_nat_alt)
qed

text \<open>C36: \<^verbatim>\<open>Split\<close> on arbitrary bytes panics on exactly one input, the single byte 0x81: \<^verbatim>\<open>readKind\<close> reads
  \<^verbatim>\<open>buf[1]\<close> of a one-byte string before it has checked that the byte is there. On every other input it
  returns a value or an error.\<close>

theorem Split_panics_iff:
  assumes "length b < 2 ^ 64"
  shows "(\<exists>m. Split b = Panic m) \<longleftrightarrow> b = [0x81]"
proof
  assume "b = [0x81]"
  then show "\<exists>m. Split b = Panic m" using readKind_panics_iff [of b] by (auto simp: Split_def)
next
  assume p: "\<exists>m. Split b = Panic m"
  show "b = [0x81]"
  proof (rule ccontr)
    assume "b \<noteq> [0x81]"
    then obtain r where r: "readKind b = Ret r" using readKind_panics_iff [of b] by (cases "readKind b") auto
    show False
    proof (cases r)
      case (Inl e)
      then show ?thesis using p r by (simp add: Split_def)
    next
      case (Inr x)
      obtain k ts cs where x: "x = (k, ts, cs)" by (cases x)
      have fit: "unat ts + unat cs \<le> length b" using readKind_fits [OF _ assms] r Inr x by blast
      then have "unat (ts + cs) = unat ts + unat cs" using assms by (intro unat_add_small) simp
      then have "uint (ts + cs) = int (unat ts + unat cs)" by (rule uint_of_unat)
      moreover have "uint ts + uint cs \<le> int (length b)" using fit by (simp only: uint_nat)
      ultimately show ?thesis using p r Inr x by (auto simp: Split_def go_slice_def)
    qed
  qed
qed

theorem Split_panics_iff_witness: "(\<exists>m. Split [0x81] = Panic m) \<and> Split [0x83, 1, 2] = Ret (Inl ErrValueTooLarge)"
proof -
  have "Split [0x83, 1, 2] = Ret (Inl ErrValueTooLarge)" by code_simp
  then show ?thesis using Split_panics_iff [of "[0x81]"] by simp
qed

end
