(* ===== verification/Evm_Calls.thy ===== *)
theory Evm_Calls
  imports Evm_Gas Rlp
begin

text \<open>
  Calls between contracts: the precompiled contracts of \<^verbatim>\<open>core/vm/contracts.go\<close> that \<^verbatim>\<open>run\<close> uses, the
  address of a new contract (\<^verbatim>\<open>crypto/crypto.go\<close>) and the five call operations of \<^verbatim>\<open>core/vm/evm.go\<close>. They
  call back into the interpreter, which is a parameter here and is closed off in
  \<^verbatim>\<open>Evm_Interpreter\<close>.
\<close>

section \<open>Precompiled contracts\<close>

definition secp256k1_N :: int where
  "secp256k1_N = 0xfffffffffffffffffffffffffffffffebaaedce6af48a03bbfd25e8cd0364141"

definition secp256k1_halfN :: int where
  "secp256k1_halfN = Big_Div secp256k1_N 2"

definition ValidateSignatureValues :: "byte \<Rightarrow> int \<Rightarrow> int \<Rightarrow> bool \<Rightarrow> bool" where
  "ValidateSignatureValues v r s homestead =
     (if r < 1 \<or> s < 1 then False
      else if homestead \<and> s > secp256k1_halfN then False
      else r < secp256k1_N \<and> s < secp256k1_N \<and> (v = 0 \<or> v = 1))"

datatype PrecompiledContract = Ecrecover | Sha256hash | Ripemd160hash | DataCopy

definition PrecompiledContractsHomestead :: "address \<Rightarrow> PrecompiledContract option" where
  "PrecompiledContractsHomestead a =
     (if a = 1 then Some Ecrecover else if a = 2 then Some Sha256hash
      else if a = 3 then Some Ripemd160hash else if a = 4 then Some DataCopy else None)"

definition word_count :: "bytes \<Rightarrow> uint64" where
  "word_count input = word_of_nat (length input + 31) div 32"

fun RequiredGas :: "PrecompiledContract \<Rightarrow> bytes \<Rightarrow> uint64" where
  "RequiredGas Ecrecover input = EcrecoverGas"
| "RequiredGas Sha256hash input = word_count input * Sha256PerWordGas + Sha256BaseGas"
| "RequiredGas Ripemd160hash input = word_count input * Ripemd160PerWordGas + Ripemd160BaseGas"
| "RequiredGas DataCopy input = word_count input * IdentityPerWordGas + IdentityBaseGas"

definition ecrecover_Run :: "state_env \<Rightarrow> crypto_fns \<Rightarrow> bytes \<Rightarrow> bytes go" where
  "ecrecover_Run env cf inp =
     (let input = RightPadBytes inp 128 in
      go_bind (go_slice input 64 96) (\<lambda>rb. go_bind (go_slice input 96 128) (\<lambda>sb.
      go_bind (slice_get input 63) (\<lambda>vb. go_bind (go_slice input 32 63) (\<lambda>pad.
        let r = be_int rb; s = be_int sb; v = vb - 27 in
        if \<not> allZero pad \<or> \<not> ValidateSignatureValues v r s False then Ret []
        else go_bind (go_slice input 0 32) (\<lambda>h. go_bind (go_slice input 64 128) (\<lambda>sig.
          case cf_Ecrecover cf h (sig @ [v]) of
            None \<Rightarrow> Ret []
          | Some pubKey \<Rightarrow> go_bind (go_slice pubKey 1 (int (length pubKey))) (\<lambda>key.
              go_bind (go_slice (Hash_Bytes (se_Keccak env key)) 12 32) (\<lambda>a. Ret (LeftPadBytes a 32))))))))))"

fun precompile_Run :: "state_env \<Rightarrow> crypto_fns \<Rightarrow> PrecompiledContract \<Rightarrow> bytes \<Rightarrow> bytes go" where
  "precompile_Run env cf Ecrecover input = ecrecover_Run env cf input"
| "precompile_Run env cf Sha256hash input = Ret (cf_Sha256 cf input)"
| "precompile_Run env cf Ripemd160hash input = Ret (LeftPadBytes (cf_Ripemd160 cf input) 32)"
| "precompile_Run env cf DataCopy input = Ret input"

definition RunPrecompiledContract ::
  "state_env \<Rightarrow> crypto_fns \<Rightarrow> PrecompiledContract \<Rightarrow> bytes \<Rightarrow> Contract \<Rightarrow> (Contract \<times> bytes \<times> vm_error option) go" where
  "RunPrecompiledContract env cf p input contract =
     (case UseGas contract (RequiredGas p input) of (contract, ok) \<Rightarrow>
       if ok then go_bind (precompile_Run env cf p input) (\<lambda>ret. Ret (contract, ret, None))
       else Ret (contract, [], Some ErrOutOfGas))"

section \<open>Contract addresses\<close>

definition Address_Bytes :: "address \<Rightarrow> bytes" where
  "Address_Bytes a = be_bytes 20 (uint a)"

text \<open>The error of the encoder is ignored by the code; the data is then nil.\<close>

definition CreateAddress :: "state_env \<Rightarrow> address \<Rightarrow> uint64 \<Rightarrow> bytes \<Rightarrow> address go" where
  "CreateAddress env b nonce payload =
     go_bind (EncodeToBytes (VList [VBytes (Address_Bytes b), VUint nonce, VBytes payload])) (\<lambda>r.
       let data = (case r of Inl e \<Rightarrow> [] | Inr d \<Rightarrow> d) in
       go_bind (go_slice (Hash_Bytes (se_Keccak env data)) 12 32) (\<lambda>h. Ret (BytesToAddress h)))"

section \<open>The call operations\<close>

type_synonym run_result = "(EVM \<times> Contract \<times> bytes \<times> vm_error option) go"
type_synonym interp = "EVM \<Rightarrow> Contract \<Rightarrow> bytes \<Rightarrow> run_result"
type_synonym call_result = "(EVM \<times> bytes \<times> uint64 \<times> vm_error option) go"

definition evm_Reset :: "EVM \<Rightarrow> address \<Rightarrow> int \<Rightarrow> EVM" where
  "evm_Reset evm origin price =
     evm\<lparr>evm_depth := 0, evm_abort := False, evm_callGasTemp := 0,
         evm_ctx := (evm_ctx evm)\<lparr>ctx_Origin := origin, ctx_GasPrice := price\<rparr>,
         evm_readOnly := False, evm_returnData := []\<rparr>"

definition evm_Cancel :: "EVM \<Rightarrow> EVM" where
  "evm_Cancel evm = evm\<lparr>evm_abort := True\<rparr>"

text \<open>\<^verbatim>\<open>run\<close> of \<^verbatim>\<open>evm.go\<close>; the parameter is \<^verbatim>\<open>evm.interpreter.Run\<close>.\<close>

definition vm_run :: "interp \<Rightarrow> interp" where
  "vm_run intp evm contract input =
     (case (case c_CodeAddr contract of None \<Rightarrow> None | Some a \<Rightarrow> PrecompiledContractsHomestead a) of
        Some p \<Rightarrow> go_bind (RunPrecompiledContract (evm_env evm) (evm_crypto evm) p input contract) (\<lambda>(contract, ret, err).
                   Ret (evm, contract, ret, err))
      | None \<Rightarrow> intp evm contract input)"

definition evm_Snapshot :: "EVM \<Rightarrow> EVM \<times> int" where
  "evm_Snapshot evm = (case Snapshot (evm_StateDB evm) of (s, i) \<Rightarrow> (evm\<lparr>evm_StateDB := s\<rparr>, i))"

definition on_state :: "EVM \<Rightarrow> (state_env \<Rightarrow> StateDB \<Rightarrow> StateDB) \<Rightarrow> EVM" where
  "on_state evm f = evm\<lparr>evm_StateDB := f (evm_env evm) (evm_StateDB evm)\<rparr>"

definition evm_Transfer :: "EVM \<Rightarrow> address \<Rightarrow> address \<Rightarrow> int \<Rightarrow> EVM" where
  "evm_Transfer evm a b v = on_state evm (\<lambda>env s. Transfer env s a b v)"

text \<open>\<^verbatim>\<open>SetCallCode(&addr, GetCodeHash(addr), GetCode(addr))\<close>.\<close>

definition with_code_of :: "EVM \<Rightarrow> Contract \<Rightarrow> address \<Rightarrow> Contract" where
  "with_code_of evm contract addr =
     SetCallCode contract addr (GetCodeHash (evm_StateDB evm) addr) (GetCode (evm_env evm) (evm_StateDB evm) addr)"

text \<open>Whether a transfer of \<open>v\<close> to this contract pays the transfer fee.\<close>

definition isFeeUpdate :: "EVM \<Rightarrow> Contract \<Rightarrow> int \<Rightarrow> bool" where
  "isFeeUpdate evm contract v =
     (let blockTime = Big_Uint64 (ctx_Time (evm_ctx evm)); feeUpdateTime = cfg_FeeUpdateTime (evm_cfg evm) in
      feeUpdateTime \<noteq> 0 \<and> blockTime \<ge> feeUpdateTime \<and> length (c_Code contract) > 0 \<and> v > 0)"

text \<open>What follows an error: back to the snapshot, and all gas is consumed unless the code reverted; a
  fee that was charged is then given back.\<close>

definition undo_call :: "EVM \<Rightarrow> Contract \<Rightarrow> int \<Rightarrow> vm_error \<Rightarrow> bool \<Rightarrow> uint64 \<Rightarrow> (EVM \<times> Contract) go" where
  "undo_call evm contract snapshot err feeUpdate totalFee =
     go_bind (RevertToSnapshot (evm_StateDB evm) snapshot) (\<lambda>s.
       Ret (evm\<lparr>evm_StateDB := s\<rparr>,
            if err \<noteq> errExecutionReverted then fst (UseGas contract (c_Gas contract))
            else if feeUpdate then contract\<lparr>c_Gas := c_Gas contract + totalFee\<rparr> else contract))"

definition end_call :: "int \<Rightarrow> bool \<Rightarrow> uint64 \<Rightarrow> run_result \<Rightarrow> call_result" where
  "end_call snapshot feeUpdate totalFee r =
     go_bind r (\<lambda>(evm, contract, ret, err).
       case err of
         None \<Rightarrow> Ret (evm, ret, c_Gas contract, None)
       | Some e \<Rightarrow> go_bind (undo_call evm contract snapshot e feeUpdate totalFee) (\<lambda>(evm, contract).
           Ret (evm, ret, c_Gas contract, Some e)))"

text \<open>\<^verbatim>\<open>Call\<close> from the new contract on: the fee, the transfer and the run.\<close>

definition call_contract :: "interp \<Rightarrow> EVM \<Rightarrow> address \<Rightarrow> Contract \<Rightarrow> bytes \<Rightarrow> int \<Rightarrow> int \<Rightarrow> call_result" where
  "call_contract intp evm caller contract input v snapshot =
     (let feeUpdate = isFeeUpdate evm contract v; totalFee = (if feeUpdate then CalNewFee v else 0) in
      case (if feeUpdate then UseGas contract totalFee else (contract, True)) of (contract, ok) \<Rightarrow>
        if \<not> ok then (case UseGas contract (c_Gas contract) of (contract, _) \<Rightarrow>
          Ret (evm, [], c_Gas contract, Some ErrOutOfGas))
        else end_call snapshot feeUpdate totalFee
               (vm_run intp (evm_Transfer evm caller (c_self contract) v) contract input))"

definition evm_Call :: "interp \<Rightarrow> EVM \<Rightarrow> ContractRef \<Rightarrow> address \<Rightarrow> bytes \<Rightarrow> uint64 \<Rightarrow> int \<Rightarrow> call_result" where
  "evm_Call intp evm caller addr input gas v =
     (if cfg_NoRecursion (evm_cfg evm) \<and> evm_depth evm > 0 then Ret (evm, [], gas, None)
      else if evm_depth evm > int CallCreateDepth then Ret (evm, [], gas, Some ErrDepth)
      else if \<not> CanTransfer (evm_StateDB evm) (ref_Address caller) v then Ret (evm, [], gas, Some ErrInsufficientBalance)
      else case evm_Snapshot evm of (evm, snapshot) \<Rightarrow>
        if \<not> Exist (evm_StateDB evm) addr \<and> PrecompiledContractsHomestead addr = None \<and> v = 0 then Ret (evm, [], gas, None)
        else let evm = (if \<not> Exist (evm_StateDB evm) addr then on_state evm (\<lambda>env s. CreateAccount env s addr) else evm);
                 contract = with_code_of evm (NewContract caller addr v gas) addr in
             call_contract intp evm (ref_Address caller) contract input v snapshot)"

definition evm_CallCode :: "interp \<Rightarrow> EVM \<Rightarrow> ContractRef \<Rightarrow> address \<Rightarrow> bytes \<Rightarrow> uint64 \<Rightarrow> int \<Rightarrow> call_result" where
  "evm_CallCode intp evm caller addr input gas v =
     (if cfg_NoRecursion (evm_cfg evm) \<and> evm_depth evm > 0 then Ret (evm, [], gas, None)
      else if evm_depth evm > int CallCreateDepth then Ret (evm, [], gas, Some ErrDepth)
      else if \<not> CanTransfer (evm_StateDB evm) (ref_Address caller) v then Ret (evm, [], gas, Some ErrInsufficientBalance)
      else case evm_Snapshot evm of (evm, snapshot) \<Rightarrow>
        let contract = with_code_of evm (NewContract caller (ref_Address caller) v gas) addr in
        end_call snapshot False 0 (vm_run intp evm contract input))"

text \<open>\<^verbatim>\<open>NewContract(caller, to, nil, gas).AsDelegate()\<close>: the value is overwritten at once.\<close>

definition evm_DelegateCall :: "interp \<Rightarrow> EVM \<Rightarrow> ContractRef \<Rightarrow> address \<Rightarrow> bytes \<Rightarrow> uint64 \<Rightarrow> call_result" where
  "evm_DelegateCall intp evm caller addr input gas =
     (if cfg_NoRecursion (evm_cfg evm) \<and> evm_depth evm > 0 then Ret (evm, [], gas, None)
      else if evm_depth evm > int CallCreateDepth then Ret (evm, [], gas, Some ErrDepth)
      else case evm_Snapshot evm of (evm, snapshot) \<Rightarrow>
        go_bind (AsDelegate (NewContract caller (ref_Address caller) 0 gas)) (\<lambda>contract.
          let contract = with_code_of evm contract addr in
          end_call snapshot False 0 (vm_run intp evm contract input)))"

text \<open>The deferred reset of \<^verbatim>\<open>readOnly\<close> is applied to the machine that the call returns.\<close>

definition evm_StaticCall :: "interp \<Rightarrow> EVM \<Rightarrow> ContractRef \<Rightarrow> address \<Rightarrow> bytes \<Rightarrow> uint64 \<Rightarrow> call_result" where
  "evm_StaticCall intp evm caller addr input gas =
     (if cfg_NoRecursion (evm_cfg evm) \<and> evm_depth evm > 0 then Ret (evm, [], gas, None)
      else if evm_depth evm > int CallCreateDepth then Ret (evm, [], gas, Some ErrDepth)
      else let outer = evm_readOnly evm; evm = evm\<lparr>evm_readOnly := True\<rparr> in
        case evm_Snapshot evm of (evm, snapshot) \<Rightarrow>
          let contract = with_code_of evm (NewContract caller addr 0 gas) addr in
          go_bind (end_call snapshot False 0 (vm_run intp evm contract input)) (\<lambda>(evm, ret, gas, err).
            Ret (if outer then evm else evm\<lparr>evm_readOnly := False\<rparr>, ret, gas, err)))"

type_synonym create_result = "(EVM \<times> bytes \<times> address \<times> uint64 \<times> vm_error option) go"

text \<open>\<^verbatim>\<open>Create\<close> after the run: the code is stored, or the creation is undone.\<close>

definition end_create :: "address \<Rightarrow> int \<Rightarrow> bool \<Rightarrow> uint64 \<Rightarrow> run_result \<Rightarrow> create_result" where
  "end_create contractAddr snapshot feeUpdate totalFee r =
     go_bind r (\<lambda>(evm, contract, ret, err).
       let maxCodeSizeExceeded = length ret > MaxCodeSize;
           createDataGas = word_of_nat (length ret) * CreateDataGas in
       case (if err = None \<and> \<not> maxCodeSizeExceeded
             then (case UseGas contract createDataGas of (contract, ok) \<Rightarrow>
               if ok then (on_state evm (\<lambda>env s. SetCode env s contractAddr ret), contract, None)
               else (evm, contract, Some ErrCodeStoreOutOfGas))
             else (evm, contract, err)) of (evm, contract, err) \<Rightarrow>
       go_bind (if maxCodeSizeExceeded \<or> err \<noteq> None
                then undo_call evm contract snapshot (case err of None \<Rightarrow> errMaxCodeSizeExceeded | Some e \<Rightarrow> e) feeUpdate totalFee
                else Ret (evm, contract)) (\<lambda>(evm, contract).
         Ret (evm, ret, contractAddr, c_Gas contract,
              if maxCodeSizeExceeded \<and> err = None then Some errMaxCodeSizeExceeded else err)))"

definition create_contract :: "interp \<Rightarrow> EVM \<Rightarrow> ContractRef \<Rightarrow> address \<Rightarrow> bytes \<Rightarrow> uint64 \<Rightarrow> int \<Rightarrow> create_result" where
  "create_contract intp evm caller contractAddr code gas v =
     (case evm_Snapshot evm of (evm, snapshot) \<Rightarrow>
       let evm = on_state evm (\<lambda>env s. SetNonce env (CreateAccount env s contractAddr) contractAddr 1);
           contract = SetCallCode (NewContract caller contractAddr v gas) contractAddr (se_Keccak (evm_env evm) code) code;
           feeUpdate = isFeeUpdate evm contract v; totalFee = (if feeUpdate then CalNewFee v else 0) in
       case (if feeUpdate then UseGas contract totalFee else (contract, True)) of (contract, ok) \<Rightarrow>
         if \<not> ok then (case UseGas contract (c_Gas contract) of (contract, _) \<Rightarrow>
           Ret (evm, [], contractAddr, c_Gas contract, Some ErrOutOfGas))
         else let evm = evm_Transfer evm (ref_Address caller) contractAddr v in
           if cfg_NoRecursion (evm_cfg evm) \<and> evm_depth evm > 0 then Ret (evm, [], contractAddr, gas, None)
           else end_create contractAddr snapshot feeUpdate totalFee (vm_run intp evm contract []))"

definition evm_Create :: "interp \<Rightarrow> EVM \<Rightarrow> ContractRef \<Rightarrow> bytes \<Rightarrow> uint64 \<Rightarrow> int \<Rightarrow> create_result" where
  "evm_Create intp evm caller code gas v =
     (if evm_depth evm > int CallCreateDepth then Ret (evm, [], 0, gas, Some ErrDepth)
      else if \<not> CanTransfer (evm_StateDB evm) (ref_Address caller) v then Ret (evm, [], 0, gas, Some ErrInsufficientBalance)
      else let nonce = GetNonce (evm_StateDB evm) (ref_Address caller);
               evm = on_state evm (\<lambda>env s. SetNonce env s (ref_Address caller) (nonce + 1)) in
        go_bind (CreateAddress (evm_env evm) (ref_Address caller) nonce code) (\<lambda>contractAddr.
          let contractHash = GetCodeHash (evm_StateDB evm) contractAddr in
          if GetNonce (evm_StateDB evm) contractAddr \<noteq> 0 \<or>
             contractHash \<noteq> 0 \<and> contractHash \<noteq> emptyCodeHash (evm_env evm)
          then Ret (evm, [], 0, 0, Some ErrContractAddressCollision)
          else create_contract intp evm caller contractAddr code gas v))"

end
