(* ===== verification/Evm_Instructions.thy ===== *)
theory Evm_Instructions
  imports Evm_Calls
begin

text \<open>
  The instructions of \<^verbatim>\<open>core/vm/instructions.go\<close>, one definition per function. An instruction gets the
  machine and the frame (program counter, contract, memory, stack) and returns both with the return
  data and an error. \<open>pop_then\<close> and \<open>peek_then\<close> are the pops and the peek at the head of an
  instruction; an operand updated in place after a peek is written by \<open>put_top\<close>. The first parameter of
  an instruction is the interpreter that the call instructions run.
\<close>

record frame =
  fr_pc :: uint64
  fr_contract :: Contract
  fr_mem :: Memory
  fr_stack :: Stack

type_synonym op_result = "(EVM \<times> frame \<times> bytes \<times> vm_error option) go"
type_synonym executionFunc = "interp \<Rightarrow> EVM \<Rightarrow> frame \<Rightarrow> op_result"

definition pop_then :: "frame \<Rightarrow> (int \<Rightarrow> frame \<Rightarrow> 'a go) \<Rightarrow> 'a go" where
  "pop_then fr k = go_bind (pop (fr_stack fr)) (\<lambda>(x, st). k x (fr\<lparr>fr_stack := st\<rparr>))"

definition peek_then :: "frame \<Rightarrow> (int \<Rightarrow> 'a go) \<Rightarrow> 'a go" where
  "peek_then fr k = go_bind (peek (fr_stack fr)) k"

definition put_top :: "frame \<Rightarrow> int \<Rightarrow> frame" where
  "put_top fr x = fr\<lparr>fr_stack := set_top (fr_stack fr) x\<rparr>"

definition push_fr :: "frame \<Rightarrow> int \<Rightarrow> frame" where
  "push_fr fr x = fr\<lparr>fr_stack := push (fr_stack fr) x\<rparr>"

definition done_op :: "EVM \<Rightarrow> frame \<Rightarrow> op_result" where
  "done_op evm fr = Ret (evm, fr, [], None)"

text \<open>\<^verbatim>\<open>SetUint64(1)\<close> and \<^verbatim>\<open>SetUint64(0)\<close> after a comparison.\<close>

definition flag :: "bool \<Rightarrow> int" where
  "flag b = (if b then 1 else 0)"

section \<open>Arithmetic, comparison and bits\<close>

definition opAdd :: executionFunc where
  "opAdd intp evm fr = pop_then fr (\<lambda>x fr. peek_then fr (\<lambda>y. done_op evm (put_top fr (U256 (x + y)))))"

definition opSub :: executionFunc where
  "opSub intp evm fr = pop_then fr (\<lambda>x fr. peek_then fr (\<lambda>y. done_op evm (put_top fr (U256 (x - y)))))"

definition opMul :: executionFunc where
  "opMul intp evm fr = pop_then fr (\<lambda>x fr. pop_then fr (\<lambda>y fr. done_op evm (push_fr fr (U256 (x * y)))))"

definition opDiv :: executionFunc where
  "opDiv intp evm fr = pop_then fr (\<lambda>x fr. peek_then fr (\<lambda>y.
     done_op evm (put_top fr (if y \<noteq> 0 then U256 (Big_Div x y) else 0))))"

definition opSdiv :: executionFunc where
  "opSdiv intp evm fr = pop_then fr (\<lambda>x fr. pop_then fr (\<lambda>y fr.
     let x = S256 x; y = S256 y in
     done_op evm (push_fr fr
       (if y = 0 \<or> x = 0 then 0
        else U256 (if sgn x \<noteq> sgn y then - (Big_Div \<bar>x\<bar> \<bar>y\<bar>) else Big_Div \<bar>x\<bar> \<bar>y\<bar>)))))"

definition opMod :: executionFunc where
  "opMod intp evm fr = pop_then fr (\<lambda>x fr. pop_then fr (\<lambda>y fr.
     done_op evm (push_fr fr (if y = 0 then 0 else U256 (Big_Mod x y)))))"

definition opSmod :: executionFunc where
  "opSmod intp evm fr = pop_then fr (\<lambda>x fr. pop_then fr (\<lambda>y fr.
     let x = S256 x; y = S256 y in
     done_op evm (push_fr fr
       (if y = 0 then 0 else U256 (if x < 0 then - (Big_Mod \<bar>x\<bar> \<bar>y\<bar>) else Big_Mod \<bar>x\<bar> \<bar>y\<bar>)))))"

definition opExp :: executionFunc where
  "opExp intp evm fr = pop_then fr (\<lambda>base fr. pop_then fr (\<lambda>exponent fr.
     done_op evm (push_fr fr (Exp base exponent))))"

definition opSignExtend :: executionFunc where
  "opSignExtend intp evm fr = pop_then fr (\<lambda>back fr.
     if back < 31
     then let bt = unat (Big_Uint64 back * 8 + 7) in
       pop_then fr (\<lambda>num fr.
         let mask = push_bit bt 1 - 1 in
         done_op evm (push_fr fr (U256 (if bit num bt then num OR NOT mask else num AND mask))))
     else done_op evm fr)"

definition opNot :: executionFunc where
  "opNot intp evm fr = peek_then fr (\<lambda>x. done_op evm (put_top fr (U256 (NOT x))))"

definition opLt :: executionFunc where
  "opLt intp evm fr = pop_then fr (\<lambda>x fr. peek_then fr (\<lambda>y. done_op evm (put_top fr (flag (x < y)))))"

definition opGt :: executionFunc where
  "opGt intp evm fr = pop_then fr (\<lambda>x fr. peek_then fr (\<lambda>y. done_op evm (put_top fr (flag (x > y)))))"

definition opSlt :: executionFunc where
  "opSlt intp evm fr = pop_then fr (\<lambda>x fr. peek_then fr (\<lambda>y.
     done_op evm (put_top fr
       (if x \<ge> tt255 \<and> y < tt255 then 1 else if x < tt255 \<and> y \<ge> tt255 then 0 else flag (x < y)))))"

definition opSgt :: executionFunc where
  "opSgt intp evm fr = pop_then fr (\<lambda>x fr. peek_then fr (\<lambda>y.
     done_op evm (put_top fr
       (if x \<ge> tt255 \<and> y < tt255 then 0 else if x < tt255 \<and> y \<ge> tt255 then 1 else flag (x > y)))))"

definition opEq :: executionFunc where
  "opEq intp evm fr = pop_then fr (\<lambda>x fr. peek_then fr (\<lambda>y. done_op evm (put_top fr (flag (x = y)))))"

definition opIszero :: executionFunc where
  "opIszero intp evm fr = peek_then fr (\<lambda>x. done_op evm (put_top fr (if x > 0 then 0 else 1)))"

definition opAnd :: executionFunc where
  "opAnd intp evm fr = pop_then fr (\<lambda>x fr. pop_then fr (\<lambda>y fr. done_op evm (push_fr fr (x AND y))))"

definition opOr :: executionFunc where
  "opOr intp evm fr = pop_then fr (\<lambda>x fr. peek_then fr (\<lambda>y. done_op evm (put_top fr (x OR y))))"

definition opXor :: executionFunc where
  "opXor intp evm fr = pop_then fr (\<lambda>x fr. peek_then fr (\<lambda>y. done_op evm (put_top fr (x XOR y))))"

definition opByte :: executionFunc where
  "opByte intp evm fr = pop_then fr (\<lambda>th fr. peek_then fr (\<lambda>v.
     done_op evm (put_top fr (if th < 32 then uint (Byte v 32 (nat (Big_Int64 th))) else 0))))"

definition opAddmod :: executionFunc where
  "opAddmod intp evm fr = pop_then fr (\<lambda>x fr. pop_then fr (\<lambda>y fr. pop_then fr (\<lambda>z fr.
     done_op evm (push_fr fr (if z > 0 then U256 (Big_Mod (x + y) z) else 0)))))"

definition opMulmod :: executionFunc where
  "opMulmod intp evm fr = pop_then fr (\<lambda>x fr. pop_then fr (\<lambda>y fr. pop_then fr (\<lambda>z fr.
     done_op evm (push_fr fr (if z > 0 then U256 (Big_Mod (x * y) z) else 0)))))"

definition opSHL :: executionFunc where
  "opSHL intp evm fr = pop_then fr (\<lambda>s fr. peek_then fr (\<lambda>v.
     let shift = U256 s; v = U256 v in
     done_op evm (put_top fr (if shift \<ge> Big256 then 0 else U256 (push_bit (unat (Big_Uint64 shift)) v)))))"

definition opSHR :: executionFunc where
  "opSHR intp evm fr = pop_then fr (\<lambda>s fr. peek_then fr (\<lambda>v.
     let shift = U256 s; v = U256 v in
     done_op evm (put_top fr (if shift \<ge> Big256 then 0 else U256 (drop_bit (unat (Big_Uint64 shift)) v)))))"

definition opSAR :: executionFunc where
  "opSAR intp evm fr = pop_then fr (\<lambda>s fr. pop_then fr (\<lambda>v fr.
     let shift = U256 s; v = S256 v in
     done_op evm (push_fr fr
       (if shift \<ge> Big256 then U256 (if v > 0 then 0 else - 1) else U256 (drop_bit (unat (Big_Uint64 shift)) v)))))"

section \<open>Hashing, environment and block\<close>

definition opSha3 :: executionFunc where
  "opSha3 intp evm fr = pop_then fr (\<lambda>offset fr. pop_then fr (\<lambda>sz fr.
     go_bind (Memory_Get (fr_mem fr) (Big_Int64 offset) (Big_Int64 sz)) (\<lambda>data.
       let h = se_Keccak (evm_env evm) data;
           evm = (if cfg_EnablePreimageRecording (evm_cfg evm)
                  then evm\<lparr>evm_StateDB := AddPreimage (evm_StateDB evm) h data\<rparr> else evm) in
       done_op evm (push_fr fr (uint h)))))"

definition opAddress :: executionFunc where
  "opAddress intp evm fr = done_op evm (push_fr fr (uint (c_self (fr_contract fr))))"

definition opBalance :: executionFunc where
  "opBalance intp evm fr = peek_then fr (\<lambda>slot. done_op evm (put_top fr (GetBalance (evm_StateDB evm) (BigToAddress slot))))"

definition opOrigin :: executionFunc where
  "opOrigin intp evm fr = done_op evm (push_fr fr (uint (ctx_Origin (evm_ctx evm))))"

definition opCaller :: executionFunc where
  "opCaller intp evm fr = done_op evm (push_fr fr (uint (c_CallerAddress (fr_contract fr))))"

definition opCallValue :: executionFunc where
  "opCallValue intp evm fr = done_op evm (push_fr fr (c_value (fr_contract fr)))"

definition opCallDataLoad :: executionFunc where
  "opCallDataLoad intp evm fr = pop_then fr (\<lambda>off fr.
     go_bind (getDataBig (c_Input (fr_contract fr)) off 32) (\<lambda>d. done_op evm (push_fr fr (be_int d))))"

definition opCallDataSize :: executionFunc where
  "opCallDataSize intp evm fr = done_op evm (push_fr fr (int (length (c_Input (fr_contract fr)))))"

text \<open>\<^verbatim>\<open>memory.Set(memOffset.Uint64(), length.Uint64(), data)\<close>.\<close>

definition mem_store_at :: "frame \<Rightarrow> int \<Rightarrow> int \<Rightarrow> bytes \<Rightarrow> frame go" where
  "mem_store_at fr memOffset len data =
     go_bind (Memory_Set (fr_mem fr) (Big_Uint64 memOffset) (Big_Uint64 len) data) (\<lambda>m. Ret (fr\<lparr>fr_mem := m\<rparr>))"

definition opCallDataCopy :: executionFunc where
  "opCallDataCopy intp evm fr = pop_then fr (\<lambda>memOffset fr. pop_then fr (\<lambda>dataOffset fr. pop_then fr (\<lambda>len fr.
     go_bind (getDataBig (c_Input (fr_contract fr)) dataOffset len) (\<lambda>d.
     go_bind (mem_store_at fr memOffset len d) (done_op evm)))))"

definition opReturnDataSize :: executionFunc where
  "opReturnDataSize intp evm fr = done_op evm (push_fr fr (int (length (evm_returnData evm))))"

definition opReturnDataCopy :: executionFunc where
  "opReturnDataCopy intp evm fr = pop_then fr (\<lambda>memOffset fr. pop_then fr (\<lambda>dataOffset fr. pop_then fr (\<lambda>len fr.
     let e = dataOffset + len in
     if BitLen e > 64 \<or> word_of_nat (length (evm_returnData evm)) < Big_Uint64 e
     then Ret (evm, fr, [], Some errReturnDataOutOfBounds)
     else go_bind (go_slice (evm_returnData evm) (uint (Big_Uint64 dataOffset)) (uint (Big_Uint64 e))) (\<lambda>d.
       go_bind (mem_store_at fr memOffset len d) (done_op evm)))))"

definition opExtCodeSize :: executionFunc where
  "opExtCodeSize intp evm fr = peek_then fr (\<lambda>slot.
     done_op evm (put_top fr (int (GetCodeSize (evm_env evm) (evm_StateDB evm) (BigToAddress slot)))))"

definition opCodeSize :: executionFunc where
  "opCodeSize intp evm fr = done_op evm (push_fr fr (int (length (c_Code (fr_contract fr)))))"

definition opCodeCopy :: executionFunc where
  "opCodeCopy intp evm fr = pop_then fr (\<lambda>memOffset fr. pop_then fr (\<lambda>codeOffset fr. pop_then fr (\<lambda>len fr.
     go_bind (getDataBig (c_Code (fr_contract fr)) codeOffset len) (\<lambda>codeCopy.
     go_bind (mem_store_at fr memOffset len codeCopy) (done_op evm)))))"

definition opExtCodeCopy :: executionFunc where
  "opExtCodeCopy intp evm fr = pop_then fr (\<lambda>addr fr. pop_then fr (\<lambda>memOffset fr. pop_then fr (\<lambda>codeOffset fr. pop_then fr (\<lambda>len fr.
     go_bind (getDataBig (GetCode (evm_env evm) (evm_StateDB evm) (BigToAddress addr)) codeOffset len) (\<lambda>codeCopy.
     go_bind (mem_store_at fr memOffset len codeCopy) (done_op evm))))))"

definition opGasprice :: executionFunc where
  "opGasprice intp evm fr = done_op evm (push_fr fr (ctx_GasPrice (evm_ctx evm)))"

definition opBlockhash :: executionFunc where
  "opBlockhash intp evm fr = pop_then fr (\<lambda>num fr.
     let n = ctx_BlockNumber (evm_ctx evm) - Big257 in
     done_op evm (push_fr fr
       (if num > n \<and> num < ctx_BlockNumber (evm_ctx evm) then uint (ctx_GetHash (evm_ctx evm) (Big_Uint64 num)) else 0)))"

definition opCoinbase :: executionFunc where
  "opCoinbase intp evm fr = done_op evm (push_fr fr (uint (ctx_Coinbase (evm_ctx evm))))"

definition opTimestamp :: executionFunc where
  "opTimestamp intp evm fr = done_op evm (push_fr fr (U256 (ctx_Time (evm_ctx evm))))"

definition opNumber :: executionFunc where
  "opNumber intp evm fr = done_op evm (push_fr fr (U256 (ctx_BlockNumber (evm_ctx evm))))"

definition opDifficulty :: executionFunc where
  "opDifficulty intp evm fr = done_op evm (push_fr fr (U256 (ctx_Difficulty (evm_ctx evm))))"

definition opGasLimit :: executionFunc where
  "opGasLimit intp evm fr = done_op evm (push_fr fr (U256 (uint (ctx_GasLimit (evm_ctx evm)))))"

section \<open>Stack, memory, storage and jumps\<close>

definition opPop :: executionFunc where
  "opPop intp evm fr = pop_then fr (\<lambda>x fr. done_op evm fr)"

definition opMload :: executionFunc where
  "opMload intp evm fr = pop_then fr (\<lambda>offset fr.
     go_bind (Memory_Get (fr_mem fr) (Big_Int64 offset) 32) (\<lambda>v. done_op evm (push_fr fr (be_int v))))"

definition opMstore :: executionFunc where
  "opMstore intp evm fr = pop_then fr (\<lambda>mStart fr. pop_then fr (\<lambda>v fr.
     go_bind (Memory_Set32 (fr_mem fr) (Big_Uint64 mStart) v) (\<lambda>m. done_op evm (fr\<lparr>fr_mem := m\<rparr>))))"

definition opMstore8 :: executionFunc where
  "opMstore8 intp evm fr = pop_then fr (\<lambda>off fr. pop_then fr (\<lambda>v fr.
     go_bind (slice_set (mem_store (fr_mem fr)) (Big_Int64 off) (word_of_int (Big_Int64 v AND 0xff))) (\<lambda>st.
       done_op evm (fr\<lparr>fr_mem := (fr_mem fr)\<lparr>mem_store := st\<rparr>\<rparr>))))"

definition opSload :: executionFunc where
  "opSload intp evm fr = peek_then fr (\<lambda>loc.
     done_op evm (put_top fr (uint (GetState (evm_env evm) (evm_StateDB evm) (c_self (fr_contract fr)) (BigToHash loc)))))"

definition opSstore :: executionFunc where
  "opSstore intp evm fr = pop_then fr (\<lambda>loc fr. pop_then fr (\<lambda>v fr.
     done_op (on_state evm (\<lambda>env s. SetState env s (c_self (fr_contract fr)) (BigToHash loc) (BigToHash v))) fr))"

definition jump_to :: "EVM \<Rightarrow> frame \<Rightarrow> int \<Rightarrow> op_result" where
  "jump_to evm fr pos =
     go_bind (has_dest (c_Code (fr_contract fr)) pos) (\<lambda>ok.
       if \<not> ok then Ret (evm, fr, [], Some errInvalidJump)
       else done_op evm (fr\<lparr>fr_pc := Big_Uint64 pos\<rparr>))"

definition opJump :: executionFunc where
  "opJump intp evm fr = pop_then fr (\<lambda>pos fr. jump_to evm fr pos)"

definition opJumpi :: executionFunc where
  "opJumpi intp evm fr = pop_then fr (\<lambda>pos fr. pop_then fr (\<lambda>cond fr.
     if cond \<noteq> 0 then jump_to evm fr pos else done_op evm (fr\<lparr>fr_pc := fr_pc fr + 1\<rparr>)))"

definition opJumpdest :: executionFunc where
  "opJumpdest intp evm fr = done_op evm fr"

definition opPc :: executionFunc where
  "opPc intp evm fr = done_op evm (push_fr fr (uint (fr_pc fr)))"

definition opMsize :: executionFunc where
  "opMsize intp evm fr = done_op evm (push_fr fr (int (Memory_Len (fr_mem fr))))"

definition opGas :: executionFunc where
  "opGas intp evm fr = done_op evm (push_fr fr (uint (c_Gas (fr_contract fr))))"

section \<open>Calls\<close>

definition add_gas :: "frame \<Rightarrow> uint64 \<Rightarrow> frame" where
  "add_gas fr gas = fr\<lparr>fr_contract := (fr_contract fr)\<lparr>c_Gas := c_Gas (fr_contract fr) + gas\<rparr>\<rparr>"

definition opCreate :: executionFunc where
  "opCreate intp evm fr = pop_then fr (\<lambda>v fr. pop_then fr (\<lambda>offset fr. pop_then fr (\<lambda>sz fr.
     go_bind (Memory_Get (fr_mem fr) (Big_Int64 offset) (Big_Int64 sz)) (\<lambda>input.
       let gas = c_Gas (fr_contract fr);
           fr = fr\<lparr>fr_contract := fst (UseGas (fr_contract fr) gas)\<rparr> in
       go_bind (evm_Create intp evm (contract_ref (fr_contract fr)) input gas v) (\<lambda>(evm, res, addr, returnGas, suberr).
         let fr = push_fr fr (if suberr = Some ErrCodeStoreOutOfGas then 0 else if suberr \<noteq> None then 0 else uint addr);
             fr = add_gas fr returnGas in
         Ret (evm, fr, if suberr = Some errExecutionReverted then res else [], None))))))"

text \<open>The record of a successful internal call, as \<^verbatim>\<open>opCall\<close> puts it into the batch.\<close>

definition contract_tx :: "EVM \<Rightarrow> address \<Rightarrow> address \<Rightarrow> int \<Rightarrow> LKTransaction" where
  "contract_tx evm src dst v =
     \<lparr>lkx_Type = ContractTxType, lkx_ETx = None,
      lkx_CTx = Some \<lparr>ctx_TxHash = sdb_thash (evm_StateDB evm), ctx_From = src, ctx_To = dst, ctx_Value = v,
        ctx_Index = 0, ctx_BlockNum = None\<rparr>, lkx_STx = None, lkx_Sign = []\<rparr>"

definition suicide_tx :: "EVM \<Rightarrow> address \<Rightarrow> address \<Rightarrow> int \<Rightarrow> LKTransaction" where
  "suicide_tx evm src dst v =
     \<lparr>lkx_Type = SuicideTxType, lkx_ETx = None, lkx_CTx = None,
      lkx_STx = Some \<lparr>stx_TxHash = sdb_thash (evm_StateDB evm), stx_From = src, stx_To = dst, stx_Target = dst,
        stx_Index = 0, stx_Value = v, stx_BlockNum = None\<rparr>, lkx_Sign = []\<rparr>"

text \<open>\<^verbatim>\<open>if evm.tb != nil { evm.tb.Put(&lkx) }\<close>; an error of \<^verbatim>\<open>Put\<close> is only logged.\<close>

definition tb_put :: "EVM \<Rightarrow> LKTransaction \<Rightarrow> EVM go" where
  "tb_put evm lkx =
     (case evm_tb evm of None \<Rightarrow> Ret evm
      | Some tb \<Rightarrow> go_bind (TxBatch_Put (evm_jh evm) (evm_lkdb evm) tb lkx) (\<lambda>(g, tb, err).
          Ret (evm\<lparr>evm_tb := Some tb, evm_lkdb := g\<rparr>)))"

text \<open>The end of the four call instructions: the return data goes to the memory if the call succeeded or
  reverted, and the gas comes back.\<close>

definition end_call_op :: "EVM \<Rightarrow> frame \<Rightarrow> int \<Rightarrow> int \<Rightarrow> bytes \<Rightarrow> uint64 \<Rightarrow> vm_error option \<Rightarrow> op_result" where
  "end_call_op evm fr retOffset retSize ret returnGas err =
     go_bind (if err = None \<or> err = Some errExecutionReverted then mem_store_at fr retOffset retSize ret else Ret fr) (\<lambda>fr.
       Ret (evm, add_gas fr returnGas, ret, None))"

definition opCall :: executionFunc where
  "opCall intp evm fr = pop_then fr (\<lambda>_ fr.
     pop_then fr (\<lambda>addr fr. pop_then fr (\<lambda>v fr. pop_then fr (\<lambda>inOffset fr.
     pop_then fr (\<lambda>inSize fr. pop_then fr (\<lambda>retOffset fr. pop_then fr (\<lambda>retSize fr.
       let gas = evm_callGasTemp evm; toAddr = BigToAddress addr; v = U256 v in
       go_bind (Memory_Get (fr_mem fr) (Big_Int64 inOffset) (Big_Int64 inSize)) (\<lambda>args.
       go_bind (evm_Call intp evm (contract_ref (fr_contract fr)) toAddr args
                 (if v \<noteq> 0 then gas + CallStipend else gas) v) (\<lambda>(evm, ret, returnGas, err).
         go_bind (if err \<noteq> None then Ret (evm\<lparr>evm_tb := TxBatch_Cancel (evm_tb evm)\<rparr>)
                  else tb_put evm (contract_tx evm (c_self (fr_contract fr)) toAddr v)) (\<lambda>evm.
           end_call_op evm (push_fr fr (flag (err = None))) retOffset retSize ret returnGas err))))))))))"

definition opCallCode :: executionFunc where
  "opCallCode intp evm fr = pop_then fr (\<lambda>_ fr.
     pop_then fr (\<lambda>addr fr. pop_then fr (\<lambda>v fr. pop_then fr (\<lambda>inOffset fr.
     pop_then fr (\<lambda>inSize fr. pop_then fr (\<lambda>retOffset fr. pop_then fr (\<lambda>retSize fr.
       let gas = evm_callGasTemp evm; toAddr = BigToAddress addr; v = U256 v in
       go_bind (Memory_Get (fr_mem fr) (Big_Int64 inOffset) (Big_Int64 inSize)) (\<lambda>args.
       go_bind (evm_CallCode intp evm (contract_ref (fr_contract fr)) toAddr args
                 (if v \<noteq> 0 then gas + CallStipend else gas) v) (\<lambda>(evm, ret, returnGas, err).
         end_call_op evm (push_fr fr (flag (err = None))) retOffset retSize ret returnGas err)))))))))"

definition opDelegateCall :: executionFunc where
  "opDelegateCall intp evm fr = pop_then fr (\<lambda>_ fr.
     pop_then fr (\<lambda>addr fr. pop_then fr (\<lambda>inOffset fr.
     pop_then fr (\<lambda>inSize fr. pop_then fr (\<lambda>retOffset fr. pop_then fr (\<lambda>retSize fr.
       let gas = evm_callGasTemp evm; toAddr = BigToAddress addr in
       go_bind (Memory_Get (fr_mem fr) (Big_Int64 inOffset) (Big_Int64 inSize)) (\<lambda>args.
       go_bind (evm_DelegateCall intp evm (contract_ref (fr_contract fr)) toAddr args gas) (\<lambda>(evm, ret, returnGas, err).
         end_call_op evm (push_fr fr (flag (err = None))) retOffset retSize ret returnGas err))))))))"

definition opStaticCall :: executionFunc where
  "opStaticCall intp evm fr = pop_then fr (\<lambda>_ fr.
     pop_then fr (\<lambda>addr fr. pop_then fr (\<lambda>inOffset fr.
     pop_then fr (\<lambda>inSize fr. pop_then fr (\<lambda>retOffset fr. pop_then fr (\<lambda>retSize fr.
       let gas = evm_callGasTemp evm; toAddr = BigToAddress addr in
       go_bind (Memory_Get (fr_mem fr) (Big_Int64 inOffset) (Big_Int64 inSize)) (\<lambda>args.
       go_bind (evm_StaticCall intp evm (contract_ref (fr_contract fr)) toAddr args gas) (\<lambda>(evm, ret, returnGas, err).
         end_call_op evm (push_fr fr (flag (err = None))) retOffset retSize ret returnGas err))))))))"

section \<open>Halting\<close>

definition opReturn :: executionFunc where
  "opReturn intp evm fr = pop_then fr (\<lambda>offset fr. pop_then fr (\<lambda>sz fr.
     go_bind (Memory_GetPtr (fr_mem fr) (Big_Int64 offset) (Big_Int64 sz)) (\<lambda>ret. Ret (evm, fr, ret, None))))"

definition opRevert :: executionFunc where
  "opRevert intp evm fr = pop_then fr (\<lambda>offset fr. pop_then fr (\<lambda>sz fr.
     go_bind (Memory_GetPtr (fr_mem fr) (Big_Int64 offset) (Big_Int64 sz)) (\<lambda>ret. Ret (evm, fr, ret, None))))"

definition opStop :: executionFunc where
  "opStop intp evm fr = done_op evm fr"

definition opSuicide :: executionFunc where
  "opSuicide intp evm fr =
     (let self = c_self (fr_contract fr); balance = GetBalance (evm_StateDB evm) self in
      pop_then fr (\<lambda>t fr.
        let to = BigToAddress t;
            evm = on_state evm (\<lambda>env s. fst (Suicide (AddBalance env s to balance) self)) in
        go_bind (tb_put evm (suicide_tx evm self to balance)) (\<lambda>evm. done_op evm fr)))"

section \<open>Instruction families\<close>

fun pop_topics :: "nat \<Rightarrow> frame \<Rightarrow> (hash list \<times> frame) go" where
  "pop_topics 0 fr = Ret ([], fr)"
| "pop_topics (Suc n) fr = pop_then fr (\<lambda>t fr.
     go_bind (pop_topics n fr) (\<lambda>(ts, fr). Ret (BigToHash t # ts, fr)))"

definition makeLog :: "nat \<Rightarrow> executionFunc" where
  "makeLog sz intp evm fr = pop_then fr (\<lambda>mStart fr. pop_then fr (\<lambda>mSize fr.
     go_bind (pop_topics sz fr) (\<lambda>(topics, fr).
     go_bind (Memory_Get (fr_mem fr) (Big_Int64 mStart) (Big_Int64 mSize)) (\<lambda>d.
       done_op (evm\<lparr>evm_StateDB := AddLog (evm_StateDB evm)
         \<lparr>log_Address = c_self (fr_contract fr), log_Topics = topics, log_Data = d,
          log_BlockNumber = Big_Uint64 (ctx_BlockNumber (evm_ctx evm)), log_TxHash = 0, log_BlockHash = 0,
          log_TxIndex = 0, log_Index = 0\<rparr>\<rparr>) fr))))"

definition makePush :: "uint64 \<Rightarrow> nat \<Rightarrow> executionFunc" where
  "makePush sz pushByteSize intp evm fr =
     (let code = c_Code (fr_contract fr);
          codeLen = int (length code);
          startMin = min codeLen (sint (fr_pc fr + 1));
          endMin = min codeLen (startMin + int pushByteSize) in
      go_bind (go_slice code startMin endMin) (\<lambda>d.
        let fr = push_fr fr (be_int (RightPadBytes d pushByteSize)) in
        done_op evm (fr\<lparr>fr_pc := fr_pc fr + sz\<rparr>)))"

definition makeDup :: "nat \<Rightarrow> executionFunc" where
  "makeDup sz intp evm fr = go_bind (stack_dup (fr_stack fr) sz) (\<lambda>st. done_op evm (fr\<lparr>fr_stack := st\<rparr>))"

definition makeSwap :: "nat \<Rightarrow> executionFunc" where
  "makeSwap sz intp evm fr = go_bind (stack_swap (fr_stack fr) (sz + 1)) (\<lambda>st. done_op evm (fr\<lparr>fr_stack := st\<rparr>))"

end
