(* ===== verification/Evm_Jump_Table.thy ===== *)
theory Evm_Jump_Table
  imports Evm_Instructions
begin

text \<open>
  The instruction table of \<^verbatim>\<open>core/vm/jump_table.go\<close>. The frontier set, one long literal in the source, is
  split into lists by line range; the later sets update it. An entry that the source leaves out is the
  zero operation, which is not valid: its function fields are nil there and never called.
\<close>

record operation =
  op_execute :: executionFunc
  op_gasCost :: gasFunc
  op_validateStack :: stackValidationFunc
  op_memorySize :: "memorySizeFunc option"
  op_halts :: bool
  op_jumps :: bool
  op_writes :: bool
  op_valid :: bool
  op_reverts :: bool
  op_returns :: bool

text \<open>A valid operation with no other flag set.\<close>

definition operation_of :: "executionFunc \<Rightarrow> gasFunc \<Rightarrow> stackValidationFunc \<Rightarrow> memorySizeFunc option \<Rightarrow> operation" where
  "operation_of execute gasCost validateStack memorySize =
     \<lparr>op_execute = execute, op_gasCost = gasCost, op_validateStack = validateStack, op_memorySize = memorySize,
      op_halts = False, op_jumps = False, op_writes = False, op_valid = True, op_reverts = False, op_returns = False\<rparr>"

definition operation_zero :: operation where
  "operation_zero = (operation_of opStop (constGasFunc 0) (makeStackFunc 0 0) None)\<lparr>op_valid := False\<rparr>"

section \<open>Instruction sets\<close>

definition frontier_1 :: "(byte \<times> operation) list" where
  "frontier_1 = [
     (OP_STOP, (operation_of opStop (constGasFunc 0) (makeStackFunc 0 0) None)\<lparr>op_halts := True\<rparr>),
     (OP_ADD, operation_of opAdd (constGasFunc GasFastestStep) (makeStackFunc 2 1) None),
     (OP_MUL, operation_of opMul (constGasFunc GasFastStep) (makeStackFunc 2 1) None),
     (OP_SUB, operation_of opSub (constGasFunc GasFastestStep) (makeStackFunc 2 1) None),
     (OP_DIV, operation_of opDiv (constGasFunc GasFastStep) (makeStackFunc 2 1) None),
     (OP_SDIV, operation_of opSdiv (constGasFunc GasFastStep) (makeStackFunc 2 1) None),
     (OP_MOD, operation_of opMod (constGasFunc GasFastStep) (makeStackFunc 2 1) None),
     (OP_SMOD, operation_of opSmod (constGasFunc GasFastStep) (makeStackFunc 2 1) None),
     (OP_ADDMOD, operation_of opAddmod (constGasFunc GasMidStep) (makeStackFunc 3 1) None),
     (OP_MULMOD, operation_of opMulmod (constGasFunc GasMidStep) (makeStackFunc 3 1) None),
     (OP_EXP, operation_of opExp gasExp (makeStackFunc 2 1) None),
     (OP_SIGNEXTEND, operation_of opSignExtend (constGasFunc GasFastStep) (makeStackFunc 2 1) None),
     (OP_LT, operation_of opLt (constGasFunc GasFastestStep) (makeStackFunc 2 1) None),
     (OP_GT, operation_of opGt (constGasFunc GasFastestStep) (makeStackFunc 2 1) None),
     (OP_SLT, operation_of opSlt (constGasFunc GasFastestStep) (makeStackFunc 2 1) None),
     (OP_SGT, operation_of opSgt (constGasFunc GasFastestStep) (makeStackFunc 2 1) None),
     (OP_EQ, operation_of opEq (constGasFunc GasFastestStep) (makeStackFunc 2 1) None),
     (OP_ISZERO, operation_of opIszero (constGasFunc GasFastestStep) (makeStackFunc 1 1) None),
     (OP_AND, operation_of opAnd (constGasFunc GasFastestStep) (makeStackFunc 2 1) None),
     (OP_XOR, operation_of opXor (constGasFunc GasFastestStep) (makeStackFunc 2 1) None)]"

definition frontier_2 :: "(byte \<times> operation) list" where
  "frontier_2 = [
     (OP_OR, operation_of opOr (constGasFunc GasFastestStep) (makeStackFunc 2 1) None),
     (OP_NOT, operation_of opNot (constGasFunc GasFastestStep) (makeStackFunc 1 1) None),
     (OP_BYTE, operation_of opByte (constGasFunc GasFastestStep) (makeStackFunc 2 1) None),
     (OP_SHA3, operation_of opSha3 gasSha3 (makeStackFunc 2 1) (Some memorySha3)),
     (OP_ADDRESS, operation_of opAddress (constGasFunc GasQuickStep) (makeStackFunc 0 1) None),
     (OP_BALANCE, operation_of opBalance gasBalance (makeStackFunc 1 1) None),
     (OP_ORIGIN, operation_of opOrigin (constGasFunc GasQuickStep) (makeStackFunc 0 1) None),
     (OP_CALLER, operation_of opCaller (constGasFunc GasQuickStep) (makeStackFunc 0 1) None),
     (OP_CALLVALUE, operation_of opCallValue (constGasFunc GasQuickStep) (makeStackFunc 0 1) None),
     (OP_CALLDATALOAD, operation_of opCallDataLoad (constGasFunc GasFastestStep) (makeStackFunc 1 1) None),
     (OP_CALLDATASIZE, operation_of opCallDataSize (constGasFunc GasQuickStep) (makeStackFunc 0 1) None),
     (OP_CALLDATACOPY, operation_of opCallDataCopy gasCallDataCopy (makeStackFunc 3 0) (Some memoryCallDataCopy)),
     (OP_CODESIZE, operation_of opCodeSize (constGasFunc GasQuickStep) (makeStackFunc 0 1) None),
     (OP_CODECOPY, operation_of opCodeCopy gasCodeCopy (makeStackFunc 3 0) (Some memoryCodeCopy)),
     (OP_GASPRICE, operation_of opGasprice (constGasFunc GasQuickStep) (makeStackFunc 0 1) None),
     (OP_EXTCODESIZE, operation_of opExtCodeSize gasExtCodeSize (makeStackFunc 1 1) None),
     (OP_EXTCODECOPY, operation_of opExtCodeCopy gasExtCodeCopy (makeStackFunc 4 0) (Some memoryExtCodeCopy)),
     (OP_BLOCKHASH, operation_of opBlockhash (constGasFunc GasExtStep) (makeStackFunc 1 1) None),
     (OP_COINBASE, operation_of opCoinbase (constGasFunc GasQuickStep) (makeStackFunc 0 1) None),
     (OP_TIMESTAMP, operation_of opTimestamp (constGasFunc GasQuickStep) (makeStackFunc 0 1) None)]"

definition frontier_3 :: "(byte \<times> operation) list" where
  "frontier_3 = [
     (OP_NUMBER, operation_of opNumber (constGasFunc GasQuickStep) (makeStackFunc 0 1) None),
     (OP_DIFFICULTY, operation_of opDifficulty (constGasFunc GasQuickStep) (makeStackFunc 0 1) None),
     (OP_GASLIMIT, operation_of opGasLimit (constGasFunc GasQuickStep) (makeStackFunc 0 1) None),
     (OP_POP, operation_of opPop (constGasFunc GasQuickStep) (makeStackFunc 1 0) None),
     (OP_MLOAD, operation_of opMload gasMLoad (makeStackFunc 1 1) (Some memoryMLoad)),
     (OP_MSTORE, operation_of opMstore gasMStore (makeStackFunc 2 0) (Some memoryMStore)),
     (OP_MSTORE8, operation_of opMstore8 gasMStore8 (makeStackFunc 2 0) (Some memoryMStore8)),
     (OP_SLOAD, operation_of opSload gasSLoad (makeStackFunc 1 1) None),
     (OP_SSTORE, (operation_of opSstore gasSStore (makeStackFunc 2 0) None)\<lparr>op_writes := True\<rparr>),
     (OP_JUMP, (operation_of opJump (constGasFunc GasMidStep) (makeStackFunc 1 0) None)\<lparr>op_jumps := True\<rparr>),
     (OP_JUMPI, (operation_of opJumpi (constGasFunc GasSlowStep) (makeStackFunc 2 0) None)\<lparr>op_jumps := True\<rparr>),
     (OP_PC, operation_of opPc (constGasFunc GasQuickStep) (makeStackFunc 0 1) None),
     (OP_MSIZE, operation_of opMsize (constGasFunc GasQuickStep) (makeStackFunc 0 1) None),
     (OP_GAS, operation_of opGas (constGasFunc GasQuickStep) (makeStackFunc 0 1) None),
     (OP_JUMPDEST, operation_of opJumpdest (constGasFunc JumpdestGas) (makeStackFunc 0 0) None),
     (OP_PUSH1, operation_of (makePush 1 1) gasPush (makeStackFunc 0 1) None),
     (OP_PUSH2, operation_of (makePush 2 2) gasPush (makeStackFunc 0 1) None),
     (OP_PUSH3, operation_of (makePush 3 3) gasPush (makeStackFunc 0 1) None),
     (OP_PUSH4, operation_of (makePush 4 4) gasPush (makeStackFunc 0 1) None)]"

definition frontier_4 :: "(byte \<times> operation) list" where
  "frontier_4 = [
     (OP_PUSH5, operation_of (makePush 5 5) gasPush (makeStackFunc 0 1) None),
     (OP_PUSH6, operation_of (makePush 6 6) gasPush (makeStackFunc 0 1) None),
     (OP_PUSH7, operation_of (makePush 7 7) gasPush (makeStackFunc 0 1) None),
     (OP_PUSH8, operation_of (makePush 8 8) gasPush (makeStackFunc 0 1) None),
     (OP_PUSH9, operation_of (makePush 9 9) gasPush (makeStackFunc 0 1) None),
     (OP_PUSH10, operation_of (makePush 10 10) gasPush (makeStackFunc 0 1) None),
     (OP_PUSH11, operation_of (makePush 11 11) gasPush (makeStackFunc 0 1) None),
     (OP_PUSH12, operation_of (makePush 12 12) gasPush (makeStackFunc 0 1) None),
     (OP_PUSH13, operation_of (makePush 13 13) gasPush (makeStackFunc 0 1) None),
     (OP_PUSH14, operation_of (makePush 14 14) gasPush (makeStackFunc 0 1) None),
     (OP_PUSH15, operation_of (makePush 15 15) gasPush (makeStackFunc 0 1) None),
     (OP_PUSH16, operation_of (makePush 16 16) gasPush (makeStackFunc 0 1) None),
     (OP_PUSH17, operation_of (makePush 17 17) gasPush (makeStackFunc 0 1) None),
     (OP_PUSH18, operation_of (makePush 18 18) gasPush (makeStackFunc 0 1) None),
     (OP_PUSH19, operation_of (makePush 19 19) gasPush (makeStackFunc 0 1) None),
     (OP_PUSH20, operation_of (makePush 20 20) gasPush (makeStackFunc 0 1) None),
     (OP_PUSH21, operation_of (makePush 21 21) gasPush (makeStackFunc 0 1) None),
     (OP_PUSH22, operation_of (makePush 22 22) gasPush (makeStackFunc 0 1) None),
     (OP_PUSH23, operation_of (makePush 23 23) gasPush (makeStackFunc 0 1) None),
     (OP_PUSH24, operation_of (makePush 24 24) gasPush (makeStackFunc 0 1) None),
     (OP_PUSH25, operation_of (makePush 25 25) gasPush (makeStackFunc 0 1) None)]"

definition frontier_5 :: "(byte \<times> operation) list" where
  "frontier_5 = [
     (OP_PUSH26, operation_of (makePush 26 26) gasPush (makeStackFunc 0 1) None),
     (OP_PUSH27, operation_of (makePush 27 27) gasPush (makeStackFunc 0 1) None),
     (OP_PUSH28, operation_of (makePush 28 28) gasPush (makeStackFunc 0 1) None),
     (OP_PUSH29, operation_of (makePush 29 29) gasPush (makeStackFunc 0 1) None),
     (OP_PUSH30, operation_of (makePush 30 30) gasPush (makeStackFunc 0 1) None),
     (OP_PUSH31, operation_of (makePush 31 31) gasPush (makeStackFunc 0 1) None),
     (OP_PUSH32, operation_of (makePush 32 32) gasPush (makeStackFunc 0 1) None),
     (OP_DUP1, operation_of (makeDup 1) gasDup (makeDupStackFunc 1) None),
     (OP_DUP2, operation_of (makeDup 2) gasDup (makeDupStackFunc 2) None),
     (OP_DUP3, operation_of (makeDup 3) gasDup (makeDupStackFunc 3) None),
     (OP_DUP4, operation_of (makeDup 4) gasDup (makeDupStackFunc 4) None),
     (OP_DUP5, operation_of (makeDup 5) gasDup (makeDupStackFunc 5) None),
     (OP_DUP6, operation_of (makeDup 6) gasDup (makeDupStackFunc 6) None),
     (OP_DUP7, operation_of (makeDup 7) gasDup (makeDupStackFunc 7) None),
     (OP_DUP8, operation_of (makeDup 8) gasDup (makeDupStackFunc 8) None),
     (OP_DUP9, operation_of (makeDup 9) gasDup (makeDupStackFunc 9) None),
     (OP_DUP10, operation_of (makeDup 10) gasDup (makeDupStackFunc 10) None),
     (OP_DUP11, operation_of (makeDup 11) gasDup (makeDupStackFunc 11) None),
     (OP_DUP12, operation_of (makeDup 12) gasDup (makeDupStackFunc 12) None),
     (OP_DUP13, operation_of (makeDup 13) gasDup (makeDupStackFunc 13) None),
     (OP_DUP14, operation_of (makeDup 14) gasDup (makeDupStackFunc 14) None)]"

definition frontier_6 :: "(byte \<times> operation) list" where
  "frontier_6 = [
     (OP_DUP15, operation_of (makeDup 15) gasDup (makeDupStackFunc 15) None),
     (OP_DUP16, operation_of (makeDup 16) gasDup (makeDupStackFunc 16) None),
     (OP_SWAP1, operation_of (makeSwap 1) gasSwap (makeSwapStackFunc 2) None),
     (OP_SWAP2, operation_of (makeSwap 2) gasSwap (makeSwapStackFunc 3) None),
     (OP_SWAP3, operation_of (makeSwap 3) gasSwap (makeSwapStackFunc 4) None),
     (OP_SWAP4, operation_of (makeSwap 4) gasSwap (makeSwapStackFunc 5) None),
     (OP_SWAP5, operation_of (makeSwap 5) gasSwap (makeSwapStackFunc 6) None),
     (OP_SWAP6, operation_of (makeSwap 6) gasSwap (makeSwapStackFunc 7) None),
     (OP_SWAP7, operation_of (makeSwap 7) gasSwap (makeSwapStackFunc 8) None),
     (OP_SWAP8, operation_of (makeSwap 8) gasSwap (makeSwapStackFunc 9) None),
     (OP_SWAP9, operation_of (makeSwap 9) gasSwap (makeSwapStackFunc 10) None),
     (OP_SWAP10, operation_of (makeSwap 10) gasSwap (makeSwapStackFunc 11) None),
     (OP_SWAP11, operation_of (makeSwap 11) gasSwap (makeSwapStackFunc 12) None),
     (OP_SWAP12, operation_of (makeSwap 12) gasSwap (makeSwapStackFunc 13) None),
     (OP_SWAP13, operation_of (makeSwap 13) gasSwap (makeSwapStackFunc 14) None),
     (OP_SWAP14, operation_of (makeSwap 14) gasSwap (makeSwapStackFunc 15) None),
     (OP_SWAP15, operation_of (makeSwap 15) gasSwap (makeSwapStackFunc 16) None),
     (OP_SWAP16, operation_of (makeSwap 16) gasSwap (makeSwapStackFunc 17) None),
     (OP_LOG0, (operation_of (makeLog 0) (makeGasLog 0) (makeStackFunc 2 0) (Some memoryLog))\<lparr>op_writes := True\<rparr>),
     (OP_LOG1, (operation_of (makeLog 1) (makeGasLog 1) (makeStackFunc 3 0) (Some memoryLog))\<lparr>op_writes := True\<rparr>)]"

definition frontier_7 :: "(byte \<times> operation) list" where
  "frontier_7 = [
     (OP_LOG2, (operation_of (makeLog 2) (makeGasLog 2) (makeStackFunc 4 0) (Some memoryLog))\<lparr>op_writes := True\<rparr>),
     (OP_LOG3, (operation_of (makeLog 3) (makeGasLog 3) (makeStackFunc 5 0) (Some memoryLog))\<lparr>op_writes := True\<rparr>),
     (OP_LOG4, (operation_of (makeLog 4) (makeGasLog 4) (makeStackFunc 6 0) (Some memoryLog))\<lparr>op_writes := True\<rparr>),
     (OP_CREATE, (operation_of opCreate gasCreate (makeStackFunc 3 1) (Some memoryCreate))\<lparr>op_writes := True, op_returns := True\<rparr>),
     (OP_CALL, (operation_of opCall gasCall (makeStackFunc 7 1) (Some memoryCall))\<lparr>op_returns := True\<rparr>),
     (OP_CALLCODE, (operation_of opCallCode gasCallCode (makeStackFunc 7 1) (Some memoryCall))\<lparr>op_returns := True\<rparr>),
     (OP_RETURN, (operation_of opReturn gasReturn (makeStackFunc 2 0) (Some memoryReturn))\<lparr>op_halts := True\<rparr>),
     (OP_SELFDESTRUCT, (operation_of opSuicide gasSuicide (makeStackFunc 1 0) None)\<lparr>op_halts := True, op_writes := True\<rparr>)]"

type_synonym JumpTable = "byte \<Rightarrow> operation"

definition newFrontierInstructionSet :: JumpTable where
  "newFrontierInstructionSet b =
     (case map_of (frontier_1 @ frontier_2 @ frontier_3 @ frontier_4 @ frontier_5 @ frontier_6 @ frontier_7) b of None \<Rightarrow> operation_zero | Some p \<Rightarrow> p)"

definition newHomesteadInstructionSet :: JumpTable where
  "newHomesteadInstructionSet = newFrontierInstructionSet(
     OP_DELEGATECALL := (operation_of opDelegateCall gasDelegateCall (makeStackFunc 6 1) (Some memoryDelegateCall))\<lparr>op_returns := True\<rparr>)"

definition newByzantiumInstructionSet :: JumpTable where
  "newByzantiumInstructionSet = newHomesteadInstructionSet(
     OP_STATICCALL := (operation_of opStaticCall gasStaticCall (makeStackFunc 6 1) (Some memoryStaticCall))\<lparr>op_returns := True\<rparr>,
     OP_RETURNDATASIZE := operation_of opReturnDataSize (constGasFunc GasQuickStep) (makeStackFunc 0 1) None,
     OP_RETURNDATACOPY := operation_of opReturnDataCopy gasReturnDataCopy (makeStackFunc 3 0) (Some memoryReturnDataCopy),
     OP_REVERT := (operation_of opRevert gasRevert (makeStackFunc 2 0) (Some memoryRevert))\<lparr>op_reverts := True, op_returns := True\<rparr>)"

definition newConstantinopleInstructionSet :: JumpTable where
  "newConstantinopleInstructionSet = newByzantiumInstructionSet(
     OP_SHL := operation_of opSHL (constGasFunc GasFastestStep) (makeStackFunc 2 1) None,
     OP_SHR := operation_of opSHR (constGasFunc GasFastestStep) (makeStackFunc 2 1) None,
     OP_SAR := operation_of opSAR (constGasFunc GasFastestStep) (makeStackFunc 2 1) None)"

lemmas frontier_defs = frontier_1_def frontier_2_def frontier_3_def frontier_4_def frontier_5_def frontier_6_def frontier_7_def

end
