(* ===== verification/Evm_Interpreter.thy ===== *)
theory Evm_Interpreter
  imports Evm_Jump_Table
begin

text \<open>
  The interpreter loop of \<^verbatim>\<open>core/vm/interpreter.go\<close> and the closed call operations. One iteration of the
  loop is \<open>interp_step\<close>; the loop and the nested calls share one bound on the number of iterations,
  whose exhaustion is the panic \<open>''fuel''\<close>. \<^verbatim>\<open>Evm_Safety\<close> shows that a bound above the gas of the call is
  always enough. Tracing (\<^verbatim>\<open>Debug\<close>) and the verification of the integer pool are switched off, and the jump
  table of the configuration is left unset, as in every configuration of the repository; \<^verbatim>\<open>NewInterpreter\<close>
  then takes the constantinople set.
\<close>

section \<open>One iteration\<close>

definition JumpTable_of :: JumpTable where
  "JumpTable_of = newConstantinopleInstructionSet"

definition gasTable_of :: "EVM \<Rightarrow> GasTable" where
  "gasTable_of evm = Gastable (Some (ctx_BlockNumber (evm_ctx evm)))"

text \<open>The check of the read-only mode: its body is commented out in the source.\<close>

definition enforceRestrictions :: "EVM \<Rightarrow> byte \<Rightarrow> operation \<Rightarrow> Stack \<Rightarrow> vm_error option" where
  "enforceRestrictions evm opc p st = None"

text \<open>The memory an operation needs, rounded up to words; \<open>None\<close> is an overflow.\<close>

definition memory_size :: "operation \<Rightarrow> Stack \<Rightarrow> uint64 option go" where
  "memory_size p st =
     (case op_memorySize p of None \<Rightarrow> Ret (Some 0)
      | Some f \<Rightarrow> go_bind (f st) (\<lambda>sz.
          case bigUint64 sz of (memSize, overflow) \<Rightarrow>
            if overflow then Ret None
            else case SafeMul (toWordSize memSize) 32 of (memorySize, overflow) \<Rightarrow>
              Ret (if overflow then None else Some memorySize)))"

datatype step_result = Done EVM Contract bytes "vm_error option" | Continue EVM frame

definition finish_step :: "operation \<Rightarrow> EVM \<Rightarrow> frame \<Rightarrow> bytes \<Rightarrow> vm_error option \<Rightarrow> step_result" where
  "finish_step p evm fr res err =
     (let evm = (if op_returns p then evm\<lparr>evm_returnData := res\<rparr> else evm) in
      if err \<noteq> None then Done evm (fr_contract fr) [] err
      else if op_reverts p then Done evm (fr_contract fr) res (Some errExecutionReverted)
      else if op_halts p then Done evm (fr_contract fr) res None
      else if \<not> op_jumps p then Continue evm (fr\<lparr>fr_pc := fr_pc fr + 1\<rparr>)
      else Continue evm fr)"

text \<open>From the gas on.\<close>

definition charge_and_execute :: "interp \<Rightarrow> operation \<Rightarrow> EVM \<Rightarrow> frame \<Rightarrow> uint64 \<Rightarrow> step_result go" where
  "charge_and_execute intp p evm fr memorySize =
     go_bind (op_gasCost p (gasTable_of evm) evm (fr_contract fr) (fr_stack fr) (fr_mem fr) memorySize) (\<lambda>(evm, mem, r).
       case r of
         Inl err \<Rightarrow> Ret (Done evm (fr_contract fr) [] (Some ErrOutOfGas))
       | Inr cost \<Rightarrow> (case UseGas (fr_contract fr) cost of (contract, ok) \<Rightarrow>
           if \<not> ok then Ret (Done evm contract [] (Some ErrOutOfGas))
           else let mem = (if memorySize > 0 then Memory_Resize mem memorySize else mem) in
             go_bind (op_execute p intp evm (fr\<lparr>fr_contract := contract, fr_mem := mem\<rparr>)) (\<lambda>(evm, fr, res, err).
               Ret (finish_step p evm fr res err))))"

definition interp_step :: "interp \<Rightarrow> EVM \<Rightarrow> frame \<Rightarrow> step_result go" where
  "interp_step intp evm fr =
     (let contract = fr_contract fr; opc = GetOp contract (fr_pc fr); p = JumpTable_of opc in
      if \<not> op_valid p then Ret (Done evm contract [] (Some (errInvalidOpcode opc)))
      else case op_validateStack p (fr_stack fr) of
        Some err \<Rightarrow> Ret (Done evm contract [] (Some err))
      | None \<Rightarrow> (case enforceRestrictions evm opc p (fr_stack fr) of
          Some err \<Rightarrow> Ret (Done evm contract [] (Some err))
        | None \<Rightarrow> go_bind (memory_size p (fr_stack fr)) (\<lambda>ms. case ms of
            None \<Rightarrow> Ret (Done evm contract [] (Some errGasUintOverflow))
          | Some memorySize \<Rightarrow> charge_and_execute intp p evm fr memorySize)))"

section \<open>The loop\<close>

definition new_frame :: "Contract \<Rightarrow> frame" where
  "new_frame contract = \<lparr>fr_pc = 0, fr_contract = contract, fr_mem = NewMemory, fr_stack = []\<rparr>"

text \<open>\<^verbatim>\<open>Run\<close> around its loop: the depth, the return data and the input.\<close>

definition Run_with :: "(EVM \<Rightarrow> frame \<Rightarrow> run_result) \<Rightarrow> interp" where
  "Run_with loop evm contract input =
     (let evm = evm\<lparr>evm_depth := evm_depth evm + 1, evm_returnData := []\<rparr> in
      go_bind (if c_Code contract = [] then Ret (evm, contract, [], None)
               else loop evm (new_frame (contract\<lparr>c_Input := input\<rparr>))) (\<lambda>(evm, contract, ret, err).
        Ret (evm\<lparr>evm_depth := evm_depth evm - 1\<rparr>, contract, ret, err)))"

primrec interp_loop :: "nat \<Rightarrow> EVM \<Rightarrow> frame \<Rightarrow> run_result" where
  "interp_loop 0 evm fr = Panic ''fuel''"
| "interp_loop (Suc n) evm fr =
     (if evm_abort evm then Ret (evm, fr_contract fr, [], None)
      else go_bind (interp_step (Run_with (interp_loop n)) evm fr) (\<lambda>r.
        case r of Done evm contract ret err \<Rightarrow> Ret (evm, contract, ret, err)
        | Continue evm fr \<Rightarrow> interp_loop n evm fr))"

definition Interpreter_Run :: "nat \<Rightarrow> interp" where
  "Interpreter_Run n = Run_with (interp_loop n)"

text \<open>The call operations on a machine whose interpreter has enough iterations for the gas.\<close>

definition vm_Call :: "EVM \<Rightarrow> ContractRef \<Rightarrow> address \<Rightarrow> bytes \<Rightarrow> uint64 \<Rightarrow> int \<Rightarrow> call_result" where
  "vm_Call evm caller addr input gas v = evm_Call (Interpreter_Run (unat gas + 1)) evm caller addr input gas v"

definition vm_Create :: "EVM \<Rightarrow> ContractRef \<Rightarrow> bytes \<Rightarrow> uint64 \<Rightarrow> int \<Rightarrow> create_result" where
  "vm_Create evm caller code gas v = evm_Create (Interpreter_Run (unat gas + 1)) evm caller code gas v"

end
