(* ===== verification/Evm_Invariant.thy ===== *)
theory Evm_Invariant
  imports Evm_Interpreter
begin

text \<open>
  The invariant of the virtual machine and what every instruction keeps of it. Stack words are 256-bit
  numbers, the stack holds at most 1024 of them, the memory grows in words of 32 bytes, and the state
  database moves only along its journal without creating balance. \<open>exec_ok\<close> is the contract of an
  instruction with the stack and memory requirements that the jump table gives it: it returns, never panics
  and keeps the invariant. The call instructions are the subject of \<^verbatim>\<open>Evm_Safety\<close>.
\<close>

section \<open>The invariant\<close>

definition word_ok :: "int \<Rightarrow> bool" where
  "word_ok x \<longleftrightarrow> 0 \<le> x \<and> x < 2 ^ 256"

text \<open>What the code relies on of the cryptographic libraries: the sizes of their results.\<close>

definition crypto_ok :: "crypto_fns \<Rightarrow> bool" where
  "crypto_ok cf \<longleftrightarrow> (\<forall>h s p. cf_Ecrecover cf h s = Some p \<longrightarrow> p \<noteq> []) \<and>
     (\<forall>b. length (cf_Sha256 cf b) = 32) \<and> (\<forall>b. length (cf_Ripemd160 cf b) = 20)"

definition evm_ok :: "EVM \<Rightarrow> bool" where
  "evm_ok evm \<longleftrightarrow> sdb_inv (evm_env evm) (evm_StateDB evm) \<and> total_balance (evm_StateDB evm) < 2 ^ 256 \<and>
     crypto_ok (evm_crypto evm) \<and> word_ok (ctx_GasPrice (evm_ctx evm)) \<and> code_ok (evm_returnData evm)"

text \<open>What an execution leaves as it was.\<close>

definition evm_fixed :: "EVM \<Rightarrow> EVM \<Rightarrow> bool" where
  "evm_fixed evm evm' \<longleftrightarrow> evm_ctx evm' = evm_ctx evm \<and> evm_env evm' = evm_env evm \<and> evm_crypto evm' = evm_crypto evm \<and>
     evm_cfg evm' = evm_cfg evm \<and> evm_depth evm' = evm_depth evm \<and> evm_abort evm' = evm_abort evm \<and>
     evm_readOnly evm' = evm_readOnly evm \<and> evm_jh evm' = evm_jh evm"

definition evm_step :: "EVM \<Rightarrow> EVM \<Rightarrow> bool" where
  "evm_step evm evm' \<longleftrightarrow> evm_ok evm' \<and> evm_fixed evm evm' \<and> later (evm_env evm) (evm_StateDB evm) (evm_StateDB evm') \<and>
     total_balance (evm_StateDB evm') \<le> total_balance (evm_StateDB evm)"

definition contract_ok :: "Contract \<Rightarrow> bool" where
  "contract_ok c \<longleftrightarrow> code_ok (c_Code c) \<and> code_ok (c_Input c) \<and> word_ok (c_value c)"

definition max_memory :: nat where
  "max_memory = 0xffffffffe0"

definition mem_ok :: "Memory \<Rightarrow> bool" where
  "mem_ok m \<longleftrightarrow> 32 dvd length (mem_store m) \<and> length (mem_store m) \<le> max_memory"

definition fr_ok :: "frame \<Rightarrow> bool" where
  "fr_ok fr \<longleftrightarrow> list_all word_ok (fr_stack fr) \<and> length (fr_stack fr) \<le> StackLimit \<and> mem_ok (fr_mem fr) \<and>
     contract_ok (fr_contract fr)"

lemma evm_step_refl: "evm_ok evm \<Longrightarrow> evm_step evm evm"
  by (simp add: evm_step_def evm_fixed_def)

lemma evm_step_trans [trans]: "evm_step a b \<Longrightarrow> evm_step b c \<Longrightarrow> evm_step a c"
  using later_trans by (auto simp: evm_step_def evm_fixed_def)

lemma evm_step_ok: "evm_step a b \<Longrightarrow> evm_ok b"
  by (simp add: evm_step_def)

text \<open>A change of the state database along its journal.\<close>

lemma evm_step_state:
  assumes "evm_ok evm" "steps_to (evm_env evm) (evm_StateDB evm) s" "total_balance s \<le> total_balance (evm_StateDB evm)"
  shows "evm_step evm (evm\<lparr>evm_StateDB := s\<rparr>)"
  using assms by (auto simp: evm_step_def evm_ok_def evm_fixed_def steps_to_def)

lemma evm_step_temp [simp]:
  "evm_step evm (evm'\<lparr>evm_callGasTemp := x\<rparr>) = evm_step evm evm'"
  "evm_step evm (evm'\<lparr>evm_tb := tb\<rparr>) = evm_step evm evm'"
  "evm_step evm (evm'\<lparr>evm_lkdb := g\<rparr>) = evm_step evm evm'"
  by (simp_all add: evm_step_def evm_ok_def evm_fixed_def)

lemma evm_step_returnData: "evm_step evm evm' \<Longrightarrow> code_ok b \<Longrightarrow> evm_step evm (evm'\<lparr>evm_returnData := b\<rparr>)"
  by (auto simp: evm_step_def evm_ok_def evm_fixed_def)

section \<open>Words\<close>

named_theorems word_oks \<open>values that are 256-bit words\<close>

lemma word_okI: "0 \<le> x \<Longrightarrow> x < 2 ^ n \<Longrightarrow> n \<le> 256 \<Longrightarrow> word_ok x"
  unfolding word_ok_def using power_increasing [of n 256 "2 :: int"] by linarith

lemma word_ok_const [word_oks, simp]: "word_ok 0" "word_ok 1"
  by (simp_all add: word_ok_def)

lemma word_ok_U256 [word_oks, simp]: "word_ok (U256 x)"
  by (simp add: word_ok_def U256_range [simplified])

lemma word_ok_flag [word_oks, simp]: "word_ok (flag b)"
  by (simp add: flag_def)

lemma word_ok_uint [word_oks]: "LENGTH('a) \<le> 256 \<Longrightarrow> word_ok (uint (w :: 'a :: len word))"
  using unsigned_less [of w, where 'a = int] by (intro word_okI) auto

lemma word_ok_uints [word_oks, simp]:
  "word_ok (uint (h :: hash))" "word_ok (uint (a :: address))" "word_ok (uint (i :: uint64))" "word_ok (uint (b :: byte))"
  by (simp_all add: word_ok_uint)

lemma word_ok_bits [word_oks]:
  assumes "word_ok x" "word_ok y"
  shows "word_ok (x AND y)" "word_ok (x OR y)" "word_ok (x XOR y)"
proof -
  have "x AND y \<le> x" using assms by (simp add: word_ok_def)
  then show "word_ok (x AND y)" using assms by (auto simp: word_ok_def)
  show "word_ok (x OR y)" "word_ok (x XOR y)"
    using assms OR_upper [of x 256 y] XOR_upper [of x 256 y] by (auto simp: word_ok_def)
qed

lemma word_ok_Exp: "word_ok e \<Longrightarrow> word_ok (Exp b e)"
  by (simp add: word_ok_def Exp_power)

lemma word_ok_be_int: "length b \<le> 32 \<Longrightarrow> word_ok (be_int b)"
proof -
  assume "length b \<le> 32"
  then have "(256 :: int) ^ length b \<le> 256 ^ 32" by (intro power_increasing) auto
  then show ?thesis using be_int_range [of b] by (simp add: word_ok_def)
qed

lemma word_ok_length: "code_ok c \<Longrightarrow> word_ok (int (length c))"
  by (simp add: word_ok_def code_ok_def)

section \<open>Instructions\<close>

text \<open>The memory that the size function of an operation asks for is there.\<close>

definition mem_req :: "memorySizeFunc option \<Rightarrow> frame \<Rightarrow> bool" where
  "mem_req mf fr \<longleftrightarrow> (case mf of None \<Rightarrow> True
     | Some f \<Rightarrow> \<exists>sz. f (fr_stack fr) = Ret sz \<and> sz \<le> int (length (mem_store (fr_mem fr))))"

definition on_code :: "frame \<Rightarrow> bool" where
  "on_code fr \<longleftrightarrow> unat (fr_pc fr) < length (c_Code (fr_contract fr))"

definition exec_post :: "EVM \<Rightarrow> frame \<Rightarrow> op_result \<Rightarrow> bool" where
  "exec_post evm fr r \<longleftrightarrow> (\<exists>evm' fr' res err. r = Ret (evm', fr', res, err) \<and> evm_step evm evm' \<and> code_ok res \<and>
     fr_contract fr' = fr_contract fr \<and> (err = None \<longrightarrow> fr_ok fr'))"

definition exec_ok :: "nat \<Rightarrow> nat \<Rightarrow> memorySizeFunc option \<Rightarrow> executionFunc \<Rightarrow> bool" where
  "exec_ok k p mf e \<longleftrightarrow> (\<forall>intp evm fr. evm_ok evm \<and> fr_ok fr \<and> k \<le> length (fr_stack fr) \<and>
     length (fr_stack fr) + p \<le> StackLimit + k \<and> mem_req mf fr \<and> on_code fr \<longrightarrow> exec_post evm fr (e intp evm fr))"

lemma pop_then_Cons: "fr_stack fr = x # st \<Longrightarrow> pop_then fr k = k x (fr\<lparr>fr_stack := st\<rparr>)"
  by (simp add: pop_then_def pop_def)

lemma peek_then_Cons: "fr_stack fr = x # st \<Longrightarrow> peek_then fr k = k x"
  by (simp add: peek_then_def peek_def slice_get_def)

lemmas op_simps = pop_then_Cons peek_then_Cons put_top_def push_fr_def set_top_def push_def done_op_def

text \<open>The stack at entry, split at the operands.\<close>

lemma exec_okI:
  assumes "\<And>intp evm fr xs st. evm_ok evm \<Longrightarrow> fr_ok fr \<Longrightarrow> fr_stack fr = xs @ st \<Longrightarrow> length xs = k \<Longrightarrow>
      list_all word_ok xs \<Longrightarrow> list_all word_ok st \<Longrightarrow> length st + p \<le> StackLimit \<Longrightarrow> mem_req mf fr \<Longrightarrow> on_code fr \<Longrightarrow>
      exec_post evm fr (e intp evm fr)"
  shows "exec_ok k p mf e"
  unfolding exec_ok_def
proof (intro allI impI, elim conjE)
  fix intp evm fr
  assume a: "evm_ok evm" "fr_ok fr" "k \<le> length (fr_stack fr)" "length (fr_stack fr) + p \<le> StackLimit + k" "mem_req mf fr"
    "on_code fr"
  let ?xs = "take k (fr_stack fr)" and ?st = "drop k (fr_stack fr)"
  have "list_all word_ok (?xs @ ?st)" using a(2) by (simp add: fr_ok_def)
  then have "list_all word_ok ?xs" "list_all word_ok ?st" by (simp_all only: list_all_append)
  moreover have "length ?st + p \<le> StackLimit" using a(3,4) by simp
  ultimately show "exec_post evm fr (e intp evm fr)" using a by (intro assms [of evm fr ?xs ?st intp]) simp_all
qed

text \<open>The common end: the operands replaced by results, everything else kept.\<close>

lemma exec_post_stack:
  assumes "evm_step evm evm'" "fr_ok fr" "list_all word_ok ys" "list_all word_ok st" "length (ys @ st) \<le> StackLimit"
  shows "exec_post evm fr (Ret (evm', fr\<lparr>fr_stack := ys @ st\<rparr>, [], None))"
  using assms by (simp add: exec_post_def fr_ok_def)

lemma length_1: "length xs = 1 \<Longrightarrow> \<exists>x. xs = [x]"
  by (cases xs) auto

lemma length_2: "length xs = 2 \<Longrightarrow> \<exists>x y. xs = [x, y]"
  by (cases xs; cases "tl xs") auto

lemma length_3: "length xs = 3 \<Longrightarrow> \<exists>x y z. xs = [x, y, z]"
  by (cases xs; cases "tl xs"; cases "tl (tl xs)") auto

lemma exec_push:
  assumes "\<And>intp evm fr. e intp evm fr = done_op evm (push_fr fr (f evm fr))"
    "\<And>evm fr. evm_ok evm \<Longrightarrow> fr_ok fr \<Longrightarrow> word_ok (f evm fr)"
  shows "exec_ok 0 1 None e"
proof (rule exec_okI)
  fix intp evm fr xs st
  assume a: "evm_ok evm" "fr_ok fr" "fr_stack fr = xs @ st" "length xs = 0" "list_all word_ok st" "length st + 1 \<le> StackLimit"
  then show "exec_post evm fr (e intp evm fr)"
    using exec_post_stack [OF evm_step_refl [OF a(1)] a(2), of "[f evm fr]" st] assms(2) [OF a(1,2)]
    by (simp add: assms(1) op_simps)
qed

lemma exec_peek1:
  assumes "\<And>intp evm fr. e intp evm fr = peek_then fr (\<lambda>x. done_op evm (put_top fr (f evm fr x)))"
    "\<And>evm fr x. evm_ok evm \<Longrightarrow> fr_ok fr \<Longrightarrow> word_ok x \<Longrightarrow> word_ok (f evm fr x)"
  shows "exec_ok 1 1 None e"
proof (rule exec_okI)
  fix intp evm fr xs st
  assume a: "evm_ok evm" "fr_ok fr" "fr_stack fr = xs @ st" "length xs = 1" "list_all word_ok xs" "list_all word_ok st"
    "length st + 1 \<le> StackLimit"
  obtain x where x: "xs = [x]" using length_1 [OF a(4)] by blast
  show "exec_post evm fr (e intp evm fr)"
    using exec_post_stack [OF evm_step_refl [OF a(1)] a(2), of "[f evm fr x]" st] assms(2) [OF a(1,2), of x] a
    by (simp add: assms(1) op_simps x)
qed

lemma exec_pop_peek:
  assumes "\<And>intp evm fr. e intp evm fr = pop_then fr (\<lambda>x fr. peek_then fr (\<lambda>y. done_op evm (put_top fr (f x y))))"
    "\<And>x y. word_ok x \<Longrightarrow> word_ok y \<Longrightarrow> word_ok (f x y)"
  shows "exec_ok 2 1 None e"
proof (rule exec_okI)
  fix intp evm fr xs st
  assume a: "evm_ok evm" "fr_ok fr" "fr_stack fr = xs @ st" "length xs = 2" "list_all word_ok xs" "list_all word_ok st"
    "length st + 1 \<le> StackLimit"
  obtain x y where x: "xs = [x, y]" using length_2 [OF a(4)] by blast
  show "exec_post evm fr (e intp evm fr)"
    using exec_post_stack [OF evm_step_refl [OF a(1)] a(2), of "[f x y]" st] assms(2) [of x y] a
    by (simp add: assms(1) op_simps x)
qed

lemma exec_pop_pop:
  assumes "\<And>intp evm fr. e intp evm fr = pop_then fr (\<lambda>x fr. pop_then fr (\<lambda>y fr. done_op evm (push_fr fr (f x y))))"
    "\<And>x y. word_ok x \<Longrightarrow> word_ok y \<Longrightarrow> word_ok (f x y)"
  shows "exec_ok 2 1 None e"
proof (rule exec_okI)
  fix intp evm fr xs st
  assume a: "evm_ok evm" "fr_ok fr" "fr_stack fr = xs @ st" "length xs = 2" "list_all word_ok xs" "list_all word_ok st"
    "length st + 1 \<le> StackLimit"
  obtain x y where x: "xs = [x, y]" using length_2 [OF a(4)] by blast
  show "exec_post evm fr (e intp evm fr)"
    using exec_post_stack [OF evm_step_refl [OF a(1)] a(2), of "[f x y]" st] assms(2) [of x y] a
    by (simp add: assms(1) op_simps x)
qed

lemma exec_pop3:
  assumes "\<And>intp evm fr. e intp evm fr =
      pop_then fr (\<lambda>x fr. pop_then fr (\<lambda>y fr. pop_then fr (\<lambda>z fr. done_op evm (push_fr fr (f x y z)))))"
    "\<And>x y z. word_ok (f x y z)"
  shows "exec_ok 3 1 None e"
proof (rule exec_okI)
  fix intp evm fr xs st
  assume a: "evm_ok evm" "fr_ok fr" "fr_stack fr = xs @ st" "length xs = 3" "list_all word_ok xs" "list_all word_ok st"
    "length st + 1 \<le> StackLimit"
  obtain x y z where x: "xs = [x, y, z]" using length_3 [OF a(4)] by blast
  show "exec_post evm fr (e intp evm fr)"
    using exec_post_stack [OF evm_step_refl [OF a(1)] a(2), of "[f x y z]" st] assms(2) [of x y z] a
    by (simp add: assms(1) op_simps x)
qed

text \<open>Arithmetic, comparison and bits.\<close>

named_theorems exec_oks \<open>instructions that keep the invariant\<close>

lemma exec_arith [exec_oks]:
  "exec_ok 2 1 None opAdd" "exec_ok 2 1 None opSub" "exec_ok 2 1 None opDiv" "exec_ok 2 1 None opLt" "exec_ok 2 1 None opGt"
  "exec_ok 2 1 None opSlt" "exec_ok 2 1 None opSgt" "exec_ok 2 1 None opEq" "exec_ok 2 1 None opOr" "exec_ok 2 1 None opXor"
  "exec_ok 2 1 None opByte" "exec_ok 2 1 None opSHL" "exec_ok 2 1 None opSHR"
  by (rule exec_pop_peek, simp add: opAdd_def opSub_def opDiv_def opLt_def opGt_def opSlt_def opSgt_def opEq_def opOr_def
      opXor_def opByte_def opSHL_def opSHR_def Let_def, simp add: word_oks)+

lemma exec_arith2 [exec_oks]:
  "exec_ok 2 1 None opMul" "exec_ok 2 1 None opSdiv" "exec_ok 2 1 None opMod" "exec_ok 2 1 None opSmod" "exec_ok 2 1 None opExp"
  "exec_ok 2 1 None opAnd" "exec_ok 2 1 None opSAR"
  by (rule exec_pop_pop, simp add: opMul_def opSdiv_def opMod_def opSmod_def opExp_def opAnd_def opSAR_def Let_def,
      simp add: word_oks word_ok_Exp)+

lemma exec_arith3 [exec_oks]: "exec_ok 3 1 None opAddmod" "exec_ok 3 1 None opMulmod"
  by (rule exec_pop3, simp add: opAddmod_def opMulmod_def, simp add: word_oks)+

lemma word_ok_balance: "evm_ok evm \<Longrightarrow> word_ok (GetBalance (evm_StateDB evm) a)"
  using GetBalance_nonneg GetBalance_le_total [of "evm_env evm" "evm_StateDB evm" a]
  by (auto simp: word_ok_def evm_ok_def)

lemma code_ok_GetCode: "sdb_inv env s \<Longrightarrow> code_ok (GetCode env s a)"
  using live_ok [of env s a] by (auto simp: GetCode_def so_Code_def sdb_inv_alt objs_inv_def obj_ok_def env_ok_def split: option.splits)

lemma word_ok_codesize:
  assumes "evm_ok evm" shows "word_ok (int (GetCodeSize (evm_env evm) (evm_StateDB evm) a))"
proof -
  have "GetCodeSize (evm_env evm) (evm_StateDB evm) a < 2 ^ 62"
    using assms live_ok [of "evm_env evm" "evm_StateDB evm" a]
    by (auto simp: GetCodeSize_def evm_ok_def sdb_inv_alt objs_inv_def obj_ok_def env_ok_def code_ok_def split: option.splits)
  then show ?thesis by (simp add: word_ok_def)
qed

lemma exec_env1 [exec_oks]:
  "exec_ok 1 1 None opNot" "exec_ok 1 1 None opIszero" "exec_ok 1 1 None opBalance" "exec_ok 1 1 None opExtCodeSize"
  "exec_ok 1 1 None opSload"
  by (rule exec_peek1, simp add: opNot_def opIszero_def opBalance_def opExtCodeSize_def opSload_def,
      simp add: word_oks word_ok_balance word_ok_codesize)+

lemma exec_env0 [exec_oks]:
  "exec_ok 0 1 None opAddress" "exec_ok 0 1 None opOrigin" "exec_ok 0 1 None opCaller" "exec_ok 0 1 None opCallValue"
  "exec_ok 0 1 None opCallDataSize" "exec_ok 0 1 None opReturnDataSize" "exec_ok 0 1 None opCodeSize" "exec_ok 0 1 None opGasprice"
  "exec_ok 0 1 None opCoinbase" "exec_ok 0 1 None opTimestamp" "exec_ok 0 1 None opNumber" "exec_ok 0 1 None opDifficulty"
  "exec_ok 0 1 None opGasLimit" "exec_ok 0 1 None opPc" "exec_ok 0 1 None opMsize" "exec_ok 0 1 None opGas"
  by (rule exec_push, simp add: opAddress_def opOrigin_def opCaller_def opCallValue_def opCallDataSize_def opReturnDataSize_def
      opCodeSize_def opGasprice_def opCoinbase_def opTimestamp_def opNumber_def opDifficulty_def opGasLimit_def opPc_def opMsize_def
      opGas_def, (auto simp: word_oks word_ok_length fr_ok_def contract_ok_def evm_ok_def mem_ok_def max_memory_def Memory_Len_def
      intro: word_okI [of _ 64]) [1])+

lemma exec_pop1:
  assumes "\<And>intp evm fr. e intp evm fr = pop_then fr (\<lambda>x fr. done_op evm (push_fr fr (f evm x)))" "\<And>evm x. word_ok (f evm x)"
  shows "exec_ok 1 1 None e"
proof (rule exec_okI)
  fix intp evm fr xs st
  assume a: "evm_ok evm" "fr_ok fr" "fr_stack fr = xs @ st" "length xs = 1" "list_all word_ok xs" "list_all word_ok st"
    "length st + 1 \<le> StackLimit"
  obtain x where x: "xs = [x]" using length_1 [OF a(4)] by blast
  show "exec_post evm fr (e intp evm fr)"
    using exec_post_stack [OF evm_step_refl [OF a(1)] a(2), of "[f evm x]" st] assms(2) [of evm x] a
    by (simp add: assms(1) op_simps x)
qed

lemma exec_blockhash [exec_oks]: "exec_ok 1 1 None opBlockhash"
  by (rule exec_pop1, simp add: opBlockhash_def Let_def, simp add: word_oks)

lemma exec_trivial [exec_oks]: "exec_ok 0 0 None opJumpdest" "exec_ok 0 0 None opStop" "exec_ok 1 0 None opPop"
proof -
  show "exec_ok 0 0 None opJumpdest" "exec_ok 0 0 None opStop"
    by (rule exec_okI, simp add: opJumpdest_def opStop_def done_op_def exec_post_def evm_step_refl)+
  show "exec_ok 1 0 None opPop"
  proof (rule exec_okI)
    fix intp evm fr xs st
    assume a: "evm_ok evm" "fr_ok fr" "fr_stack fr = xs @ st" "length xs = 1" "list_all word_ok st" "length st + 0 \<le> StackLimit"
    obtain x where x: "xs = [x]" using length_1 [OF a(4)] by blast
    show "exec_post evm fr (opPop intp evm fr)"
      using exec_post_stack [OF evm_step_refl [OF a(1)] a(2), of "[]" st] a by (simp add: opPop_def op_simps x)
  qed
qed

lemma exec_signextend [exec_oks]: "exec_ok 2 1 None opSignExtend"
proof (rule exec_okI)
  fix intp evm fr xs st
  assume a: "evm_ok evm" "fr_ok fr" "fr_stack fr = xs @ st" "length xs = 2" "list_all word_ok xs" "list_all word_ok st"
    "length st + 1 \<le> StackLimit"
  obtain x y where x: "xs = [x, y]" using length_2 [OF a(4)] by blast
  obtain z where "opSignExtend intp evm fr = Ret (evm, fr\<lparr>fr_stack := [z] @ st\<rparr>, [], None)" "word_ok z"
    using a by (cases "x < 31") (auto simp: opSignExtend_def op_simps x Let_def)
  then show "exec_post evm fr (opSignExtend intp evm fr)"
    using exec_post_stack [OF evm_step_refl [OF a(1)] a(2) _ a(6), of "[z]"] a(7) by simp
qed

text \<open>Memory.\<close>

lemma Big_Int64_id: "0 \<le> x \<Longrightarrow> x < 2 ^ 63 \<Longrightarrow> Big_Int64 x = x"
proof -
  assume x: "0 \<le> x" "x < 2 ^ 63"
  have "sint (word_of_int x :: uint64) = signed_take_bit 63 (take_bit 64 x)" by (simp add: sint_uint unsigned_of_int)
  also have "\<dots> = signed_take_bit 63 x" by (simp add: signed_take_bit_take_bit)
  also have "\<dots> = x" using x by (intro signed_take_bit_int_eq_self) auto
  finally show ?thesis by (simp add: Big_Int64_def)
qed

lemma mem_bound: "mem_ok m \<Longrightarrow> length (mem_store m) < 2 ^ 40"
  by (simp add: mem_ok_def max_memory_def)

lemma mem_range:
  assumes "mem_ok m" "word_ok off" "word_ok sz" "calcMemSize off sz \<le> int (length (mem_store m))"
  shows "sz = 0 \<or> off + sz \<le> int (length (mem_store m)) \<and> off < 2 ^ 40 \<and> sz < 2 ^ 40"
  using assms mem_bound [OF assms(1)] by (auto simp: calcMemSize_def word_ok_def split: if_splits)

lemma Memory_Get_ok:
  assumes "mem_ok m" "word_ok off" "word_ok sz" "calcMemSize off sz \<le> int (length (mem_store m))"
  shows "\<exists>d. Memory_Get m (Big_Int64 off) (Big_Int64 sz) = Ret d \<and> Memory_GetPtr m (Big_Int64 off) (Big_Int64 sz) = Ret d \<and>
     length d = nat sz \<and> code_ok d"
proof (cases "sz = 0")
  case True
  then show ?thesis by (simp add: Memory_Get_def Memory_GetPtr_def Big_Int64_def)
next
  case False
  then have r: "off + sz \<le> int (length (mem_store m))" "off < 2 ^ 40" "sz < 2 ^ 40" "0 \<le> off" "0 < sz"
    using mem_range [OF assms] assms(2,3) by (auto simp: word_ok_def)
  then have "Big_Int64 off = off" "Big_Int64 sz = sz" by (simp_all add: Big_Int64_id)
  moreover have "length (take (nat (off + sz) - nat off) (drop (nat off) (mem_store m))) = nat sz" using r by simp
  ultimately show ?thesis using r by (simp add: Memory_Get_def Memory_GetPtr_def go_slice_def code_ok_def)
qed

lemma length_copy_at: "off + n \<le> length xs \<Longrightarrow> length (copy_at xs off n v) = length xs"
  by (simp add: copy_at_def Let_def)

lemma Memory_Set_ok:
  assumes "mem_ok m" "word_ok off" "word_ok sz" "calcMemSize off sz \<le> int (length (mem_store m))"
  shows "\<exists>m'. Memory_Set m (Big_Uint64 off) (Big_Uint64 sz) d = Ret m' \<and> mem_ok m'"
proof (cases "sz = 0")
  case True
  then show ?thesis using assms(1) by (simp add: Memory_Set_def Big_Uint64_def)
next
  case False
  then have r: "off + sz \<le> int (length (mem_store m))" "off < 2 ^ 40" "sz < 2 ^ 40" "0 \<le> off" "0 < sz"
    using mem_range [OF assms] assms(2,3) by (auto simp: word_ok_def)
  have u: "unat (Big_Uint64 off) = nat off" "unat (Big_Uint64 sz) = nat sz" "uint (Big_Uint64 off) = off" using r by simp_all
  have sum: "unat (Big_Uint64 off + Big_Uint64 sz) = nat (off + sz)"
    using u r by (subst unat_add_small) (auto simp: nat_add_distrib)
  then have usum: "uint (Big_Uint64 off + Big_Uint64 sz) = off + sz" using r by (simp add: uint_of_unat)
  have len: "unat (word_of_nat (length (mem_store m)) :: uint64) = length (mem_store m)"
    using mem_bound [OF assms(1)] by (simp add: unsigned_of_nat take_bit_nat_eq_self)
  have "Big_Uint64 sz > 0" using u(2) r by (simp add: word_less_nat_alt)
  moreover have "\<not> Big_Uint64 off + Big_Uint64 sz > word_of_nat (length (mem_store m))"
    using r by (simp add: word_less_nat_alt sum len)
  moreover have "length (copy_at (mem_store m) (nat off) (nat (off + sz) - nat off) d) = length (mem_store m)"
    using r by (intro length_copy_at) auto
  ultimately show ?thesis using assms(1) r
    by (simp add: Memory_Set_def go_slice_def usum u mem_ok_def)
qed

lemma exec_post_mem:
  assumes "evm_step evm evm'" "fr_ok fr" "mem_ok m" "list_all word_ok st" "length st \<le> StackLimit"
  shows "exec_post evm fr (Ret (evm', fr\<lparr>fr_stack := st, fr_mem := m\<rparr>, [], None))"
  using assms by (simp add: exec_post_def fr_ok_def)

lemma mem_req_at:
  assumes "mem_req (Some (memory_at (int i) (int j))) fr" "i < length (fr_stack fr)" "j < length (fr_stack fr)"
  shows "calcMemSize (fr_stack fr ! i) (fr_stack fr ! j) \<le> int (length (mem_store (fr_mem fr)))"
  using assms by (simp add: mem_req_def memory_at_def Back_def slice_get_def)

lemma fr_mem_ok: "fr_ok fr \<Longrightarrow> mem_ok (fr_mem fr)"
  by (simp add: fr_ok_def)

lemma exec_sha3 [exec_oks]: "exec_ok 2 1 (Some memorySha3) opSha3"
proof (rule exec_okI)
  fix intp evm fr xs st
  assume a: "evm_ok evm" "fr_ok fr" "fr_stack fr = xs @ st" "length xs = 2" "list_all word_ok xs" "list_all word_ok st"
    "length st + 1 \<le> StackLimit" "mem_req (Some memorySha3) fr"
  obtain off sz where x: "xs = [off, sz]" using length_2 [OF a(4)] by blast
  have "calcMemSize off sz \<le> int (length (mem_store (fr_mem fr)))"
    using mem_req_at [of 0 1 fr] a(8) by (simp add: memorySha3_def a(3) x)
  then obtain d where d: "Memory_Get (fr_mem fr) (Big_Int64 off) (Big_Int64 sz) = Ret d"
    using Memory_Get_ok [OF fr_mem_ok [OF a(2)]] a(5) by (auto simp: x)
  let ?h = "se_Keccak (evm_env evm) d"
  let ?evm = "if cfg_EnablePreimageRecording (evm_cfg evm) then evm\<lparr>evm_StateDB := AddPreimage (evm_StateDB evm) ?h d\<rparr> else evm"
  have "evm_step evm ?evm" using a(1) by (simp add: evm_step_refl evm_step_state AddPreimage_steps)
  then show "exec_post evm fr (opSha3 intp evm fr)"
    using exec_post_stack [of evm ?evm fr "[uint ?h]" st] a by (simp add: opSha3_def op_simps x d Let_def)
qed

lemma getDataBig_ok:
  assumes "code_ok data" "word_ok start" "0 \<le> sz"
  shows "\<exists>d. getDataBig data start sz = Ret (RightPadBytes d (unat (Big_Uint64 sz))) \<and> length d \<le> nat sz"
proof -
  define n where "n = int (length data)"
  define s where "s = BigMin start n"
  define e where "e = BigMin (s + sz) n"
  have n: "0 \<le> n" "n < 2 ^ 62" using assms(1) by (simp_all add: n_def code_ok_def)
  have s: "0 \<le> s" "s \<le> e" "e \<le> n" "e - s \<le> sz"
    using n assms(2,3) by (auto simp: s_def e_def BigMin_def word_ok_def)
  then have "uint (Big_Uint64 s) = s" "uint (Big_Uint64 e) = e" using n by simp_all
  then have "go_slice data (uint (Big_Uint64 s)) (uint (Big_Uint64 e)) = Ret (take (nat e - nat s) (drop (nat s) data))"
    using s by (simp add: go_slice_def n_def)
  moreover have "length (take (nat e - nat s) (drop (nat s) data)) \<le> nat sz" using s by simp
  ultimately show ?thesis unfolding getDataBig_def n_def [symmetric] s_def [symmetric] e_def [symmetric] Let_def
    by (intro exI [of _ "take (nat e - nat s) (drop (nat s) data)"]) simp
qed

lemma exec_calldataload [exec_oks]: "exec_ok 1 1 None opCallDataLoad"
proof (rule exec_okI)
  fix intp evm fr xs st
  assume a: "evm_ok evm" "fr_ok fr" "fr_stack fr = xs @ st" "length xs = 1" "list_all word_ok xs" "list_all word_ok st"
    "length st + 1 \<le> StackLimit"
  obtain x where x: "xs = [x]" using length_1 [OF a(4)] by blast
  have "code_ok (c_Input (fr_contract fr))" "word_ok x" using a by (auto simp: fr_ok_def contract_ok_def x)
  from getDataBig_ok [OF this, of 32] obtain d where
    d: "getDataBig (c_Input (fr_contract fr)) x 32 = Ret (RightPadBytes d 32)" "length d \<le> 32" by auto
  have "word_ok (be_int (RightPadBytes d 32))" using d(2) by (intro word_ok_be_int) (simp add: RightPadBytes_def)
  then show "exec_post evm fr (opCallDataLoad intp evm fr)"
    using exec_post_stack [OF evm_step_refl [OF a(1)] a(2), of "[be_int (RightPadBytes d 32)]" st] a d
    by (simp add: opCallDataLoad_def op_simps x)
qed

lemma mem_store_at_ok:
  assumes "mem_ok (fr_mem fr)" "word_ok off" "word_ok sz" "calcMemSize off sz \<le> int (length (mem_store (fr_mem fr)))"
  shows "\<exists>m. mem_store_at fr off sz d = Ret (fr\<lparr>fr_mem := m\<rparr>) \<and> mem_ok m"
  using Memory_Set_ok [OF assms, of d] by (auto simp: mem_store_at_def)

text \<open>The copying instructions differ in where the data comes from.\<close>

lemma exec_copy3:
  assumes e: "\<And>intp evm fr. e intp evm fr = pop_then fr (\<lambda>memOffset fr. pop_then fr (\<lambda>dataOffset fr. pop_then fr (\<lambda>len fr.
      go_bind (src evm fr dataOffset len) (\<lambda>d. go_bind (mem_store_at fr memOffset len d) (done_op evm)))))"
    and src: "\<And>evm fr st off n. evm_ok evm \<Longrightarrow> fr_ok fr \<Longrightarrow> word_ok off \<Longrightarrow> word_ok n \<Longrightarrow>
      returns (src evm (fr\<lparr>fr_stack := st\<rparr>) off n)"
  shows "exec_ok 3 0 (Some (memory_at 0 2)) e"
proof (rule exec_okI)
  fix intp evm fr xs st
  assume a: "evm_ok evm" "fr_ok fr" "fr_stack fr = xs @ st" "length xs = 3" "list_all word_ok xs" "list_all word_ok st"
    "length st + 0 \<le> StackLimit" "mem_req (Some (memory_at 0 2)) fr"
  obtain x y z where x: "xs = [x, y, z]" using length_3 [OF a(4)] by blast
  have w: "word_ok x" "word_ok y" "word_ok z" using a(5) by (simp_all add: x)
  obtain d where d: "src evm (fr\<lparr>fr_stack := st\<rparr>) y z = Ret d" using src [OF a(1,2) w(2,3), of st] by (auto simp: returns_def)
  have "calcMemSize x z \<le> int (length (mem_store (fr_mem fr)))"
    using mem_req_at [of 0 2 fr] a(8) by (simp add: a(3) x)
  then obtain m where m: "mem_store_at (fr\<lparr>fr_stack := st\<rparr>) x z d = Ret (fr\<lparr>fr_stack := st, fr_mem := m\<rparr>)" "mem_ok m"
    using mem_store_at_ok [of "fr\<lparr>fr_stack := st\<rparr>" x z d] fr_mem_ok [OF a(2)] w by auto
  show "exec_post evm fr (e intp evm fr)"
    using exec_post_mem [OF evm_step_refl [OF a(1)] a(2) m(2), of st] a m(1) d by (simp add: e op_simps x)
qed

lemma getDataBig_returns: "code_ok data \<Longrightarrow> word_ok start \<Longrightarrow> word_ok sz \<Longrightarrow> returns (getDataBig data start sz)"
  using getDataBig_ok [of data start sz] by (auto simp: word_ok_def returns_def)

lemma exec_copies [exec_oks]:
  "exec_ok 3 0 (Some memoryCallDataCopy) opCallDataCopy" "exec_ok 3 0 (Some memoryCodeCopy) opCodeCopy"
  unfolding memoryCallDataCopy_def memoryCodeCopy_def
  by (rule exec_copy3, simp add: opCallDataCopy_def opCodeCopy_def,
      simp add: fr_ok_def contract_ok_def getDataBig_returns)+

lemma length_4: "length xs = 4 \<Longrightarrow> \<exists>x y z w. xs = [x, y, z, w]"
  by (cases xs; cases "tl xs"; cases "tl (tl xs)"; cases "tl (tl (tl xs))") auto

lemma exec_extcodecopy [exec_oks]: "exec_ok 4 0 (Some memoryExtCodeCopy) opExtCodeCopy"
proof (rule exec_okI)
  fix intp evm fr xs st
  assume a: "evm_ok evm" "fr_ok fr" "fr_stack fr = xs @ st" "length xs = 4" "list_all word_ok xs" "list_all word_ok st"
    "length st + 0 \<le> StackLimit" "mem_req (Some memoryExtCodeCopy) fr"
  obtain b x y z where x: "xs = [b, x, y, z]" using length_4 [OF a(4)] by blast
  have w: "word_ok x" "word_ok y" "word_ok z" using a(5) by (simp_all add: x)
  have "code_ok (GetCode (evm_env evm) (evm_StateDB evm) (BigToAddress b))" using a(1) by (simp add: evm_ok_def code_ok_GetCode)
  then obtain d where d: "getDataBig (GetCode (evm_env evm) (evm_StateDB evm) (BigToAddress b)) y z = Ret d"
    using getDataBig_returns [OF _ w(2,3)] by (auto simp: returns_def)
  have "calcMemSize x z \<le> int (length (mem_store (fr_mem fr)))"
    using mem_req_at [of 1 3 fr] a(8) by (simp add: a(3) x memoryExtCodeCopy_def)
  then obtain m where m: "mem_store_at (fr\<lparr>fr_stack := st\<rparr>) x z d = Ret (fr\<lparr>fr_stack := st, fr_mem := m\<rparr>)" "mem_ok m"
    using mem_store_at_ok [of "fr\<lparr>fr_stack := st\<rparr>" x z d] fr_mem_ok [OF a(2)] w by auto
  show "exec_post evm fr (opExtCodeCopy intp evm fr)"
    using exec_post_mem [OF evm_step_refl [OF a(1)] a(2) m(2), of st] a m(1) d by (simp add: opExtCodeCopy_def op_simps x)
qed

lemma exec_returndatacopy [exec_oks]: "exec_ok 3 0 (Some memoryReturnDataCopy) opReturnDataCopy"
proof (rule exec_okI)
  fix intp evm fr xs st
  assume a: "evm_ok evm" "fr_ok fr" "fr_stack fr = xs @ st" "length xs = 3" "list_all word_ok xs" "list_all word_ok st"
    "length st + 0 \<le> StackLimit" "mem_req (Some memoryReturnDataCopy) fr"
  obtain x y z where x: "xs = [x, y, z]" using length_3 [OF a(4)] by blast
  have w: "word_ok x" "word_ok y" "word_ok z" using a(5) by (simp_all add: x)
  let ?rd = "evm_returnData evm"
  show "exec_post evm fr (opReturnDataCopy intp evm fr)"
  proof (cases "BitLen (y + z) > 64 \<or> word_of_nat (length ?rd) < Big_Uint64 (y + z)")
    case True
    then show ?thesis using a(1) by (simp add: opReturnDataCopy_def op_simps a(3) x Let_def exec_post_def evm_step_refl)
  next
    case False
    have len: "length ?rd < 2 ^ 62" using a(1) by (simp add: evm_ok_def code_ok_def)
    have yz: "0 \<le> y" "0 \<le> z" "y + z < 2 ^ 64" using False w BitLen_le [of "y + z" 64] by (auto simp: word_ok_def not_less)
    then have u: "uint (Big_Uint64 (y + z)) = y + z" "uint (Big_Uint64 y) = y" "unat (Big_Uint64 (y + z)) = nat (y + z)" by simp_all
    have "unat (word_of_nat (length ?rd) :: uint64) = length ?rd" using len by (simp add: unsigned_of_nat take_bit_nat_eq_self)
    then have "y + z \<le> int (length ?rd)" using False u(3) by (simp add: word_less_nat_alt not_less nat_le_iff)
    then obtain d where d: "go_slice ?rd (uint (Big_Uint64 y)) (uint (Big_Uint64 (y + z))) = Ret d"
      using yz by (simp add: go_slice_def u)
    have "calcMemSize x z \<le> int (length (mem_store (fr_mem fr)))"
      using mem_req_at [of 0 2 fr] a(8) by (simp add: a(3) x memoryReturnDataCopy_def)
    then obtain m where m: "mem_store_at (fr\<lparr>fr_stack := st\<rparr>) x z d = Ret (fr\<lparr>fr_stack := st, fr_mem := m\<rparr>)" "mem_ok m"
      using mem_store_at_ok [of "fr\<lparr>fr_stack := st\<rparr>" x z d] fr_mem_ok [OF a(2)] w by auto
    show ?thesis
      using exec_post_mem [OF evm_step_refl [OF a(1)] a(2) m(2), of st] a m(1) d False by (simp add: opReturnDataCopy_def op_simps x Let_def)
  qed
qed

lemma mem_req_word:
  assumes "mem_req (Some (\<lambda>st. go_bind (Back st 0) (\<lambda>off. Ret (calcMemSize off n)))) fr" "fr_stack fr = x # st" "0 < n"
  shows "x + n \<le> int (length (mem_store (fr_mem fr)))"
  using assms by (simp add: mem_req_def Back_def slice_get_def calcMemSize_def)

lemma exec_mload [exec_oks]: "exec_ok 1 1 (Some memoryMLoad) opMload"
proof (rule exec_okI)
  fix intp evm fr xs st
  assume a: "evm_ok evm" "fr_ok fr" "fr_stack fr = xs @ st" "length xs = 1" "list_all word_ok xs" "list_all word_ok st"
    "length st + 1 \<le> StackLimit" "mem_req (Some memoryMLoad) fr"
  obtain x where x: "xs = [x]" using length_1 [OF a(4)] by blast
  have "x + 32 \<le> int (length (mem_store (fr_mem fr)))"
    using a(3,8) x unfolding memoryMLoad_def by (intro mem_req_word) auto
  then have "calcMemSize x 32 \<le> int (length (mem_store (fr_mem fr)))" by (simp add: calcMemSize_def)
  moreover have "word_ok 32" by (simp add: word_ok_def)
  moreover have "Big_Int64 32 = 32" by (rule Big_Int64_id) simp_all
  ultimately obtain d where d: "Memory_Get (fr_mem fr) (Big_Int64 x) 32 = Ret d" "length d = 32"
    using Memory_Get_ok [OF fr_mem_ok [OF a(2)], of x 32] a(5) by (auto simp: x)
  have "word_ok (be_int d)" using d(2) by (intro word_ok_be_int) simp
  then show "exec_post evm fr (opMload intp evm fr)"
    using exec_post_stack [OF evm_step_refl [OF a(1)] a(2), of "[be_int d]" st] a d by (simp add: opMload_def op_simps x)
qed

lemma exec_mstore [exec_oks]: "exec_ok 2 0 (Some memoryMStore) opMstore"
proof (rule exec_okI)
  fix intp evm fr xs st
  assume a: "evm_ok evm" "fr_ok fr" "fr_stack fr = xs @ st" "length xs = 2" "list_all word_ok xs" "list_all word_ok st"
    "length st + 0 \<le> StackLimit" "mem_req (Some memoryMStore) fr"
  obtain x y where x: "xs = [x, y]" using length_2 [OF a(4)] by blast
  have m: "mem_ok (fr_mem fr)" by (rule fr_mem_ok [OF a(2)])
  have r: "x + 32 \<le> int (length (mem_store (fr_mem fr)))"
    using a(3,8) x unfolding memoryMStore_def by (intro mem_req_word) auto
  have xr: "0 \<le> x" "x < 2 ^ 40" using r mem_bound [OF m] a(5) by (auto simp: x word_ok_def)
  have sum: "unat (Big_Uint64 x + 32) = nat x + 32"
    using xr unat_add_small [of "Big_Uint64 x" 32] by simp
  then have us: "uint (Big_Uint64 x + 32) = x + 32" using xr uint_of_unat [OF sum] by simp
  have "unat (word_of_nat (length (mem_store (fr_mem fr))) :: uint64) = length (mem_store (fr_mem fr))"
    using mem_bound [OF m] by (simp add: unsigned_of_nat take_bit_nat_eq_self)
  then have "\<not> Big_Uint64 x + 32 > word_of_nat (length (mem_store (fr_mem fr)))" using r xr by (simp add: word_less_nat_alt sum)
  moreover have "length (copy_at (mem_store (fr_mem fr)) (nat x) (nat (x + 32) - nat x) v) = length (mem_store (fr_mem fr))" for v
    using r xr by (intro length_copy_at) auto
  ultimately obtain m' where m': "Memory_Set32 (fr_mem fr) (Big_Uint64 x) y = Ret m'" "mem_ok m'"
    using r xr m by (simp add: Memory_Set32_def go_slice_def us mem_ok_def)
  show "exec_post evm fr (opMstore intp evm fr)"
    using exec_post_mem [OF evm_step_refl [OF a(1)] a(2) m'(2), of st] a m'(1) by (simp add: opMstore_def op_simps x)
qed

lemma exec_mstore8 [exec_oks]: "exec_ok 2 0 (Some memoryMStore8) opMstore8"
proof (rule exec_okI)
  fix intp evm fr xs st
  assume a: "evm_ok evm" "fr_ok fr" "fr_stack fr = xs @ st" "length xs = 2" "list_all word_ok xs" "list_all word_ok st"
    "length st + 0 \<le> StackLimit" "mem_req (Some memoryMStore8) fr"
  obtain x y where x: "xs = [x, y]" using length_2 [OF a(4)] by blast
  have m: "mem_ok (fr_mem fr)" by (rule fr_mem_ok [OF a(2)])
  have r: "x + 1 \<le> int (length (mem_store (fr_mem fr)))"
    using a(3,8) x unfolding memoryMStore8_def by (intro mem_req_word) auto
  have xr: "0 \<le> x" "x < 2 ^ 40" using r mem_bound [OF m] a(5) by (auto simp: x word_ok_def)
  then have "Big_Int64 x = x" by (simp add: Big_Int64_id)
  then have "slice_set (mem_store (fr_mem fr)) (Big_Int64 x) v = Ret ((mem_store (fr_mem fr))[nat x := v])" for v
    using r xr by simp
  moreover have "mem_ok ((fr_mem fr)\<lparr>mem_store := (mem_store (fr_mem fr))[nat x := v]\<rparr>)" for v
    using m by (simp add: mem_ok_def)
  ultimately show "exec_post evm fr (opMstore8 intp evm fr)"
    using exec_post_mem [OF evm_step_refl [OF a(1)] a(2), of _ st] a by (simp add: opMstore8_def op_simps x)
qed

lemma evm_step_on_state:
  "evm_ok evm \<Longrightarrow> steps_to (evm_env evm) (evm_StateDB evm) (f (evm_env evm) (evm_StateDB evm)) \<Longrightarrow>
   total_balance (f (evm_env evm) (evm_StateDB evm)) \<le> total_balance (evm_StateDB evm) \<Longrightarrow> evm_step evm (on_state evm f)"
  unfolding on_state_def by (rule evm_step_state)

lemma exec_sstore [exec_oks]: "exec_ok 2 0 None opSstore"
proof (rule exec_okI)
  fix intp evm fr xs st
  assume a: "evm_ok evm" "fr_ok fr" "fr_stack fr = xs @ st" "length xs = 2" "list_all word_ok xs" "list_all word_ok st"
    "length st + 0 \<le> StackLimit"
  obtain x y where x: "xs = [x, y]" using length_2 [OF a(4)] by blast
  let ?evm = "on_state evm (\<lambda>env s. SetState env s (c_self (fr_contract fr)) (BigToHash x) (BigToHash y))"
  have "evm_step evm ?evm" using a(1) by (intro evm_step_on_state) (simp_all add: SetState_steps)
  then show "exec_post evm fr (opSstore intp evm fr)"
    using exec_post_stack [of evm ?evm fr "[]" st] a by (simp add: opSstore_def op_simps x)
qed

lemma jump_to_ok:
  assumes "evm_ok evm" "fr_ok fr" "list_all word_ok st" "length st \<le> StackLimit" "word_ok pos"
  shows "exec_post evm fr (jump_to evm (fr\<lparr>fr_stack := st\<rparr>) pos)"
proof -
  have "code_ok (c_Code (fr_contract fr))" using assms(2) by (simp add: fr_ok_def contract_ok_def)
  then have "\<exists>b. has_dest (c_Code (fr_contract fr)) pos = Ret b" using has_dest_spec [of pos "c_Code (fr_contract fr)"] assms(5) by (simp add: word_ok_def code_ok_def)
  then obtain b where b: "has_dest (c_Code (fr_contract fr)) pos = Ret b" by blast
  show ?thesis using assms b by (cases b) (auto simp: jump_to_def done_op_def exec_post_def evm_step_refl fr_ok_def)
qed

lemma exec_jumps [exec_oks]: "exec_ok 1 0 None opJump" "exec_ok 2 0 None opJumpi"
proof -
  show "exec_ok 1 0 None opJump"
  proof (rule exec_okI)
    fix intp evm fr xs st
    assume a: "evm_ok evm" "fr_ok fr" "fr_stack fr = xs @ st" "length xs = 1" "list_all word_ok xs" "list_all word_ok st"
      "length st + 0 \<le> StackLimit"
    obtain x where x: "xs = [x]" using length_1 [OF a(4)] by blast
    show "exec_post evm fr (opJump intp evm fr)"
      using jump_to_ok [OF a(1,2,6), of x] a by (simp add: opJump_def op_simps x)
  qed
  show "exec_ok 2 0 None opJumpi"
  proof (rule exec_okI)
    fix intp evm fr xs st
    assume a: "evm_ok evm" "fr_ok fr" "fr_stack fr = xs @ st" "length xs = 2" "list_all word_ok xs" "list_all word_ok st"
      "length st + 0 \<le> StackLimit"
    obtain x y where x: "xs = [x, y]" using length_2 [OF a(4)] by blast
    have "exec_post evm fr (Ret (evm, fr\<lparr>fr_stack := st, fr_pc := fr_pc fr + 1\<rparr>, [], None))"
      using a by (simp add: exec_post_def evm_step_refl fr_ok_def)
    then show "exec_post evm fr (opJumpi intp evm fr)"
      using jump_to_ok [OF a(1,2,6), of x] a by (simp add: opJumpi_def op_simps x)
  qed
qed

lemma pop_topics_ok:
  "n \<le> length (fr_stack fr) \<Longrightarrow> \<exists>ts. pop_topics n fr = Ret (ts, fr\<lparr>fr_stack := drop n (fr_stack fr)\<rparr>)"
proof (induction n arbitrary: fr)
  case (Suc n)
  then obtain x st where st: "fr_stack fr = x # st" by (cases "fr_stack fr") auto
  then obtain ts where "pop_topics n (fr\<lparr>fr_stack := st\<rparr>) = Ret (ts, fr\<lparr>fr_stack := drop n st\<rparr>)"
    using Suc.IH [of "fr\<lparr>fr_stack := st\<rparr>"] Suc.prems by auto
  then show ?case using st by (simp add: pop_then_Cons)
qed simp

lemma exec_log [exec_oks]: "exec_ok (n + 2) 0 (Some memoryLog) (makeLog n)"
proof (rule exec_okI)
  fix intp evm fr xs st
  assume a: "evm_ok evm" "fr_ok fr" "fr_stack fr = xs @ st" "length xs = n + 2" "list_all word_ok xs" "list_all word_ok st"
    "length st + 0 \<le> StackLimit" "mem_req (Some memoryLog) fr"
  obtain x y ys where x: "xs = x # y # ys" "length ys = n" using a(4) by (cases xs; cases "tl xs") auto
  have "calcMemSize x y \<le> int (length (mem_store (fr_mem fr)))"
    using mem_req_at [of 0 1 fr] a(8) by (simp add: a(3) x memoryLog_def)
  then obtain d where d: "Memory_Get (fr_mem fr) (Big_Int64 x) (Big_Int64 y) = Ret d"
    using Memory_Get_ok [OF fr_mem_ok [OF a(2)]] a(5) by (auto simp: x)
  obtain ts where ts: "pop_topics n (fr\<lparr>fr_stack := ys @ st\<rparr>) = Ret (ts, fr\<lparr>fr_stack := st\<rparr>)"
    using pop_topics_ok [of n "fr\<lparr>fr_stack := ys @ st\<rparr>"] x(2) by auto
  have step: "evm_step evm (evm\<lparr>evm_StateDB := AddLog (evm_StateDB evm) l\<rparr>)" for l
    using a(1) by (intro evm_step_state) (simp_all add: AddLog_steps)
  show "exec_post evm fr (makeLog n intp evm fr)"
    using exec_post_stack [OF step a(2), of "[]" st] a ts d by (simp add: makeLog_def op_simps x)
qed

lemma exec_makePush [exec_oks]:
  assumes "n \<le> 32" shows "exec_ok 0 1 None (makePush s n)"
proof (rule exec_okI)
  fix intp evm fr xs st
  assume a: "evm_ok evm" "fr_ok fr" "fr_stack fr = xs @ st" "length xs = 0" "list_all word_ok xs" "list_all word_ok st"
    "length st + 1 \<le> StackLimit" "on_code fr"
  let ?code = "c_Code (fr_contract fr)"
  have len: "unat (fr_pc fr) < length ?code" "length ?code < 2 ^ 62"
    using a(2,8) by (simp_all add: on_code_def fr_ok_def contract_ok_def code_ok_def)
  have u: "unat (fr_pc fr + 1) = unat (fr_pc fr) + 1" using len unat_add_small [of "fr_pc fr" 1] by simp
  have v: "uint (fr_pc fr + 1) = int (unat (fr_pc fr) + 1)" by (rule uint_of_unat [OF u])
  have "unat (fr_pc fr) + 1 < 2 ^ 63" using len by simp
  then have "int (unat (fr_pc fr) + 1) < int (2 ^ 63)" by (simp only: of_nat_less_iff)
  then have "uint (fr_pc fr + 1) < 2 ^ 63" unfolding v by (simp only: of_nat_power of_nat_numeral)
  then have "sint (fr_pc fr + 1) = uint (fr_pc fr + 1)"
    unfolding sint_uint by (intro signed_take_bit_int_eq_self) (simp_all add: order.trans [OF _ uint_ge_0])
  then have pc: "sint (fr_pc fr + 1) = int (unat (fr_pc fr) + 1)" using v by simp
  define lo where "lo = min (int (length ?code)) (sint (fr_pc fr + 1))"
  define hi where "hi = min (int (length ?code)) (lo + int n)"
  have "0 \<le> lo" "lo \<le> hi" "hi \<le> int (length ?code)" "hi - lo \<le> int n" by (auto simp: lo_def hi_def pc)
  then have sl: "go_slice ?code lo hi = Ret (take (nat hi - nat lo) (drop (nat lo) ?code))"
    and dl: "length (take (nat hi - nat lo) (drop (nat lo) ?code)) \<le> n"
    by (auto simp: go_slice_def)
  let ?d = "take (nat hi - nat lo) (drop (nat lo) ?code)"
  have "word_ok (be_int (RightPadBytes ?d n))"
    using dl assms by (intro word_ok_be_int) (auto simp: RightPadBytes_def)
  then show "exec_post evm fr (makePush s n intp evm fr)"
    unfolding makePush_def Let_def lo_def [symmetric] hi_def [symmetric] sl
    using a by (simp add: push_fr_def push_def done_op_def exec_post_def evm_step_refl fr_ok_def)
qed

lemma exec_makeDup [exec_oks]: "0 < n \<Longrightarrow> exec_ok n (n + 1) None (makeDup n)"
proof (rule exec_okI)
  fix intp evm fr xs st
  assume n: "0 < n"
    and a: "evm_ok evm" "fr_ok fr" "fr_stack fr = xs @ st" "length xs = n" "list_all word_ok xs" "list_all word_ok st"
    "length st + (n + 1) \<le> StackLimit"
  have "word_ok ((xs @ st) ! (n - 1))" using a n by (simp add: nth_append list_all_length)
  then show "exec_post evm fr (makeDup n intp evm fr)"
    using exec_post_stack [OF evm_step_refl [OF a(1)] a(2), of "(xs @ st) ! (n - 1) # xs" st] a n
    by (simp add: makeDup_def stack_dup_def push_def done_op_def)
qed

lemma list_all_update: "list_all P xs \<Longrightarrow> P y \<Longrightarrow> list_all P (xs[i := y])"
  by (cases "i < length xs") (auto simp: list_all_length nth_list_update)

lemma exec_makeSwap [exec_oks]: "exec_ok (n + 1) (n + 1) None (makeSwap n)"
proof (rule exec_okI)
  fix intp evm fr xs st
  assume a: "evm_ok evm" "fr_ok fr" "fr_stack fr = xs @ st" "length xs = n + 1" "list_all word_ok xs" "list_all word_ok st"
    "length st + (n + 1) \<le> StackLimit"
  let ?st = "(xs @ st)[n := (xs @ st) ! 0, 0 := (xs @ st) ! n]"
  have "list_all word_ok (xs @ st)" "n < length (xs @ st)" using a by simp_all
  then have "list_all word_ok ?st" by (intro list_all_update) (auto simp only: list_all_length intro: gr_zeroI)
  then show "exec_post evm fr (makeSwap n intp evm fr)"
    using exec_post_stack [OF evm_step_refl [OF a(1)] a(2), of ?st "[]"] a
    by (simp add: makeSwap_def stack_swap_def done_op_def)
qed

lemma exec_return [exec_oks]: "exec_ok 2 0 (Some memoryReturn) opReturn" "exec_ok 2 0 (Some memoryRevert) opRevert"
proof -
  have "exec_ok 2 0 (Some (memory_at 0 1)) opReturn"
  proof (rule exec_okI)
    fix intp evm fr xs st
    assume a: "evm_ok evm" "fr_ok fr" "fr_stack fr = xs @ st" "length xs = 2" "list_all word_ok xs" "list_all word_ok st"
      "length st + 0 \<le> StackLimit" "mem_req (Some (memory_at 0 1)) fr"
    obtain x y where x: "xs = [x, y]" using length_2 [OF a(4)] by blast
    have "calcMemSize x y \<le> int (length (mem_store (fr_mem fr)))"
      using mem_req_at [of 0 1 fr] a(8) by (simp add: a(3) x)
    then obtain d where "Memory_GetPtr (fr_mem fr) (Big_Int64 x) (Big_Int64 y) = Ret d" "code_ok d"
      using Memory_Get_ok [OF fr_mem_ok [OF a(2)]] a(5) by (auto simp: x)
    then show "exec_post evm fr (opReturn intp evm fr)"
      using a by (simp add: opReturn_def op_simps x exec_post_def evm_step_refl fr_ok_def)
  qed
  moreover have "opRevert = opReturn" by (simp add: fun_eq_iff opRevert_def opReturn_def)
  ultimately show "exec_ok 2 0 (Some memoryReturn) opReturn" "exec_ok 2 0 (Some memoryRevert) opRevert"
    by (simp_all add: memoryReturn_def memoryRevert_def)
qed

text \<open>Recording a transfer never fails.\<close>

lemma putLKTx_contract: "\<exists>g' tb'. putLKTx jh g tb (contract_tx evm a b v) = Ret (g', tb', None)"
  by (simp add: putLKTx_def put_indexed_def LKTransaction_Hash_def contract_tx_def Let_def ContractTxType_def EthTxType_def)

lemma putLKTx_suicide: "\<exists>g' tb'. putLKTx jh g tb (suicide_tx evm a b v) = Ret (g', tb', None)"
  by (simp add: putLKTx_def put_indexed_def LKTransaction_Hash_def suicide_tx_def Let_def ContractTxType_def EthTxType_def
      SuicideTxType_def)

lemma tb_put_ok:
  assumes "\<And>jh g tb. \<exists>g' tb'. putLKTx jh g tb lkx = Ret (g', tb', None)"
  shows "\<exists>tb g. tb_put evm lkx = Ret (evm\<lparr>evm_tb := tb, evm_lkdb := g\<rparr>)"
proof (cases "evm_tb evm")
  case None
  then show ?thesis by (intro exI [of _ "evm_tb evm"] exI [of _ "evm_lkdb evm"]) (simp add: tb_put_def)
next
  case (Some tb)
  then obtain g' tb' where "tb_put evm lkx = Ret (evm\<lparr>evm_tb := Some tb', evm_lkdb := g'\<rparr>)"
    using assms [of "evm_jh evm" "evm_lkdb evm" tb] by (auto simp: tb_put_def TxBatch_Put_def)
  then show ?thesis by blast
qed

lemma exec_suicide [exec_oks]: "exec_ok 1 0 None opSuicide"
proof (rule exec_okI)
  fix intp evm fr xs st
  assume a: "evm_ok evm" "fr_ok fr" "fr_stack fr = xs @ st" "length xs = 1" "list_all word_ok xs" "list_all word_ok st"
    "length st + 0 \<le> StackLimit"
  obtain x where x: "xs = [x]" using length_1 [OF a(4)] by blast
  let ?self = "c_self (fr_contract fr)" and ?to = "BigToAddress x" and ?s = "evm_StateDB evm"
  let ?bal = "GetBalance ?s ?self"
  let ?evm = "on_state evm (\<lambda>env s. fst (Suicide (AddBalance env s ?to ?bal) ?self))"
  have inv: "sdb_inv (evm_env evm) ?s" using a(1) by (simp add: evm_ok_def)
  have "0 \<le> ?bal" by (rule GetBalance_nonneg [OF inv])
  then have step: "evm_step evm ?evm"
    unfolding on_state_def using a(1) Suicide_to_steps [OF inv, of ?to ?self]
    by (intro evm_step_state) (auto simp: GetBalance_AddBalance)
  obtain tb g where tb: "tb_put ?evm (suicide_tx ?evm ?self ?to ?bal) = Ret (?evm\<lparr>evm_tb := tb, evm_lkdb := g\<rparr>)"
    using tb_put_ok [OF putLKTx_suicide] by blast
  have "exec_post evm fr (Ret (?evm\<lparr>evm_tb := tb, evm_lkdb := g\<rparr>, fr\<lparr>fr_stack := [] @ st\<rparr>, [], None))"
    using a step by (intro exec_post_stack) simp_all
  then show "exec_post evm fr (opSuicide intp evm fr)" using a tb by (simp add: opSuicide_def op_simps x Let_def)
qed

end
