(* ===== verification/Evm_Call_Safety.thy ===== *)
theory Evm_Call_Safety
  imports Evm_Invariant
begin

text \<open>
  The call operations of \<^verbatim>\<open>core/vm/evm.go\<close> over any interpreter that returns for less than \<open>n\<close> gas. The
  locale \<open>bounded_interp\<close> is the contract of \<^verbatim>\<open>Interpreter.Run\<close>: it returns, keeps the invariant of the
  machine, moves the state along its journal and never leaves more gas than it was given. The five call
  operations and \<^verbatim>\<open>run\<close> then keep the same contract, and a failed call leaves the state as it was.
\<close>

section \<open>Contracts\<close>

definition run_post :: "EVM \<Rightarrow> uint64 \<Rightarrow> run_result \<Rightarrow> bool" where
  "run_post evm gas r \<longleftrightarrow> (\<exists>evm' c' ret err. r = Ret (evm', c', ret, err) \<and> evm_step evm evm' \<and> c_Gas c' \<le> gas \<and> code_ok ret)"

definition state_view :: "EVM \<Rightarrow> db_view" where
  "state_view evm = view (evm_env evm) (evm_StateDB evm)"

definition call_post :: "EVM \<Rightarrow> uint64 \<Rightarrow> call_result \<Rightarrow> bool" where
  "call_post evm gas r \<longleftrightarrow> (\<exists>evm' ret g err. r = Ret (evm', ret, g, err) \<and> evm_step evm evm' \<and> g \<le> gas \<and> code_ok ret \<and>
     (err \<noteq> None \<longrightarrow> state_view evm' = state_view evm))"

definition create_post :: "EVM \<Rightarrow> uint64 \<Rightarrow> create_result \<Rightarrow> bool" where
  "create_post evm gas r \<longleftrightarrow> (\<exists>evm' ret a g err. r = Ret (evm', ret, a, g, err) \<and> evm_step evm evm' \<and> g \<le> gas \<and> code_ok ret)"

lemma run_postI: "evm_step evm evm' \<Longrightarrow> c_Gas c' \<le> gas \<Longrightarrow> code_ok ret \<Longrightarrow> run_post evm gas (Ret (evm', c', ret, err))"
  by (simp add: run_post_def)

lemma run_postE:
  assumes "run_post evm gas r"
  obtains evm' c' ret err where "r = Ret (evm', c', ret, err)" "evm_step evm evm'" "c_Gas c' \<le> gas" "code_ok ret"
  using assms by (auto simp: run_post_def)

lemma call_postI:
  "evm_step evm evm' \<Longrightarrow> g \<le> gas \<Longrightarrow> code_ok ret \<Longrightarrow> (err \<noteq> None \<Longrightarrow> state_view evm' = state_view evm) \<Longrightarrow>
    call_post evm gas (Ret (evm', ret, g, err))"
  by (simp add: call_post_def)

lemma create_postI:
  "evm_step evm evm' \<Longrightarrow> g \<le> gas \<Longrightarrow> code_ok ret \<Longrightarrow> create_post evm gas (Ret (evm', ret, a, g, err))"
  by (simp add: create_post_def)

section \<open>Precompiled contracts\<close>

lemma UseGas_cases:
  "(UseGas c g = (c, False) \<and> c_Gas c < g) \<or> (UseGas c g = (c\<lparr>c_Gas := c_Gas c - g\<rparr>, True) \<and> g \<le> c_Gas c)"
  by (auto simp: UseGas_def)

lemma UseGas_le: "c_Gas (fst (UseGas c g)) \<le> c_Gas c"
  using UseGas_cases [of c g] by (auto simp: word_sub_le)

lemma length_Hash_Bytes: "length (Hash_Bytes h) = 32"
  by (simp add: Hash_Bytes_def)

lemma address_slice: "go_slice (Hash_Bytes h) 12 32 = Ret (drop 12 (Hash_Bytes h))"
  by (simp add: go_slice_def length_Hash_Bytes)

lemma ecrecover_returns:
  assumes "crypto_ok cf"
  shows "\<exists>d. ecrecover_Run env cf inp = Ret d \<and> code_ok d"
proof -
  let ?i = "RightPadBytes inp 128"
  have len: "128 \<le> length ?i" by (simp add: RightPadBytes_def)
  have sl: "\<exists>b. go_slice ?i (int a) (int b') = Ret b" if "a \<le> b'" "b' \<le> 128" for a b'
    using that len by (simp add: go_slice_def)
  obtain rb sb pad h sig where s: "go_slice ?i 64 96 = Ret rb" "go_slice ?i 96 128 = Ret sb" "go_slice ?i 32 63 = Ret pad"
      "go_slice ?i 0 32 = Ret h" "go_slice ?i 64 128 = Ret sig"
    using sl [of 64 96] sl [of 96 128] sl [of 32 63] sl [of 0 32] sl [of 64 128] by auto
  obtain vb where vb: "slice_get ?i 63 = Ret vb" using len by (simp add: slice_get_def)
  show ?thesis
  proof (cases "cf_Ecrecover cf h (sig @ [vb - 27])")
    case None
    then show ?thesis by (simp add: ecrecover_Run_def Let_def s vb)
  next
    case (Some pub)
    then have "pub \<noteq> []" using assms by (auto simp: crypto_ok_def)
    then have "go_slice pub 1 (int (length pub)) = Ret (drop 1 pub)" by (cases pub) (simp_all add: go_slice_def)
    then show ?thesis using Some
      by (simp add: ecrecover_Run_def Let_def s vb address_slice LeftPadBytes_def code_ok_def length_Hash_Bytes)
  qed
qed

lemma precompile_returns:
  assumes "crypto_ok cf" "code_ok input"
  shows "\<exists>d. precompile_Run env cf p input = Ret d \<and> code_ok d"
  using assms ecrecover_returns
  by (cases p) (auto simp: crypto_ok_def code_ok_def LeftPadBytes_def)

lemma RunPrecompiled_post:
  assumes "evm_ok evm" "code_ok input"
  shows "run_post evm (c_Gas c) (go_bind (RunPrecompiledContract (evm_env evm) (evm_crypto evm) p input c)
     (\<lambda>(c, ret, err). Ret (evm, c, ret, err)))"
proof -
  have "crypto_ok (evm_crypto evm)" using assms(1) by (simp add: evm_ok_def)
  then obtain d where "precompile_Run (evm_env evm) (evm_crypto evm) p input = Ret d" "code_ok d"
    using precompile_returns assms(2) by blast
  then show ?thesis using UseGas_cases [of c "RequiredGas p input"] assms(1)
    by (auto simp: RunPrecompiledContract_def run_post_def evm_step_refl word_sub_le)
qed

section \<open>Contract addresses\<close>

lemma rlp_head_le: "length (rlp_head a b n) \<le> 9"
  using intsize_le_8 [of "word_of_nat n"] by (simp add: rlp_head_def)

lemma rlp_string_le: "length (rlp_string b) \<le> length b + 9"
  using rlp_head_le [of "0x80" "0xB7" "length b"] by (simp add: rlp_string_def)

lemma CreateAddress_returns:
  assumes "code_ok payload" shows "\<exists>a. CreateAddress env b nonce payload = Ret a"
proof -
  let ?v = "VList [VBytes (Address_Bytes b), VUint nonce, VBytes payload]"
  let ?body = "rlp_string (Address_Bytes b) @ rlp_string (uint_bytes nonce) @ rlp_string payload"
  have "length (uint_bytes nonce) \<le> 8" using intsize_le_8 [of nonce] by (simp add: uint_bytes_def)
  then have "length ?body \<le> 55 + length payload"
    using rlp_string_le [of "Address_Bytes b"] rlp_string_le [of "uint_bytes nonce"] rlp_string_le [of payload]
    by (simp add: Address_Bytes_def)
  moreover have "rlp_enc ?v = rlp_head 0xC0 0xF7 (length ?body) @ ?body" by (simp add: Let_def)
  moreover note rlp_head_le [of "0xC0" "0xF7" "length ?body"]
  ultimately have "length (rlp_enc ?v) \<le> length payload + 64" by (simp only: length_append)
  then have "length (rlp_enc ?v) < 2 ^ 64" using assms by (simp add: code_ok_def del: rlp_enc.simps)
  then have "EncodeToBytes ?v = Ret (Inr (rlp_enc ?v))" by (intro EncodeToBytes_eq) simp_all
  then show ?thesis by (simp add: CreateAddress_def address_slice Let_def del: rlp_enc.simps)
qed

section \<open>Snapshots and transfers\<close>

lemma evm_Snapshot_step:
  assumes "evm_ok evm" "evm_Snapshot evm = (evm1, snap)"
  shows "evm_step evm evm1 \<and> state_view evm1 = state_view evm"
proof -
  obtain s1 where s1: "Snapshot (evm_StateDB evm) = (s1, snap)" "evm1 = evm\<lparr>evm_StateDB := s1\<rparr>"
    using assms(2) by (auto simp: evm_Snapshot_def split: prod.splits)
  have inv: "sdb_inv (evm_env evm) (evm_StateDB evm)" using assms(1) by (simp add: evm_ok_def)
  note v = Snapshot_inv [OF inv s1(1)]
  then have "total_balance s1 = total_balance (evm_StateDB evm)" using total_balance_view by blast
  then have "evm_step evm evm1" using evm_step_state [OF assms(1), of s1] v s1(2) by (simp add: steps_to_def)
  then show ?thesis using v s1(2) by (simp add: state_view_def)
qed

lemma evm_Transfer_step:
  assumes "evm_ok evm" "0 \<le> v" "CanTransfer (evm_StateDB evm) a v"
  shows "evm_step evm (evm_Transfer evm a b v)"
  unfolding evm_Transfer_def using assms Transfer_steps by (intro evm_step_on_state) auto

lemma word_add_back:
  assumes "f \<le> g" "a \<le> g - f" shows "a + f \<le> (g :: uint64)"
proof -
  have "unat a + unat f \<le> unat g" using assms by (simp add: word_le_nat_alt unat_sub)
  moreover have "unat g < 2 ^ 64" using unsigned_less [of g] by simp
  ultimately have "unat (a + f) = unat a + unat f" by (intro unat_add_small) linarith
  then show ?thesis using \<open>unat a + unat f \<le> unat g\<close> by (simp add: word_le_nat_alt)
qed

lemma undo_call_step:
  assumes "evm_ok evm" "evm_Snapshot evm = (evm1, snap)" "evm_step evm1 evm2"
    "f \<longrightarrow> fee \<le> gas \<and> c_Gas c \<le> gas - fee" "\<not> f \<longrightarrow> c_Gas c \<le> gas"
  shows "\<exists>evm3 c'. undo_call evm2 c snap err f fee = Ret (evm3, c') \<and> evm_step evm evm3 \<and> state_view evm3 = state_view evm \<and>
     c_Gas c' \<le> gas"
proof -
  let ?env = "evm_env evm"
  obtain s1 where s1: "Snapshot (evm_StateDB evm) = (s1, snap)" "evm1 = evm\<lparr>evm_StateDB := s1\<rparr>"
    using assms(2) by (auto simp: evm_Snapshot_def split: prod.splits)
  have inv: "sdb_inv ?env (evm_StateDB evm)" using assms(1) by (simp add: evm_ok_def)
  have two: "later ?env s1 (evm_StateDB evm2)" "sdb_inv ?env (evm_StateDB evm2)" "evm_env evm2 = ?env"
    using assms(3) s1(2) by (auto simp: evm_step_def evm_fixed_def evm_ok_def)
  obtain s3 where s3: "RevertToSnapshot (evm_StateDB evm2) snap = Ret s3" "view ?env s3 = view ?env (evm_StateDB evm)"
      "sdb_inv ?env s3" "later ?env (evm_StateDB evm) s3"
    using RevertToSnapshot_restores [OF inv s1(1) two(1,2)] by blast
  have fixed: "evm_fixed evm evm2" "code_ok (evm_returnData evm2)"
    using assms(3) s1(2) by (auto simp: evm_step_def evm_fixed_def evm_ok_def)
  have "total_balance s3 = total_balance (evm_StateDB evm)" using total_balance_view [OF s3(2)] .
  then have "evm_step evm (evm2\<lparr>evm_StateDB := s3\<rparr>)"
    using s3(3,4) fixed assms(1) by (auto simp: evm_step_def evm_ok_def evm_fixed_def)
  moreover have "c_Gas (if err \<noteq> errExecutionReverted then fst (UseGas c (c_Gas c))
      else if f then c\<lparr>c_Gas := c_Gas c + fee\<rparr> else c) \<le> gas"
    using assms(4,5) word_add_back by (auto simp: UseGas_def)
  ultimately show ?thesis using s3(1,2) two(3) by (simp add: undo_call_def state_view_def)
qed

lemma end_call_post:
  assumes "evm_ok evm" "evm_Snapshot evm = (evm1, snap)" "evm_step evm1 evm2" "run_post evm2 g r"
    "f \<longrightarrow> fee \<le> gas \<and> g \<le> gas - fee" "\<not> f \<longrightarrow> g \<le> gas"
  shows "call_post evm gas (end_call snap f fee r)"
proof -
  from assms(4) obtain evm3 c ret err where r: "r = Ret (evm3, c, ret, err)" "evm_step evm2 evm3" "c_Gas c \<le> g" "code_ok ret"
    by (rule run_postE)
  have step: "evm_step evm1 evm3" using assms(3) r(2) by (rule evm_step_trans)
  have gas: "f \<longrightarrow> fee \<le> gas \<and> c_Gas c \<le> gas - fee" "\<not> f \<longrightarrow> c_Gas c \<le> gas" using assms(5,6) r(3) by auto
  show ?thesis
  proof (cases err)
    case None
    have "c_Gas c \<le> gas" using gas by (cases f) (auto intro: order.trans word_sub_le)
    then show ?thesis using None r evm_step_trans [OF conjunct1 [OF evm_Snapshot_step [OF assms(1,2)]] step]
      by (auto simp: end_call_def intro!: call_postI)
  next
    case (Some e)
    then show ?thesis using undo_call_step [OF assms(1,2) step gas, of e] r by (auto simp: end_call_def intro: call_postI)
  qed
qed

lemma end_create_post:
  assumes "evm_ok evm" "evm_Snapshot evm = (evm1, snap)" "evm_step evm1 evm2" "run_post evm2 g r"
    "f \<longrightarrow> fee \<le> gas \<and> g \<le> gas - fee" "\<not> f \<longrightarrow> g \<le> gas"
  shows "create_post evm gas (end_create a snap f fee r)"
proof -
  from assms(4) obtain evm3 c ret err where r: "r = Ret (evm3, c, ret, err)" "evm_step evm2 evm3" "c_Gas c \<le> g" "code_ok ret"
    by (rule run_postE)
  let ?u = "UseGas c (word_of_nat (length ret) * CreateDataGas)" and ?max = "length ret > MaxCodeSize"
  define t where "t = (if err = None \<and> \<not> ?max
      then if snd ?u then (on_state evm3 (\<lambda>env s. SetCode env s a ret), fst ?u, None) else (evm3, fst ?u, Some ErrCodeStoreOutOfGas)
      else (evm3, c, err))"
  obtain evm4 c4 err4 where t: "t = (evm4, c4, err4)" by (cases t)
  have step3: "evm_step evm1 evm3" using assms(3) r(2) by (rule evm_step_trans)
  have "evm_step evm3 (on_state evm3 (\<lambda>env s. SetCode env s a ret))"
    using evm_step_ok [OF r(2)] SetCode_steps [OF r(4)] by (intro evm_step_on_state) simp_all
  then have step: "evm_step evm1 evm4"
    using t step3 evm_step_trans [OF step3] by (auto simp: t_def split: if_splits)
  have "c_Gas c4 \<le> g"
    using t r(3) order.trans [OF UseGas_le r(3), of "word_of_nat (length ret) * CreateDataGas"]
    by (auto simp: t_def split: if_splits)
  then have gas: "f \<longrightarrow> fee \<le> gas \<and> c_Gas c4 \<le> gas - fee" "\<not> f \<longrightarrow> c_Gas c4 \<le> gas" using assms(5,6) by auto
  have low: "c_Gas c4 \<le> gas" using gas by (cases f) (auto intro: order.trans word_sub_le)
  let ?fin = "\<lambda>(evm, c). Ret (evm, ret, a, c_Gas c, if ?max \<and> err4 = None then Some errMaxCodeSizeExceeded else err4)"
  have eq: "end_create a snap f fee r =
      go_bind (if ?max \<or> err4 \<noteq> None then undo_call evm4 c4 snap (case err4 of None \<Rightarrow> errMaxCodeSizeExceeded | Some e \<Rightarrow> e) f fee
        else Ret (evm4, c4)) ?fin"
    using t by (auto simp: end_create_def r(1) Let_def t_def split: if_splits prod.splits)
  show ?thesis
  proof (cases "?max \<or> err4 \<noteq> None")
    case True
    then show ?thesis
      using undo_call_step [OF assms(1,2) step gas, of "case err4 of None \<Rightarrow> errMaxCodeSizeExceeded | Some e \<Rightarrow> e"] r(4)
      by (auto simp: eq intro!: create_postI)
  next
    case False
    then show ?thesis using low r(4) evm_step_trans [OF conjunct1 [OF evm_Snapshot_step [OF assms(1,2)]] step]
      by (auto simp: eq intro!: create_postI)
  qed
qed

section \<open>Call operations\<close>

lemma GetCode_CreateAccount: "GetCode env (CreateAccount env s a) a = []"
  by (auto simp: GetCode_def CreateAccount_def createObject_def Let_def getStateObject_def so_Code_def newObject_def sdb_defs
      split: option.splits)

lemma contract_ok_new: "word_ok v \<Longrightarrow> contract_ok (NewContract caller a v gas)"
  by (simp add: contract_ok_def NewContract_def)

lemma contract_ok_code_of:
  "evm_ok evm \<Longrightarrow> contract_ok c \<Longrightarrow> contract_ok (with_code_of evm c a) \<and> c_Gas (with_code_of evm c a) = c_Gas c"
  using code_ok_GetCode by (auto simp: with_code_of_def SetCallCode_def contract_ok_def evm_ok_def)

lemma c_Gas_new [simp]: "c_Gas (NewContract caller a v gas) = gas"
  by (simp add: NewContract_def)

lemma contract_ok_gas [simp]: "contract_ok (c\<lparr>c_Gas := g\<rparr>) = contract_ok c"
  by (simp add: contract_ok_def)

locale bounded_interp =
  fixes intp :: interp and n :: nat
  assumes run_returns: "evm_ok evm \<Longrightarrow> contract_ok c \<Longrightarrow> code_ok input \<Longrightarrow> unat (c_Gas c) < n \<Longrightarrow>
      run_post evm (c_Gas c) (intp evm c input)"
begin

lemma vm_run_post:
  assumes "evm_ok evm" "contract_ok c" "code_ok input" "unat (c_Gas c) < n"
  shows "run_post evm (c_Gas c) (vm_run intp evm c input)"
  using assms run_returns RunPrecompiled_post [of evm input c] by (auto simp: vm_run_def split: option.splits)

lemma plain_call_post:
  assumes "evm_ok evm" "evm_Snapshot evm = (evm1, snap)" "contract_ok c" "code_ok input" "unat (c_Gas c) < n"
  shows "call_post evm (c_Gas c) (end_call snap False 0 (vm_run intp evm1 (with_code_of evm1 c a) input))"
proof -
  have ok1: "evm_ok evm1" using evm_Snapshot_step [OF assms(1,2)] evm_step_ok by blast
  note c = contract_ok_code_of [OF ok1 assms(3), of a]
  have "run_post evm1 (c_Gas c) (vm_run intp evm1 (with_code_of evm1 c a) input)"
    using vm_run_post [OF ok1 _ assms(4), of "with_code_of evm1 c a"] c assms(5) by simp
  then show ?thesis using end_call_post [OF assms(1,2) evm_step_refl [OF ok1]] by simp
qed

lemma call_contract_post:
  assumes "evm_ok evm" "evm_Snapshot evm = (evm0, snap)" "evm_step evm0 evm1" "contract_ok c" "code_ok input" "word_ok v"
    "unat (c_Gas c) < n" "CanTransfer (evm_StateDB evm1) a v" "c_Code c \<noteq> [] \<Longrightarrow> state_view evm1 = state_view evm0"
  shows "call_post evm (c_Gas c) (call_contract intp evm1 a c input v snap)"
proof -
  let ?f = "isFeeUpdate evm1 c v" and ?fee = "CalNewFee v" and ?evm = "\<lambda>c. evm_Transfer evm1 a (c_self c) v"
  have ok1: "evm_ok evm1" using assms(3) by (rule evm_step_ok)
  have v: "0 \<le> v" using assms(6) by (simp add: word_ok_def)
  have step: "evm_step evm1 (?evm d)" for d using evm_Transfer_step [OF ok1 v assms(8)] .
  have run: "run_post (?evm d) (c_Gas d) (vm_run intp (?evm d) d input)" if "contract_ok d" "c_Gas d \<le> c_Gas c" for d
  proof (rule vm_run_post [OF evm_step_ok [OF step] that(1) assms(5)])
    show "unat (c_Gas d) < n" using that(2) assms(7) by (simp add: word_le_nat_alt)
  qed
  show ?thesis
  proof (cases "?f \<and> c_Gas c < ?fee")
    case True
    then have "c_Code c \<noteq> []" by (auto simp: isFeeUpdate_def Let_def)
    then show ?thesis
      using True assms(9) evm_Snapshot_step [OF assms(1,2)] evm_step_trans [OF _ assms(3)]
      by (auto simp: call_contract_def Let_def UseGas_def intro!: call_postI)
  next
    case False
    let ?d = "if ?f then c\<lparr>c_Gas := c_Gas c - ?fee\<rparr> else c"
    have d: "contract_ok ?d" "c_Gas ?d \<le> c_Gas c" using assms(4) False by (auto simp: word_sub_le)
    have "call_contract intp evm1 a c input v snap =
        end_call snap ?f (if ?f then ?fee else 0) (vm_run intp (?evm ?d) ?d input)"
      using False by (auto simp: call_contract_def Let_def UseGas_def)
    moreover have "call_post evm (c_Gas c) (end_call snap ?f (if ?f then ?fee else 0) (vm_run intp (?evm ?d) ?d input))"
      using False end_call_post [OF assms(1,2) evm_step_trans [OF assms(3) step] run [OF d]] by auto
    ultimately show ?thesis by simp
  qed
qed

lemma evm_Call_post:
  assumes "evm_ok evm" "code_ok input" "word_ok v" "unat gas < n"
  shows "call_post evm gas (evm_Call intp evm caller addr input gas v)"
proof -
  obtain evm0 snap where snap: "evm_Snapshot evm = (evm0, snap)" by fastforce
  note s0 = evm_Snapshot_step [OF assms(1) snap]
  have ok0: "evm_ok evm0" using s0 evm_step_ok by blast
  let ?a = "ref_Address caller"
  define evm1 where "evm1 = (if \<not> Exist (evm_StateDB evm0) addr then on_state evm0 (\<lambda>env s. CreateAccount env s addr) else evm0)"
  define c where "c = with_code_of evm1 (NewContract caller addr v gas) addr"
  have step: "evm_step evm0 evm1"
    using ok0 by (auto simp: evm1_def evm_step_refl evm_ok_def intro!: evm_step_on_state CreateAccount_steps)
  have c: "contract_ok c" "c_Gas c = gas"
    using contract_ok_code_of [OF evm_step_ok [OF step] contract_ok_new [OF assms(3)]] by (auto simp: c_def)
  have view: "state_view evm1 = state_view evm0" if "c_Code c \<noteq> []"
    using that by (auto simp: c_def evm1_def with_code_of_def SetCallCode_def on_state_def GetCode_CreateAccount split: if_splits)
  have bal: "GetBalance (evm_StateDB evm1) b = GetBalance (evm_StateDB evm) b" for b
    using snap s0 GetBalance_view [of "evm_env evm" "evm_StateDB evm0" "evm_StateDB evm" b]
    by (auto simp: evm1_def on_state_def state_view_def evm_step_def evm_fixed_def)
  have main: "call_post evm gas (call_contract intp evm1 ?a c input v snap)" if "CanTransfer (evm_StateDB evm) ?a v"
    using call_contract_post [OF assms(1) snap step c(1) assms(2,3) _ _ view] that assms(4) c(2) bal by (auto simp: CanTransfer_def)
  show ?thesis
    using assms(1) main s0
    by (auto simp: evm_Call_def snap evm1_def [symmetric] c_def [symmetric] Let_def evm_step_refl intro!: call_postI)
qed

lemma evm_CallCode_post:
  assumes "evm_ok evm" "code_ok input" "word_ok v" "unat gas < n"
  shows "call_post evm gas (evm_CallCode intp evm caller addr input gas v)"
proof -
  obtain evm0 snap where snap: "evm_Snapshot evm = (evm0, snap)" by fastforce
  show ?thesis
    using assms(1) plain_call_post [OF assms(1) snap contract_ok_new [OF assms(3)] assms(2), of caller "ref_Address caller" gas addr] assms(4)
    by (auto simp: evm_CallCode_def snap Let_def evm_step_refl intro!: call_postI)
qed

lemma evm_DelegateCall_post:
  assumes "evm_ok evm" "code_ok input" "contract_ok p" "unat gas < n"
  shows "call_post evm gas (evm_DelegateCall intp evm (contract_ref p) addr input gas)"
proof -
  obtain evm0 snap where snap: "evm_Snapshot evm = (evm0, snap)" by fastforce
  let ?new = "NewContract (contract_ref p) (ref_Address (contract_ref p)) 0 gas"
  obtain c where c: "AsDelegate ?new = Ret c" "contract_ok c" "c_Gas c = gas"
    using assms(3) by (simp add: AsDelegate_def NewContract_def contract_ref_def contract_ok_def)
  show ?thesis
    using assms(1) plain_call_post [OF assms(1) snap c(2) assms(2), of addr] assms(4) c
    by (auto simp: evm_DelegateCall_def snap Let_def evm_step_refl intro!: call_postI)
qed

lemma evm_StaticCall_post:
  assumes "evm_ok evm" "code_ok input" "unat gas < n"
  shows "call_post evm gas (evm_StaticCall intp evm caller addr input gas)"
proof -
  let ?evm = "evm\<lparr>evm_readOnly := True\<rparr>"
  obtain evm0 snap where snap: "evm_Snapshot ?evm = (evm0, snap)" by fastforce
  have ok: "evm_ok ?evm" using assms(1) by (simp add: evm_ok_def)
  let ?r = "end_call snap False 0 (vm_run intp evm0 (with_code_of evm0 (NewContract caller addr 0 gas) addr) input)"
  have "call_post ?evm gas ?r"
    using plain_call_post [OF ok snap contract_ok_new assms(2), of 0 caller addr gas addr] assms(3) by simp
  then obtain evm' ret g err where r: "?r = Ret (evm', ret, g, err)" "evm_step ?evm evm'" "g \<le> gas" "code_ok ret"
      "err \<noteq> None \<longrightarrow> state_view evm' = state_view ?evm"
    by (auto simp: call_post_def)
  let ?evm' = "if evm_readOnly evm then evm' else evm'\<lparr>evm_readOnly := False\<rparr>"
  have "evm_step evm ?evm'" using r(2) by (auto simp: evm_step_def evm_fixed_def evm_ok_def)
  moreover have "state_view ?evm' = state_view evm'" "state_view ?evm = state_view evm" by (simp_all add: state_view_def)
  ultimately have "call_post evm gas (Ret (?evm', ret, g, err))" using r(3-5) by (intro call_postI) auto
  then show ?thesis using assms(1) r(1)
    by (auto simp: evm_StaticCall_def snap Let_def evm_step_refl intro!: call_postI)
qed

lemma create_contract_post:
  assumes "evm_ok evm" "code_ok code" "word_ok v" "unat gas < n" "CanTransfer (evm_StateDB evm) (ref_Address caller) v"
  shows "create_post evm gas (create_contract intp evm caller a code gas v)"
proof -
  obtain evm0 snap where snap: "evm_Snapshot evm = (evm0, snap)" by fastforce
  note s0 = evm_Snapshot_step [OF assms(1) snap]
  have ok0: "evm_ok evm0" using s0 evm_step_ok by blast
  define evm1 where "evm1 = on_state evm0 (\<lambda>env s. SetNonce env (CreateAccount env s a) a 1)"
  define c where "c = SetCallCode (NewContract caller a v gas) a (se_Keccak (evm_env evm1) code) code"
  let ?f = "isFeeUpdate evm1 c v" and ?fee = "CalNewFee v"
  have step1: "evm_step evm0 evm1" unfolding evm1_def
    using ok0 by (intro evm_step_on_state steps_to_trans [OF CreateAccount_steps SetNonce_steps]) (simp_all add: evm_ok_def)
  have c: "contract_ok c" "c_Gas c = gas" "c_self c = a"
    using assms(2,3) by (simp_all add: c_def SetCallCode_def NewContract_def contract_ok_def)
  have bal: "GetBalance (evm_StateDB evm1) b = GetBalance (evm_StateDB evm) b" for b
    using s0 GetBalance_view [of "evm_env evm" "evm_StateDB evm0" "evm_StateDB evm" b]
    by (auto simp: evm1_def on_state_def state_view_def evm_step_def evm_fixed_def)
  let ?evm2 = "evm_Transfer evm1 (ref_Address caller) a v"
  have v: "0 \<le> v" using assms(3) by (simp add: word_ok_def)
  have step2: "evm_step evm1 ?evm2"
    using assms(5) bal by (intro evm_Transfer_step [OF evm_step_ok [OF step1] v]) (simp add: CanTransfer_def)
  have step: "evm_step evm evm1" "evm_step evm ?evm2" using s0 step1 step2 evm_step_trans by blast+
  show ?thesis
  proof (cases "?f \<and> c_Gas c < ?fee")
    case True
    then show ?thesis using step
      by (auto simp: create_contract_def snap evm1_def [symmetric] c_def [symmetric] Let_def UseGas_def intro!: create_postI)
  next
    case False
    let ?d = "if ?f then c\<lparr>c_Gas := c_Gas c - ?fee\<rparr> else c"
    have d: "contract_ok ?d" "c_Gas ?d \<le> gas" using c False by (auto simp: word_sub_le)
    have "unat (c_Gas ?d) < n" using d(2) assms(4) by (simp add: word_le_nat_alt)
    then have run: "run_post ?evm2 (c_Gas ?d) (vm_run intp ?evm2 ?d [])"
      using vm_run_post [OF evm_step_ok [OF step2] d(1)] by simp
    have "create_contract intp evm caller a code gas v =
        (if cfg_NoRecursion (evm_cfg ?evm2) \<and> evm_depth ?evm2 > 0 then Ret (?evm2, [], a, gas, None)
         else end_create a snap ?f (if ?f then ?fee else 0) (vm_run intp ?evm2 ?d []))"
      using False by (auto simp: create_contract_def snap evm1_def [symmetric] c_def [symmetric] Let_def UseGas_def)
    moreover have "create_post evm gas (end_create a snap ?f (if ?f then ?fee else 0) (vm_run intp ?evm2 ?d []))"
      using False c(2) end_create_post [OF assms(1) snap evm_step_trans [OF step1 step2] run, of ?f ?fee gas a]
        end_create_post [OF assms(1) snap evm_step_trans [OF step1 step2] run, of ?f 0 gas a]
      by (cases ?f) auto
    ultimately show ?thesis using step(2) by (auto intro!: create_postI)
  qed
qed

lemma evm_Create_post:
  assumes "evm_ok evm" "code_ok code" "word_ok v" "unat gas < n"
  shows "create_post evm gas (evm_Create intp evm caller code gas v)"
proof -
  let ?a = "ref_Address caller"
  let ?nonce = "GetNonce (evm_StateDB evm) ?a"
  define evm1 where "evm1 = on_state evm (\<lambda>env s. SetNonce env s ?a (?nonce + 1))"
  have step: "evm_step evm evm1" unfolding evm1_def using assms(1) by (intro evm_step_on_state SetNonce_steps) simp_all
  have bal: "GetBalance (evm_StateDB evm1) b = GetBalance (evm_StateDB evm) b" for b by (simp add: evm1_def on_state_def)
  obtain ca where ca: "CreateAddress (evm_env evm1) ?a ?nonce code = Ret ca" using CreateAddress_returns [OF assms(2)] by blast
  have main: "create_post evm gas (create_contract intp evm1 caller ca code gas v)" if "CanTransfer (evm_StateDB evm) ?a v"
    using create_contract_post [OF evm_step_ok [OF step] assms(2-4), of caller ca] that bal evm_step_trans [OF step]
    by (auto simp: create_post_def CanTransfer_def)
  show ?thesis
    using assms(1) main step
    by (auto simp: evm_Create_def evm1_def [symmetric] ca Let_def evm_step_refl intro!: create_postI)
qed

end

end
