(* ===== verification/Evm_Gas_Safety.thy ===== *)
theory Evm_Gas_Safety
  imports Evm_Call_Safety
begin

text \<open>
  The contracts of the gas and memory functions. \<open>gas_ok\<close> says that a gas function returns, changes the
  machine only within its invariant, leaves the memory contents alone, and that a cost, when there is one,
  covers at most \<open>max_memory\<close> bytes and is not zero; \<open>call_gas_post\<close> that the gas set aside for a callee is
  part of the cost; \<open>memf_ok\<close> that a memory function returns; \<open>resize_covers\<close> that the memory then covers
  what the instruction asked for.
\<close>

section \<open>Gas functions\<close>

definition gas_post :: "EVM \<Rightarrow> Memory \<Rightarrow> uint64 \<Rightarrow> bool \<Rightarrow> gas_result \<Rightarrow> bool" where
  "gas_post evm mem ms b r \<longleftrightarrow> (\<exists>evm' mem' res. r = Ret (evm', mem', res) \<and> evm_step evm evm' \<and> mem_store mem' = mem_store mem \<and>
     (\<forall>cost. res = Inr cost \<longrightarrow> unat ms \<le> max_memory \<and> (b \<longrightarrow> 0 < cost)))"

text \<open>\<open>b\<close>: the cost is never zero; \<open>u\<close>: the operation has a memory function.\<close>

definition gas_ok :: "nat \<Rightarrow> bool \<Rightarrow> bool \<Rightarrow> gasFunc \<Rightarrow> bool" where
  "gas_ok k u b g \<longleftrightarrow> (\<forall>evm c st mem ms. evm_ok evm \<and> k \<le> length st \<and> (\<not> u \<longrightarrow> ms = 0) \<longrightarrow>
     gas_post evm mem ms b (g GasTableEIP158 evm c st mem ms))"

lemma gas_okI:
  assumes "\<And>evm c st mem ms. evm_ok evm \<Longrightarrow> k \<le> length st \<Longrightarrow> (\<not> u \<Longrightarrow> ms = 0) \<Longrightarrow>
    gas_post evm mem ms b (g GasTableEIP158 evm c st mem ms)"
  shows "gas_ok k u b g"
  using assms by (simp add: gas_ok_def)

lemma gas_postI:
  "evm_step evm evm' \<Longrightarrow> mem_store mem' = mem_store mem \<Longrightarrow>
    (\<And>cost. res = Inr cost \<Longrightarrow> unat ms \<le> max_memory \<and> (b \<longrightarrow> 0 < cost)) \<Longrightarrow> gas_post evm mem ms b (Ret (evm', mem', res))"
  by (simp add: gas_post_def)

lemma memoryGasCost_bound:
  assumes "memoryGasCost mem ms = (mem', fee)"
  shows "mem_store mem' = mem_store mem \<and> (fee = Inr gas \<longrightarrow> unat ms \<le> max_memory)"
  using assms by (auto simp: memoryGasCost_def Let_def max_memory_def word_le_nat_alt not_less split: if_splits)

lemma SafeAdd_bind:
  assumes "check_overflow (SafeAdd x y) k = Inr z"
  shows "\<exists>w. k w = Inr z \<and> unat w = unat x + unat y"
  using assms SafeAdd_spec(2) [of x y] by (auto simp: check_overflow_def split: prod.splits if_splits)

lemma check_overflow_Inr: "check_overflow r k = Inr z \<Longrightarrow> \<exists>w. k w = Inr z"
  by (auto simp: check_overflow_def split: prod.splits if_splits)

lemma sum_bind_Inr: "sum_bind m k = Inr z \<Longrightarrow> \<exists>w. m = Inr w \<and> k w = Inr z"
  by (auto simp: sum_bind_def split: sum.splits)

lemma Back_returns: "i < length st \<Longrightarrow> Back st (int i) = Ret (st ! i)"
  by (simp add: Back_def slice_get_def)

lemma gas_copy_post:
  assumes "evm_ok evm" "i < length st" "0 < base"
  shows "gas_post evm mem ms b (gas_copy base (int i) w evm st mem ms)"
proof -
  obtain mem' fee where f: "memoryGasCost mem ms = (mem', fee)" by fastforce
  show ?thesis unfolding gas_copy_def f Back_returns [OF assms(2)] prod.case go_bind_simps
  proof (rule gas_postI [OF evm_step_refl [OF assms(1)]])
    show "mem_store mem' = mem_store mem" using memoryGasCost_bound [OF f] by simp
    fix cost
    assume "sum_bind fee (\<lambda>gas. check_overflow (SafeAdd gas base) (\<lambda>gas. check_overflow (bigUint64 (st ! i)) (\<lambda>words.
        check_overflow (SafeMul (toWordSize words) w) (\<lambda>words. check_overflow (SafeAdd gas words) Inr)))) = Inr cost"
    then obtain x y z where "fee = Inr x" "unat y = unat x + unat base" "check_overflow (SafeAdd y z) Inr = Inr cost"
      by (meson SafeAdd_bind check_overflow_Inr sum_bind_Inr)
    then show "unat ms \<le> max_memory \<and> (b \<longrightarrow> 0 < cost)"
      using memoryGasCost_bound [OF f] SafeAdd_bind [of y z Inr cost] assms(3) by (auto simp: word_less_nat_alt)
  qed
qed

lemma gas_mem_plus_post:
  assumes "evm_ok evm" "0 < base"
  shows "gas_post evm mem ms b (gas_mem_plus base evm mem ms)"
proof -
  obtain mem' fee where f: "memoryGasCost mem ms = (mem', fee)" by fastforce
  show ?thesis unfolding gas_mem_plus_def f prod.case
  proof (rule gas_postI [OF evm_step_refl [OF assms(1)]])
    show "mem_store mem' = mem_store mem" using memoryGasCost_bound [OF f] by simp
    fix cost
    assume "sum_bind fee (\<lambda>gas. check_overflow (SafeAdd gas base) Inr) = Inr cost"
    then obtain x where "fee = Inr x" "check_overflow (SafeAdd x base) Inr = Inr cost" using sum_bind_Inr by blast
    then show "unat ms \<le> max_memory \<and> (b \<longrightarrow> 0 < cost)"
      using memoryGasCost_bound [OF f] SafeAdd_bind [of x base Inr cost] assms(2) by (auto simp: word_less_nat_alt)
  qed
qed

named_theorems gas_oks \<open>gas functions that keep their contract\<close>

lemma gas_const [gas_oks]:
  "(b \<Longrightarrow> 0 < gas) \<Longrightarrow> gas_ok k False b (constGasFunc gas)"
  by (rule gas_okI) (auto simp: constGasFunc_def evm_step_refl intro!: gas_postI)

lemma gas_fixed [gas_oks]:
  "gas_ok k False b gasPush" "gas_ok k False b gasDup" "gas_ok k False b gasSwap" "gas_ok k False b gasBalance"
  "gas_ok k False b gasExtCodeSize" "gas_ok k False b gasSLoad"
  by (rule gas_okI, auto simp: gasPush_def gasDup_def gasSwap_def gasBalance_def gasExtCodeSize_def gasSLoad_def
      GasTableEIP158_def evm_step_refl intro!: gas_postI)+

lemma gas_copies [gas_oks]:
  "gas_ok 3 True b gasCallDataCopy" "gas_ok 3 True b gasReturnDataCopy" "gas_ok 3 True b gasCodeCopy" "gas_ok 2 True b gasSha3"
  "gas_ok 4 True b gasExtCodeCopy"
  unfolding gas_ok_def gasCallDataCopy_def gasReturnDataCopy_def gasCodeCopy_def gasSha3_def gasExtCodeCopy_def
  using gas_copy_post [of _ 2] gas_copy_post [of _ 1] gas_copy_post [of _ 3]
  by (auto simp: GasTableEIP158_def)

lemma gas_mems [gas_oks]:
  "gas_ok k True b gasMLoad" "gas_ok k True b gasMStore" "gas_ok k True b gasMStore8" "gas_ok k True b gasCreate"
  by (auto simp: gas_ok_def gasMLoad_def gasMStore_def gasMStore8_def gasCreate_def intro!: gas_mem_plus_post)

lemma gas_returns [gas_oks]: "gas_ok k True False gasReturn" "gas_ok k True False gasRevert"
proof -
  have "gas_post evm mem ms False (case memoryGasCost mem ms of (mem', fee) \<Rightarrow> Ret (evm, mem', fee))" if "evm_ok evm" for evm mem ms
  proof -
    obtain mem' fee where f: "memoryGasCost mem ms = (mem', fee)" by fastforce
    then show ?thesis using memoryGasCost_bound [OF f] evm_step_refl [OF that] by (auto intro!: gas_postI)
  qed
  then show "gas_ok k True False gasReturn" "gas_ok k True False gasRevert"
    by (simp_all add: gas_ok_def gasReturn_def gasRevert_def)
qed

lemma gas_suicide [gas_oks]: "gas_ok k False False gasSuicide"
  by (rule gas_okI) (auto simp: gasSuicide_def evm_step_refl evm_step_state AddRefund_steps intro!: gas_postI)

lemma gas_sstore [gas_oks]: "gas_ok 2 False b gasSStore"
proof (rule gas_okI)
  fix evm c mem and st :: Stack and ms :: uint64
  assume a: "evm_ok evm" "2 \<le> length st" "\<not> False \<Longrightarrow> ms = 0"
  have "0 < length st" "1 < length st" using a(2) by linarith+
  then have "Back st 0 = Ret (st ! 0)" "Back st 1 = Ret (st ! 1)" using Back_returns [of 0 st] Back_returns [of 1 st] by simp_all
  then show "gas_post evm mem ms b (gasSStore GasTableEIP158 evm c st mem ms)"
    using a by (auto simp: gasSStore_def Let_def evm_step_refl evm_step_state AddRefund_steps
        intro!: gas_postI)
qed

lemma gas_exp [gas_oks]: "gas_ok 2 False b gasExp"
proof (rule gas_okI)
  fix evm c mem and st :: Stack and ms :: uint64
  assume a: "evm_ok evm" "2 \<le> length st" "\<not> False \<Longrightarrow> ms = 0"
  have "slice_get st 1 = Ret (st ! 1)" using a(2) by (simp add: slice_get_def)
  then show "gas_post evm mem ms b (gasExp GasTableEIP158 evm c st mem ms)"
    using a by (auto simp: gasExp_def Let_def evm_step_refl word_less_nat_alt dest!: SafeAdd_bind intro!: gas_postI)
qed

lemma gas_log [gas_oks]: "gas_ok (k + 2) True b (makeGasLog n)"
proof (rule gas_okI)
  fix evm c mem and st :: Stack and ms :: uint64
  assume a: "evm_ok evm" "k + 2 \<le> length st"
  obtain mem' fee where f: "memoryGasCost mem ms = (mem', fee)" by fastforce
  have B: "Back st 1 = Ret (st ! 1)" using Back_returns [of 1 st] a(2) by simp
  show "gas_post evm mem ms b (makeGasLog n GasTableEIP158 evm c st mem ms)"
  proof (cases "snd (bigUint64 (st ! 1))")
    case True
    then show ?thesis using a(1) by (auto simp: makeGasLog_def B evm_step_refl split: prod.splits intro!: gas_postI)
  next
    case False
    then obtain sz where sz: "bigUint64 (st ! 1) = (sz, False)" by (cases "bigUint64 (st ! 1)") auto
    show ?thesis unfolding makeGasLog_def B sz f go_bind_simps prod.case if_False
    proof (rule gas_postI [OF evm_step_refl [OF a(1)]])
      show "mem_store mem' = mem_store mem" using memoryGasCost_bound [OF f] by simp
      fix cost
      assume "sum_bind fee (\<lambda>gas. check_overflow (SafeAdd gas LogGas) (\<lambda>gas. check_overflow (SafeAdd gas (n * LogTopicGas))
          (\<lambda>gas. check_overflow (SafeMul sz LogDataGas) (\<lambda>msg. check_overflow (SafeAdd gas msg) Inr)))) = Inr cost"
      then obtain x where x: "fee = Inr x" "check_overflow (SafeAdd x LogGas) (\<lambda>gas. check_overflow (SafeAdd gas (n * LogTopicGas))
          (\<lambda>gas. check_overflow (SafeMul sz LogDataGas) (\<lambda>msg. check_overflow (SafeAdd gas msg) Inr))) = Inr cost"
        using sum_bind_Inr by blast
      obtain y where y: "unat y = unat x + unat LogGas" "check_overflow (SafeAdd y (n * LogTopicGas))
          (\<lambda>gas. check_overflow (SafeMul sz LogDataGas) (\<lambda>msg. check_overflow (SafeAdd gas msg) Inr)) = Inr cost"
        using SafeAdd_bind [OF x(2)] by blast
      obtain z where z: "unat z = unat y + unat (n * LogTopicGas)"
          "check_overflow (SafeMul sz LogDataGas) (\<lambda>msg. check_overflow (SafeAdd z msg) Inr) = Inr cost"
        using SafeAdd_bind [OF y(2)] by blast
      obtain w where "check_overflow (SafeAdd z w) Inr = Inr cost" using check_overflow_Inr [OF z(2)] by blast
      then show "unat ms \<le> max_memory \<and> (b \<longrightarrow> 0 < cost)"
        using memoryGasCost_bound [OF f] SafeAdd_bind [of z w Inr cost] x(1) y(1) z(1) by (auto simp: word_less_nat_alt)
    qed
  qed
qed

text \<open>The call operations: what is set aside for the callee is part of the cost.\<close>

definition call_gas_post :: "EVM \<Rightarrow> Memory \<Rightarrow> uint64 \<Rightarrow> nat \<Rightarrow> gas_result \<Rightarrow> bool" where
  "call_gas_post evm mem ms m r \<longleftrightarrow> gas_post evm mem ms True r \<and>
     (\<forall>evm' mem' cost. r = Ret (evm', mem', Inr cost) \<longrightarrow> unat (evm_callGasTemp evm') + m \<le> unat cost)"

lemma SafeAdd_commute: "SafeAdd x y = SafeAdd y x"
  using SafeAdd_spec(1) [of x y] SafeAdd_spec(1) [of y x] by (auto simp: SafeAdd_def add.commute)

lemma gas_call_end_post:
  assumes "evm_ok evm" "0 < length st" "m \<le> unat gas" "0 < m" "unat ms \<le> max_memory" "mem_store mem' = mem_store mem"
  shows "call_gas_post evm mem ms m (gas_call_end gt evm c st mem' gas)"
proof -
  have B: "Back st 0 = Ret (st ! 0)" using Back_returns [of 0 st] assms(2) by simp
  show ?thesis
  proof (cases "callGas gt (c_Gas c) gas (st ! 0)")
    case (Inl e)
    then show ?thesis using assms by (auto simp: gas_call_end_def B call_gas_post_def evm_step_refl intro!: gas_postI)
  next
    case (Inr temp)
    have "m + unat temp \<le> unat cost" if "check_overflow (SafeAdd gas temp) Inr = Inr cost" for cost
      using SafeAdd_bind [OF that] assms(3) by auto
    then show ?thesis using Inr assms
      by (fastforce simp: gas_call_end_def B call_gas_post_def evm_step_refl word_less_nat_alt intro!: gas_postI)
  qed
qed

lemma call_gas_tail:
  assumes "evm_ok evm" "0 < length st" "m \<le> unat base" "0 < m"
  shows "call_gas_post evm mem ms m (case memoryGasCost mem ms of
      (mem', Inl err) \<Rightarrow> Ret (evm, mem', Inl err)
    | (mem', Inr memoryGas) \<Rightarrow> (case SafeAdd base memoryGas of (gas, overflow) \<Rightarrow>
        if overflow then Ret (evm, mem', Inl errGasUintOverflow) else gas_call_end gt evm c st mem' gas))"
proof -
  obtain mem' fee where f: "memoryGasCost mem ms = (mem', fee)" by fastforce
  note f' = memoryGasCost_bound [OF f]
  show ?thesis
  proof (cases fee)
    case (Inl e)
    then show ?thesis using f f' assms(1) by (auto simp: call_gas_post_def evm_step_refl intro!: gas_postI)
  next
    case (Inr mg)
    show ?thesis
    proof (cases "snd (SafeAdd base mg)")
      case True
      then show ?thesis using f f' Inr assms(1)
        by (auto simp: call_gas_post_def evm_step_refl split: prod.splits intro!: gas_postI)
    next
      case False
      then have "m \<le> unat (fst (SafeAdd base mg))" using SafeAdd_spec(2) [OF False] assms(3) by simp
      then show ?thesis using False f f' Inr gas_call_end_post [OF assms(1,2) _ assms(4), of "fst (SafeAdd base mg)" ms mem' mem gt c]
        by (auto split: prod.splits)
    qed
  qed
qed

lemma gasCall_post:
  assumes "evm_ok evm" "7 \<le> length st"
  shows "call_gas_post evm mem ms (700 + (if st ! 2 \<noteq> 0 then 9000 else 0)) (gasCall GasTableEIP158 evm c st mem ms)"
    "call_gas_post evm mem ms (700 + (if st ! 2 \<noteq> 0 then 9000 else 0)) (gasCallCode GasTableEIP158 evm c st mem ms)"
proof -
  have len: "0 < length st" "1 < length st" "2 < length st" using assms(2) by linarith+
  have B: "Back st 2 = Ret (st ! 2)" "Back st 1 = Ret (st ! 1)"
    using Back_returns [OF len(3)] Back_returns [OF len(2)] by simp_all
  show "call_gas_post evm mem ms (700 + (if st ! 2 \<noteq> 0 then 9000 else 0)) (gasCall GasTableEIP158 evm c st mem ms)"
    unfolding gasCall_def Let_def B go_bind_simps
    by (rule call_gas_tail [OF assms(1) len(1)]) (simp_all add: GasTableEIP158_def)
  show "call_gas_post evm mem ms (700 + (if st ! 2 \<noteq> 0 then 9000 else 0)) (gasCallCode GasTableEIP158 evm c st mem ms)"
    unfolding gasCallCode_def Let_def B go_bind_simps
    by (rule call_gas_tail [OF assms(1) len(1)]) (simp_all add: GasTableEIP158_def)
qed

lemma gasDelegateCall_post:
  assumes "evm_ok evm" "6 \<le> length st"
  shows "call_gas_post evm mem ms 700 (gasDelegateCall GasTableEIP158 evm c st mem ms)"
    "call_gas_post evm mem ms 700 (gasStaticCall GasTableEIP158 evm c st mem ms)"
proof -
  have len: "0 < length st" using assms(2) by linarith
  have base: "700 \<le> unat (gt_Calls GasTableEIP158)" by (simp add: GasTableEIP158_def)
  show "call_gas_post evm mem ms 700 (gasDelegateCall GasTableEIP158 evm c st mem ms)"
    "call_gas_post evm mem ms 700 (gasStaticCall GasTableEIP158 evm c st mem ms)"
    unfolding gasDelegateCall_def gasStaticCall_def SafeAdd_commute [of _ "gt_Calls GasTableEIP158"]
    by (rule call_gas_tail [OF assms(1) len base], simp)+
qed

section \<open>Memory\<close>

lemma toWordSize_covers: "unat w \<le> unat (toWordSize w) * 32"
proof (cases "w > 18446744073709551615 - 31")
  case True
  then show ?thesis using order.trans [OF unat64_le [of w]] by (simp add: toWordSize_def)
next
  case False
  then have "unat (w + 31) = unat w + 31"
    by (intro trans [OF unat_add_small]) (simp_all add: word_less_nat_alt not_less)
  moreover have "unat w \<le> ((unat w + 31) div 32) * 32" by (simp add: algebra_simps)
  ultimately show ?thesis using False by (simp add: toWordSize_def unat_div)
qed

definition memf_ok :: "nat \<Rightarrow> memorySizeFunc option \<Rightarrow> bool" where
  "memf_ok k mf \<longleftrightarrow> (case mf of None \<Rightarrow> True
     | Some f \<Rightarrow> \<forall>st. k \<le> length st \<and> list_all word_ok st \<longrightarrow> (\<exists>sz. f st = Ret sz \<and> 0 \<le> sz))"

lemma memory_size_covers:
  assumes "memf_ok k (op_memorySize p)" "k \<le> length st" "list_all word_ok st"
  shows "\<exists>r. memory_size p st = Ret r \<and> (\<forall>ms. r = Some ms \<longrightarrow> 32 dvd unat ms \<and> (op_memorySize p = None \<longrightarrow> ms = 0) \<and>
     (\<forall>f. op_memorySize p = Some f \<longrightarrow> (\<exists>sz. f st = Ret sz \<and> sz \<le> int (unat ms))))"
proof (cases "op_memorySize p")
  case None
  then show ?thesis by (simp add: memory_size_def)
next
  case (Some f)
  then obtain sz where sz: "f st = Ret sz" "0 \<le> sz" using assms by (auto simp: memf_ok_def)
  show ?thesis
  proof (cases "BitLen sz > 64 \<or> snd (SafeMul (toWordSize (Big_Uint64 sz)) 32)")
    case True
    then show ?thesis using Some sz by (auto simp: memory_size_def bigUint64_def split: prod.splits)
  next
    case False
    then have "sz < 2 ^ 64" using BitLen_le [of sz 64] sz(2) by simp
    then have "unat (Big_Uint64 sz) = nat sz" using sz(2) by simp
    moreover have "unat (fst (SafeMul (toWordSize (Big_Uint64 sz)) 32)) = unat (toWordSize (Big_Uint64 sz)) * 32"
      using False SafeMul_spec(2) [of "toWordSize (Big_Uint64 sz)" 32] by simp
    ultimately have "sz \<le> int (unat (fst (SafeMul (toWordSize (Big_Uint64 sz)) 32)))"
        "32 dvd unat (fst (SafeMul (toWordSize (Big_Uint64 sz)) 32))"
      using toWordSize_covers [of "Big_Uint64 sz"] sz(2) by (simp_all only: nat_le_iff dvd_triv_right)
    then show ?thesis using False Some sz by (auto simp: memory_size_def bigUint64_def split: prod.splits)
  qed
qed

lemma resize_covers:
  assumes "mem_ok m0" "mem_store m = mem_store m0" "unat ms \<le> max_memory" "32 dvd unat ms"
  shows "mem_ok (if ms > 0 then Memory_Resize m ms else m) \<and>
     unat ms \<le> length (mem_store (if ms > 0 then Memory_Resize m ms else m))"
proof -
  let ?l = "length (mem_store m)"
  have m: "32 dvd ?l" "?l \<le> max_memory" using assms(1,2) by (simp_all add: mem_ok_def)
  then have l: "unat (word_of_nat ?l :: uint64) = ?l" by (simp add: unsigned_of_nat take_bit_nat_eq_self max_memory_def)
  show ?thesis
  proof (cases "word_of_nat ?l < ms")
    case True
    then have "unat (ms - word_of_nat ?l) = unat ms - ?l" "?l < unat ms" using l by (simp_all add: unat_sub less_imp_le word_less_nat_alt)
    moreover have "ms > 0" using True by (metis word_gt_0 word_less_1 word_neq_0_conv word_not_simps(1))
    ultimately show ?thesis using True assms(3,4) m by (simp add: Memory_Resize_def mem_ok_def)
  next
    case False
    then show ?thesis using l m by (auto simp: Memory_Resize_def mem_ok_def word_less_nat_alt)
  qed
qed

named_theorems memf_oks \<open>memory functions that return\<close>

lemma memf_None [memf_oks]: "memf_ok k None"
  by (simp add: memf_ok_def)

lemma memory_at_returns:
  "i < length st \<Longrightarrow> j < length st \<Longrightarrow> list_all word_ok st \<Longrightarrow> \<exists>sz. memory_at (int i) (int j) st = Ret sz \<and> 0 \<le> sz"
  by (auto simp: memory_at_def Back_returns calcMemSize_def list_all_length word_ok_def)

lemma memf_memory_at: "i < k \<Longrightarrow> j < k \<Longrightarrow> memf_ok k (Some (memory_at (int i) (int j)))"
  using memory_at_returns by (simp add: memf_ok_def)

lemma memf_at [memf_oks]:
  "memf_ok 2 (Some memorySha3)" "memf_ok 3 (Some memoryCallDataCopy)" "memf_ok 3 (Some memoryReturnDataCopy)"
  "memf_ok 3 (Some memoryCodeCopy)" "memf_ok 4 (Some memoryExtCodeCopy)" "memf_ok 3 (Some memoryCreate)"
  "memf_ok 2 (Some memoryReturn)" "memf_ok 2 (Some memoryRevert)" "2 \<le> k \<Longrightarrow> memf_ok k (Some memoryLog)"
  using memf_memory_at [of 0 2 1] memf_memory_at [of 0 3 2] memf_memory_at [of 1 4 3] memf_memory_at [of 1 3 2]
    memf_memory_at [of 0 k 1]
  by (simp_all add: memorySha3_def memoryCallDataCopy_def memoryReturnDataCopy_def memoryCodeCopy_def memoryExtCodeCopy_def
      memoryCreate_def memoryReturn_def memoryRevert_def memoryLog_def)

lemma Back_top: "Back (x # st) 0 = Ret x"
  by (simp add: Back_def slice_get_def)

lemma memf_word [memf_oks]: "0 < k \<Longrightarrow> memf_ok k (Some memoryMLoad)" "0 < k \<Longrightarrow> memf_ok k (Some memoryMStore)"
  "0 < k \<Longrightarrow> memf_ok k (Some memoryMStore8)"
proof -
  assume "0 < k"
  then have "\<exists>sz. go_bind (Back st 0) (\<lambda>off. Ret (calcMemSize off (int n))) = Ret sz \<and> 0 \<le> sz"
    if "k \<le> length st" "list_all word_ok st" for st n
    using that by (cases st) (auto simp: Back_top calcMemSize_def word_ok_def)
  from this [of _ 32] this [of _ 1]
  show "memf_ok k (Some memoryMLoad)" "memf_ok k (Some memoryMStore)" "memf_ok k (Some memoryMStore8)"
    by (simp_all add: memf_ok_def memoryMLoad_def memoryMStore_def memoryMStore8_def)
qed

lemma memf_call [memf_oks]: "memf_ok 7 (Some memoryCall)" "memf_ok 6 (Some memoryDelegateCall)" "memf_ok 6 (Some memoryStaticCall)"
proof -
  have max: "\<exists>sz. go_bind (memory_at (int i) (int j) st) (\<lambda>x. go_bind (memory_at (int k) (int l) st) (\<lambda>y. Ret (BigMax x y))) = Ret sz \<and> 0 \<le> sz"
    if "i < length st" "j < length st" "k < length st" "l < length st" "list_all word_ok st" for i j k l st
    using memory_at_returns [OF that(1,2,5)] memory_at_returns [OF that(3,4,5)] by (auto simp: BigMax_def)
  show "memf_ok 7 (Some memoryCall)" "memf_ok 6 (Some memoryDelegateCall)" "memf_ok 6 (Some memoryStaticCall)"
    using max [of 5 _ 6 3 4] max [of 4 _ 5 2 3]
    by (auto simp: memf_ok_def memoryCall_def memoryDelegateCall_def memoryStaticCall_def)
qed

end
