(* ===== verification/Evm_Step_Safety.thy ===== *)
theory Evm_Step_Safety
  imports Evm_Gas_Safety
begin

text \<open>
  One iteration of the interpreter. \<open>step_ok\<close> is the contract of a row of the jump table: with an
  interpreter that returns for less gas than the frame has, the iteration does not panic, keeps the
  invariant, and either ends the frame or continues it with strictly less gas. \<open>step_row\<close> gives it for an
  instruction from the contracts of its four functions; the call instructions are proved from the contract
  of the call operations.
\<close>

section \<open>One iteration\<close>

definition step_post :: "EVM \<Rightarrow> uint64 \<Rightarrow> step_result go \<Rightarrow> bool" where
  "step_post evm gas r \<longleftrightarrow>
     (\<exists>evm' c ret err. r = Ret (Done evm' c ret err) \<and> evm_step evm evm' \<and> c_Gas c \<le> gas \<and> code_ok ret) \<or>
     (\<exists>evm' fr'. r = Ret (Continue evm' fr') \<and> evm_step evm evm' \<and> fr_ok fr' \<and> c_Gas (fr_contract fr') < gas)"

lemma step_done: "evm_step evm evm' \<Longrightarrow> c_Gas c \<le> gas \<Longrightarrow> code_ok ret \<Longrightarrow> step_post evm gas (Ret (Done evm' c ret err))"
  by (simp add: step_post_def)

lemma finish_post:
  assumes "evm_step evm evm'" "code_ok res" "err = None \<Longrightarrow> fr_ok fr" "c_Gas (fr_contract fr) \<le> gas"
    "\<not> op_halts p \<Longrightarrow> \<not> op_reverts p \<Longrightarrow> err = None \<Longrightarrow> c_Gas (fr_contract fr) < gas"
  shows "step_post evm gas (Ret (finish_step p evm' fr res err))"
proof -
  have "evm_step evm (if op_returns p then evm'\<lparr>evm_returnData := res\<rparr> else evm')"
    using assms(1,2) evm_step_returnData by simp
  moreover have "fr_ok (fr\<lparr>fr_pc := x\<rparr>) = fr_ok fr" for x by (simp add: fr_ok_def)
  ultimately show ?thesis using assms(2-) by (auto simp: finish_step_def Let_def step_post_def)
qed

text \<open>What an instruction finds once its gas is paid and the memory is there.\<close>

definition paid :: "operation \<Rightarrow> nat \<Rightarrow> nat \<Rightarrow> EVM \<Rightarrow> frame \<Rightarrow> uint64 \<Rightarrow> EVM \<Rightarrow> frame \<Rightarrow> bool" where
  "paid p k pu evm fr cost evm' fr' \<longleftrightarrow> evm_step evm evm' \<and> fr_ok fr' \<and> mem_req (op_memorySize p) fr' \<and> cost \<le> c_Gas (fr_contract fr) \<and>
     k \<le> length (fr_stack fr) \<and> length (fr_stack fr) + pu \<le> StackLimit + k \<and> fr_stack fr' = fr_stack fr \<and> fr_pc fr' = fr_pc fr \<and>
     fr_contract fr' = (fr_contract fr)\<lparr>c_Gas := c_Gas (fr_contract fr) - cost\<rparr>"

lemma gasTable_of_eq: "gasTable_of evm = GasTableEIP158"
  by (simp add: gasTable_of_def Gastable_def)

abbreviation (input) finished :: "operation \<Rightarrow> op_result \<Rightarrow> step_result go" where
  "finished p r \<equiv> go_bind r (\<lambda>(evm, fr, res, err). Ret (finish_step p evm fr res err))"

text \<open>Once the memory size of an instruction is known, its gas is charged, the memory is grown and the instruction runs.\<close>

lemma charge_post:
  assumes ok: "evm_ok evm" "fr_ok fr" and len: "k \<le> length (fr_stack fr)" "length (fr_stack fr) + pu \<le> StackLimit + k"
    and ms: "32 dvd unat ms" "\<And>f. op_memorySize p = Some f \<Longrightarrow> \<exists>sz. f (fr_stack fr) = Ret sz \<and> sz \<le> int (unat ms)"
    and g: "gas_post evm (fr_mem fr) ms b (op_gasCost p GasTableEIP158 evm (fr_contract fr) (fr_stack fr) (fr_mem fr) ms)"
    and e: "\<And>evm' mem' fr' cost. op_gasCost p GasTableEIP158 evm (fr_contract fr) (fr_stack fr) (fr_mem fr) ms = Ret (evm', mem', Inr cost) \<Longrightarrow>
        (b \<Longrightarrow> 0 < cost) \<Longrightarrow> paid p k pu evm fr cost evm' fr' \<Longrightarrow>
        step_post evm (c_Gas (fr_contract fr)) (finished p (op_execute p intp evm' fr'))"
  shows "step_post evm (c_Gas (fr_contract fr)) (charge_and_execute intp p evm fr ms)"
proof -
  let ?c = "fr_contract fr"
  obtain evm' mem' res where gr: "op_gasCost p GasTableEIP158 evm ?c (fr_stack fr) (fr_mem fr) ms = Ret (evm', mem', res)"
      "evm_step evm evm'" "mem_store mem' = mem_store (fr_mem fr)"
      "\<And>cost. res = Inr cost \<Longrightarrow> unat ms \<le> max_memory \<and> (b \<longrightarrow> 0 < cost)"
    using g by (auto simp: gas_post_def)
  consider x where "res = Inl x" | cost where "res = Inr cost" "c_Gas ?c < cost" | cost where "res = Inr cost" "\<not> c_Gas ?c < cost"
    by (cases res) auto
  then show ?thesis
  proof cases
    case 3
    note bound = gr(4) [OF 3(1)]
    let ?mem = "if ms > 0 then Memory_Resize mem' ms else mem'"
    let ?fr = "fr\<lparr>fr_contract := ?c\<lparr>c_Gas := c_Gas ?c - cost\<rparr>, fr_mem := ?mem\<rparr>"
    have mem: "mem_ok ?mem \<and> unat ms \<le> length (mem_store ?mem)"
      using resize_covers [OF fr_mem_ok [OF ok(2)] gr(3)] bound ms(1) by blast
    have "mem_req (op_memorySize p) ?fr"
      using ms(2) order.trans [OF _ of_nat_mono [OF conjunct2 [OF mem]]]
      by (cases "op_memorySize p") (fastforce simp: mem_req_def simp del: of_nat_unat)+
    then have "paid p k pu evm fr cost evm' ?fr"
      using 3(2) len gr(2) ok(2) mem by (auto simp: paid_def fr_ok_def contract_ok_def)
    then show ?thesis using e [OF gr(1) [unfolded 3(1)]] bound 3 gr(1)
      by (simp add: charge_and_execute_def gasTable_of_eq UseGas_def Let_def)
  qed (use gr in \<open>simp_all add: charge_and_execute_def gasTable_of_eq UseGas_def step_done\<close>)
qed

lemma interp_step_post:
  assumes p: "p = JumpTable_of (GetOp (fr_contract fr) (fr_pc fr))" and v: "op_validateStack p = makeStackFunc k pu"
    and m: "memf_ok k (op_memorySize p)" and ok: "evm_ok evm" "fr_ok fr"
    and g: "\<And>ms. (op_memorySize p = None \<Longrightarrow> ms = 0) \<Longrightarrow> k \<le> length (fr_stack fr) \<Longrightarrow>
        gas_post evm (fr_mem fr) ms b (op_gasCost p GasTableEIP158 evm (fr_contract fr) (fr_stack fr) (fr_mem fr) ms)"
    and e: "\<And>ms evm' mem' fr' cost. op_gasCost p GasTableEIP158 evm (fr_contract fr) (fr_stack fr) (fr_mem fr) ms = Ret (evm', mem', Inr cost) \<Longrightarrow>
        (b \<Longrightarrow> 0 < cost) \<Longrightarrow> paid p k pu evm fr cost evm' fr' \<Longrightarrow>
        step_post evm (c_Gas (fr_contract fr)) (finished p (op_execute p intp evm' fr'))"
  shows "step_post evm (c_Gas (fr_contract fr)) (interp_step intp evm fr)"
proof -
  let ?c = "fr_contract fr" and ?st = "fr_stack fr"
  have stopped: "step_post evm (c_Gas ?c) (Ret (Done evm ?c [] err))" for err
    using ok(1) by (intro step_done) (simp_all add: evm_step_refl)
  show ?thesis
  proof (cases "op_valid p \<and> op_validateStack p ?st = None")
    case False
    then show ?thesis using stopped by (auto simp: interp_step_def p [symmetric] Let_def split: option.splits)
  next
    case True
    then have len: "k \<le> length ?st" "length ?st + pu \<le> StackLimit + k"
      using v by (auto simp: makeStackFunc_def require_def split: if_splits)
    have words: "list_all word_ok ?st" using ok(2) by (simp add: fr_ok_def)
    obtain r where r: "memory_size p ?st = Ret r" "\<And>ms. r = Some ms \<Longrightarrow> 32 dvd unat ms \<and> (op_memorySize p = None \<longrightarrow> ms = 0) \<and>
        (\<forall>f. op_memorySize p = Some f \<longrightarrow> (\<exists>sz. f ?st = Ret sz \<and> sz \<le> int (unat ms)))"
      using memory_size_covers [OF m len(1) words] by blast
    have eq: "interp_step intp evm fr = (case r of None \<Rightarrow> Ret (Done evm ?c [] (Some errGasUintOverflow))
        | Some ms \<Rightarrow> charge_and_execute intp p evm fr ms)"
      using True by (simp add: interp_step_def p [symmetric] Let_def enforceRestrictions_def r(1))
    have "step_post evm (c_Gas ?c) (charge_and_execute intp p evm fr ms)" if "r = Some ms" for ms
      using r(2) [OF that] by (intro charge_post [OF ok len, of ms p b]) (auto intro: g [OF _ len(1)] e)
    then show ?thesis using stopped by (simp add: eq split: option.split)
  qed
qed

section \<open>The rows of the jump table\<close>

definition step_ok :: "operation \<Rightarrow> bool" where
  "step_ok p \<longleftrightarrow> (\<forall>intp n evm fr. bounded_interp intp n \<and> evm_ok evm \<and> fr_ok fr \<and> on_code fr \<and> unat (c_Gas (fr_contract fr)) \<le> n \<and>
     p = JumpTable_of (GetOp (fr_contract fr) (fr_pc fr)) \<longrightarrow> step_post evm (c_Gas (fr_contract fr)) (interp_step intp evm fr))"

lemma word_sub_less: "0 < (c :: uint64) \<Longrightarrow> c \<le> g \<Longrightarrow> g - c < g"
  by (simp add: word_less_nat_alt word_le_nat_alt unat_sub)

lemma step_row:
  assumes e: "exec_ok k pu (op_memorySize p) (op_execute p)" and g: "gas_ok k (op_memorySize p \<noteq> None) (\<not> op_halts p \<and> \<not> op_reverts p) (op_gasCost p)"
    and m: "memf_ok k (op_memorySize p)" and v: "op_validateStack p = makeStackFunc k pu"
  shows "step_ok p"
  unfolding step_ok_def
proof (intro allI impI, elim conjE)
  fix intp n evm fr
  assume a: "evm_ok evm" "fr_ok fr" "on_code fr" "p = JumpTable_of (GetOp (fr_contract fr) (fr_pc fr))"
  show "step_post evm (c_Gas (fr_contract fr)) (interp_step intp evm fr)"
  proof (rule interp_step_post [OF a(4) v m a(1,2), where b = "\<not> op_halts p \<and> \<not> op_reverts p"])
    fix ms :: uint64
    assume "op_memorySize p = None \<Longrightarrow> ms = 0" "k \<le> length (fr_stack fr)"
    then show "gas_post evm (fr_mem fr) ms (\<not> op_halts p \<and> \<not> op_reverts p)
        (op_gasCost p GasTableEIP158 evm (fr_contract fr) (fr_stack fr) (fr_mem fr) ms)"
      using g a(1) by (simp add: gas_ok_def)
  next
    fix ms evm' mem' fr' cost
    assume b: "\<not> op_halts p \<and> \<not> op_reverts p \<Longrightarrow> 0 < cost" "paid p k pu evm fr cost evm' fr'"
    then have q: "evm_ok evm'" "fr_ok fr'" "mem_req (op_memorySize p) fr'" "on_code fr'" "evm_step evm evm'"
      using a(3) evm_step_ok by (auto simp: paid_def on_code_def)
    have "exec_post evm' fr' (op_execute p intp evm' fr')"
      using e q b(2) by (auto simp: exec_ok_def paid_def)
    then obtain evm2 fr2 res err where r: "op_execute p intp evm' fr' = Ret (evm2, fr2, res, err)" "evm_step evm' evm2" "code_ok res"
        "fr_contract fr2 = fr_contract fr'" "err = None \<Longrightarrow> fr_ok fr2"
      by (auto simp: exec_post_def)
    have gas: "cost \<le> c_Gas (fr_contract fr)" "c_Gas (fr_contract fr2) = c_Gas (fr_contract fr) - cost"
      using b(2) r(4) by (auto simp: paid_def)
    have "step_post evm (c_Gas (fr_contract fr)) (Ret (finish_step p evm2 fr2 res err))"
      using gas b(1) by (intro finish_post [OF evm_step_trans [OF q(5) r(2)] r(3,5)]) (auto simp: word_sub_le word_sub_less)
    then show "step_post evm (c_Gas (fr_contract fr)) (go_bind (op_execute p intp evm' fr') (\<lambda>(evm, fr, res, err). Ret (finish_step p evm fr res err)))"
      by (simp add: r(1))
  qed
qed

lemma step_invalid: "\<not> op_valid p \<Longrightarrow> step_ok p"
  by (auto simp: step_ok_def interp_step_def Let_def evm_step_refl intro!: step_done)

section \<open>Call instructions\<close>

text \<open>The end of a call: less gas comes back than was paid.\<close>

lemma unat_add_lit: "unat (a :: uint64) + unat b < 18446744073709551616 \<Longrightarrow> unat (a + b) = unat a + unat b"
  by (rule unat_add_small) simp

lemma gas_back:
  assumes "cost \<le> g" "unat r < unat cost"
  shows "g - cost + r < (g :: uint64)"
proof -
  have "unat (g - cost) = unat g - unat cost" "unat cost \<le> unat g" using assms(1) by (simp_all add: unat_sub word_le_nat_alt)
  moreover from this have "unat (g - cost) + unat r < 18446744073709551616" using assms(2) unat64_lt [of g] by linarith
  then have "unat (g - cost + r) = unat (g - cost) + unat r" by (rule unat_add_lit)
  ultimately show ?thesis using assms(2) by (simp add: word_less_nat_alt)
qed

lemma call_end:
  assumes paid: "paid p k pu evm fr cost evm' fr'" and step: "evm_step evm' evm2" and r: "unat g < unat cost" "code_ok ret"
    and st: "list_all word_ok st" "length st < StackLimit" and m: "word_ok ro" "word_ok rs"
      "calcMemSize ro rs \<le> int (length (mem_store (fr_mem fr')))"
  shows "step_post evm (c_Gas (fr_contract fr)) (go_bind (end_call_op evm2 (push_fr (fr'\<lparr>fr_stack := st\<rparr>) (flag b)) ro rs ret g err)
     (\<lambda>(evm, fr, res, err). Ret (finish_step p evm fr res err)))"
proof -
  have q: "fr_ok fr'" "evm_step evm evm'" "cost \<le> c_Gas (fr_contract fr)"
      "fr_contract fr' = (fr_contract fr)\<lparr>c_Gas := c_Gas (fr_contract fr) - cost\<rparr>"
    using paid by (auto simp: paid_def)
  let ?fr = "push_fr (fr'\<lparr>fr_stack := st\<rparr>) (flag b)"
  have "mem_ok (fr_mem fr')" using q(1) by (rule fr_mem_ok)
  then have "\<exists>m2. (if err = None \<or> err = Some errExecutionReverted then mem_store_at ?fr ro rs ret else Ret ?fr) = Ret (?fr\<lparr>fr_mem := m2\<rparr>) \<and>
      mem_ok m2"
    using Memory_Set_ok [OF fr_mem_ok [OF q(1)] m, of ret]
    by (cases "err = None \<or> err = Some errExecutionReverted")
      (auto simp: mem_store_at_def push_fr_def intro: exI [of _ "fr_mem fr'"])
  then obtain m2 where "(if err = None \<or> err = Some errExecutionReverted then mem_store_at ?fr ro rs ret else Ret ?fr) = Ret (?fr\<lparr>fr_mem := m2\<rparr>)"
      "mem_ok m2"
    by blast
  moreover have "fr_ok (add_gas (?fr\<lparr>fr_mem := m2\<rparr>) g)" if "mem_ok m2"
    using q(1) st that by (simp add: fr_ok_def push_fr_def push_def add_gas_def)
  moreover have "c_Gas (fr_contract (add_gas (?fr\<lparr>fr_mem := m2\<rparr>) g)) < c_Gas (fr_contract fr)"
    using gas_back [OF q(3) r(1)] q(4) by (simp add: add_gas_def push_fr_def)
  ultimately show ?thesis
    using finish_post [OF evm_step_trans [OF q(2) step] r(2), of None "add_gas (?fr\<lparr>fr_mem := m2\<rparr>) g" "c_Gas (fr_contract fr)" p]
    by (simp add: end_call_op_def)
qed

lemma length_6: "6 \<le> length xs \<Longrightarrow> \<exists>a b c d e f ys. xs = a # b # c # d # e # f # ys"
  by (auto simp: numeral_eq_Suc Suc_le_length_iff)

lemma length_7: "7 \<le> length xs \<Longrightarrow> \<exists>a b c d e f g ys. xs = a # b # c # d # e # f # g # ys"
  by (auto simp: numeral_eq_Suc Suc_le_length_iff)

lemma mem_req_call:
  assumes "mem_req (Some memoryCall) fr" "fr_stack fr = a # b # c # io # il # ro # rl # st"
  shows "calcMemSize io il \<le> int (length (mem_store (fr_mem fr)))" "calcMemSize ro rl \<le> int (length (mem_store (fr_mem fr)))"
  using assms by (auto simp: mem_req_def memoryCall_def memory_at_def Back_def slice_get_def BigMax_def split: if_splits)

lemma mem_req_delegate:
  assumes "mem_req (Some memoryDelegateCall) fr \<or> mem_req (Some memoryStaticCall) fr" "fr_stack fr = a # b # io # il # ro # rl # st"
  shows "calcMemSize io il \<le> int (length (mem_store (fr_mem fr)))" "calcMemSize ro rl \<le> int (length (mem_store (fr_mem fr)))"
  using assms
  by (auto simp: mem_req_def memoryDelegateCall_def memoryStaticCall_def memory_at_def Back_def slice_get_def BigMax_def split: if_splits)

lemma call_postE:
  assumes "call_post evm gas r"
  obtains evm' ret g err where "r = Ret (evm', ret, g, err)" "evm_step evm evm'" "g \<le> gas" "code_ok ret"
  using assms by (auto simp: call_post_def)

lemma child_gas:
  assumes "unat temp + (700 + (if v \<noteq> (0 :: int) then 9000 else 0)) \<le> unat (cost :: uint64)"
  shows "unat (if v \<noteq> 0 then temp + CallStipend else temp) < unat cost"
proof (cases "v = 0")
  case False
  have "unat temp + 9700 \<le> unat cost" "unat CallStipend = 2300" using assms False by simp_all
  then have "unat temp + unat CallStipend < 18446744073709551616" using unat64_lt [of cost] by linarith
  then have "unat (temp + CallStipend) = unat temp + unat CallStipend" by (rule unat_add_lit)
  then show ?thesis using assms False by simp
qed (use assms in simp)

lemma word_ok_U256_id: "word_ok v \<Longrightarrow> U256 v = v"
  by (simp add: word_ok_def)

text \<open>What the four call instructions share: the row of the jump table, the memory they read and write, the gas they hand on
  and the gas that comes back.\<close>

lemma step_calls:
  assumes v: "op_validateStack p = makeStackFunc k 1" and mf: "memf_ok k (op_memorySize p)"
    and gas: "\<And>evm c st mem ms. evm_ok evm \<Longrightarrow> k \<le> length st \<Longrightarrow>
        call_gas_post evm mem ms (f st) (op_gasCost p GasTableEIP158 evm c st mem ms)"
    and ex: "\<And>intp n evm fr cost evm' fr'. bounded_interp intp n \<Longrightarrow> paid p k 1 evm fr cost evm' fr' \<Longrightarrow>
        unat (evm_callGasTemp evm') + f (fr_stack fr) \<le> unat cost \<Longrightarrow> unat (c_Gas (fr_contract fr)) \<le> n \<Longrightarrow>
        step_post evm (c_Gas (fr_contract fr)) (finished p (op_execute p intp evm' fr'))"
  shows "step_ok p"
  unfolding step_ok_def
proof (intro allI impI, elim conjE)
  fix intp n evm fr
  assume a: "evm_ok evm" "fr_ok fr" "p = JumpTable_of (GetOp (fr_contract fr) (fr_pc fr))" "bounded_interp intp n"
    "unat (c_Gas (fr_contract fr)) \<le> n"
  show "step_post evm (c_Gas (fr_contract fr)) (interp_step intp evm fr)"
  proof (rule interp_step_post [OF a(3) v mf a(1,2), where b = True])
    fix ms :: uint64
    assume "k \<le> length (fr_stack fr)"
    then show "gas_post evm (fr_mem fr) ms True (op_gasCost p GasTableEIP158 evm (fr_contract fr) (fr_stack fr) (fr_mem fr) ms)"
      using gas [OF a(1)] by (simp add: call_gas_post_def)
  next
    fix ms evm' mem' fr' cost
    assume g: "op_gasCost p GasTableEIP158 evm (fr_contract fr) (fr_stack fr) (fr_mem fr) ms = Ret (evm', mem', Inr cost)"
      and paid: "paid p k 1 evm fr cost evm' fr'"
    then have "unat (evm_callGasTemp evm') + f (fr_stack fr) \<le> unat cost"
      using gas [OF a(1), of "fr_stack fr" "fr_mem fr" ms "fr_contract fr"] by (auto simp: call_gas_post_def paid_def)
    then show "step_post evm (c_Gas (fr_contract fr)) (finished p (op_execute p intp evm' fr'))"
      by (rule ex [OF a(4) paid _ a(5)])
  qed
qed

lemma call_ready:
  assumes paid: "paid p k 1 evm fr cost evm' fr'" and st: "fr_stack fr' = hs @ io # il # ro # rl # st" "k = length hs + 4"
    and mr: "calcMemSize io il \<le> int (length (mem_store (fr_mem fr')))" "calcMemSize ro rl \<le> int (length (mem_store (fr_mem fr')))"
    and cg: "unat cg < unat cost"
  obtains args where "Memory_Get (fr_mem fr') (Big_Int64 io) (Big_Int64 il) = Ret args" "code_ok args"
    "\<And>evm3 b rg ret err. evm_step evm' evm3 \<Longrightarrow> rg \<le> cg \<Longrightarrow> code_ok ret \<Longrightarrow> step_post evm (c_Gas (fr_contract fr))
       (finished p (end_call_op evm3 (push_fr (fr'\<lparr>fr_stack := st\<rparr>) (flag b)) ro rl ret rg err))"
proof -
  have "length (fr_stack fr') = k + length st" using st by simp
  then have ok: "fr_ok fr'" and len: "length st < StackLimit" using paid by (auto simp: paid_def)
  have w: "word_ok io" "word_ok il" "word_ok ro" "word_ok rl" "list_all word_ok st" using ok by (auto simp: fr_ok_def st(1))
  have "step_post evm (c_Gas (fr_contract fr)) (finished p (end_call_op evm3 (push_fr (fr'\<lparr>fr_stack := st\<rparr>) (flag b)) ro rl ret rg err))"
    if "evm_step evm' evm3" "rg \<le> cg" "code_ok ret" for evm3 b rg ret err
    using call_end [OF paid that(1) _ that(3) w(5) len w(3,4) mr(2)] cg that(2) by (simp add: word_le_nat_alt)
  then show ?thesis using that Memory_Get_ok [OF fr_mem_ok [OF ok] w(1,2) mr(1)] by blast
qed

lemma child_budget:
  assumes "paid p k 1 evm fr cost evm' fr'" "unat cg < unat cost" "unat (c_Gas (fr_contract fr)) \<le> n"
  shows "evm_ok evm'" "unat cg < n" "contract_ok (fr_contract fr')"
  using assms evm_step_ok by (auto simp: paid_def fr_ok_def word_le_nat_alt)

text \<open>After a \<^verbatim>\<open>CALL\<close> the node's own record of the transfer is written or cancelled; neither fails.\<close>

lemma record_call_ok:
  obtains tb lkdb where "(if err \<noteq> None then Ret (evm\<lparr>evm_tb := TxBatch_Cancel (evm_tb evm)\<rparr>)
      else tb_put evm (contract_tx evm self to v)) = Ret (evm\<lparr>evm_tb := tb, evm_lkdb := lkdb\<rparr>)"
proof (cases "err = None")
  case True
  then show ?thesis using that tb_put_ok [OF putLKTx_contract, of evm evm self to v] by auto
next
  case False
  then show ?thesis using that [of "evm_lkdb evm" "TxBatch_Cancel (evm_tb evm)"] by simp
qed

lemma opCall_post:
  assumes i: "bounded_interp intp n" and paid: "paid p 7 1 evm fr cost evm' fr'" and mf: "op_memorySize p = Some memoryCall"
    and g: "unat (evm_callGasTemp evm') + (700 + (if fr_stack fr ! 2 \<noteq> 0 then 9000 else 0)) \<le> unat cost"
    and n: "unat (c_Gas (fr_contract fr)) \<le> n"
  shows "step_post evm (c_Gas (fr_contract fr)) (finished p (opCall intp evm' fr'))" (is ?call)
    and "step_post evm (c_Gas (fr_contract fr)) (finished p (opCallCode intp evm' fr'))" (is ?code)
proof -
  have q: "fr_stack fr' = fr_stack fr" "mem_req (Some memoryCall) fr'" "7 \<le> length (fr_stack fr)" "fr_ok fr'"
    using paid mf by (auto simp: paid_def)
  obtain gl to v io il ro rl st where st: "fr_stack fr' = gl # to # v # io # il # ro # rl # st" using length_7 q(1,3) by metis
  have w: "word_ok v" using q(4) by (simp add: fr_ok_def st)
  let ?cg = "if v \<noteq> 0 then evm_callGasTemp evm' + CallStipend else evm_callGasTemp evm'"
  have cg: "unat ?cg < unat cost" using g by (intro child_gas) (simp add: q(1) [symmetric] st)
  note b = child_budget [OF paid cg n]
  obtain args where args: "Memory_Get (fr_mem fr') (Big_Int64 io) (Big_Int64 il) = Ret args" "code_ok args"
    and fin: "\<And>evm3 b rg ret err. evm_step evm' evm3 \<Longrightarrow> rg \<le> ?cg \<Longrightarrow> code_ok ret \<Longrightarrow> step_post evm (c_Gas (fr_contract fr))
       (finished p (end_call_op evm3 (push_fr (fr'\<lparr>fr_stack := st\<rparr>) (flag b)) ro rl ret rg err))"
    by (rule call_ready [OF paid _ _ mem_req_call [OF q(2) st] cg, of "[gl, to, v]" st]) (simp_all add: st)
  let ?ref = "contract_ref (fr_contract fr')" and ?to = "BigToAddress to"
  obtain evm2 ret rg err where r: "evm_Call intp evm' ?ref ?to args ?cg v = Ret (evm2, ret, rg, err)"
      "evm_step evm' evm2" "rg \<le> ?cg" "code_ok ret"
    by (rule call_postE [OF bounded_interp.evm_Call_post [OF i b(1) args(2) w b(2)]])
  obtain tb lkdb where t: "(if err \<noteq> None then Ret (evm2\<lparr>evm_tb := TxBatch_Cancel (evm_tb evm2)\<rparr>)
      else tb_put evm2 (contract_tx evm2 (c_self (fr_contract fr')) ?to v)) = Ret (evm2\<lparr>evm_tb := tb, evm_lkdb := lkdb\<rparr>)"
    by (rule record_call_ok)
  show ?call
    using fin [of "evm2\<lparr>evm_tb := tb, evm_lkdb := lkdb\<rparr>" rg ret "err = None" err] r t
    by (simp add: opCall_def op_simps st Let_def args(1) word_ok_U256_id [OF w] cong: if_cong)
  obtain evm2 ret rg err where r: "evm_CallCode intp evm' ?ref ?to args ?cg v = Ret (evm2, ret, rg, err)"
      "evm_step evm' evm2" "rg \<le> ?cg" "code_ok ret"
    by (rule call_postE [OF bounded_interp.evm_CallCode_post [OF i b(1) args(2) w b(2)]])
  then show ?code
    using fin [OF r(2,3,4), of "err = None" err]
    by (simp add: opCallCode_def op_simps st Let_def args(1) word_ok_U256_id [OF w] cong: if_cong)
qed

definition call_row :: "operation \<Rightarrow> bool" where
  "call_row p \<longleftrightarrow> (op_execute p, op_gasCost p, op_validateStack p, op_memorySize p) \<in>
     {(opCall, gasCall, makeStackFunc 7 1, Some memoryCall), (opCallCode, gasCallCode, makeStackFunc 7 1, Some memoryCall)}"

lemma step_call: "call_row p \<Longrightarrow> step_ok p"
  by (rule step_calls [where k = 7 and f = "\<lambda>st. 700 + (if st ! 2 \<noteq> 0 then 9000 else 0)"])
    (use opCall_post gasCall_post memf_call in \<open>auto simp: call_row_def split del: if_split\<close>)

lemma opDelegateCall_post:
  assumes i: "bounded_interp intp n" and paid: "paid p 6 1 evm fr cost evm' fr'"
    and mf: "op_memorySize p = Some memoryDelegateCall \<or> op_memorySize p = Some memoryStaticCall"
    and g: "unat (evm_callGasTemp evm') + 700 \<le> unat cost" and n: "unat (c_Gas (fr_contract fr)) \<le> n"
  shows "step_post evm (c_Gas (fr_contract fr)) (finished p (opDelegateCall intp evm' fr'))" (is ?delegate)
    and "step_post evm (c_Gas (fr_contract fr)) (finished p (opStaticCall intp evm' fr'))" (is ?static)
proof -
  have q: "6 \<le> length (fr_stack fr')" "mem_req (Some memoryDelegateCall) fr' \<or> mem_req (Some memoryStaticCall) fr'"
    using paid mf by (auto simp: paid_def)
  obtain gl to io il ro rl st where st: "fr_stack fr' = gl # to # io # il # ro # rl # st" using length_6 [OF q(1)] by blast
  let ?cg = "evm_callGasTemp evm'" and ?ref = "contract_ref (fr_contract fr')"
  have cg: "unat ?cg < unat cost" using g by simp
  note b = child_budget [OF paid cg n]
  obtain args where args: "Memory_Get (fr_mem fr') (Big_Int64 io) (Big_Int64 il) = Ret args" "code_ok args"
    and fin: "\<And>evm3 b rg ret err. evm_step evm' evm3 \<Longrightarrow> rg \<le> ?cg \<Longrightarrow> code_ok ret \<Longrightarrow> step_post evm (c_Gas (fr_contract fr))
       (finished p (end_call_op evm3 (push_fr (fr'\<lparr>fr_stack := st\<rparr>) (flag b)) ro rl ret rg err))"
    by (rule call_ready [OF paid _ _ mem_req_delegate [OF q(2) st] cg, of "[gl, to]" st]) (simp_all add: st)
  obtain evm2 ret rg err where r: "evm_DelegateCall intp evm' ?ref (BigToAddress to) args ?cg = Ret (evm2, ret, rg, err)"
      "evm_step evm' evm2" "rg \<le> ?cg" "code_ok ret"
    by (rule call_postE [OF bounded_interp.evm_DelegateCall_post [OF i b(1) args(2) b(3,2)]])
  then show ?delegate
    using fin [OF r(2,3,4), of "err = None" err] by (simp add: opDelegateCall_def op_simps st Let_def args(1))
  obtain evm2 ret rg err where r: "evm_StaticCall intp evm' ?ref (BigToAddress to) args ?cg = Ret (evm2, ret, rg, err)"
      "evm_step evm' evm2" "rg \<le> ?cg" "code_ok ret"
    by (rule call_postE [OF bounded_interp.evm_StaticCall_post [OF i b(1) args(2) b(2)]])
  then show ?static
    using fin [OF r(2,3,4), of "err = None" err] by (simp add: opStaticCall_def op_simps st Let_def args(1))
qed

definition delegate_row :: "operation \<Rightarrow> bool" where
  "delegate_row p \<longleftrightarrow> (op_execute p, op_gasCost p, op_validateStack p, op_memorySize p) \<in>
     {(opDelegateCall, gasDelegateCall, makeStackFunc 6 1, Some memoryDelegateCall),
      (opStaticCall, gasStaticCall, makeStackFunc 6 1, Some memoryStaticCall)}"

lemma step_delegate: "delegate_row p \<Longrightarrow> step_ok p"
  by (rule step_calls [where k = 6 and f = "\<lambda>_. 700"])
    (use opDelegateCall_post gasDelegateCall_post memf_call in \<open>auto simp: delegate_row_def\<close>)

text \<open>\<^verbatim>\<open>CREATE\<close> hands all that is left to the new contract.\<close>

lemma create_end:
  assumes paid: "paid p k pu evm fr cost evm' fr'" and step: "evm_step evm' evm2"
    and r: "g \<le> c_Gas (fr_contract fr')" "code_ok res" "0 < cost"
    and st: "list_all word_ok st" "length st < StackLimit" "word_ok x"
  shows "step_post evm (c_Gas (fr_contract fr)) (Ret (finish_step p evm2
     (add_gas (push_fr (fr'\<lparr>fr_stack := st, fr_contract := (fr_contract fr')\<lparr>c_Gas := 0\<rparr>\<rparr>) x) g) res None))"
proof -
  have q: "fr_ok fr'" "evm_step evm evm'" "cost \<le> c_Gas (fr_contract fr)" "c_Gas (fr_contract fr') = c_Gas (fr_contract fr) - cost"
    using paid by (auto simp: paid_def)
  let ?fr = "add_gas (push_fr (fr'\<lparr>fr_stack := st, fr_contract := (fr_contract fr')\<lparr>c_Gas := 0\<rparr>\<rparr>) x) g"
  have "fr_ok ?fr" using q(1) st by (simp add: fr_ok_def push_fr_def push_def add_gas_def)
  moreover have "c_Gas (fr_contract ?fr) < c_Gas (fr_contract fr)"
    using r(1,3) q(3,4) word_sub_less [of cost "c_Gas (fr_contract fr)"] by (simp add: add_gas_def push_fr_def)
  ultimately show ?thesis by (intro finish_post [OF evm_step_trans [OF q(2) step] r(2)]) simp_all
qed

definition create_row :: "operation \<Rightarrow> bool" where
  "create_row p \<longleftrightarrow> op_execute p = opCreate \<and> op_gasCost p = gasCreate \<and> op_validateStack p = makeStackFunc 3 1 \<and>
     op_memorySize p = Some memoryCreate"

lemma step_create:
  assumes row: "create_row p" shows "step_ok p"
  unfolding step_ok_def
proof (intro allI impI, elim conjE)
  fix intp n evm fr
  assume a: "evm_ok evm" "fr_ok fr" "p = JumpTable_of (GetOp (fr_contract fr) (fr_pc fr))" "bounded_interp intp n"
    "unat (c_Gas (fr_contract fr)) \<le> n"
  have v: "op_validateStack p = makeStackFunc 3 1" and mf: "op_memorySize p = Some memoryCreate" and e: "op_execute p = opCreate"
    and gc: "op_gasCost p = gasCreate"
    using row by (simp_all add: create_row_def)
  show "step_post evm (c_Gas (fr_contract fr)) (interp_step intp evm fr)"
  proof (rule interp_step_post [OF a(3) v _ a(1,2), where b = True])
    show "memf_ok 3 (op_memorySize p)" using mf memf_at by simp
  next
    fix ms :: uint64
    show "gas_post evm (fr_mem fr) ms True (op_gasCost p GasTableEIP158 evm (fr_contract fr) (fr_stack fr) (fr_mem fr) ms)"
      using gas_mems(4) [of 0 True] a(1) by (simp add: gas_ok_def gc)
  next
    fix ms evm' mem' fr' cost
    assume c0: "True \<Longrightarrow> 0 < cost" and paid: "paid p 3 1 evm fr cost evm' fr'"
    then have len: "3 \<le> length (fr_stack fr)" by (simp add: paid_def)
    then obtain v io il st where st: "fr_stack fr = v # io # il # st"
      by (auto simp: numeral_eq_Suc Suc_le_length_iff)
    have q: "evm_ok evm'" "fr_ok fr'" "fr_stack fr' = v # io # il # st" "mem_req (Some memoryCreate) fr'"
        "length st < StackLimit" "cost \<le> c_Gas (fr_contract fr)" "c_Gas (fr_contract fr') = c_Gas (fr_contract fr) - cost"
      using paid st mf evm_step_ok by (auto simp: paid_def)
    have w: "word_ok v" "word_ok io" "word_ok il" "list_all word_ok st" using q(2) by (auto simp: fr_ok_def q(3))
    have "calcMemSize io il \<le> int (length (mem_store (fr_mem fr')))"
      using mem_req_at [of 1 2 fr'] q(3,4) by (simp add: memoryCreate_def)
    then obtain input where input: "Memory_Get (fr_mem fr') (Big_Int64 io) (Big_Int64 il) = Ret input" "code_ok input"
      using Memory_Get_ok [OF fr_mem_ok [OF q(2)] w(2,3)] by blast
    let ?g = "c_Gas (fr_contract fr')" and ?c = "(fr_contract fr')\<lparr>c_Gas := 0\<rparr>"
    have "?g < c_Gas (fr_contract fr)" using c0 q(6,7) word_sub_less by simp
    then have n: "unat ?g < n" using a(5) by (simp add: word_less_nat_alt)
    have "create_post evm' ?g (evm_Create intp evm' (contract_ref ?c) input ?g v)"
      by (rule bounded_interp.evm_Create_post [OF a(4) q(1) input(2) w(1) n])
    then obtain evm2 res addr rg err where r: "evm_Create intp evm' (contract_ref ?c) input ?g v = Ret (evm2, res, addr, rg, err)"
        "evm_step evm' evm2" "rg \<le> ?g" "code_ok res"
      by (auto simp: create_post_def)
    have "UseGas (fr_contract fr') ?g = (?c, True)" by (simp add: UseGas_def)
    then have "op_execute p intp evm' fr' = Ret (evm2, add_gas (push_fr (fr'\<lparr>fr_stack := st, fr_contract := ?c\<rparr>)
          (if err = Some ErrCodeStoreOutOfGas then 0 else if err \<noteq> None then 0 else uint addr)) rg,
        if err = Some errExecutionReverted then res else [], None)"
      by (simp add: e opCreate_def op_simps q(3) input(1) Let_def r(1))
    moreover have "0 < cost" using c0 by simp
    ultimately show "step_post evm (c_Gas (fr_contract fr)) (go_bind (op_execute p intp evm' fr')
        (\<lambda>(evm, fr, res, err). Ret (finish_step p evm fr res err)))"
      using create_end [OF paid r(2,3) _ _ w(4) q(5)] r(4) by simp
  qed
qed

end
