(* ===== verification/Evm_Safety.thy ===== *)
theory Evm_Safety
  imports Evm_Step_Safety
begin

text \<open>
  Every execution of the virtual machine ends, without a panic, within as many iterations as it has gas.
  The jump table is checked row by row against \<open>step_ok\<close>; the loop and the nested calls follow by
  induction on the bound, and the interpreter is an instance of the contract \<open>bounded_interp\<close> that the call
  operations rely on.
\<close>

section \<open>The jump table\<close>

lemma exec_log_row: "k = n + 2 \<Longrightarrow> exec_ok k 0 (Some memoryLog) (makeLog n)"
  using exec_log by simp

lemma exec_dup_row: "0 < n \<Longrightarrow> exec_ok n (n + 1) None (makeDup n)"
  by (rule exec_makeDup)

lemma exec_swap_row: "k = n + 1 \<Longrightarrow> exec_ok k k None (makeSwap n)"
  using exec_makeSwap by simp

lemma gas_log_row: "2 \<le> k \<Longrightarrow> gas_ok k True b (makeGasLog n)"
  using gas_log [of "k - 2" b n] by (simp add: le_add_diff_inverse2 del: add_2_eq_Suc')

lemmas row_simps = operation_of_def makeDupStackFunc_def makeSwapStackFunc_def

lemma step_row_of:
  assumes "exec_ok k pu mf e" "gas_ok k (mf \<noteq> None) (\<not> h \<and> \<not> r) g" "memf_ok k mf"
  shows "step_ok \<lparr>op_execute = e, op_gasCost = g, op_validateStack = makeStackFunc k pu, op_memorySize = mf,
     op_halts = h, op_jumps = j, op_writes = w, op_valid = True, op_reverts = r, op_returns = t\<rparr>"
  by (rule step_row [where k = k and pu = pu]) (use assms in simp_all)

lemma frontier_1_ok: "list_all (step_ok \<circ> snd) frontier_1"
  by (simp add: frontier_1_def row_simps step_row_of exec_oks gas_oks memf_oks del: One_nat_def)

lemma frontier_2_ok: "list_all (step_ok \<circ> snd) frontier_2"
  by (simp add: frontier_2_def row_simps step_row_of exec_oks gas_oks memf_oks del: One_nat_def)

lemma frontier_3_ok: "list_all (step_ok \<circ> snd) frontier_3"
  by (simp add: frontier_3_def row_simps step_row_of exec_oks gas_oks memf_oks del: One_nat_def)

lemma frontier_4_ok: "list_all (step_ok \<circ> snd) frontier_4"
  by (simp add: frontier_4_def row_simps step_row_of exec_oks gas_oks memf_oks del: One_nat_def)

lemma frontier_5_ok: "list_all (step_ok \<circ> snd) frontier_5"
  using exec_dup_row [of 1] exec_dup_row [of 2] exec_dup_row [of 3] exec_dup_row [of 4] exec_dup_row [of 5] exec_dup_row [of 6]
    exec_dup_row [of 7] exec_dup_row [of 8] exec_dup_row [of 9] exec_dup_row [of 10] exec_dup_row [of 11] exec_dup_row [of 12]
    exec_dup_row [of 13] exec_dup_row [of 14]
  by (simp add: frontier_5_def row_simps step_row_of exec_makePush gas_oks memf_oks del: One_nat_def)

lemma frontier_6_ok: "list_all (step_ok \<circ> snd) frontier_6"
  using exec_dup_row [of 15] exec_dup_row [of 16]
  by (simp add: frontier_6_def row_simps step_row_of exec_swap_row exec_log_row gas_log_row gas_fixed memf_oks del: One_nat_def)

lemma frontier_7_ok: "list_all (step_ok \<circ> snd) frontier_7"
proof -
  have rows: "step_ok ((operation_of opCreate gasCreate (makeStackFunc 3 1) (Some memoryCreate))\<lparr>op_writes := True, op_returns := True\<rparr>)"
      "step_ok ((operation_of opCall gasCall (makeStackFunc 7 1) (Some memoryCall))\<lparr>op_returns := True\<rparr>)"
      "step_ok ((operation_of opCallCode gasCallCode (makeStackFunc 7 1) (Some memoryCall))\<lparr>op_returns := True\<rparr>)"
    by (rule step_create, simp add: create_row_def operation_of_def) (rule step_call, simp add: call_row_def operation_of_def)+
  have more: "step_ok ((operation_of (makeLog n) (makeGasLog m) (makeStackFunc (n + 2) 0) (Some memoryLog))\<lparr>op_writes := True\<rparr>)" for n m
    by (simp add: row_simps step_row_of exec_log_row gas_log_row memf_oks del: One_nat_def)
  from more [of 2] more [of 3] more [of 4]
  show ?thesis unfolding frontier_7_def list.pred_inject comp_apply snd_conv
    by (intro conjI rows) (simp_all add: row_simps step_row_of exec_oks gas_oks memf_oks del: One_nat_def)
qed

lemma newFrontier_ok: "step_ok (newFrontierInstructionSet b)"
proof (cases "map_of (frontier_1 @ frontier_2 @ frontier_3 @ frontier_4 @ frontier_5 @ frontier_6 @ frontier_7) b")
  case None
  moreover have "step_ok operation_zero" by (simp add: operation_zero_def step_invalid)
  ultimately show ?thesis unfolding newFrontierInstructionSet_def by (simp only: option.case)
next
  case (Some p)
  have "list_all (step_ok \<circ> snd) (frontier_1 @ frontier_2 @ frontier_3 @ frontier_4 @ frontier_5 @ frontier_6 @ frontier_7)"
    by (simp only: list_all_append frontier_1_ok frontier_2_ok frontier_3_ok frontier_4_ok frontier_5_ok frontier_6_ok frontier_7_ok simp_thms)
  then have "step_ok p" using map_of_SomeD [OF Some] by (auto simp only: list_all_iff comp_apply snd_conv dest!: bspec)
  then show ?thesis unfolding newFrontierInstructionSet_def Some by simp
qed

lemma fun_upd_ok: "(\<And>b. step_ok (f b)) \<Longrightarrow> step_ok v \<Longrightarrow> step_ok ((f(a := v)) b)"
  by simp

lemma JumpTable_ok: "step_ok (JumpTable_of b)"
proof -
  have homestead: "step_ok (newHomesteadInstructionSet b)" for b
    unfolding newHomesteadInstructionSet_def
    by (rule fun_upd_ok, rule newFrontier_ok) (rule step_delegate, simp add: delegate_row_def operation_of_def)
  have static: "step_ok ((operation_of opStaticCall gasStaticCall (makeStackFunc 6 1) (Some memoryStaticCall))\<lparr>op_returns := True\<rparr>)"
    by (rule step_delegate) (simp add: delegate_row_def operation_of_def)
  have byzantium: "step_ok (newByzantiumInstructionSet b)" for b
    unfolding newByzantiumInstructionSet_def
    by (intro fun_upd_ok homestead static) (simp_all add: row_simps step_row_of exec_oks gas_oks memf_oks del: One_nat_def)
  show ?thesis unfolding JumpTable_of_def newConstantinopleInstructionSet_def
    by (intro fun_upd_ok byzantium) (simp_all add: row_simps step_row_of exec_oks gas_oks memf_oks del: One_nat_def)
qed

section \<open>The loop and the nested calls\<close>

text \<open>Beyond the end of the code the opcode is \<^verbatim>\<open>STOP\<close>.\<close>

lemma off_code_stop:
  assumes "contract_ok (fr_contract fr)" "\<not> on_code fr"
  shows "GetOp (fr_contract fr) (fr_pc fr) = OP_STOP"
proof -
  have "length (c_Code (fr_contract fr)) < 2 ^ 64" using assms(1) by (simp add: contract_ok_def code_ok_def)
  then have "unat (word_of_nat (length (c_Code (fr_contract fr))) :: uint64) = length (c_Code (fr_contract fr))"
    by (simp add: unsigned_of_nat take_bit_nat_eq_self)
  then show ?thesis using assms(2) by (simp add: GetOp_def GetByte_def on_code_def word_less_nat_alt)
qed

lemma JumpTable_stop: "JumpTable_of OP_STOP = (operation_of opStop (constGasFunc 0) (makeStackFunc 0 0) None)\<lparr>op_halts := True\<rparr>"
  by (simp add: JumpTable_of_def newConstantinopleInstructionSet_def newByzantiumInstructionSet_def newHomesteadInstructionSet_def
      newFrontierInstructionSet_def frontier_1_def)

lemma stop_step:
  assumes "GetOp (fr_contract fr) (fr_pc fr) = OP_STOP" "length (fr_stack fr) \<le> StackLimit"
  shows "interp_step intp evm fr = Ret (Done evm (fr_contract fr) [] None)"
  using assms
  by (simp add: interp_step_def JumpTable_stop Let_def operation_of_def makeStackFunc_def require_def enforceRestrictions_def memory_size_def
      charge_and_execute_def constGasFunc_def UseGas_def opStop_def done_op_def finish_step_def)

lemma interp_step_ok:
  assumes "bounded_interp intp n" "evm_ok evm" "fr_ok fr" "unat (c_Gas (fr_contract fr)) \<le> n"
  shows "step_post evm (c_Gas (fr_contract fr)) (interp_step intp evm fr)"
proof (cases "on_code fr")
  case True
  then show ?thesis using assms JumpTable_ok by (auto simp: step_ok_def)
next
  case False
  then have "GetOp (fr_contract fr) (fr_pc fr) = OP_STOP" using assms(3) off_code_stop by (auto simp: fr_ok_def)
  then show ?thesis using stop_step assms(2,3) by (auto simp: fr_ok_def evm_step_refl intro!: step_done)
qed

lemma evm_step_depth:
  assumes "evm_step (evm\<lparr>evm_depth := d, evm_returnData := []\<rparr>) evm'"
  shows "evm_step evm (evm'\<lparr>evm_depth := evm_depth evm\<rparr>)"
  using assms by (auto simp: evm_step_def evm_fixed_def evm_ok_def)

lemma evm_step_depth_eq: "evm_step evm evm' \<Longrightarrow> evm_depth evm' = evm_depth evm"
  by (simp add: evm_step_def evm_fixed_def)

definition loop_ok :: "nat \<Rightarrow> (EVM \<Rightarrow> frame \<Rightarrow> run_result) \<Rightarrow> bool" where
  "loop_ok n loop \<longleftrightarrow> (\<forall>evm fr. evm_ok evm \<and> fr_ok fr \<and> unat (c_Gas (fr_contract fr)) < n \<longrightarrow>
     run_post evm (c_Gas (fr_contract fr)) (loop evm fr))"

lemma Run_with_bounded:
  assumes "loop_ok n loop" shows "bounded_interp (Run_with loop) n"
proof
  fix evm c input
  assume a: "evm_ok evm" "contract_ok c" "code_ok input" "unat (c_Gas c) < n"
  let ?evm = "evm\<lparr>evm_depth := evm_depth evm + 1, evm_returnData := []\<rparr>" and ?fr = "new_frame (c\<lparr>c_Input := input\<rparr>)"
  have ok: "evm_ok ?evm" using a(1) by (simp add: evm_ok_def)
  have "fr_ok ?fr" "c_Gas (fr_contract ?fr) = c_Gas c"
    using a(2,3) by (simp_all add: new_frame_def fr_ok_def mem_ok_def NewMemory_def contract_ok_def)
  then have "run_post ?evm (c_Gas c) (loop ?evm ?fr)" using assms [unfolded loop_ok_def, rule_format, of ?evm ?fr] a(4) ok by simp
  moreover have "run_post ?evm (c_Gas c) (Ret (?evm, c, [], None))" using ok by (intro run_postI) (simp_all add: evm_step_refl)
  ultimately have "run_post ?evm (c_Gas c) (if c_Code c = [] then Ret (?evm, c, [], None) else loop ?evm ?fr)" by simp
  then obtain evm' c' ret err where r: "(if c_Code c = [] then Ret (?evm, c, [], None) else loop ?evm ?fr) = Ret (evm', c', ret, err)"
      "evm_step ?evm evm'" "c_Gas c' \<le> c_Gas c" "code_ok ret"
    by (rule run_postE)
  have "evm_depth evm' - 1 = evm_depth evm" using evm_step_depth_eq [OF r(2)] by simp
  then show "run_post evm (c_Gas c) (Run_with loop evm c input)"
    using evm_step_depth [OF r(2)] r(1,3,4) by (simp add: Run_with_def Let_def run_postI)
qed

lemma interp_loop_ok: "loop_ok n (interp_loop n)"
proof (induction n)
  case 0
  show ?case by (simp add: loop_ok_def)
next
  case (Suc n)
  note b = Run_with_bounded [OF Suc.IH]
  show ?case unfolding loop_ok_def
  proof (intro allI impI, elim conjE)
    fix evm fr
    assume a: "evm_ok evm" "fr_ok fr" "unat (c_Gas (fr_contract fr)) < Suc n"
    then have step: "step_post evm (c_Gas (fr_contract fr)) (interp_step (Run_with (interp_loop n)) evm fr)"
      by (intro interp_step_ok [OF b]) simp_all
    show "run_post evm (c_Gas (fr_contract fr)) (interp_loop (Suc n) evm fr)"
    proof (cases "evm_abort evm")
      case True
      then show ?thesis using a(1) by (auto simp: evm_step_refl intro!: run_postI)
    next
      case False
      from step show ?thesis unfolding step_post_def
      proof (elim disjE exE conjE)
        fix evm' c ret err
        assume "interp_step (Run_with (interp_loop n)) evm fr = Ret (Done evm' c ret err)" "evm_step evm evm'"
          "c_Gas c \<le> c_Gas (fr_contract fr)" "code_ok ret"
        then show ?thesis using False by (auto intro!: run_postI)
      next
        fix evm' fr'
        assume c: "interp_step (Run_with (interp_loop n)) evm fr = Ret (Continue evm' fr')" "evm_step evm evm'" "fr_ok fr'"
          "c_Gas (fr_contract fr') < c_Gas (fr_contract fr)"
        then have "run_post evm' (c_Gas (fr_contract fr')) (interp_loop n evm' fr')"
          using Suc.IH [unfolded loop_ok_def, rule_format, of evm' fr'] evm_step_ok a(3) by (simp add: word_less_nat_alt)
        then obtain evm2 c2 ret err where "interp_loop n evm' fr' = Ret (evm2, c2, ret, err)" "evm_step evm' evm2"
            "c_Gas c2 \<le> c_Gas (fr_contract fr')" "code_ok ret"
          by (rule run_postE)
        then show ?thesis using False c evm_step_trans [OF c(2)] by (auto intro!: run_postI)
      qed
    qed
  qed
qed

interpretation evm_run: bounded_interp "Interpreter_Run n" n for n
  unfolding Interpreter_Run_def by (rule Run_with_bounded [OF interp_loop_ok])

section \<open>Calls return\<close>

text \<open>An example machine: account 7 has a balance, account 8 runs an endless loop, account 9 reverts.\<close>

definition ex_crypto :: crypto_fns where
  "ex_crypto = \<lparr>cf_Ecrecover = (\<lambda>h s. None), cf_Sha256 = (\<lambda>b. replicate 32 0), cf_Ripemd160 = (\<lambda>b. replicate 20 0)\<rparr>"

definition ex_loop :: bytes where
  "ex_loop = [OP_JUMPDEST, OP_PUSH1, 0, OP_JUMP]"

definition ex_revert :: bytes where
  "ex_revert = [OP_PUSH1, 0, OP_PUSH1, 0, OP_REVERT]"

definition ex_evm :: EVM where
  "ex_evm = \<lparr>evm_ctx = \<lparr>ctx_GetHash = (\<lambda>n. 0), ctx_Origin = 7, ctx_GasPrice = 1, ctx_Coinbase = 3, ctx_GasLimit = 100000,
       ctx_BlockNumber = 1, ctx_Time = 1, ctx_Difficulty = 0, ctx_Nonce = 0\<rparr>,
     evm_env = ex_senv, evm_crypto = ex_crypto,
     evm_cfg = \<lparr>cfg_NoRecursion = False, cfg_EnablePreimageRecording = False, cfg_FeeUpdateTime = 0\<rparr>,
     evm_StateDB = SetCode ex_senv (SetCode ex_senv ex_sdb 8 ex_loop) 9 ex_revert,
     evm_depth = 0, evm_abort = False, evm_callGasTemp = 0, evm_readOnly = False, evm_returnData = [], evm_tb = None,
     evm_lkdb = ex_lk_db, evm_jh = ex_jh\<rparr>"

lemma ex_sdb_total: "total_balance ex_sdb = 100"
proof -
  have "GetBalance ex_sdb a = (if a = 7 then 100 else 0)" for a
    by (simp add: GetBalance_def getStateObject_def ex_sdb_def sdb_New_def ex_acc_def newObject_def)
  then show ?thesis by (simp add: total_balance_def)
qed

lemma ex_evm_ok: "evm_ok ex_evm"
proof -
  have "steps_to ex_senv ex_sdb (SetCode ex_senv (SetCode ex_senv ex_sdb 8 ex_loop) 9 ex_revert)"
    by (intro steps_to_trans [OF SetCode_steps SetCode_steps]) (simp_all add: code_ok_def ex_loop_def ex_revert_def)
  then show ?thesis using ex_sdb_inv by (simp add: steps_to_def evm_ok_def ex_evm_def crypto_ok_def ex_crypto_def ex_sdb_total word_ok_def)
qed

text \<open>C3: Every call and every contract creation returns: whatever code runs, endless loops included, \<^verbatim>\<open>Call\<close>
  and \<^verbatim>\<open>Create\<close> never panic and end within as many iterations of the interpreter as they have gas. They
  leave at most the gas they were given, keep the invariant of the machine and the call depth, and create
  no balance.\<close>

theorem vm_calls_return:
  assumes "evm_ok evm" "code_ok input" "word_ok v"
  shows "(\<exists>evm' ret left err. vm_Call evm caller addr input gas v = Ret (evm', ret, left, err) \<and> left \<le> gas \<and> evm_ok evm' \<and>
     evm_depth evm' = evm_depth evm \<and> total_balance (evm_StateDB evm') \<le> total_balance (evm_StateDB evm)) \<and>
   (\<exists>evm' ret a left err. vm_Create evm caller input gas v = Ret (evm', ret, a, left, err) \<and> left \<le> gas \<and> evm_ok evm' \<and>
     evm_depth evm' = evm_depth evm \<and> total_balance (evm_StateDB evm') \<le> total_balance (evm_StateDB evm))"
proof
  have "call_post evm gas (vm_Call evm caller addr input gas v)"
    unfolding vm_Call_def using assms by (intro evm_run.evm_Call_post) simp_all
  then show "\<exists>evm' ret left err. vm_Call evm caller addr input gas v = Ret (evm', ret, left, err) \<and> left \<le> gas \<and> evm_ok evm' \<and>
     evm_depth evm' = evm_depth evm \<and> total_balance (evm_StateDB evm') \<le> total_balance (evm_StateDB evm)"
    by (auto simp: call_post_def evm_step_def evm_fixed_def)
  have "create_post evm gas (vm_Create evm caller input gas v)"
    unfolding vm_Create_def using assms by (intro evm_run.evm_Create_post) simp_all
  then show "\<exists>evm' ret a left err. vm_Create evm caller input gas v = Ret (evm', ret, a, left, err) \<and> left \<le> gas \<and> evm_ok evm' \<and>
     evm_depth evm' = evm_depth evm \<and> total_balance (evm_StateDB evm') \<le> total_balance (evm_StateDB evm)"
    by (auto simp: create_post_def evm_step_def evm_fixed_def)
qed

theorem vm_calls_return_witness:
  "GetCode (evm_env ex_evm) (evm_StateDB ex_evm) 8 = ex_loop \<and>
   (\<exists>evm' ret left err. vm_Call ex_evm (AccountRef 7) 8 ex_loop 60000 10 = Ret (evm', ret, left, err) \<and> left \<le> 60000 \<and> evm_ok evm' \<and>
     evm_depth evm' = evm_depth ex_evm \<and> total_balance (evm_StateDB evm') \<le> total_balance (evm_StateDB ex_evm)) \<and>
   (\<exists>evm' ret a left err. vm_Create ex_evm (AccountRef 7) ex_loop 60000 10 = Ret (evm', ret, a, left, err) \<and> left \<le> 60000 \<and> evm_ok evm' \<and>
     evm_depth evm' = evm_depth ex_evm \<and> total_balance (evm_StateDB evm') \<le> total_balance (evm_StateDB ex_evm))"
proof
  show "GetCode (evm_env ex_evm) (evm_StateDB ex_evm) 8 = ex_loop" by code_simp
qed (rule vm_calls_return [OF ex_evm_ok], simp_all add: word_ok_def code_ok_def ex_loop_def)

text \<open>C9: A call that fails leaves no trace: whatever error it returns, out of gas and revert included, and
  however deep it failed, every account, the refund counter, the logs and the preimages are as before it.\<close>

theorem failed_call_restores_state:
  assumes "evm_ok evm" "code_ok input" "word_ok v" "vm_Call evm caller addr input gas v = Ret (evm', ret, left, Some err)"
  shows "view (evm_env evm) (evm_StateDB evm') = view (evm_env evm) (evm_StateDB evm)"
proof -
  have "call_post evm gas (vm_Call evm caller addr input gas v)"
    unfolding vm_Call_def using assms(1-3) by (intro evm_run.evm_Call_post) simp_all
  then show ?thesis using assms(4) by (auto simp: call_post_def evm_step_def evm_fixed_def state_view_def)
qed

theorem failed_call_restores_state_witness:
  "\<exists>evm' ret left. vm_Call ex_evm (AccountRef 7) 9 [] 10 40 = Ret (evm', ret, left, Some errExecutionReverted) \<and>
     view ex_senv (evm_StateDB evm') = view ex_senv (evm_StateDB ex_evm)"
proof -
  have "(case vm_Call ex_evm (AccountRef 7) 9 [] 10 40 of Ret (e, r, l, er) \<Rightarrow> er = Some errExecutionReverted | Panic s \<Rightarrow> False)"
    by code_simp
  then obtain evm' ret left where r: "vm_Call ex_evm (AccountRef 7) 9 [] 10 40 = Ret (evm', ret, left, Some errExecutionReverted)"
    by (auto split: go.splits prod.splits)
  have "evm_env ex_evm = ex_senv" by (simp add: ex_evm_def)
  then show ?thesis using failed_call_restores_state [OF ex_evm_ok _ _ r] r by (auto simp: word_ok_def)
qed

section \<open>Frames\<close>

text \<open>The frames that a run of the interpreter goes through.\<close>

inductive reaches :: "nat \<Rightarrow> EVM \<Rightarrow> frame \<Rightarrow> EVM \<Rightarrow> frame \<Rightarrow> bool" for n evm fr where
  start: "reaches n evm fr evm fr"
| step: "reaches n evm fr evm1 fr1 \<Longrightarrow> interp_step (Interpreter_Run n) evm1 fr1 = Ret (Continue evm2 fr2) \<Longrightarrow> reaches n evm fr evm2 fr2"

lemma reaches_ok:
  assumes "reaches n evm fr evm' fr'" "evm_ok evm" "fr_ok fr" "unat (c_Gas (fr_contract fr)) \<le> n"
  shows "evm_ok evm' \<and> fr_ok fr' \<and> c_Gas (fr_contract fr') \<le> c_Gas (fr_contract fr)"
  using assms
proof induction
  case (step evm1 fr1 evm2 fr2)
  then have ih: "evm_ok evm1" "fr_ok fr1" "c_Gas (fr_contract fr1) \<le> c_Gas (fr_contract fr)" by auto
  then have "step_post evm1 (c_Gas (fr_contract fr1)) (interp_step (Interpreter_Run n) evm1 fr1)"
    using step.prems(3) by (intro interp_step_ok [OF evm_run.bounded_interp_axioms]) (simp_all add: word_le_nat_alt)
  then show ?case using step.hyps(2) ih(3) evm_step_ok by (auto simp: step_post_def)
qed simp

text \<open>C37: In every frame that a run goes through, each stack word is a 256-bit number, the stack holds at
  most 1024 of them, the memory is a whole number of 32-byte words, and the gas has only gone down.\<close>

theorem frames_well_typed:
  assumes "evm_ok evm" "contract_ok c" "unat (c_Gas c) \<le> n" "reaches n evm (new_frame c) evm' fr"
  shows "(\<forall>x \<in> set (fr_stack fr). 0 \<le> x \<and> x < 2 ^ 256) \<and> length (fr_stack fr) \<le> 1024 \<and> 32 dvd length (mem_store (fr_mem fr)) \<and>
     c_Gas (fr_contract fr) \<le> c_Gas c"
proof -
  have "fr_ok (new_frame c)" using assms(2) by (simp add: new_frame_def fr_ok_def mem_ok_def NewMemory_def)
  then have "fr_ok fr \<and> c_Gas (fr_contract fr) \<le> c_Gas c"
    using reaches_ok [OF assms(4,1)] assms(3) by (simp add: new_frame_def)
  then show ?thesis by (auto simp: fr_ok_def list_all_iff word_ok_def mem_ok_def StackLimit_def)
qed

definition ex_contract :: Contract where
  "ex_contract = (NewContract (AccountRef 7) 8 0 100)\<lparr>c_Code := ex_loop\<rparr>"

text \<open>Runs of the loop by the number of iterations, for evaluation.\<close>

fun iterate :: "nat \<Rightarrow> nat \<Rightarrow> EVM \<Rightarrow> frame \<Rightarrow> (EVM \<times> frame) option" where
  "iterate n 0 evm fr = Some (evm, fr)"
| "iterate n (Suc k) evm fr = (case iterate n k evm fr of None \<Rightarrow> None
     | Some (evm1, fr1) \<Rightarrow> (case interp_step (Interpreter_Run n) evm1 fr1 of Ret (Continue evm2 fr2) \<Rightarrow> Some (evm2, fr2) | _ \<Rightarrow> None))"

lemma iterate_reaches: "iterate n k evm fr = Some (evm', fr') \<Longrightarrow> reaches n evm fr evm' fr'"
  by (induction k arbitrary: evm' fr')
    (auto split: option.splits go.splits step_result.splits prod.splits intro: reaches.intros)

theorem frames_well_typed_witness:
  "\<exists>evm' fr. reaches 100 ex_evm (new_frame ex_contract) evm' fr \<and> length (fr_stack fr) = 1 \<and>
     ((\<forall>x \<in> set (fr_stack fr). 0 \<le> x \<and> x < 2 ^ 256) \<and> length (fr_stack fr) \<le> 1024 \<and> 32 dvd length (mem_store (fr_mem fr)) \<and>
     c_Gas (fr_contract fr) \<le> c_Gas ex_contract)"
proof -
  have "(case iterate 100 2 ex_evm (new_frame ex_contract) of None \<Rightarrow> False | Some (e, f) \<Rightarrow> length (fr_stack f) = 1)" by code_simp
  then obtain evm' fr where it: "iterate 100 2 ex_evm (new_frame ex_contract) = Some (evm', fr)" and l: "length (fr_stack fr) = 1"
    by (auto split: option.splits)
  have r: "reaches 100 ex_evm (new_frame ex_contract) evm' fr" by (rule iterate_reaches [OF it])
  have c: "contract_ok ex_contract" "unat (c_Gas ex_contract) \<le> 100"
    by (simp_all add: ex_contract_def NewContract_def contract_ok_def code_ok_def ex_loop_def)
  show ?thesis using frames_well_typed [OF ex_evm_ok c r] r l by blast
qed

end
