(* ===== verification/Evm_Bound.thy ===== *)
theory Evm_Bound
  imports Evm_Safety
begin

text \<open>
  The bound on the iterations of the interpreter does not matter once it exceeds the gas: a larger one
  gives the same result. \<open>le_go\<close> orders computations by what they return; every instruction is monotone in
  the interpreter it calls back, hence so are the iteration and the loop.
\<close>

definition le_go :: "'a go \<Rightarrow> 'a go \<Rightarrow> bool" where
  "le_go m m' \<longleftrightarrow> (\<forall>x. m = Ret x \<longrightarrow> m' = Ret x)"

definition le_interp :: "interp \<Rightarrow> interp \<Rightarrow> bool" where
  "le_interp f g \<longleftrightarrow> (\<forall>evm c input. le_go (f evm c input) (g evm c input))"

named_theorems mono_ops \<open>monotone operations\<close>

lemma le_go_refl [simp]: "le_go m m"
  by (simp add: le_go_def)

lemma le_go_bind: "le_go m m' \<Longrightarrow> (\<And>x. le_go (f x) (f' x)) \<Longrightarrow> le_go (go_bind m f) (go_bind m' f')"
  by (cases m) (auto simp: le_go_def)

lemma le_go_pop: "(\<And>x fr. le_go (k x fr) (k' x fr)) \<Longrightarrow> le_go (pop_then fr k) (pop_then fr k')"
  by (auto simp: pop_then_def intro!: le_go_bind split: prod.splits)

section \<open>Call operations\<close>

lemma vm_run_mono: "le_interp f g \<Longrightarrow> le_go (vm_run f evm c input) (vm_run g evm c input)"
  by (auto simp: vm_run_def le_interp_def split: option.splits)

lemma end_call_mono: "le_go r r' \<Longrightarrow> le_go (end_call s b fee r) (end_call s b fee r')"
  by (auto simp: end_call_def intro!: le_go_bind)

lemma call_monos [mono_ops]:
  assumes "le_interp f g"
  shows "le_go (evm_Call f evm caller addr input gas v) (evm_Call g evm caller addr input gas v)"
    "le_go (evm_CallCode f evm caller addr input gas v) (evm_CallCode g evm caller addr input gas v)"
    "le_go (evm_DelegateCall f evm caller addr input gas) (evm_DelegateCall g evm caller addr input gas)"
    "le_go (evm_StaticCall f evm caller addr input gas) (evm_StaticCall g evm caller addr input gas)"
  by (auto simp: evm_Call_def evm_CallCode_def evm_DelegateCall_def evm_StaticCall_def call_contract_def Let_def split: prod.splits
      intro!: le_go_bind end_call_mono vm_run_mono [OF assms])

lemma create_mono [mono_ops]:
  assumes "le_interp f g"
  shows "le_go (evm_Create f evm caller code gas v) (evm_Create g evm caller code gas v)"
  by (auto simp: evm_Create_def create_contract_def end_create_def Let_def split: prod.splits
      intro!: le_go_bind vm_run_mono [OF assms])

section \<open>Instructions\<close>

definition mono_op :: "executionFunc \<Rightarrow> bool" where
  "mono_op e \<longleftrightarrow> (\<forall>f g evm fr. le_interp f g \<longrightarrow> le_go (e f evm fr) (e g evm fr))"

lemma mono_arith [mono_ops]:
  "mono_op opAdd" "mono_op opSub" "mono_op opMul" "mono_op opDiv" "mono_op opSdiv" "mono_op opMod" "mono_op opSmod" "mono_op opExp"
  "mono_op opSignExtend" "mono_op opNot" "mono_op opLt" "mono_op opGt" "mono_op opSlt" "mono_op opSgt" "mono_op opEq" "mono_op opIszero"
  "mono_op opAnd" "mono_op opOr" "mono_op opXor" "mono_op opByte" "mono_op opAddmod" "mono_op opMulmod" "mono_op opSHL" "mono_op opSHR"
  "mono_op opSAR"
  by (simp_all add: mono_op_def opAdd_def opSub_def opMul_def opDiv_def opSdiv_def opMod_def opSmod_def opExp_def opSignExtend_def opNot_def
      opLt_def opGt_def opSlt_def opSgt_def opEq_def opIszero_def opAnd_def opOr_def opXor_def opByte_def opAddmod_def opMulmod_def opSHL_def
      opSHR_def opSAR_def)

lemma mono_env [mono_ops]:
  "mono_op opSha3" "mono_op opAddress" "mono_op opBalance" "mono_op opOrigin" "mono_op opCaller" "mono_op opCallValue" "mono_op opCallDataLoad"
  "mono_op opCallDataSize" "mono_op opCallDataCopy" "mono_op opReturnDataSize" "mono_op opReturnDataCopy" "mono_op opExtCodeSize"
  "mono_op opCodeSize" "mono_op opCodeCopy" "mono_op opExtCodeCopy" "mono_op opGasprice" "mono_op opBlockhash" "mono_op opCoinbase"
  "mono_op opTimestamp" "mono_op opNumber" "mono_op opDifficulty" "mono_op opGasLimit"
  by (simp_all add: mono_op_def opSha3_def opAddress_def opBalance_def opOrigin_def opCaller_def opCallValue_def opCallDataLoad_def
      opCallDataSize_def opCallDataCopy_def opReturnDataSize_def opReturnDataCopy_def opExtCodeSize_def opCodeSize_def opCodeCopy_def
      opExtCodeCopy_def opGasprice_def opBlockhash_def opCoinbase_def opTimestamp_def opNumber_def opDifficulty_def opGasLimit_def)

lemma mono_flow [mono_ops]:
  "mono_op opPop" "mono_op opMload" "mono_op opMstore" "mono_op opMstore8" "mono_op opSload" "mono_op opSstore" "mono_op opJump"
  "mono_op opJumpi" "mono_op opJumpdest" "mono_op opPc" "mono_op opMsize" "mono_op opGas" "mono_op opReturn" "mono_op opRevert" "mono_op opStop"
  "mono_op opSuicide" "mono_op (makeLog n)" "mono_op (makePush s n)" "mono_op (makeDup n)" "mono_op (makeSwap n)"
  by (simp_all add: mono_op_def opPop_def opMload_def opMstore_def opMstore8_def opSload_def opSstore_def opJump_def opJumpi_def
      opJumpdest_def opPc_def opMsize_def opGas_def opReturn_def opRevert_def opStop_def opSuicide_def makeLog_def makePush_def
      makeDup_def makeSwap_def)

lemma mono_calls [mono_ops]: "mono_op opCreate" "mono_op opCall" "mono_op opCallCode" "mono_op opDelegateCall" "mono_op opStaticCall"
  unfolding mono_op_def
  by (auto simp: opCreate_def opCall_def opCallCode_def opDelegateCall_def opStaticCall_def Let_def intro!: le_go_pop le_go_bind mono_ops)

lemma mono_table: "mono_op (op_execute (JumpTable_of b))"
proof -
  have "list_all (\<lambda>(b, p). mono_op (op_execute p)) (frontier_1 @ frontier_2 @ frontier_3 @ frontier_4 @ frontier_5 @ frontier_6 @ frontier_7)"
    by (simp add: frontier_defs operation_of_def mono_ops)
  then have frontier: "mono_op (op_execute (newFrontierInstructionSet b))" for b
    unfolding newFrontierInstructionSet_def
    by (auto simp only: list_all_iff operation_zero_def operation_of_def operation.simps mono_ops split: option.splits dest!: map_of_SomeD)
  show ?thesis
    by (simp add: JumpTable_of_def newConstantinopleInstructionSet_def newByzantiumInstructionSet_def newHomesteadInstructionSet_def
        operation_of_def frontier mono_ops)
qed

section \<open>The loop\<close>

lemma interp_step_mono:
  assumes "le_interp f g" shows "le_go (interp_step f evm fr) (interp_step g evm fr)"
  using mono_table assms
  by (auto simp: interp_step_def charge_and_execute_def Let_def mono_op_def split: option.splits sum.splits prod.splits intro!: le_go_bind)

lemma Run_with_mono: "(\<And>evm fr. le_go (f evm fr) (g evm fr)) \<Longrightarrow> le_interp (Run_with f) (Run_with g)"
  by (auto simp: le_interp_def Run_with_def Let_def intro!: le_go_bind)

lemma interp_loop_Suc: "le_go (interp_loop n evm fr) (interp_loop (Suc n) evm fr)"
proof (induction n arbitrary: evm fr)
  case (Suc n)
  let ?k = "\<lambda>n r. case r of Done evm c ret err \<Rightarrow> Ret (evm, c, ret, err) | Continue evm fr \<Rightarrow> interp_loop n evm fr"
  have "le_interp (Run_with (interp_loop n)) (Run_with (interp_loop (Suc n)))" by (rule Run_with_mono [OF Suc.IH])
  then have "le_go (interp_step (Run_with (interp_loop n)) evm fr) (interp_step (Run_with (interp_loop (Suc n))) evm fr)"
    by (rule interp_step_mono)
  moreover have "le_go (?k n r) (?k (Suc n) r)" for r using Suc.IH by (cases r) (simp_all del: interp_loop.simps)
  ultimately have "le_go (go_bind (interp_step (Run_with (interp_loop n)) evm fr) (?k n))
      (go_bind (interp_step (Run_with (interp_loop (Suc n))) evm fr) (?k (Suc n)))"
    by (rule le_go_bind)
  then show ?case unfolding interp_loop.simps(2) [of n] interp_loop.simps(2) [of "Suc n"] by simp
qed (simp add: le_go_def)

lemma interp_loop_mono: "n \<le> m \<Longrightarrow> le_go (interp_loop n evm fr) (interp_loop m evm fr)"
proof (induction rule: dec_induct)
  case (step k)
  then show ?case using interp_loop_Suc [of k evm fr] by (auto simp: le_go_def)
qed simp

text \<open>The bound on the number of iterations is immaterial: with any bound above the gas a call computes
  the same machine, return data, remaining gas and error.\<close>

lemma bound_is_immaterial:
  assumes "evm_ok evm" "code_ok input" "word_ok v" "unat gas < n"
  shows "evm_Call (Interpreter_Run n) evm caller addr input gas v = vm_Call evm caller addr input gas v"
proof -
  have "le_interp (Interpreter_Run (unat gas + 1)) (Interpreter_Run n)"
    unfolding Interpreter_Run_def using assms(4) by (intro Run_with_mono interp_loop_mono) simp
  then have le: "le_go (vm_Call evm caller addr input gas v) (evm_Call (Interpreter_Run n) evm caller addr input gas v)"
    unfolding vm_Call_def by (rule mono_ops)
  have "call_post evm gas (vm_Call evm caller addr input gas v)"
    unfolding vm_Call_def using assms(1-3) by (intro evm_run.evm_Call_post) simp_all
  then show ?thesis using le by (auto simp: call_post_def le_go_def)
qed

end
