(* ===== verification/State_Transition.thy ===== *)
theory State_Transition
  imports Evm_Safety
begin

text \<open>
  Applying a transaction: \<^verbatim>\<open>core/state_transition.go\<close>, \<^verbatim>\<open>core/gaspool.go\<close>, \<^verbatim>\<open>core/state_processor.go\<close>, the
  context of \<^verbatim>\<open>core/evm.go\<close>, the bloom filter of \<^verbatim>\<open>core/types/bloom9.go\<close> and the fork switches of
  \<^verbatim>\<open>params/config.go\<close>. What the code asks of the outside is gathered in \<open>chain_env\<close>: signature recovery,
  the hash of the account trie, the author of a header, the hashes of earlier blocks, whether a payload
  is a JSON object, and the text of an error.
\<close>

section \<open>Messages and gas\<close>

record Message =
  msg_From :: address
  msg_To :: "address option"
  msg_Nonce :: uint64
  msg_Value :: int
  msg_Gas :: int
  msg_GasPrice :: int
  msg_Data :: bytes
  msg_CheckNonce :: bool

datatype core_error =
    ErrNonceTooHigh | ErrNonceTooLow | errInsufficientBalanceForGas | ErrGasLimitReached | ErrInvalidSig | CoreVm vm_error | CoreLk lk_error

type_synonym GasPool = int

definition AddGas :: "GasPool \<Rightarrow> int \<Rightarrow> GasPool" where
  "AddGas gp amount = gp + amount"

definition SubGas :: "GasPool \<Rightarrow> int \<Rightarrow> GasPool \<times> core_error option" where
  "SubGas gp amount = (if gp < amount then (gp, Some ErrGasLimitReached) else (gp - amount, None))"

record ChainConfig =
  cc_HomesteadBlock :: "int option"
  cc_EIP158Block :: "int option"
  cc_ByzantiumBlock :: "int option"

definition isForked :: "int option \<Rightarrow> int \<Rightarrow> bool" where
  "isForked s head = (case s of None \<Rightarrow> False | Some b \<Rightarrow> b \<le> head)"

abbreviation IsHomestead :: "ChainConfig \<Rightarrow> int \<Rightarrow> bool" where
  "IsHomestead c num \<equiv> isForked (cc_HomesteadBlock c) num"

abbreviation IsEIP158 :: "ChainConfig \<Rightarrow> int \<Rightarrow> bool" where
  "IsEIP158 c num \<equiv> isForked (cc_EIP158Block c) num"

abbreviation IsByzantium :: "ChainConfig \<Rightarrow> int \<Rightarrow> bool" where
  "IsByzantium c num \<equiv> isForked (cc_ByzantiumBlock c) num"

definition IntrinsicGas :: "bytes \<Rightarrow> bool \<Rightarrow> bool \<Rightarrow> int" where
  "IntrinsicGas data contractCreation homestead =
     (let igas = (if contractCreation \<and> homestead then uint TxGasContractCreation else uint TxGas) in
      if length data > 0
      then let nz = int (length (filter (\<lambda>byt. byt \<noteq> 0) data)) in
        igas + nz * uint TxDataNonZeroGas + (int (length data) - nz) * uint TxDataZeroGas
      else igas)"

section \<open>The state transition\<close>

text \<open>\<^verbatim>\<open>gasPrice\<close>, \<^verbatim>\<open>value\<close> and \<^verbatim>\<open>data\<close> are those of the message and \<^verbatim>\<open>state\<close> is that of the machine.\<close>

record StateTransition =
  st_gp :: GasPool
  st_msg :: Message
  st_gas :: uint64
  st_initialGas :: int
  st_evm :: EVM

definition NewStateTransition :: "EVM \<Rightarrow> Message \<Rightarrow> GasPool \<Rightarrow> StateTransition" where
  "NewStateTransition evm msg gp = \<lparr>st_gp = gp, st_msg = msg, st_gas = 0, st_initialGas = 0, st_evm = evm\<rparr>"

definition st_state :: "StateTransition \<Rightarrow> StateDB" where
  "st_state st = evm_StateDB (st_evm st)"

definition on_st :: "StateTransition \<Rightarrow> (state_env \<Rightarrow> StateDB \<Rightarrow> StateDB) \<Rightarrow> StateTransition" where
  "on_st st f = st\<lparr>st_evm := on_state (st_evm st) f\<rparr>"

definition isContractExecution :: "(bytes \<Rightarrow> bool) \<Rightarrow> address option \<Rightarrow> bytes \<Rightarrow> bool" where
  "isContractExecution is_json to data =
     (case to of None \<Rightarrow> False | Some _ \<Rightarrow> length data \<noteq> 0 \<and> \<not> is_json data)"

text \<open>An account that does not exist is created when it is named.\<close>

definition touch_account :: "StateTransition \<Rightarrow> address \<Rightarrow> StateTransition" where
  "touch_account st a = (if \<not> Exist (st_state st) a then on_st st (\<lambda>env s. CreateAccount env s a) else st)"

definition st_from :: "StateTransition \<Rightarrow> StateTransition \<times> address" where
  "st_from st = (touch_account st (msg_From (st_msg st)), msg_From (st_msg st))"

definition st_to :: "StateTransition \<Rightarrow> StateTransition \<times> address" where
  "st_to st = (case msg_To (st_msg st) of None \<Rightarrow> (st, 0) | Some to \<Rightarrow> (touch_account st to, to))"

definition useGas :: "StateTransition \<Rightarrow> uint64 \<Rightarrow> StateTransition \<times> core_error option" where
  "useGas st amount =
     (if st_gas st < amount then (st, Some (CoreVm ErrOutOfGas)) else (st\<lparr>st_gas := st_gas st - amount\<rparr>, None))"

definition buyGas :: "StateTransition \<Rightarrow> StateTransition \<times> core_error option" where
  "buyGas st =
     (let mgas = msg_Gas (st_msg st) in
      if BitLen mgas > 64 then (st, Some (CoreVm ErrOutOfGas))
      else let mgval = mgas * msg_GasPrice (st_msg st) in
        case st_from st of (st, sender) \<Rightarrow>
          if GetBalance (st_state st) sender < mgval then (st, Some errInsufficientBalanceForGas)
          else (on_st (st\<lparr>st_gas := st_gas st + Big_Uint64 mgas, st_initialGas := mgas\<rparr>) (\<lambda>env s. SubBalance env s sender mgval), None))"

definition preCheck :: "StateTransition \<Rightarrow> StateTransition \<times> core_error option" where
  "preCheck st =
     (case st_from st of (st, sender) \<Rightarrow>
       let nonce = GetNonce (st_state st) sender in
       if msg_CheckNonce (st_msg st) \<and> nonce < msg_Nonce (st_msg st) then (st, Some ErrNonceTooHigh)
       else if msg_CheckNonce (st_msg st) \<and> nonce > msg_Nonce (st_msg st) then (st, Some ErrNonceTooLow)
       else buyGas st)"

definition st_gasUsed :: "StateTransition \<Rightarrow> int" where
  "st_gasUsed st = st_initialGas st - uint (st_gas st)"

definition refundGas :: "StateTransition \<Rightarrow> StateTransition" where
  "refundGas st = on_st st (\<lambda>env s. AddBalance env s (msg_From (st_msg st)) (uint (st_gas st) * msg_GasPrice (st_msg st)))"

text \<open>The result: the data, the required and the used gas (\<open>None\<close> is nil), the error of the virtual machine
  and the error of the transition.\<close>

type_synonym transition_result =
  "(StateTransition \<times> bytes \<times> int option \<times> int option \<times> vm_error option \<times> core_error option) go"

text \<open>The execution: creation or call.\<close>

definition st_execute :: "StateTransition \<Rightarrow> address \<Rightarrow> (StateTransition \<times> bytes \<times> vm_error option) go" where
  "st_execute st sender =
     (if msg_To (st_msg st) = None
      then go_bind (vm_Create (st_evm st) (AccountRef sender) (msg_Data (st_msg st)) (st_gas st) (msg_Value (st_msg st)))
             (\<lambda>(evm, ret, _, gas, vmerr). Ret (st\<lparr>st_evm := evm, st_gas := gas\<rparr>, ret, vmerr))
      else let st = on_st st (\<lambda>env s. SetNonce env s sender (GetNonce s sender + 1)) in
        case st_to st of (st, to) \<Rightarrow>
          go_bind (vm_Call (st_evm st) (AccountRef sender) to (msg_Data (st_msg st)) (st_gas st) (msg_Value (st_msg st)))
            (\<lambda>(evm, ret, gas, vmerr). Ret (st\<lparr>st_evm := evm, st_gas := gas\<rparr>, ret, vmerr)))"

text \<open>The settlement: a message that runs no code is charged all its gas; the rest goes back to the sender
  and the fee to the coinbase.\<close>

definition st_settle :: "(bytes \<Rightarrow> bool) \<Rightarrow> StateTransition \<Rightarrow> StateTransition \<times> int \<times> int" where
  "st_settle is_json st =
     (let msg = st_msg st;
          runs = (case msg_To msg of None \<Rightarrow> True
            | Some to \<Rightarrow> isContractExecution is_json (msg_To msg) (msg_Data msg) \<and> GetCodeSize (evm_env (st_evm st)) (st_state st) to > 0);
          st = (if runs then st else fst (useGas st (st_gas st)));
          requiredGas = st_gasUsed st;
          st = refundGas st;
          fee = st_gasUsed st * msg_GasPrice msg;
          st = on_st st (\<lambda>env s. AddBalance env s (ctx_Coinbase (evm_ctx (st_evm st))) fee) in
      (st, requiredGas, st_gasUsed st))"

definition st_finish :: "(bytes \<Rightarrow> bool) \<Rightarrow> StateTransition \<Rightarrow> address \<Rightarrow> transition_result" where
  "st_finish is_json st sender = go_bind (st_execute st sender) (\<lambda>(st, ret, vmerr).
     if vmerr = Some ErrInsufficientBalance then Ret (st, [], None, None, vmerr, None)
     else case st_settle is_json st of (st, requiredGas, usedGas) \<Rightarrow> Ret (st, ret, Some requiredGas, Some usedGas, vmerr, None))"

definition TransitionDb :: "(bytes \<Rightarrow> bool) \<Rightarrow> ChainConfig \<Rightarrow> StateTransition \<Rightarrow> transition_result" where
  "TransitionDb is_json cc st =
     (case preCheck st of
        (st, Some err) \<Rightarrow> Ret (st, [], None, None, None, Some err)
      | (st, None) \<Rightarrow>
          case st_from st of (st, sender) \<Rightarrow>
          let homestead = IsHomestead cc (ctx_BlockNumber (evm_ctx (st_evm st)));
              intrinsicGas = IntrinsicGas (msg_Data (st_msg st)) (msg_To (st_msg st) = None) homestead in
          if BitLen intrinsicGas > 64 then Ret (st, [], None, None, None, Some (CoreVm ErrOutOfGas))
          else case useGas st (Big_Uint64 intrinsicGas) of
            (st, Some err) \<Rightarrow> Ret (st, [], None, None, None, Some err)
          | (st, None) \<Rightarrow> st_finish is_json st sender)"

definition ApplyMessage :: "(bytes \<Rightarrow> bool) \<Rightarrow> ChainConfig \<Rightarrow> EVM \<Rightarrow> Message \<Rightarrow> GasPool \<Rightarrow>
    (EVM \<times> bytes \<times> int option \<times> vm_error option \<times> core_error option) go" where
  "ApplyMessage is_json cc evm msg gp =
     go_bind (TransitionDb is_json cc (NewStateTransition evm msg gp)) (\<lambda>(st, ret, _, gasUsed, vmerr, err).
       Ret (st_evm st, ret, gasUsed, vmerr, err))"

section \<open>The processor\<close>

text \<open>The fields of a header that the code reads; a nil \<^verbatim>\<open>*big.Int\<close> is \<open>None\<close>.\<close>

record Header =
  h_ParentHash :: hash
  h_Coinbase :: address
  h_UncleHash :: hash
  h_Number :: int
  h_Time :: "int option"
  h_Difficulty :: "int option"
  h_GasLimit :: int

text \<open>The fields of a transaction that the processor reads; \<open>tx_Hash\<close> is the hash of its encoding.\<close>

record Transaction =
  tx_Hash :: hash
  tx_AccountNonce :: uint64
  tx_Price :: int
  tx_GasLimit :: int
  tx_Recipient :: "address option"
  tx_Amount :: int
  tx_Payload :: bytes

record chain_env =
  ce_Sender :: "Transaction \<Rightarrow> address option"
  ce_Root :: "(address \<rightharpoonup> Account) \<Rightarrow> hash"
  ce_Author :: "Header \<Rightarrow> address"
  ce_GetHash :: "Header \<Rightarrow> uint64 \<Rightarrow> hash"
  ce_is_json :: "bytes \<Rightarrow> bool"
  ce_errmsg :: "vm_error \<Rightarrow> string"

definition AsMessage :: "chain_env \<Rightarrow> Transaction \<Rightarrow> core_error + Message" where
  "AsMessage ce tx =
     (case ce_Sender ce tx of None \<Rightarrow> Inl ErrInvalidSig
      | Some a \<Rightarrow> Inr \<lparr>msg_From = a, msg_To = tx_Recipient tx, msg_Nonce = tx_AccountNonce tx, msg_Value = tx_Amount tx,
          msg_Gas = tx_GasLimit tx, msg_GasPrice = tx_Price tx, msg_Data = tx_Payload tx, msg_CheckNonce = True\<rparr>)"

definition NewEVMContext :: "chain_env \<Rightarrow> Message \<Rightarrow> Header \<Rightarrow> address option \<Rightarrow> Context go" where
  "NewEVMContext ce msg header author =
     (let beneficiary = (case author of None \<Rightarrow> ce_Author ce header | Some a \<Rightarrow> a) in
      case (h_Time header, h_Difficulty header) of
        (Some time, Some difficulty) \<Rightarrow>
          Ret \<lparr>ctx_GetHash = ce_GetHash ce header, ctx_Origin = msg_From msg, ctx_GasPrice = msg_GasPrice msg, ctx_Coinbase = beneficiary,
            ctx_GasLimit = Big_Uint64 (h_GasLimit header), ctx_BlockNumber = h_Number header, ctx_Time = time,
            ctx_Difficulty = difficulty, ctx_Nonce = msg_Nonce msg\<rparr>
      | _ \<Rightarrow> nil_deref)"

definition bloom9 :: "state_env \<Rightarrow> bytes \<Rightarrow> int" where
  "bloom9 env b =
     (let h = Hash_Bytes (se_Keccak env b) in
      foldl (\<lambda>r i. r OR push_bit (unat ((ucast (h ! (i + 1)) + push_bit 8 (ucast (h ! i))) AND (2047 :: uint64))) 1) 0 [0, 2, 4])"

definition LogsBloom :: "state_env \<Rightarrow> Log list \<Rightarrow> int" where
  "LogsBloom env logs =
     foldl (\<lambda>r l. foldl (\<lambda>r t. r OR bloom9 env (Hash_Bytes t)) (r OR bloom9 env (Address_Bytes (log_Address l))) (log_Topics l)) 0 logs"

definition BytesToBloom :: "bytes \<Rightarrow> bytes go" where
  "BytesToBloom b = (if length b > 256 then Panic ''bloom bytes too big'' else Ret (LeftPadBytes b 256))"

definition CreateBloom :: "state_env \<Rightarrow> Log list list \<Rightarrow> bytes go" where
  "CreateBloom env receipts = BytesToBloom (big_bytes (foldl (\<lambda>r logs. r OR LogsBloom env logs) 0 receipts))"

record Receipt =
  r_PostState :: bytes
  r_Status :: nat
  r_CumulativeGasUsed :: int
  r_Bloom :: bytes
  r_Logs :: "Log list"
  r_TxHash :: hash
  r_ContractAddress :: address
  r_GasUsed :: int

definition NewReceipt :: "bytes \<Rightarrow> bool \<Rightarrow> int \<Rightarrow> Receipt" where
  "NewReceipt root failed cumulativeGasUsed =
     \<lparr>r_PostState = root, r_Status = (if failed then 0 else 1), r_CumulativeGasUsed = cumulativeGasUsed, r_Bloom = replicate 256 0,
      r_Logs = [], r_TxHash = 0, r_ContractAddress = 0, r_GasUsed = 0\<rparr>"

definition IntermediateRoot :: "chain_env \<Rightarrow> state_env \<Rightarrow> StateDB \<Rightarrow> bool \<Rightarrow> (StateDB \<times> hash) go" where
  "IntermediateRoot ce env s deleteEmptyObjects =
     go_bind (Finalise env s deleteEmptyObjects) (\<lambda>s. Ret (s, ce_Root ce (sdb_trie s)))"

text \<open>The end of \<^verbatim>\<open>ApplyTransaction\<close>. Adding or copying a nil \<^verbatim>\<open>*big.Int\<close> dereferences it.\<close>

definition make_receipt :: "chain_env \<Rightarrow> ChainConfig \<Rightarrow> Header \<Rightarrow> Transaction \<Rightarrow> Message \<Rightarrow> EVM \<Rightarrow> int \<Rightarrow> int option \<Rightarrow> vm_error option \<Rightarrow>
    (StateDB \<times> int \<times> Receipt) go" where
  "make_receipt ce cc header tx msg evm usedGas gas vmerr =
     (let env = evm_env evm in
      go_bind (if IsByzantium cc (h_Number header)
               then go_bind (Finalise env (evm_StateDB evm) True) (\<lambda>s. Ret (s, []))
               else go_bind (IntermediateRoot ce env (evm_StateDB evm) (IsEIP158 cc (h_Number header))) (\<lambda>(s, h). Ret (s, Hash_Bytes h)))
        (\<lambda>(statedb, root).
          case gas of None \<Rightarrow> nil_deref
          | Some g \<Rightarrow>
              let usedGas = usedGas + g;
                  receipt = (NewReceipt root (vmerr \<noteq> None) usedGas)\<lparr>r_TxHash := tx_Hash tx, r_GasUsed := g\<rparr> in
              go_bind (if msg_To msg = None \<and> vmerr = None
                       then go_bind (CreateAddress env (ctx_Origin (evm_ctx evm)) (tx_AccountNonce tx) (tx_Payload tx)) (\<lambda>a.
                         Ret (receipt\<lparr>r_ContractAddress := a\<rparr>))
                       else Ret receipt) (\<lambda>receipt.
                let receipt = receipt\<lparr>r_Logs := sdb_logs statedb (tx_Hash tx)\<rparr> in
                go_bind (CreateBloom env [r_Logs receipt]) (\<lambda>bloom. Ret (statedb, usedGas, receipt\<lparr>r_Bloom := bloom\<rparr>)))))"

text \<open>The state database, the record of internal transfers and the batch are changed in place, so they are
  returned on every path, with the error or the receipt and the gas. \<open>evm0\<close> carries what \<^verbatim>\<open>NewEVM\<close> does
  not set: the state, its environment, the cryptographic functions and the record of internal transfers.\<close>

record apply_state =
  as_evm :: EVM
  as_usedGas :: int

definition NewEVM :: "EVM \<Rightarrow> Context \<Rightarrow> Config \<Rightarrow> TxBatch option \<Rightarrow> EVM" where
  "NewEVM evm0 ctx cfg tb =
     evm0\<lparr>evm_ctx := ctx, evm_cfg := cfg, evm_depth := 0, evm_abort := False, evm_callGasTemp := 0, evm_readOnly := False,
          evm_returnData := [], evm_tb := tb\<rparr>"

definition ApplyTransaction :: "chain_env \<Rightarrow> ChainConfig \<Rightarrow> address option \<Rightarrow> GasPool \<Rightarrow> apply_state \<Rightarrow> Header \<Rightarrow> Transaction \<Rightarrow> Config \<Rightarrow>
    TxBatch option \<Rightarrow> (apply_state \<times> (core_error + Receipt \<times> int)) go" where
  "ApplyTransaction ce cc author gp a header tx cfg tb =
     (case AsMessage ce tx of Inl err \<Rightarrow> Ret (a\<lparr>as_evm := (as_evm a)\<lparr>evm_tb := tb\<rparr>\<rparr>, Inl err)
      | Inr msg \<Rightarrow>
          go_bind (NewEVMContext ce msg header author) (\<lambda>context.
          go_bind (ApplyMessage (ce_is_json ce) cc (NewEVM (as_evm a) context cfg tb) msg gp) (\<lambda>(evm, _, gas, vmerr, err).
            let evm = evm\<lparr>evm_tb := map_option (\<lambda>b. b\<lparr>tb_Err := map_option (ce_errmsg ce) vmerr\<rparr>) (evm_tb evm)\<rparr> in
            case err of Some e \<Rightarrow> Ret (a\<lparr>as_evm := evm\<rparr>, Inl e)
            | None \<Rightarrow> go_bind (make_receipt ce cc header tx msg evm (as_usedGas a) gas vmerr) (\<lambda>(statedb, usedGas, receipt).
                Ret (\<lparr>as_evm = evm\<lparr>evm_StateDB := statedb\<rparr>, as_usedGas = usedGas\<rparr>, Inr (receipt, r_GasUsed receipt))))))"

section \<open>Safety of a transition\<close>

text \<open>The amounts of a message are natural numbers and its value is a word.\<close>

definition msg_ok :: "Message \<Rightarrow> bool" where
  "msg_ok msg \<longleftrightarrow> 0 \<le> msg_Gas msg \<and> 0 \<le> msg_GasPrice msg \<and> word_ok (msg_Value msg) \<and> code_ok (msg_Data msg)"

definition st_total :: "StateTransition \<Rightarrow> int" where
  "st_total st = total_balance (st_state st)"

text \<open>What every part of the transition keeps.\<close>

definition st_keeps :: "StateTransition \<Rightarrow> StateTransition \<Rightarrow> bool" where
  "st_keeps st st' \<longleftrightarrow> evm_ok (st_evm st') \<and> st_msg st' = st_msg st \<and> evm_env (st_evm st') = evm_env (st_evm st) \<and>
     evm_ctx (st_evm st') = evm_ctx (st_evm st) \<and> evm_depth (st_evm st') = evm_depth (st_evm st)"

lemma st_keeps_trans [trans]: "st_keeps a b \<Longrightarrow> st_keeps b c \<Longrightarrow> st_keeps a c"
  by (simp add: st_keeps_def)

lemma on_st_simps [simp]:
  "st_msg (on_st st f) = st_msg st" "st_gas (on_st st f) = st_gas st" "st_initialGas (on_st st f) = st_initialGas st"
  "st_state (on_st st f) = f (evm_env (st_evm st)) (st_state st)" "evm_ctx (st_evm (on_st st f)) = evm_ctx (st_evm st)"
  "evm_env (st_evm (on_st st f)) = evm_env (st_evm st)" "evm_depth (st_evm (on_st st f)) = evm_depth (st_evm st)"
  by (simp_all add: on_st_def st_state_def on_state_def)

lemma st_state_gas [simp]: "st_state (st\<lparr>st_gas := g\<rparr>) = st_state st" "st_state (st\<lparr>st_initialGas := i\<rparr>) = st_state st"
  by (simp_all add: st_state_def)

lemma on_st_keeps:
  assumes "evm_ok (st_evm st)" "steps_to (evm_env (st_evm st)) (st_state st) (f (evm_env (st_evm st)) (st_state st))"
    "total_balance (f (evm_env (st_evm st)) (st_state st)) < 2 ^ 256"
  shows "st_keeps st (on_st st f)"
  using assms by (simp add: st_keeps_def on_st_def on_state_def st_state_def evm_ok_def steps_to_def)

lemma st_total_bound: "evm_ok (st_evm st) \<Longrightarrow> st_total st < 2 ^ 256"
  by (simp add: evm_ok_def st_total_def st_state_def)

lemma GetNonce_CreateAccount: "\<not> Exist s a \<Longrightarrow> GetNonce (CreateAccount env s a) b = GetNonce s b"
  by (auto simp: Exist_def CreateAccount_def createObject_def Let_def sdb_defs GetNonce_def getStateObject_def newObject_def
      cong: option.case_cong split: option.splits)

lemma touch_account_keeps:
  assumes "evm_ok (st_evm st)"
  shows "st_keeps st (touch_account st a) \<and> st_gas (touch_account st a) = st_gas st \<and>
     st_initialGas (touch_account st a) = st_initialGas st \<and> st_total (touch_account st a) = st_total st \<and>
     GetBalance (st_state (touch_account st a)) = GetBalance (st_state st) \<and>
     GetNonce (st_state (touch_account st a)) = GetNonce (st_state st)"
proof -
  have "sdb_inv (evm_env (st_evm st)) (st_state st)" using assms by (simp add: evm_ok_def st_state_def)
  then have "st_keeps st (on_st st (\<lambda>env s. CreateAccount env s a))"
    using on_st_keeps [OF assms, of "\<lambda>env s. CreateAccount env s a"] CreateAccount_steps st_total_bound [OF assms]
    by (simp add: st_total_def)
  moreover have "st_keeps st st" using assms by (simp add: st_keeps_def)
  ultimately show ?thesis by (auto simp: touch_account_def st_total_def GetNonce_CreateAccount fun_eq_iff)
qed

text \<open>\<^verbatim>\<open>preCheck\<close> either refuses the message and takes nothing, or takes the price of all its gas.\<close>

lemma BitLen_64: "0 \<le> x \<Longrightarrow> \<not> BitLen x > 64 \<Longrightarrow> uint (Big_Uint64 x) = x"
  by (simp add: BitLen_def bit_len_le not_less Big_Uint64_def uint_word_of_int nat_less_iff)

lemma preCheck_post:
  assumes ok: "evm_ok evm" and m: "msg_ok msg" and p: "preCheck (NewStateTransition evm msg gp) = (st, err)"
  shows "st_keeps (NewStateTransition evm msg gp) st \<and>
     (err = None \<longleftrightarrow> (msg_CheckNonce msg \<longrightarrow> GetNonce (evm_StateDB evm) (msg_From msg) = msg_Nonce msg) \<and> BitLen (msg_Gas msg) \<le> 64 \<and>
        msg_Gas msg * msg_GasPrice msg \<le> GetBalance (evm_StateDB evm) (msg_From msg)) \<and>
     (if err = None
      then uint (st_gas st) = msg_Gas msg \<and> st_initialGas st = msg_Gas msg \<and>
        GetBalance (st_state st) = (\<lambda>a. GetBalance (evm_StateDB evm) a - (if a = msg_From msg then msg_Gas msg * msg_GasPrice msg else 0))
      else GetBalance (st_state st) = GetBalance (evm_StateDB evm))"
proof -
  let ?st0 = "NewStateTransition evm msg gp" and ?f = "msg_From msg" and ?mg = "msg_Gas msg * msg_GasPrice msg"
  define st1 where "st1 = touch_account ?st0 ?f"
  define st2 where "st2 = touch_account st1 ?f"
  have ok0: "evm_ok (st_evm ?st0)" using ok by (simp add: NewStateTransition_def)
  note t1 = touch_account_keeps [OF ok0, of ?f, folded st1_def]
  then have ok1: "evm_ok (st_evm st1)" by (simp add: st_keeps_def)
  note t2 = touch_account_keeps [OF ok1, of ?f, folded st2_def]
  then have ok2: "evm_ok (st_evm st2)" by (simp add: st_keeps_def)
  have k: "st_keeps ?st0 st1" "st_keeps ?st0 st2" using t1 t2 st_keeps_trans by blast+
  have msg0: "st_msg ?st0 = msg" "st_gas ?st0 = 0" "st_state ?st0 = evm_StateDB evm" by (simp_all add: NewStateTransition_def st_state_def)
  have bal: "GetBalance (st_state st1) = GetBalance (evm_StateDB evm)" "GetBalance (st_state st2) = GetBalance (evm_StateDB evm)"
      "GetNonce (st_state st1) = GetNonce (evm_StateDB evm)"
    using t1 t2 msg0 by simp_all
  have msg1: "st_msg st1 = msg" "st_msg st2 = msg" "st_gas st2 = 0" using k t1 t2 msg0 by (simp_all add: st_keeps_def)
  let ?st3 = "on_st (st2\<lparr>st_gas := st_gas st2 + Big_Uint64 (msg_Gas msg), st_initialGas := msg_Gas msg\<rparr>) (\<lambda>env s. SubBalance env s ?f ?mg)"
  have mg: "0 \<le> ?mg" using m by (simp add: msg_ok_def)
  have keep3: "st_keeps ?st0 ?st3" if "?mg \<le> GetBalance (st_state st2) ?f"
  proof -
    have "st_keeps st2 ?st3"
      using on_st_keeps [of "st2\<lparr>st_gas := st_gas st2 + Big_Uint64 (msg_Gas msg), st_initialGas := msg_Gas msg\<rparr>" "\<lambda>env s. SubBalance env s ?f ?mg"]
        SubBalance_steps [of ?mg "st_state st2" ?f "evm_env (st_evm st2)"] that ok2 mg st_total_bound [OF ok2]
      by (simp add: st_keeps_def st_total_def)
    then show ?thesis using k(2) st_keeps_trans by blast
  qed
  have buy: "buyGas st1 = (st, err)" if "\<not> (msg_CheckNonce msg \<and> GetNonce (st_state st1) ?f \<noteq> msg_Nonce msg)"
    using p that by (auto simp: preCheck_def st_from_def msg0 st1_def [symmetric] msg1 Let_def not_less_iff_gr_or_eq split: if_splits)
  show ?thesis
  proof (cases "msg_CheckNonce msg \<and> GetNonce (st_state st1) ?f \<noteq> msg_Nonce msg")
    case True
    then have "st = st1 \<and> err \<noteq> None"
      using p by (auto simp: preCheck_def st_from_def msg0 st1_def [symmetric] msg1 Let_def neq_iff split: if_splits)
    then show ?thesis using True k bal by auto
  next
    case False
    then have "(st = st1 \<or> st = st2) \<and> err \<noteq> None \<and> (64 < BitLen (msg_Gas msg) \<or> \<not> ?mg \<le> GetBalance (st_state st2) ?f) \<or>
        \<not> 64 < BitLen (msg_Gas msg) \<and> ?mg \<le> GetBalance (st_state st2) ?f \<and> st = ?st3 \<and> err = None"
      using buy by (auto simp: buyGas_def st_from_def msg1 Let_def st2_def [symmetric] split: if_splits)
    then show ?thesis
    proof (elim disjE conjE)
      assume a: "\<not> 64 < BitLen (msg_Gas msg)" "?mg \<le> GetBalance (st_state st2) ?f" "st = ?st3" "err = None"
      then show ?thesis using keep3 False BitLen_64 [of "msg_Gas msg"] m msg1 bal
        by (auto simp: msg_ok_def GetBalance_SubBalance fun_eq_iff)
    qed (use k bal in auto)
  qed
qed

lemma total_balance_less:
  "GetBalance s = (\<lambda>a. GetBalance t a - (if a = x then v else 0)) \<Longrightarrow> total_balance s = total_balance t - v"
  by (simp add: total_balance_def sum_subtractf)

lemma total_balance_same: "GetBalance s = GetBalance t \<Longrightarrow> total_balance s = total_balance t"
  by (simp add: total_balance_def)

text \<open>The execution returns, with at most its gas and no balance created; a call that fails moves no balance.\<close>

lemma st_execute_post:
  assumes ok: "evm_ok (st_evm st)" and m: "msg_ok (st_msg st)"
  obtains st' ret vmerr where "st_execute st sender = Ret (st', ret, vmerr)" "st_keeps st st'" "st_gas st' \<le> st_gas st"
    "st_initialGas st' = st_initialGas st" "st_total st' \<le> st_total st"
    "msg_To (st_msg st) \<noteq> None \<longrightarrow> vmerr \<noteq> None \<longrightarrow> GetBalance (st_state st') = GetBalance (st_state st)"
proof (cases "msg_To (st_msg st)")
  case None
  have "create_post (st_evm st) (st_gas st) (vm_Create (st_evm st) (AccountRef sender) (msg_Data (st_msg st)) (st_gas st) (msg_Value (st_msg st)))"
    unfolding vm_Create_def using ok m by (intro evm_run.evm_Create_post) (simp_all add: msg_ok_def)
  then obtain evm' ret a g err where c: "vm_Create (st_evm st) (AccountRef sender) (msg_Data (st_msg st)) (st_gas st) (msg_Value (st_msg st)) =
      Ret (evm', ret, a, g, err)" "evm_step (st_evm st) evm'" "g \<le> st_gas st"
    by (auto simp: create_post_def)
  show ?thesis
    by (rule that [of "st\<lparr>st_evm := evm', st_gas := g\<rparr>" ret err])
      (use None c in \<open>simp_all add: st_execute_def st_keeps_def evm_step_def evm_fixed_def st_total_def st_state_def\<close>)
next
  case (Some to)
  define st1 where "st1 = on_st st (\<lambda>env s. SetNonce env s sender (GetNonce s sender + 1))"
  define st2 where "st2 = touch_account st1 to"
  have k1: "st_keeps st st1" unfolding st1_def using st_total_bound [OF ok]
    by (intro on_st_keeps [OF ok] SetNonce_steps) (simp add: st_total_def)
  have s1: "st_gas st1 = st_gas st" "st_initialGas st1 = st_initialGas st" "st_total st1 = st_total st"
      "GetBalance (st_state st1) = GetBalance (st_state st)"
    by (simp_all add: st1_def st_total_def fun_eq_iff)
  have "evm_ok (st_evm st1)" using k1 by (simp add: st_keeps_def)
  note t = touch_account_keeps [OF this, of to, folded st2_def]
  have k2: "st_keeps st st2" using k1 t st_keeps_trans by blast
  have msg2: "st_msg st2 = st_msg st" "evm_ok (st_evm st2)" using k2 by (simp_all add: st_keeps_def)
  let ?call = "vm_Call (st_evm st2) (AccountRef sender) to (msg_Data (st_msg st)) (st_gas st2) (msg_Value (st_msg st))"
  have "call_post (st_evm st2) (st_gas st2) ?call"
    unfolding vm_Call_def using msg2 m by (intro evm_run.evm_Call_post) (simp_all add: msg_ok_def)
  then obtain evm' ret g err where c: "?call = Ret (evm', ret, g, err)" "evm_step (st_evm st2) evm'" "g \<le> st_gas st2"
      "err \<noteq> None \<longrightarrow> state_view evm' = state_view (st_evm st2)"
    by (auto simp: call_post_def)
  have "evm_env evm' = evm_env (st_evm st2)" using c(2) by (simp add: evm_step_def evm_fixed_def)
  then have same: "err \<noteq> None \<longrightarrow> GetBalance (evm_StateDB evm') = GetBalance (st_state st2)"
    using c(4) GetBalance_view [of "evm_env (st_evm st2)" "evm_StateDB evm'" "st_state st2"]
    by (simp add: state_view_def st_state_def ext)
  have ex: "st_execute st sender = Ret (st2\<lparr>st_evm := evm', st_gas := g\<rparr>, ret, err)"
    using Some c(1) k1 msg2 by (simp add: st_execute_def st1_def [symmetric] st_to_def st_keeps_def st2_def [symmetric])
  show ?thesis
  proof (rule that [OF ex])
    have "st_keeps st2 (st2\<lparr>st_evm := evm', st_gas := g\<rparr>)" using c(2) by (simp add: st_keeps_def evm_step_def evm_fixed_def)
    then show "st_keeps st (st2\<lparr>st_evm := evm', st_gas := g\<rparr>)" using k2 st_keeps_trans by blast
    show "st_total (st2\<lparr>st_evm := evm', st_gas := g\<rparr>) \<le> st_total st"
      using c(2) s1 t by (simp add: evm_step_def st_total_def st_state_def)
    show "msg_To (st_msg st) \<noteq> None \<longrightarrow> err \<noteq> None \<longrightarrow>
        GetBalance (st_state (st2\<lparr>st_evm := evm', st_gas := g\<rparr>)) = GetBalance (st_state st)"
      using same s1 t by (simp add: st_state_def)
  qed (use c s1 t in simp_all)
qed

text \<open>The settlement gives back, to the sender and to the coinbase together, exactly what was taken for the gas.\<close>

lemma st_settle_post:
  assumes ok: "evm_ok (st_evm st)" and price: "0 \<le> msg_GasPrice (st_msg st)" and g: "uint (st_gas st) \<le> st_initialGas st"
    and tot: "st_total st + st_initialGas st * msg_GasPrice (st_msg st) < 2 ^ 256"
  obtains st' used where "st_settle is_json st = (st', used, used)" "st_keeps st st'"
    "st_total st' = st_total st + st_initialGas st * msg_GasPrice (st_msg st)"
    "st_initialGas st - uint (st_gas st) \<le> used" "used \<le> st_initialGas st"
    "\<And>a. GetBalance (st_state st') a = GetBalance (st_state st) a +
        (if a = msg_From (st_msg st) then (st_initialGas st - used) * msg_GasPrice (st_msg st) else 0) +
        (if a = ctx_Coinbase (evm_ctx (st_evm st)) then used * msg_GasPrice (st_msg st) else 0)"
proof -
  let ?p = "msg_GasPrice (st_msg st)" and ?from = "msg_From (st_msg st)" and ?cb = "ctx_Coinbase (evm_ctx (st_evm st))"
  define runs where "runs = (case msg_To (st_msg st) of None \<Rightarrow> True
      | Some to \<Rightarrow> isContractExecution is_json (msg_To (st_msg st)) (msg_Data (st_msg st)) \<and> GetCodeSize (evm_env (st_evm st)) (st_state st) to > 0)"
  define st1 where "st1 = (if runs then st else fst (useGas st (st_gas st)))"
  define used where "used = st_gasUsed st1"
  define st2 where "st2 = refundGas st1"
  define st3 where "st3 = on_st st2 (\<lambda>env s. AddBalance env s ?cb (used * ?p))"
  have st1: "st1 = st \<or> st1 = st\<lparr>st_gas := 0\<rparr>" by (auto simp: st1_def useGas_def)
  have f1: "st_msg st1 = st_msg st" "st_evm st1 = st_evm st" "st_initialGas st1 = st_initialGas st" "st_state st1 = st_state st"
    "uint (st_gas st1) \<le> uint (st_gas st)" using st1 by (auto simp: st_state_def)
  have rem: "uint (st_gas st1) = st_initialGas st - used" by (simp add: used_def st_gasUsed_def f1)
  have used: "st_initialGas st - uint (st_gas st) \<le> used" "used \<le> st_initialGas st" "0 \<le> used"
    using g f1(5) rem uint_ge_0 [of "st_gas st1"] by linarith+
  have r: "0 \<le> (st_initialGas st - used) * ?p" "0 \<le> used * ?p" using used price by simp_all
  have sum: "(st_initialGas st - used) * ?p + used * ?p = st_initialGas st * ?p" by (simp add: algebra_simps)
  have "st_keeps st1 st2" unfolding st2_def refundGas_def
    using ok r sum tot by (intro on_st_keeps) (auto simp: f1 rem st_total_def intro!: AddBalance_steps)
  then have k2: "st_keeps st st2" by (simp add: st_keeps_def f1)
  have s2: "st_state st2 = AddBalance (evm_env (st_evm st)) (st_state st) ?from ((st_initialGas st - used) * ?p)"
    by (simp add: st2_def refundGas_def f1 rem)
  have "st_keeps st2 st3" unfolding st3_def
    using k2 r sum tot by (intro on_st_keeps) (auto simp: s2 st_keeps_def st_total_def intro!: AddBalance_steps)
  then have k3: "st_keeps st st3" using k2 st_keeps_trans by blast
  have s3: "st_state st3 = AddBalance (evm_env (st_evm st2)) (st_state st2) ?cb (used * ?p)" by (simp add: st3_def)
  have gu: "st_gasUsed st2 = used" "st_gasUsed st3 = used" by (simp_all add: st3_def st2_def refundGas_def used_def st_gasUsed_def)
  have cb2: "evm_ctx (st_evm st2) = evm_ctx (st_evm st)" using k2 by (simp add: st_keeps_def)
  have "st_settle is_json st = (st3, used, used)"
    unfolding st_settle_def Let_def runs_def [symmetric] st1_def [symmetric] st2_def [symmetric] gu cb2 st3_def [symmetric] used_def [symmetric]
    by simp
  moreover have "st_total st3 = st_total st + st_initialGas st * ?p" using sum by (simp add: st_total_def s3 s2)
  moreover have "GetBalance (st_state st3) a = GetBalance (st_state st) a + (if a = ?from then (st_initialGas st - used) * ?p else 0) +
        (if a = ?cb then used * ?p else 0)" for a
    by (simp add: s3 s2 GetBalance_AddBalance)
  ultimately show ?thesis using that k3 used(1,2) by blast
qed

lemma IntrinsicGas_nonneg: "0 \<le> IntrinsicGas data create homestead"
  by (auto simp: IntrinsicGas_def Let_def uint_numeral intro!: add_nonneg_nonneg mult_nonneg_nonneg length_filter_le)

text \<open>From the paid message on: the intrinsic gas, the execution and the settlement.\<close>

definition st_final :: "StateTransition \<Rightarrow> (address \<Rightarrow> int) \<Rightarrow> int \<Rightarrow> int \<Rightarrow> int \<Rightarrow> transition_result \<Rightarrow> bool" where
  "st_final st0 bal tot gas igas r \<longleftrightarrow> (\<exists>st ret req used vmerr err. r = Ret (st, ret, req, used, vmerr, err) \<and>
     st_keeps st0 st \<and> st_total st \<le> tot \<and>
     (case used of
        None \<Rightarrow> err \<noteq> None \<or> vmerr = Some ErrInsufficientBalance
      | Some g \<Rightarrow> err = None \<and> vmerr \<noteq> Some ErrInsufficientBalance \<and> igas \<le> g \<and> g \<le> gas \<and>
          (vmerr \<noteq> None \<and> msg_To (st_msg st0) \<noteq> None \<longrightarrow>
            (\<forall>a. GetBalance (st_state st) a = bal a
               + (if a = msg_From (st_msg st0) then (gas - g) * msg_GasPrice (st_msg st0) else 0)
               + (if a = ctx_Coinbase (evm_ctx (st_evm st0)) then g * msg_GasPrice (st_msg st0) else 0)))))"

lemma st_final_keeps:
  assumes "st_keeps st0 st1" "st_final st1 bal tot gas igas r" shows "st_final st0 bal tot gas igas r"
proof -
  have k: "st_msg st1 = st_msg st0" "evm_ctx (st_evm st1) = evm_ctx (st_evm st0)" "\<And>st. st_keeps st1 st \<Longrightarrow> st_keeps st0 st"
    using assms(1) by (auto simp: st_keeps_def)
  show ?thesis using assms(2) unfolding st_final_def k(1,2) by (blast intro: k(3))
qed

lemma st_final_refused:
  "st_keeps st0 st \<Longrightarrow> st_total st \<le> tot \<Longrightarrow> st_final st0 bal tot gas igas (Ret (st, [], None, None, None, Some err))"
  by (auto simp: st_final_def)

lemma st_finish_post:
  assumes ok: "evm_ok (st_evm st)" and m: "msg_ok (st_msg st)" and g: "uint (st_gas st) = st_initialGas st - igas" "0 \<le> igas"
    and tot: "st_total st + st_initialGas st * msg_GasPrice (st_msg st) < 2 ^ 256"
  shows "st_final st (GetBalance (st_state st)) (st_total st + st_initialGas st * msg_GasPrice (st_msg st))
     (st_initialGas st) igas (st_finish is_json st sender)"
proof -
  have p: "0 \<le> msg_GasPrice (st_msg st)" using m by (simp add: msg_ok_def)
  have i: "0 \<le> st_initialGas st * msg_GasPrice (st_msg st)" using p g uint_ge_0 [of "st_gas st"] by (intro mult_nonneg_nonneg) linarith+
  obtain st1 ret vmerr where e: "st_execute st sender = Ret (st1, ret, vmerr)" "st_keeps st st1" "st_gas st1 \<le> st_gas st"
      "st_initialGas st1 = st_initialGas st" "st_total st1 \<le> st_total st"
      "msg_To (st_msg st) \<noteq> None \<longrightarrow> vmerr \<noteq> None \<longrightarrow> GetBalance (st_state st1) = GetBalance (st_state st)"
    using st_execute_post [OF ok m] .
  have k: "st_msg st1 = st_msg st" "evm_ctx (st_evm st1) = evm_ctx (st_evm st)" "evm_ok (st_evm st1)"
    using e(2) by (simp_all add: st_keeps_def)
  have gas: "uint (st_gas st1) \<le> st_initialGas st - igas" using e(3) g(1) by (simp add: word_le_def)
  show ?thesis
  proof (cases "vmerr = Some ErrInsufficientBalance")
    case True
    then show ?thesis using e(1,2,5) i by (simp add: st_finish_def st_final_def)
  next
    case False
    obtain st2 used where s: "st_settle is_json st1 = (st2, used, used)" "st_keeps st1 st2"
        "st_total st2 = st_total st1 + st_initialGas st1 * msg_GasPrice (st_msg st1)"
        "st_initialGas st1 - uint (st_gas st1) \<le> used" "used \<le> st_initialGas st1"
        "\<And>a. GetBalance (st_state st2) a = GetBalance (st_state st1) a +
          (if a = msg_From (st_msg st1) then (st_initialGas st1 - used) * msg_GasPrice (st_msg st1) else 0) +
          (if a = ctx_Coinbase (evm_ctx (st_evm st1)) then used * msg_GasPrice (st_msg st1) else 0)"
      by (rule st_settle_post [of st1 is_json]) (use k e p g gas tot in auto)
    have "st_keeps st st2" using e(2) s(2) by (rule st_keeps_trans)
    moreover have "igas \<le> used" using s(4) gas e(4) by linarith
    ultimately show ?thesis using False e s(1,3,5,6) k by (simp add: st_finish_def st_final_def)
  qed
qed

lemma TransitionDb_paid:
  assumes pc: "preCheck st0 = (st, None)" and ok: "evm_ok (st_evm st)" and m: "msg_ok (st_msg st)"
    and g: "uint (st_gas st) = st_initialGas st" and tot: "st_total st + st_initialGas st * msg_GasPrice (st_msg st) < 2 ^ 256"
  shows "st_final st (GetBalance (st_state st)) (st_total st + st_initialGas st * msg_GasPrice (st_msg st)) (st_initialGas st)
     (IntrinsicGas (msg_Data (st_msg st)) (msg_To (st_msg st) = None) (IsHomestead cc (ctx_BlockNumber (evm_ctx (st_evm st)))))
     (TransitionDb is_json cc st0)"
proof -
  let ?m = "st_msg st"
  let ?ig = "IntrinsicGas (msg_Data ?m) (msg_To ?m = None) (IsHomestead cc (ctx_BlockNumber (evm_ctx (st_evm st))))"
  define st2 where "st2 = touch_account st (msg_From ?m)"
  note t = touch_account_keeps [OF ok, of "msg_From ?m", folded st2_def]
  have f2: "st_msg st2 = ?m" "evm_ctx (st_evm st2) = evm_ctx (st_evm st)" "evm_ok (st_evm st2)" "st_keeps st st2"
    using t by (simp_all add: st_keeps_def)
  have low: "0 \<le> st_initialGas st * msg_GasPrice ?m" using m g uint_ge_0 [of "st_gas st"] by (simp add: msg_ok_def)
  let ?st3 = "st2\<lparr>st_gas := st_gas st2 - Big_Uint64 ?ig\<rparr>"
  have T: "TransitionDb is_json cc st0 =
      (if BitLen ?ig > 64 \<or> st_gas st2 < Big_Uint64 ?ig then Ret (st2, [], None, None, None, Some (CoreVm ErrOutOfGas))
       else st_finish is_json ?st3 (msg_From ?m))"
    using f2 pc by (simp add: TransitionDb_def st_from_def st2_def [symmetric] Let_def useGas_def)
  show ?thesis
  proof (cases "BitLen ?ig > 64 \<or> st_gas st2 < Big_Uint64 ?ig")
    case True
    then show ?thesis using t low by (simp only: T if_True) (rule st_final_refused, simp_all)
  next
    case False
    then have u: "uint (Big_Uint64 ?ig) = ?ig" "Big_Uint64 ?ig \<le> st_gas st2" using BitLen_64 [OF IntrinsicGas_nonneg] by auto
    have s3: "st_total ?st3 = st_total st" "st_initialGas ?st3 = st_initialGas st" "st_msg ?st3 = ?m"
        "GetBalance (st_state ?st3) = GetBalance (st_state st)" "evm_ok (st_evm ?st3)"
      using t f2 by (simp_all add: st_total_def)
    have "uint (st_gas ?st3) = st_initialGas ?st3 - ?ig" using u g t by (simp add: uint_sub_if' word_le_def)
    then have "st_final ?st3 (GetBalance (st_state ?st3)) (st_total ?st3 + st_initialGas ?st3 * msg_GasPrice (st_msg ?st3))
        (st_initialGas ?st3) ?ig (st_finish is_json ?st3 (msg_From ?m))"
      using s3 m tot by (intro st_finish_post IntrinsicGas_nonneg) (simp_all only: s3)
    moreover have "st_keeps st ?st3" using f2 by (simp add: st_keeps_def)
    ultimately show ?thesis using False by (simp only: T s3 if_False st_final_keeps)
  qed
qed

lemma TransitionDb_final:
  assumes "evm_ok evm" "msg_ok msg"
  shows "st_final (NewStateTransition evm msg gp)
     (\<lambda>a. GetBalance (evm_StateDB evm) a - (if a = msg_From msg then msg_Gas msg * msg_GasPrice msg else 0))
     (total_balance (evm_StateDB evm)) (msg_Gas msg)
     (IntrinsicGas (msg_Data msg) (msg_To msg = None) (IsHomestead cc (ctx_BlockNumber (evm_ctx evm))))
     (TransitionDb is_json cc (NewStateTransition evm msg gp))"
proof -
  let ?st0 = "NewStateTransition evm msg gp"
  obtain st1 err1 where pc: "preCheck ?st0 = (st1, err1)" by fastforce
  note pre = preCheck_post [OF assms pc]
  have k1: "st_keeps ?st0 st1" using pre by simp
  have f: "st_msg st1 = msg" "evm_ctx (st_evm st1) = evm_ctx evm" "evm_ok (st_evm st1)"
    using k1 by (simp_all add: st_keeps_def NewStateTransition_def)
  show ?thesis
  proof (cases err1)
    case (Some e)
    then have "st_total st1 = total_balance (evm_StateDB evm)" using pre by (simp add: st_total_def total_balance_def)
    then show ?thesis using Some pc k1 by (simp add: TransitionDb_def st_final_refused)
  next
    case None
    have b: "GetBalance (st_state st1) = (\<lambda>a. GetBalance (evm_StateDB evm) a - (if a = msg_From msg then msg_Gas msg * msg_GasPrice msg else 0))"
        "uint (st_gas st1) = st_initialGas st1" "st_initialGas st1 = msg_Gas msg"
      using pre None by simp_all
    have tot: "st_total st1 + st_initialGas st1 * msg_GasPrice (st_msg st1) = total_balance (evm_StateDB evm)"
      unfolding st_total_def f(1) b(3) total_balance_less [OF b(1)] by simp
    have "st_final st1 (GetBalance (st_state st1)) (st_total st1 + st_initialGas st1 * msg_GasPrice (st_msg st1)) (st_initialGas st1)
        (IntrinsicGas (msg_Data (st_msg st1)) (msg_To (st_msg st1) = None) (IsHomestead cc (ctx_BlockNumber (evm_ctx (st_evm st1)))))
        (TransitionDb is_json cc ?st0)"
      using None pc f b(2) assms tot by (intro TransitionDb_paid) (simp_all add: evm_ok_def)
    then show ?thesis using st_final_keeps [OF k1] by (simp only: tot [unfolded f(1) b(3)] f b(3) b(1))
  qed
qed

text \<open>C4: Applying a message never panics, whatever code runs. It keeps the invariant of the state, creates no
  balance, and reports a gas use unless the message is refused or its value exceeds the balance. The gas used
  lies between the intrinsic gas and the gas limit; a call that fails, for whatever reason and at whatever
  depth, costs its sender the fee, gives that fee to the coinbase and moves no other balance.\<close>

theorem transition_safe:
  assumes "evm_ok evm" "msg_ok msg"
  shows "\<exists>st ret req used vmerr err.
     TransitionDb is_json cc (NewStateTransition evm msg gp) = Ret (st, ret, req, used, vmerr, err) \<and>
     evm_ok (st_evm st) \<and> total_balance (evm_StateDB (st_evm st)) \<le> total_balance (evm_StateDB evm) \<and>
     (case used of
        None \<Rightarrow> err \<noteq> None \<or> vmerr = Some ErrInsufficientBalance
      | Some g \<Rightarrow> err = None \<and> IntrinsicGas (msg_Data msg) (msg_To msg = None) (IsHomestead cc (ctx_BlockNumber (evm_ctx evm))) \<le> g \<and>
          g \<le> msg_Gas msg \<and>
          (vmerr \<noteq> None \<and> msg_To msg \<noteq> None \<longrightarrow>
            (\<forall>a. GetBalance (evm_StateDB (st_evm st)) a = GetBalance (evm_StateDB evm) a
               - (if a = msg_From msg then g * msg_GasPrice msg else 0)
               + (if a = ctx_Coinbase (evm_ctx evm) then g * msg_GasPrice msg else 0))))"
proof -
  let ?p = "msg_GasPrice msg" and ?bal = "GetBalance (evm_StateDB evm)"
  have st0: "st_msg (NewStateTransition evm msg gp) = msg" "st_evm (NewStateTransition evm msg gp) = evm"
    by (simp_all add: NewStateTransition_def)
  obtain st ret req used vmerr err where r: "TransitionDb is_json cc (NewStateTransition evm msg gp) = Ret (st, ret, req, used, vmerr, err)"
      "evm_ok (st_evm st)" "st_total st \<le> total_balance (evm_StateDB evm)"
    and c: "case used of None \<Rightarrow> err \<noteq> None \<or> vmerr = Some ErrInsufficientBalance
        | Some g \<Rightarrow> err = None \<and> vmerr \<noteq> Some ErrInsufficientBalance \<and>
            IntrinsicGas (msg_Data msg) (msg_To msg = None) (IsHomestead cc (ctx_BlockNumber (evm_ctx evm))) \<le> g \<and> g \<le> msg_Gas msg \<and>
            (vmerr \<noteq> None \<and> msg_To msg \<noteq> None \<longrightarrow> (\<forall>a. GetBalance (st_state st) a = ?bal a - (if a = msg_From msg then msg_Gas msg * ?p else 0)
               + (if a = msg_From msg then (msg_Gas msg - g) * ?p else 0) + (if a = ctx_Coinbase (evm_ctx evm) then g * ?p else 0)))"
    using TransitionDb_final [where gp = gp, OF assms, unfolded st_final_def st0 st_keeps_def] by blast
  have "(msg_Gas msg - g) * ?p = msg_Gas msg * ?p - g * ?p" for g by (simp add: algebra_simps)
  then show ?thesis using r c
    by (intro exI [of _ st] exI [of _ ret] exI [of _ req] exI [of _ used] exI [of _ vmerr] exI [of _ err])
      (auto simp: st_total_def st_state_def split: option.splits)
qed

text \<open>A message that can pay for its gas but not for its value has no gas use and no error.\<close>

lemma st_execute_insufficient:
  assumes ok: "evm_ok (st_evm st)" and d: "evm_depth (st_evm st) = 0" and v: "GetBalance (st_state st) sender < msg_Value (st_msg st)"
  shows "\<exists>st'. st_execute st sender = Ret (st', [], Some ErrInsufficientBalance)"
proof (cases "msg_To (st_msg st)")
  case None
  then show ?thesis using d v
    by (simp add: st_execute_def vm_Create_def evm_Create_def CanTransfer_def st_state_def CallCreateDepth_def)
next
  case (Some to)
  define st1 where "st1 = on_st st (\<lambda>env s. SetNonce env s sender (GetNonce s sender + 1))"
  define st2 where "st2 = touch_account st1 to"
  have "st_keeps st st1" unfolding st1_def using st_total_bound [OF ok]
    by (intro on_st_keeps [OF ok] SetNonce_steps) (simp add: st_total_def)
  then have k1: "evm_ok (st_evm st1)" "evm_depth (st_evm st1) = 0" "st_msg st1 = st_msg st" using d by (simp_all add: st_keeps_def)
  have "GetBalance (st_state st1) sender = GetBalance (st_state st) sender" by (simp add: st1_def)
  then have "evm_depth (st_evm st2) = 0" "st_msg st2 = st_msg st" "GetBalance (evm_StateDB (st_evm st2)) sender < msg_Value (st_msg st)"
    using touch_account_keeps [OF k1(1), of to, folded st2_def] k1 v by (simp_all add: st_keeps_def st_state_def)
  then show ?thesis using Some k1
    by (simp add: st_execute_def st1_def [symmetric] st_to_def st2_def [symmetric] vm_Call_def evm_Call_def CanTransfer_def CallCreateDepth_def)
qed

lemma TransitionDb_insufficient:
  assumes ok: "evm_ok evm" "evm_depth evm = 0" and m: "msg_ok msg" "msg_CheckNonce msg \<longrightarrow> GetNonce (evm_StateDB evm) (msg_From msg) = msg_Nonce msg"
    and g: "msg_Gas msg < 2 ^ 64" "IntrinsicGas (msg_Data msg) (msg_To msg = None) (IsHomestead cc (ctx_BlockNumber (evm_ctx evm))) \<le> msg_Gas msg"
    and b: "msg_Gas msg * msg_GasPrice msg \<le> GetBalance (evm_StateDB evm) (msg_From msg)"
      "GetBalance (evm_StateDB evm) (msg_From msg) < msg_Gas msg * msg_GasPrice msg + msg_Value msg"
  shows "\<exists>st. TransitionDb is_json cc (NewStateTransition evm msg gp) = Ret (st, [], None, None, Some ErrInsufficientBalance, None)"
proof -
  let ?st0 = "NewStateTransition evm msg gp"
  let ?ig = "IntrinsicGas (msg_Data msg) (msg_To msg = None) (IsHomestead cc (ctx_BlockNumber (evm_ctx evm)))"
  have small: "BitLen (msg_Gas msg) \<le> 64" "BitLen ?ig \<le> 64" using m(1) g IntrinsicGas_nonneg by (simp_all add: BitLen_le msg_ok_def)
  obtain st1 err1 where pc: "preCheck ?st0 = (st1, err1)" by fastforce
  note pre = preCheck_post [OF ok(1) m(1) pc]
  then have none: "err1 = None" using m(2) small b by blast
  define st2 where "st2 = touch_account st1 (msg_From msg)"
  have f1: "st_msg st1 = msg" "evm_ctx (st_evm st1) = evm_ctx evm" "evm_ok (st_evm st1)" "evm_depth (st_evm st1) = 0"
    using pre ok(2) by (simp_all add: st_keeps_def NewStateTransition_def)
  note t = touch_account_keeps [OF f1(3), of "msg_From msg", folded st2_def]
  have f2: "st_msg st2 = msg" "evm_ctx (st_evm st2) = evm_ctx evm" "evm_ok (st_evm st2)" "evm_depth (st_evm st2) = 0"
    using t f1 by (simp_all add: st_keeps_def)
  have "uint (st_gas st2) = msg_Gas msg" "GetBalance (st_state st2) (msg_From msg) < msg_Value msg" using pre none t b by simp_all
  moreover have "uint (Big_Uint64 ?ig) = ?ig" using small(2) by (intro BitLen_64 IntrinsicGas_nonneg) simp
  ultimately have ug: "\<not> st_gas st2 < Big_Uint64 ?ig" using g(2) by (simp add: word_less_def)
  let ?st3 = "st2\<lparr>st_gas := st_gas st2 - Big_Uint64 ?ig\<rparr>"
  have "TransitionDb is_json cc ?st0 = st_finish is_json ?st3 (msg_From msg)"
    using pc none f1 f2 small ug by (simp add: TransitionDb_def st_from_def st2_def [symmetric] Let_def useGas_def)
  moreover obtain st' where "st_execute ?st3 (msg_From msg) = Ret (st', [], Some ErrInsufficientBalance)"
    using st_execute_insufficient [of ?st3 "msg_From msg"] f2 \<open>GetBalance (st_state st2) (msg_From msg) < msg_Value msg\<close> by auto
  ultimately show ?thesis by (simp add: st_finish_def)
qed

lemma BitLen_code [code]: "BitLen x = (if x = 0 then 0 else Suc (BitLen (\<bar>x\<bar> div 2)))"
proof -
  have "nat \<bar>x\<bar> div 2 = nat (\<bar>x\<bar> div 2)" by (simp add: nat_div_distrib)
  then show ?thesis by (simp add: BitLen_def bit_len.simps [of "nat \<bar>x\<bar>"])
qed

text \<open>Account 7 has a million and calls the contract that reverts.\<close>

definition ex_rich :: EVM where
  "ex_rich = on_state ex_evm (\<lambda>env s. AddBalance env s 7 1000000)"

definition ex_msg :: Message where
  "ex_msg = \<lparr>msg_From = 7, msg_To = Some 9, msg_Nonce = 0, msg_Value = 5, msg_Gas = 21100, msg_GasPrice = 2, msg_Data = [1], msg_CheckNonce = False\<rparr>"

definition ex_cc :: ChainConfig where
  "ex_cc = \<lparr>cc_HomesteadBlock = Some 0, cc_EIP158Block = Some 0, cc_ByzantiumBlock = None\<rparr>"

lemma ex_rich_ok: "evm_ok ex_rich"
proof -
  have "total_balance (evm_StateDB ex_evm) = 100" by (simp add: ex_evm_def ex_sdb_total)
  then show ?thesis using ex_evm_ok AddBalance_steps [of 1000000 "evm_env ex_evm" "evm_StateDB ex_evm" 7]
    by (simp add: ex_rich_def evm_ok_def on_state_def steps_to_def)
qed

theorem transition_safe_witness:
  "\<exists>st ret req. TransitionDb (\<lambda>b. False) ex_cc (NewStateTransition ex_rich ex_msg 0) =
       Ret (st, ret, req, Some 21074, Some errExecutionReverted, None) \<and>
     evm_ok (st_evm st) \<and> total_balance (evm_StateDB (st_evm st)) \<le> total_balance (evm_StateDB ex_rich) \<and>
     GetBalance (evm_StateDB (st_evm st)) 7 = GetBalance (evm_StateDB ex_rich) 7 - 42148 \<and>
     GetBalance (evm_StateDB (st_evm st)) 3 = GetBalance (evm_StateDB ex_rich) 3 + 42148"
proof -
  have "(case TransitionDb (\<lambda>b. False) ex_cc (NewStateTransition ex_rich ex_msg 0) of
      Ret (st, ret, req, used, vmerr, err) \<Rightarrow> used = Some 21074 \<and> vmerr = Some errExecutionReverted | Panic s \<Rightarrow> False)"
    by code_simp
  moreover have "msg_ok ex_msg" by (simp add: msg_ok_def ex_msg_def word_ok_def code_ok_def)
  note transition_safe [OF ex_rich_ok this, of "\<lambda>b. False" ex_cc 0]
  ultimately show ?thesis by (auto simp: ex_msg_def ex_rich_def on_state_def ex_evm_def)
qed

end
