(* ===== verification/Ethermint_Work.thy ===== *)
theory Ethermint_Work
  imports State_Transition
begin

text \<open>
  The work of a block: \<^verbatim>\<open>ethermint/ethereum/pending.go\<close>, with the difficulty of
  \<^verbatim>\<open>consensus/ethash/consensus.go\<close> that its header gets. \<^verbatim>\<open>BeginBlock\<close> sets the time of the header,
  \<^verbatim>\<open>DeliverTx\<close> applies one transaction after the other to the same state, and \<^verbatim>\<open>Commit\<close> starts the next
  work. The invariant of a block relates its receipts to its transactions, over any sequence of deliveries.
\<close>

section \<open>Headers\<close>

record Block =
  b_header :: Header
  b_Hash :: hash

abbreviation (input) DifficultyBoundDivisor :: int where "DifficultyBoundDivisor \<equiv> 2048"
abbreviation (input) MinimumDifficulty :: int where "MinimumDifficulty \<equiv> 131072"
abbreviation (input) DurationLimit :: int where "DurationLimit \<equiv> 13"
abbreviation (input) expDiffPeriod :: int where "expDiffPeriod \<equiv> 100000"

text \<open>\<open>diff_bomb\<close> is the exponential factor that ends each of the three algorithms; their arguments are the time
  and the fields of the parent.\<close>

definition diff_bomb :: "int \<Rightarrow> int \<Rightarrow> int" where
  "diff_bomb periodCount x = (if periodCount > 1 then x + 2 ^ nat (periodCount - 2) else x)"

definition calcDifficultyByzantium :: "hash \<Rightarrow> uint64 \<Rightarrow> hash \<Rightarrow> int \<Rightarrow> int \<Rightarrow> int \<Rightarrow> int" where
  "calcDifficultyByzantium emptyUncleHash time uncleHash pnumber ptime pdiff =
     (let x = Big_Div (uint time - ptime) 9;
          x = (if uncleHash = emptyUncleHash then 1 - x else 2 - x);
          x = (if x < -99 then -99 else x);
          x = pdiff + Big_Div pdiff DifficultyBoundDivisor * x;
          x = (if x < MinimumDifficulty then MinimumDifficulty else x);
          fakeBlockNumber = (if pnumber \<ge> 2999999 then pnumber - 2999999 else 0) in
      diff_bomb (Big_Div fakeBlockNumber expDiffPeriod) x)"

definition calcDifficultyHomestead :: "uint64 \<Rightarrow> int \<Rightarrow> int \<Rightarrow> int \<Rightarrow> int" where
  "calcDifficultyHomestead time pnumber ptime pdiff =
     (let x = 1 - Big_Div (uint time - ptime) 10;
          x = (if x < -99 then -99 else x);
          x = pdiff + Big_Div pdiff DifficultyBoundDivisor * x;
          x = (if x < MinimumDifficulty then MinimumDifficulty else x) in
      diff_bomb (Big_Div (pnumber + 1) expDiffPeriod) x)"

definition calcDifficultyFrontier :: "uint64 \<Rightarrow> int \<Rightarrow> int \<Rightarrow> int \<Rightarrow> int" where
  "calcDifficultyFrontier time pnumber ptime pdiff =
     (let adjust = Big_Div pdiff DifficultyBoundDivisor;
          diff = (if uint time - ptime < DurationLimit then pdiff + adjust else pdiff - adjust);
          diff = (if diff < MinimumDifficulty then MinimumDifficulty else diff);
          periodCount = Big_Div (pnumber + 1) expDiffPeriod in
      if periodCount > 1 then max (diff + 2 ^ nat (periodCount - 2)) MinimumDifficulty else diff)"

text \<open>The hash of no uncles is that of the empty RLP list.\<close>

definition CalcDifficulty :: "state_env \<Rightarrow> ChainConfig \<Rightarrow> uint64 \<Rightarrow> Header \<Rightarrow> int go" where
  "CalcDifficulty env cc time parent =
     (case (h_Time parent, h_Difficulty parent) of
        (Some ptime, Some pdiff) \<Rightarrow>
          Ret (if IsByzantium cc (h_Number parent + 1)
               then calcDifficultyByzantium (se_Keccak env [0xC0]) time (h_UncleHash parent) (h_Number parent) ptime pdiff
               else if IsHomestead cc (h_Number parent + 1) then calcDifficultyHomestead time (h_Number parent) ptime pdiff
               else calcDifficultyFrontier time (h_Number parent) ptime pdiff)
      | _ \<Rightarrow> nil_deref)"

text \<open>\<^verbatim>\<open>CalcGasLimit\<close> returns the target at once; what follows in it is unreachable.\<close>

abbreviation (input) CalcGasLimit :: "int \<Rightarrow> Block \<Rightarrow> int" where
  "CalcGasLimit targetGasLimit parent \<equiv> targetGasLimit"

definition newBlockHeader :: "int \<Rightarrow> Block \<Rightarrow> Header" where
  "newBlockHeader targetGasLimit prev =
     \<lparr>h_ParentHash = b_Hash prev, h_Coinbase = h_Coinbase (b_header prev), h_UncleHash = 0, h_Number = h_Number (b_header prev) + 1,
      h_Time = None, h_Difficulty = None, h_GasLimit = CalcGasLimit targetGasLimit prev\<rparr>"

section \<open>The work\<close>

text \<open>\<open>w_evm\<close> carries the state and the record of internal transfers, which the transactions share.\<close>

record work =
  w_header :: Header
  w_parent :: Block
  w_evm :: EVM
  w_txIndex :: int
  w_transactions :: "Transaction list"
  w_receipts :: "Receipt list"
  w_allLogs :: "Log list"
  w_totalUsedGas :: int
  w_gp :: GasPool

text \<open>\<open>evm\<close> with the state of the current block and that block are what the chain gives.\<close>

definition resetWork :: "int \<Rightarrow> EVM \<Rightarrow> Block \<Rightarrow> work" where
  "resetWork targetGasLimit evm currentBlock =
     (let ethHeader = newBlockHeader targetGasLimit currentBlock in
      \<lparr>w_header = ethHeader, w_parent = currentBlock, w_evm = evm\<lparr>evm_lkdb := UpdateBlockNum (evm_lkdb evm) (h_Number ethHeader)\<rparr>,
       w_txIndex = 0, w_transactions = [], w_receipts = [], w_allLogs = [], w_totalUsedGas = 0,
       w_gp = AddGas 0 (h_GasLimit ethHeader)\<rparr>)"

definition updateHeaderWithTimeInfo :: "ChainConfig \<Rightarrow> work \<Rightarrow> uint64 \<Rightarrow> work go" where
  "updateHeaderWithTimeInfo cc w parentTime =
     (let parentHeader = (b_header (w_parent w))\<lparr>h_UncleHash := 0\<rparr> in
      go_bind (CalcDifficulty (evm_env (w_evm w)) cc parentTime parentHeader) (\<lambda>difficulty.
        Ret (w\<lparr>w_header := (w_header w)\<lparr>h_Time := Some (uint parentTime), h_Difficulty := Some difficulty\<rparr>,
          w_transactions := [], w_receipts := [], w_allLogs := []\<rparr>)))"

definition Hash_Hex :: "hash \<Rightarrow> string" where
  "Hash_Hex h = ''0x'' @ concat (map (\<lambda>b. [hex_digit (unat (drop_bit 4 b)), hex_digit (unat (b AND 15))]) (Hash_Bytes h))"

text \<open>The end of a delivery whose transaction was applied: the record of its gas and the lists of the work.\<close>

definition record_delivery :: "work \<Rightarrow> Transaction \<Rightarrow> Receipt \<Rightarrow> int \<Rightarrow> (work \<times> core_error option) go" where
  "record_delivery w tx receipt gas =
     (let evm = w_evm w;
          tb = (case evm_tb evm of None \<Rightarrow> BeginBatch | Some b \<Rightarrow> b) in
      go_bind (settle_batch (evm_jh evm) (evm_lkdb evm) tb (Hash_Hex (tx_Hash tx)) (tx_GasLimit tx) (tx_Price tx) gas) (\<lambda>(g, tb, err).
          Ret (w\<lparr>w_evm := evm\<lparr>evm_lkdb := g, evm_tb := Some tb\<rparr>, w_txIndex := w_txIndex w + 1,
                 w_transactions := w_transactions w @ [tx], w_receipts := w_receipts w @ [receipt],
                 w_allLogs := w_allLogs w @ sdb_logs (evm_StateDB evm) (tx_Hash tx)\<rparr>, map_option CoreLk err)))"

definition deliverTx :: "chain_env \<Rightarrow> ChainConfig \<Rightarrow> Config \<Rightarrow> hash \<Rightarrow> work \<Rightarrow> Transaction \<Rightarrow> (work \<times> core_error option) go" where
  "deliverTx ce cc cfg blockHash w tx =
     (let evm = on_state (w_evm w) (\<lambda>env s. Prepare s (tx_Hash tx) blockHash (w_txIndex w)) in
      go_bind (ApplyTransaction ce cc None (w_gp w) \<lparr>as_evm = evm, as_usedGas = w_totalUsedGas w\<rparr> (w_header w) tx cfg (Some BeginBatch))
        (\<lambda>(a, res). let w = w\<lparr>w_evm := as_evm a, w_totalUsedGas := as_usedGas a\<rparr> in
          case res of
            Inl err \<Rightarrow> Ret (w\<lparr>w_evm := (w_evm w)\<lparr>evm_tb := TxBatch_Cancel (evm_tb (w_evm w))\<rparr>\<rparr>, Some err)
          | Inr (receipt, gas) \<Rightarrow> record_delivery w tx receipt gas))"

section \<open>The balance fork\<close>

abbreviation (input) newAccount1 :: address where "newAccount1 \<equiv> 0x135c778bd602e0293789054b1528b4d7f82e12e7"
abbreviation (input) newAccount2 :: address where "newAccount2 \<equiv> 0xbc00eaff37285b99c9a1d9b0fd402229154b1ae9"
abbreviation (input) newAccount3 :: address where "newAccount3 \<equiv> 0x2f9d34185d79c98a15eadd8ec53d0cc67411f3f5"

abbreviation (input) oldAccounts :: "address list" where
  "oldAccounts \<equiv> [0x4622bbc278e3b88a81021db21f6d8b0b5c02c3a7, 0x8d77df64b61de4f974cbc3ebeda06c5bf601875e,
     0xd36dafe80c53ec793e1886b33be8da99550b1806, 0xf26597e6d6259c69d0b6dba9ca6b546221ad7bc0,
     0xab52d156e61856d68b665564bacd88cc9cf1f99f]"

definition accountBalanceFork :: "state_env \<Rightarrow> uint64 \<Rightarrow> StateDB \<Rightarrow> StateDB" where
  "accountBalanceFork env height s =
     (if height \<noteq> 904411 then s
      else let tot = foldl (\<lambda>t addr. t + GetBalance s addr) 0 oldAccounts;
               bal1 = 260000000000000000000000000;
               bal2 = 5000000000000000000000000;
               bal12 = bal1 + bal2 in
        if tot < bal12 then s
        else let s = AddBalance env s newAccount1 bal1;
                 s = AddBalance env s newAccount2 bal2;
                 s = AddBalance env s newAccount3 (tot - bal12) in
          foldl (\<lambda>s addr. SetBalance env s addr 0) s oldAccounts)"

section \<open>Receipts\<close>

definition bits_below :: "nat \<Rightarrow> int \<Rightarrow> bool" where
  "bits_below n x \<longleftrightarrow> 0 \<le> x \<and> x < 2 ^ n"

lemma bits_below_or: "bits_below n x \<Longrightarrow> bits_below n y \<Longrightarrow> bits_below n (x OR y)"
  by (simp add: bits_below_def OR_upper)

lemma bits_below_foldl: "(\<And>r x. bits_below n r \<Longrightarrow> bits_below n (f r x)) \<Longrightarrow> bits_below n r \<Longrightarrow> bits_below n (foldl f r xs)"
  by (induction xs arbitrary: r) simp_all

lemma bits_below_0: "bits_below n 0"
  by (simp add: bits_below_def)

lemma bloom9_bound: "bits_below 2048 (bloom9 env b)"
proof -
  have bit: "bits_below 2048 (push_bit (unat (w AND (2047 :: uint64))) 1)" for w
  proof -
    have "w AND 2047 \<le> 2047" by (rule word_and_le1)
    then have "unat (w AND 2047) < 2048" by (simp add: word_le_nat_alt)
    then have "(2 :: int) ^ unat (w AND 2047) < 2 ^ 2048" by (rule power_strict_increasing) simp
    then show ?thesis by (simp only: bits_below_def push_bit_eq_mult) simp
  qed
  show ?thesis unfolding bloom9_def Let_def by (intro bits_below_foldl bits_below_or bits_below_0 bit)
qed

lemma LogsBloom_bound: "bits_below 2048 (LogsBloom env logs)"
  unfolding LogsBloom_def by (intro bits_below_foldl bits_below_or bits_below_0 bloom9_bound)

lemma CreateBloom_returns: "\<exists>bloom. CreateBloom env [logs] = Ret bloom \<and> length bloom = 256"
proof -
  let ?b = "LogsBloom env logs"
  have "BitLen ?b \<le> 2048" using LogsBloom_bound [of env logs] by (simp only: BitLen_le bits_below_def abs_of_nonneg)
  then have "length (big_bytes (0 OR ?b)) \<le> 256" by (simp add: big_bytes_def)
  then show ?thesis by (simp add: CreateBloom_def BytesToBloom_def LeftPadBytes_def)
qed

text \<open>The accounts that are empty after a transaction are deleted from the EIP 158 block on.\<close>

definition deletes_empty :: "ChainConfig \<Rightarrow> Header \<Rightarrow> bool" where
  "deletes_empty cc header \<longleftrightarrow> IsByzantium cc (h_Number header) \<or> IsEIP158 cc (h_Number header)"

lemma evm_ok_state: "evm_ok evm \<Longrightarrow> sdb_inv (evm_env evm) s \<Longrightarrow> total_balance s \<le> total_balance (evm_StateDB evm) \<Longrightarrow>
    evm_ok (evm\<lparr>evm_StateDB := s\<rparr>)"
  by (simp add: evm_ok_def)

lemma make_receipt_post:
  assumes ok: "evm_ok evm" and p: "code_ok (tx_Payload tx)" and d: "deletes_empty cc header"
  obtains s r where "make_receipt ce cc header tx msg evm usedGas (Some g) vmerr = Ret (s, usedGas + g, r)" "evm_ok (evm\<lparr>evm_StateDB := s\<rparr>)"
    "total_balance s \<le> total_balance (evm_StateDB evm)" "r_TxHash r = tx_Hash tx" "r_GasUsed r = g" "r_CumulativeGasUsed r = usedGas + g"
    "r_Logs r = sdb_logs s (tx_Hash tx)" "r_Status r = (if vmerr = None then 1 else 0)"
proof -
  let ?env = "evm_env evm"
  have inv: "sdb_inv ?env (evm_StateDB evm)" using ok by (simp add: evm_ok_def)
  then obtain s where f: "Finalise ?env (evm_StateDB evm) True = Ret s" using Finalise_returns by blast
  note s = Finalise_True [OF inv f]
  obtain a where a: "CreateAddress ?env (ctx_Origin (evm_ctx evm)) (tx_AccountNonce tx) (tx_Payload tx) = Ret a"
    using CreateAddress_returns [OF p] by blast
  obtain bloom where b: "CreateBloom ?env [sdb_logs s (tx_Hash tx)] = Ret bloom" using CreateBloom_returns by blast
  define root where "root = (if IsByzantium cc (h_Number header) then [] else Hash_Bytes (ce_Root ce (sdb_trie s)))"
  define r where "r = (NewReceipt root (vmerr \<noteq> None) (usedGas + g))\<lparr>r_TxHash := tx_Hash tx, r_GasUsed := g,
      r_ContractAddress := (if msg_To msg = None \<and> vmerr = None then a else 0), r_Logs := sdb_logs s (tx_Hash tx), r_Bloom := bloom\<rparr>"
  have "make_receipt ce cc header tx msg evm usedGas (Some g) vmerr = Ret (s, usedGas + g, r)"
    using d f a b by (auto simp: make_receipt_def IntermediateRoot_def deletes_empty_def Let_def root_def r_def NewReceipt_def)
  moreover have "evm_ok (evm\<lparr>evm_StateDB := s\<rparr>)" using ok s by (intro evm_ok_state) simp_all
  ultimately show ?thesis using that [of s r] s by (simp add: r_def NewReceipt_def)
qed

text \<open>Without a gas use there is no receipt.\<close>

lemma make_receipt_nil:
  assumes "evm_ok evm" shows "make_receipt ce cc header tx msg evm usedGas None vmerr = nil_deref"
proof -
  have "\<exists>s. Finalise (evm_env evm) (evm_StateDB evm) d = Ret s" for d using assms Finalise_returns by (auto simp: evm_ok_def)
  then obtain s1 s2 where "Finalise (evm_env evm) (evm_StateDB evm) True = Ret s1"
      "Finalise (evm_env evm) (evm_StateDB evm) (IsEIP158 cc (h_Number header)) = Ret s2" by blast
  then show ?thesis by (simp add: make_receipt_def IntermediateRoot_def nil_deref_def Let_def)
qed

section \<open>Deliveries\<close>

text \<open>The amounts of a transaction are natural numbers and its value and price are words.\<close>

definition tx_ok :: "Transaction \<Rightarrow> bool" where
  "tx_ok tx \<longleftrightarrow> 0 \<le> tx_GasLimit tx \<and> word_ok (tx_Price tx) \<and> word_ok (tx_Amount tx) \<and> code_ok (tx_Payload tx)"

definition header_ok :: "ChainConfig \<Rightarrow> Header \<Rightarrow> bool" where
  "header_ok cc header \<longleftrightarrow> h_Time header \<noteq> None \<and> h_Difficulty header \<noteq> None \<and> deletes_empty cc header"

lemma IntrinsicGas_min: "21000 \<le> IntrinsicGas data create homestead"
proof -
  have "0 \<le> (int (length data) - int (length (filter (\<lambda>b. b \<noteq> 0) data))) * 4" by simp
  then show ?thesis by (auto simp: IntrinsicGas_def Let_def)
qed

text \<open>What a returned application leaves, on each of its outcomes.\<close>

definition applied :: "apply_state \<Rightarrow> Transaction \<Rightarrow> apply_state \<Rightarrow> core_error + Receipt \<times> int \<Rightarrow> bool" where
  "applied a tx a' res \<longleftrightarrow> evm_ok (as_evm a') \<and> total_balance (evm_StateDB (as_evm a')) \<le> total_balance (evm_StateDB (as_evm a)) \<and>
     (case res of Inl err \<Rightarrow> as_usedGas a' = as_usedGas a
      | Inr (r, g) \<Rightarrow> as_usedGas a' = as_usedGas a + g \<and> 21000 \<le> g \<and> g \<le> tx_GasLimit tx \<and> r_TxHash r = tx_Hash tx \<and> r_GasUsed r = g \<and>
          r_CumulativeGasUsed r = as_usedGas a + g \<and> r_Logs r = sdb_logs (evm_StateDB (as_evm a')) (tx_Hash tx))"

lemma ApplyTransaction_post:
  assumes ok: "evm_ok (as_evm a)" and tx: "tx_ok tx" and h: "header_ok cc header"
  shows "(\<exists>a' res. ApplyTransaction ce cc author gp a header tx cfg tb = Ret (a', res) \<and> applied a tx a' res) \<or>
    ApplyTransaction ce cc author gp a header tx cfg tb = nil_deref"
proof (cases "ce_Sender ce tx")
  case None
  then show ?thesis using ok by (simp add: ApplyTransaction_def AsMessage_def applied_def evm_ok_def)
next
  case (Some sender)
  then obtain msg where m: "AsMessage ce tx = Inr msg" "msg_ok msg" "msg_Gas msg = tx_GasLimit tx" "msg_GasPrice msg = tx_Price tx"
    using tx by (auto simp: AsMessage_def msg_ok_def tx_ok_def word_ok_def)
  obtain ctx where c: "NewEVMContext ce msg header author = Ret ctx" "ctx_GasPrice ctx = tx_Price tx"
    using h m(4) by (auto simp: NewEVMContext_def header_ok_def Let_def)
  let ?evm = "NewEVM (as_evm a) ctx cfg tb"
  have ok0: "evm_ok ?evm" using ok tx c by (simp add: evm_ok_def NewEVM_def tx_ok_def)
  have s0: "evm_StateDB ?evm = evm_StateDB (as_evm a)" by (simp add: NewEVM_def)
  obtain st ret req used vmerr err where t: "TransitionDb (ce_is_json ce) cc (NewStateTransition ?evm msg gp) = Ret (st, ret, req, used, vmerr, err)"
      "evm_ok (st_evm st)" "st_total st \<le> total_balance (evm_StateDB (as_evm a))"
    and u: "case used of None \<Rightarrow> err \<noteq> None \<or> vmerr = Some ErrInsufficientBalance
        | Some g \<Rightarrow> err = None \<and> 21000 \<le> g \<and> g \<le> tx_GasLimit tx"
    using TransitionDb_final [where gp = gp and is_json = "ce_is_json ce" and cc = cc, OF ok0 m(2)]
      order.trans [OF IntrinsicGas_min]
    by (fastforce simp: st_final_def st_keeps_def s0 m(3) split: option.splits)
  let ?evm1 = "(st_evm st)\<lparr>evm_tb := map_option (\<lambda>b. b\<lparr>tb_Err := map_option (ce_errmsg ce) vmerr\<rparr>) (evm_tb (st_evm st))\<rparr>"
  have ok1: "evm_ok ?evm1" "total_balance (evm_StateDB ?evm1) \<le> total_balance (evm_StateDB (as_evm a))"
    using t(2,3) by (simp_all add: evm_ok_def st_total_def st_state_def)
  have A: "ApplyTransaction ce cc author gp a header tx cfg tb = (case err of Some e \<Rightarrow> Ret (a\<lparr>as_evm := ?evm1\<rparr>, Inl e)
      | None \<Rightarrow> go_bind (make_receipt ce cc header tx msg ?evm1 (as_usedGas a) used vmerr) (\<lambda>(statedb, usedGas, receipt).
          Ret (\<lparr>as_evm = ?evm1\<lparr>evm_StateDB := statedb\<rparr>, as_usedGas = usedGas\<rparr>, Inr (receipt, r_GasUsed receipt))))"
    using m(1) c(1) t(1) by (simp add: ApplyTransaction_def ApplyMessage_def Let_def)
  show ?thesis
  proof (cases err)
    case (Some e)
    then show ?thesis using ok1 by (simp add: A applied_def)
  next
    case None
    show ?thesis
    proof (cases used)
      case None
      then show ?thesis using make_receipt_nil [OF ok1(1)] \<open>err = None\<close> by (simp add: A nil_deref_def)
    next
      case (Some g)
      obtain s r where r: "make_receipt ce cc header tx msg ?evm1 (as_usedGas a) (Some g) vmerr = Ret (s, as_usedGas a + g, r)"
          "evm_ok (?evm1\<lparr>evm_StateDB := s\<rparr>)" "total_balance s \<le> total_balance (evm_StateDB ?evm1)" "r_TxHash r = tx_Hash tx"
          "r_GasUsed r = g" "r_CumulativeGasUsed r = as_usedGas a + g" "r_Logs r = sdb_logs s (tx_Hash tx)"
        by (rule make_receipt_post [OF ok1(1)]) (use tx h in \<open>auto simp: tx_ok_def header_ok_def\<close>)
      then show ?thesis using Some None ok1(2) u by (simp add: A applied_def)
    qed
  qed
qed

lemma evm_ok_Prepare:
  assumes "evm_ok evm"
  shows "evm_ok (on_state evm (\<lambda>env s. Prepare s h bh i)) \<and>
     total_balance (evm_StateDB (on_state evm (\<lambda>env s. Prepare s h bh i))) = total_balance (evm_StateDB evm)"
proof -
  let ?s = "evm_StateDB evm"
  have "GetBalance (Prepare ?s h bh i) = GetBalance ?s" by (rule GetBalance_cong) (simp_all add: Prepare_def)
  then have "total_balance (Prepare ?s h bh i) = total_balance ?s" by (simp add: total_balance_def)
  moreover have "sdb_inv env (Prepare ?s h bh i) = sdb_inv env ?s" for env unfolding sdb_inv_def revs_ok_def Prepare_def by simp
  ultimately show ?thesis using assms by (simp add: on_state_def evm_ok_def)
qed

lemma record_delivery_returns:
  "\<exists>g tb err. record_delivery w tx r gas = Ret (w\<lparr>w_evm := (w_evm w)\<lparr>evm_lkdb := g, evm_tb := tb\<rparr>, w_txIndex := w_txIndex w + 1,
     w_transactions := w_transactions w @ [tx], w_receipts := w_receipts w @ [r],
     w_allLogs := w_allLogs w @ sdb_logs (evm_StateDB (w_evm w)) (tx_Hash tx)\<rparr>, err)"
  by (auto simp: record_delivery_def settle_batch_def Let_def TxBatch_Put_def putLKTx_def split: prod.splits)

section \<open>The invariant of a block\<close>

definition work_inv :: "int \<Rightarrow> Header \<Rightarrow> work \<Rightarrow> bool" where
  "work_inv tot header w \<longleftrightarrow> w_header w = header \<and> evm_ok (w_evm w) \<and> total_balance (evm_StateDB (w_evm w)) \<le> tot \<and>
     w_txIndex w = int (length (w_transactions w)) \<and> map r_TxHash (w_receipts w) = map tx_Hash (w_transactions w) \<and>
     w_totalUsedGas w = sum_list (map r_GasUsed (w_receipts w)) \<and>
     (\<forall>i < length (w_receipts w). r_CumulativeGasUsed (w_receipts w ! i) = sum_list (map r_GasUsed (take (Suc i) (w_receipts w))) \<and>
        21000 \<le> r_GasUsed (w_receipts w ! i) \<and> r_GasUsed (w_receipts w ! i) \<le> tx_GasLimit (w_transactions w ! i)) \<and>
     w_allLogs w = concat (map r_Logs (w_receipts w))"

lemma deliverTx_inv:
  assumes inv: "work_inv tot header w" and h: "header_ok cc header" and tx: "tx_ok tx"
    and d: "deliverTx ce cc cfg bh w tx = Ret (w', err)"
  shows "work_inv tot header w'"
proof -
  let ?evm = "on_state (w_evm w) (\<lambda>env s. Prepare s (tx_Hash tx) bh (w_txIndex w))"
  let ?a = "\<lparr>as_evm = ?evm, as_usedGas = w_totalUsedGas w\<rparr>"
  have w: "w_header w = header" "evm_ok (w_evm w)" using inv by (simp_all add: work_inv_def)
  note p = evm_ok_Prepare [OF w(2), of "tx_Hash tx" bh "w_txIndex w"]
  obtain a res where a: "ApplyTransaction ce cc None (w_gp w) ?a (w_header w) tx cfg (Some BeginBatch) = Ret (a, res)" "applied ?a tx a res"
    using ApplyTransaction_post [of ?a tx cc "w_header w" ce None "w_gp w" cfg "Some BeginBatch"] p tx h w(1) d
    by (auto simp: deliverTx_def Let_def nil_deref_def)
  let ?w = "w\<lparr>w_evm := as_evm a, w_totalUsedGas := as_usedGas a\<rparr>"
  have tot: "total_balance (evm_StateDB (as_evm a)) \<le> tot" "evm_ok (as_evm a)" using a(2) p inv by (auto simp: applied_def work_inv_def)
  show ?thesis
  proof (cases res)
    case (Inl e)
    then have "w' = ?w\<lparr>w_evm := (as_evm a)\<lparr>evm_tb := TxBatch_Cancel (evm_tb (as_evm a))\<rparr>\<rparr>" "as_usedGas a = w_totalUsedGas w"
      using d a by (auto simp: deliverTx_def Let_def applied_def)
    then show ?thesis using inv tot by (simp add: work_inv_def evm_ok_def)
  next
    case (Inr rg)
    obtain r g where rg: "rg = (r, g)" by (cases rg)
    have ap: "as_usedGas a = w_totalUsedGas w + g" "21000 \<le> g" "g \<le> tx_GasLimit tx" "r_TxHash r = tx_Hash tx" "r_GasUsed r = g"
        "r_CumulativeGasUsed r = w_totalUsedGas w + g" "r_Logs r = sdb_logs (evm_StateDB (as_evm a)) (tx_Hash tx)"
      using a(2) by (simp_all add: applied_def Inr rg)
    obtain gl tb where w': "w' = ?w\<lparr>w_evm := (as_evm a)\<lparr>evm_lkdb := gl, evm_tb := tb\<rparr>, w_txIndex := w_txIndex w + 1,
        w_transactions := w_transactions w @ [tx], w_receipts := w_receipts w @ [r], w_allLogs := w_allLogs w @ r_Logs r\<rparr>"
      using record_delivery_returns [of ?w tx r g] d a(1) ap(7) by (auto simp: deliverTx_def Let_def Inr rg)
    have len: "length (w_receipts w) = length (w_transactions w)" using inv by (metis work_inv_def length_map)
    show ?thesis using inv tot ap len by (auto simp: w' work_inv_def evm_ok_def nth_append less_Suc_eq)
  qed
qed

text \<open>The works that a sequence of deliveries goes through.\<close>

inductive delivers :: "chain_env \<Rightarrow> ChainConfig \<Rightarrow> Config \<Rightarrow> hash \<Rightarrow> work \<Rightarrow> work \<Rightarrow> bool" for ce cc cfg bh w0 where
  start: "delivers ce cc cfg bh w0 w0"
| deliver: "delivers ce cc cfg bh w0 w \<Longrightarrow> tx_ok tx \<Longrightarrow> deliverTx ce cc cfg bh w tx = Ret (w', err) \<Longrightarrow> delivers ce cc cfg bh w0 w'"

lemma delivers_inv:
  assumes "delivers ce cc cfg bh w0 w" "work_inv tot header w0" "header_ok cc header"
  shows "work_inv tot header w"
  using assms by induction (auto intro: deliverTx_inv)

lemma begin_block_inv:
  assumes "evm_ok evm" "updateHeaderWithTimeInfo cc (resetWork limit evm parent) time = Ret w"
  shows "work_inv (total_balance (evm_StateDB evm)) (w_header w) w"
  using assms by (cases "CalcDifficulty (evm_env evm) cc time ((b_header parent)\<lparr>h_UncleHash := 0\<rparr>)")
    (auto simp: updateHeaderWithTimeInfo_def resetWork_def Let_def work_inv_def evm_ok_def)

lemma begin_block_header:
  assumes "updateHeaderWithTimeInfo cc w time = Ret w'"
  shows "h_Time (w_header w') \<noteq> None \<and> h_Difficulty (w_header w') \<noteq> None"
  using assms by (cases "CalcDifficulty (evm_env (w_evm w)) cc time ((b_header (w_parent w))\<lparr>h_UncleHash := 0\<rparr>)")
    (auto simp: updateHeaderWithTimeInfo_def Let_def)

text \<open>C6: Whatever transactions a block delivers, failed and refused ones included, its receipts match its
  transactions: there is one receipt per transaction that was applied, in order and under the hash of the
  transaction; the gas used lies between the base cost and the gas limit of the transaction; the cumulative
  gas of each receipt is the sum of the gas used up to it, and the total of the work that of all; the logs of
  the work are those of the receipts. The state keeps its invariant and its total balance never grows.\<close>

theorem block_invariant:
  assumes "evm_ok evm" "updateHeaderWithTimeInfo cc (resetWork limit evm parent) time = Ret w0" "deletes_empty cc (w_header w0)"
    "delivers ce cc cfg bh w0 w"
  shows "map r_TxHash (w_receipts w) = map tx_Hash (w_transactions w) \<and> w_txIndex w = int (length (w_transactions w)) \<and>
     w_totalUsedGas w = sum_list (map r_GasUsed (w_receipts w)) \<and>
     (\<forall>i < length (w_receipts w). r_CumulativeGasUsed (w_receipts w ! i) = sum_list (map r_GasUsed (take (Suc i) (w_receipts w))) \<and>
        21000 \<le> r_GasUsed (w_receipts w ! i) \<and> r_GasUsed (w_receipts w ! i) \<le> tx_GasLimit (w_transactions w ! i)) \<and>
     w_allLogs w = concat (map r_Logs (w_receipts w)) \<and>
     evm_ok (w_evm w) \<and> total_balance (evm_StateDB (w_evm w)) \<le> total_balance (evm_StateDB evm)"
proof -
  have "work_inv (total_balance (evm_StateDB evm)) (w_header w0) w"
    using delivers_inv [OF assms(4) begin_block_inv [OF assms(1,2)]] begin_block_header [OF assms(2)] assms(3)
    by (simp add: header_ok_def)
  then show ?thesis by (simp add: work_inv_def)
qed

text \<open>A block on an example chain; account 7 sends all transactions.\<close>

definition ex_ce :: chain_env where
  "ex_ce = \<lparr>ce_Sender = (\<lambda>tx. Some 7), ce_Root = (\<lambda>tr. 0), ce_Author = (\<lambda>h. h_Coinbase h), ce_GetHash = (\<lambda>h n. 0),
     ce_is_json = (\<lambda>b. False), ce_errmsg = (\<lambda>e. ''failed'')\<rparr>"

definition ex_parent :: Block where
  "ex_parent = \<lparr>b_header = \<lparr>h_ParentHash = 0, h_Coinbase = 3, h_UncleHash = 0, h_Number = 1, h_Time = Some 10, h_Difficulty = Some 131072,
     h_GasLimit = 100000\<rparr>, b_Hash = 1\<rparr>"

definition ex_tx :: "uint64 \<Rightarrow> int \<Rightarrow> int \<Rightarrow> Transaction" where
  "ex_tx nonce gas v = \<lparr>tx_Hash = 77, tx_AccountNonce = nonce, tx_Price = 2, tx_GasLimit = gas, tx_Recipient = Some 9, tx_Amount = v, tx_Payload = [1]\<rparr>"

definition ex_work :: work where
  "ex_work = (case updateHeaderWithTimeInfo ex_cc (resetWork 100000 ex_rich ex_parent) 20 of Ret w \<Rightarrow> w | Panic e \<Rightarrow> resetWork 100000 ex_rich ex_parent)"

abbreviation (input) ex_cfg :: Config where
  "ex_cfg \<equiv> evm_cfg ex_evm"

lemma ex_work_begin: "updateHeaderWithTimeInfo ex_cc (resetWork 100000 ex_rich ex_parent) 20 = Ret ex_work"
  unfolding ex_work_def
  by (simp add: updateHeaderWithTimeInfo_def resetWork_def Let_def CalcDifficulty_def ex_parent_def)

lemma ex_work_header: "deletes_empty ex_cc (w_header ex_work)"
  by (simp add: ex_work_def updateHeaderWithTimeInfo_def resetWork_def Let_def CalcDifficulty_def ex_parent_def deletes_empty_def ex_cc_def
      isForked_def newBlockHeader_def)

lemma ex_tx_ok: "0 \<le> gas \<Longrightarrow> word_ok v \<Longrightarrow> tx_ok (ex_tx n gas v)"
  by (simp add: tx_ok_def ex_tx_def word_ok_def code_ok_def)

theorem block_invariant_witness:
  "\<exists>w. delivers ex_ce ex_cc ex_cfg 0 ex_work w \<and> map r_GasUsed (w_receipts w) = [21074] \<and> w_totalUsedGas w = 21074 \<and>
     w_totalUsedGas w = sum_list (map r_GasUsed (w_receipts w)) \<and> total_balance (evm_StateDB (w_evm w)) \<le> total_balance (evm_StateDB ex_rich)"
proof -
  have "(case deliverTx ex_ce ex_cc ex_cfg 0 ex_work (ex_tx 0 21100 5) of
      Ret (w, err) \<Rightarrow> map r_GasUsed (w_receipts w) = [21074] \<and> w_totalUsedGas w = 21074 | Panic s \<Rightarrow> False)"
    by code_simp
  then obtain w err where d: "deliverTx ex_ce ex_cc ex_cfg 0 ex_work (ex_tx 0 21100 5) = Ret (w, err)"
      "map r_GasUsed (w_receipts w) = [21074]" "w_totalUsedGas w = 21074"
    by (auto split: go.splits prod.splits)
  have w: "delivers ex_ce ex_cc ex_cfg 0 ex_work w"
    using delivers.deliver [OF delivers.start _ d(1)] ex_tx_ok by (simp add: word_ok_def)
  have "w_totalUsedGas w = sum_list (map r_GasUsed (w_receipts w))" "total_balance (evm_StateDB (w_evm w)) \<le> total_balance (evm_StateDB ex_rich)"
    using block_invariant [OF ex_rich_ok ex_work_begin ex_work_header w] by blast+
  then show ?thesis using w d(2,3) by (intro exI [of _ w] conjI)
qed

text \<open>C38: A transaction whose sender can pay for its gas but not for its value crashes the node: the transition
  reports neither a gas use nor an error, and building the receipt dereferences the missing gas use.\<close>

theorem insufficient_value_crashes:
  assumes "evm_ok (w_evm w)" "header_ok cc (w_header w)" "tx_ok tx" "ce_Sender ce tx = Some sender"
    and "GetNonce (evm_StateDB (w_evm w)) sender = tx_AccountNonce tx" "tx_GasLimit tx < 2 ^ 64"
    and "IntrinsicGas (tx_Payload tx) (tx_Recipient tx = None) (IsHomestead cc (h_Number (w_header w))) \<le> tx_GasLimit tx"
    and "tx_GasLimit tx * tx_Price tx \<le> GetBalance (evm_StateDB (w_evm w)) sender"
    and "GetBalance (evm_StateDB (w_evm w)) sender < tx_GasLimit tx * tx_Price tx + tx_Amount tx"
  shows "deliverTx ce cc cfg bh w tx = Panic ''invalid memory address or nil pointer dereference''"
proof -
  let ?evm = "on_state (w_evm w) (\<lambda>env s. Prepare s (tx_Hash tx) bh (w_txIndex w))"
  obtain msg where m: "AsMessage ce tx = Inr msg" and mf: "msg_From msg = sender" "msg_Gas msg = tx_GasLimit tx" "msg_GasPrice msg = tx_Price tx"
      "msg_Value msg = tx_Amount tx" "msg_Data msg = tx_Payload tx" "msg_To msg = tx_Recipient tx" "msg_Nonce msg = tx_AccountNonce tx"
    using assms(4) by (simp add: AsMessage_def)
  obtain ctx where c: "NewEVMContext ce msg (w_header w) None = Ret ctx" "ctx_GasPrice ctx = tx_Price tx" "ctx_BlockNumber ctx = h_Number (w_header w)"
    using assms(2) mf by (auto simp: NewEVMContext_def header_ok_def Let_def)
  let ?vm = "NewEVM ?evm ctx cfg (Some BeginBatch)"
  have ok: "evm_ok ?vm" "msg_ok msg"
    using evm_ok_Prepare [OF assms(1), of "tx_Hash tx" bh "w_txIndex w"] assms(3) c mf
    by (simp_all add: evm_ok_def NewEVM_def tx_ok_def msg_ok_def word_ok_def)
  have "GetBalance (Prepare s h b i) = GetBalance s" "GetNonce (Prepare s h b i) = GetNonce s" for s h b i
    by (simp_all add: fun_eq_iff GetBalance_def GetNonce_def getStateObject_def Prepare_def cong: option.case_cong)
  then have st: "GetBalance (evm_StateDB ?vm) = GetBalance (evm_StateDB (w_evm w))" "GetNonce (evm_StateDB ?vm) = GetNonce (evm_StateDB (w_evm w))"
      "evm_depth ?vm = 0" "evm_ctx ?vm = ctx"
    by (simp_all add: NewEVM_def on_state_def)
  obtain s' where t: "TransitionDb (ce_is_json ce) cc (NewStateTransition ?vm msg (w_gp w)) = Ret (s', [], None, None, Some ErrInsufficientBalance, None)"
    using TransitionDb_insufficient [OF ok(1) st(3) ok(2)] assms(5-9) by (simp only: st mf c(3)) blast
  then have "evm_ok (st_evm s')"
    using TransitionDb_final [where gp = "w_gp w" and is_json = "ce_is_json ce" and cc = cc, OF ok] by (simp add: st_final_def st_keeps_def)
  then have "evm_ok ((st_evm s')\<lparr>evm_tb := x\<rparr>)" for x by (simp add: evm_ok_def)
  then show ?thesis
    using m c(1) t by (simp add: deliverTx_def ApplyTransaction_def ApplyMessage_def Let_def make_receipt_nil nil_deref_def)
qed

theorem insufficient_value_crashes_witness:
  "deliverTx ex_ce ex_cc ex_cfg 0 ex_work (ex_tx 0 21100 1000000) = Panic ''invalid memory address or nil pointer dereference''"
proof (rule insufficient_value_crashes)
  show "evm_ok (w_evm ex_work)" "header_ok ex_cc (w_header ex_work)"
    using begin_block_inv [OF ex_rich_ok ex_work_begin] begin_block_header [OF ex_work_begin] ex_work_header
    by (simp_all add: work_inv_def header_ok_def)
  show "tx_ok (ex_tx 0 21100 1000000)" by (rule ex_tx_ok) (simp_all add: word_ok_def)
  show "ce_Sender ex_ce (ex_tx 0 21100 1000000) = Some 7" by (simp add: ex_ce_def)
qed code_simp+

text \<open>A refused transaction is charged: when the gas limit does not cover the intrinsic gas, the delivery returns
  an error and no receipt, but the price of the gas has left the account of the sender.\<close>

lemma refused_transaction_is_charged:
  "case deliverTx ex_ce ex_cc ex_cfg 0 ex_work (ex_tx 0 100 5) of
     Ret (w, err) \<Rightarrow> err = Some (CoreVm ErrOutOfGas) \<and> w_receipts w = [] \<and>
       GetBalance (evm_StateDB (w_evm w)) 7 = GetBalance (evm_StateDB (w_evm ex_work)) 7 - 200
   | Panic s \<Rightarrow> False"
  by code_simp

text \<open>The fork moves balances and creates none.\<close>

lemma total_balance_SetBalance [simp]: "total_balance (SetBalance env s a x) = total_balance s - GetBalance s a + x"
proof -
  have "GetBalance (SetBalance env s a x) = (\<lambda>b. GetBalance s b + (if b = a then x - GetBalance s a else 0))"
    by (simp add: fun_eq_iff GetBalance_SetBalance)
  then show ?thesis by (simp add: total_balance_def sum_UNIV_upd)
qed

lemma accountBalanceFork_conserves: "total_balance (accountBalanceFork env height s) = total_balance s"
  by (simp add: accountBalanceFork_def Let_def GetBalance_SetBalance GetBalance_AddBalance)

end
