(* ===== verification/Spec2Isabelle.thy ===== *)
theory Spec2Isabelle
  imports Proposer_Selection Wire Commit_Verification Height_Vote_Set Priv_Validator Evm_Bound Ethermint_Work
begin

text \<open>
  A blockchain node in two halves. Validators agree on blocks with a byzantine agreement (\<^verbatim>\<open>src/tendermint/tendermint\<close>);
  the application behind the agreement runs the transactions of each block on a modified Ethereum virtual machine
  (\<^verbatim>\<open>src/tendermint/ethermint\<close> and \<^verbatim>\<open>src/ethereum/go-ethereum\<close>) and records internal transfers in a database of its own
  (\<^verbatim>\<open>src/third_part/txmgr\<close>). This development models the parts of both halves that decide: who proposes, which votes
  make a majority, what a validator may sign, what a commit proves, what an execution does to the accounts, and what
  a block of transactions leaves behind.

  \<^bold>\<open>Conventions.\<close> \<^verbatim>\<open>Go_Prelude\<close> has the values of Go. A computation that may panic has a type \<^verbatim>\<open>'a go\<close> with the
  constructors \<^verbatim>\<open>Ret\<close> and \<^verbatim>\<open>Panic\<close>; indexing, slicing and dereferencing nil are such computations. Go \<^verbatim>\<open>int\<close> and \<^verbatim>\<open>int64\<close>
  are \<^verbatim>\<open>int\<close> with \<^verbatim>\<open>wrap64\<close> where an operation can overflow, \<^verbatim>\<open>uint64\<close> is a \<^verbatim>\<open>64 word\<close>, \<^verbatim>\<open>big.Int\<close> is \<^verbatim>\<open>int\<close>, bytes are
  \<^verbatim>\<open>8 word list\<close>, an address is a \<^verbatim>\<open>160 word\<close> and a hash a \<^verbatim>\<open>256 word\<close>. A struct is a record with a prefix per field,
  a nil pointer is \<^verbatim>\<open>None\<close>, an error is a constructor. Objects that the code changes through pointers are passed and
  returned. Operations carry the names of the source; where two types have a method of the same name, the type is the
  prefix. \<^verbatim>\<open>go_run\<close> runs a list of events; the locales \<^verbatim>\<open>go_machine\<close> and \<^verbatim>\<open>total_machine\<close> carry an invariant along it.

  \<^bold>\<open>Agreement.\<close>
  \<^item> \<^verbatim>\<open>Container_Heap\<close> (\<^verbatim>\<open>tmlibs/common/heap.go\<close> over \<^verbatim>\<open>container/heap\<close>), \<^verbatim>\<open>Validator_Set\<close> (\<^verbatim>\<open>types/validator.go\<close>,
    \<^verbatim>\<open>types/validator_set.go\<close>) and \<^verbatim>\<open>Proposer_Selection\<close>: validators by address, with the locales \<^verbatim>\<open>keyed_set\<close> (lookup after
    update) and \<^verbatim>\<open>weighted_quorum\<close> (two quorums intersect), and the rotation of proposers. The heap refines plain rounds
    of an arg-max, it agrees with the linear scan, it never overflows, and it starves no validator.
  \<^item> \<^verbatim>\<open>Wire\<close> (\<^verbatim>\<open>go-wire\<close>), \<^verbatim>\<open>Bit_Array\<close> (\<^verbatim>\<open>tmlibs/common/bit_array.go\<close>) and \<^verbatim>\<open>Block_Types\<close> (\<^verbatim>\<open>types/block.go\<close>, \<^verbatim>\<open>types/vote.go\<close>,
    \<^verbatim>\<open>types/canonical_json.go\<close>, \<^verbatim>\<open>types/evidence.go\<close>): encodings, bit arrays, votes and the bytes that are signed.
    \<^verbatim>\<open>Sub\<close> and \<^verbatim>\<open>Or\<close> of bit arrays are characterised for receivers that are longer than their argument too.
  \<^item> \<^verbatim>\<open>Vote_Set\<close> (\<^verbatim>\<open>types/vote_set.go\<close>) and \<^verbatim>\<open>Height_Vote_Set\<close> (\<^verbatim>\<open>consensus/types/height_vote_set.go\<close>): votes of a round and
    of a height. Whatever arrives in whatever order, a set does not panic, a reported majority is real, final and
    detected at once, every outcome of an addition is accounted for, and peers cannot open more than two rounds each.
    \<^verbatim>\<open>POLInfo\<close> finds the last majority of prevotes up to the current round; rounds that peers opened above it do not count.
  \<^item> \<^verbatim>\<open>Commit_Verification\<close> (\<^verbatim>\<open>VerifyCommit\<close>, \<^verbatim>\<open>VerifyCommitAny\<close>): exact characterisation, the commit of a decided set
    verifies, and two conflicting decisions yield evidence against more than a third of the power.
  \<^item> \<^verbatim>\<open>Priv_Validator\<close> (\<^verbatim>\<open>types/priv_validator.go\<close>): the signer never signs twice for a height, round and step, over
    restarts too, and no evidence verifies against it. When a vote is signed again the stored signature is returned, and
    it verifies for the vote with the new timestamp exactly if the two timestamps agree to the millisecond.

  \<^bold>\<open>Execution.\<close>
  \<^item> \<^verbatim>\<open>Big_Math\<close> (\<^verbatim>\<open>common/math\<close>, \<^verbatim>\<open>common/bytes.go\<close>, \<^verbatim>\<open>common/lkfee.go\<close>): integers and the transfer fees; the bisection that
    sweeps a balance ends with the optimum.
  \<^item> \<^verbatim>\<open>State_DB\<close> (\<^verbatim>\<open>core/state\<close>): accounts, journal, snapshots, \<^verbatim>\<open>Finalise\<close>. The invariant \<^verbatim>\<open>sdb_inv\<close> is kept by every
    operation, \<^verbatim>\<open>later\<close> says that a state can be undone to an earlier one, and reverting restores what the getters see.
    An empty account whose touch was reverted is stuck: what the transaction does to it later is not written to the trie.
  \<^item> \<^verbatim>\<open>Rlp\<close> (\<^verbatim>\<open>rlp/encode.go\<close>, \<^verbatim>\<open>rlp/raw.go\<close>) and \<^verbatim>\<open>Lk_Txdb\<close> (\<^verbatim>\<open>third_part/txmgr/db/basic/basic.go\<close>): the two-part buffer
    refines the recursive encoding, splitting inverts it, and recorded transfers are found by block. Each transaction settles a batch of its own; the
    batches of a block add exactly its rows and leave the queries for other blocks as they were.
  \<^item> \<^verbatim>\<open>Evm_Opcodes\<close>, \<^verbatim>\<open>Evm_Base\<close>, \<^verbatim>\<open>Evm_Gas\<close>, \<^verbatim>\<open>Evm_Calls\<close>, \<^verbatim>\<open>Evm_Instructions\<close>, \<^verbatim>\<open>Evm_Jump_Table\<close>, \<^verbatim>\<open>Evm_Interpreter\<close>
    (\<^verbatim>\<open>core/vm\<close>): every instruction, gas function and table row, the five call operations and the loop. The instructions
    take the interpreter as a parameter, since calls run it again; \<^verbatim>\<open>Evm_Interpreter\<close> ties the knot.
  \<^item> \<^verbatim>\<open>Evm_Invariant\<close>, \<^verbatim>\<open>Evm_Gas_Safety\<close>, \<^verbatim>\<open>Evm_Step_Safety\<close>, \<^verbatim>\<open>Evm_Call_Safety\<close>, \<^verbatim>\<open>Evm_Safety\<close>, \<^verbatim>\<open>Evm_Bound\<close>: \<^verbatim>\<open>exec_ok\<close>, \<^verbatim>\<open>gas_ok\<close>
    and \<^verbatim>\<open>memf_ok\<close> are the contracts of the functions in a row of the table, \<^verbatim>\<open>step_ok\<close> that of an iteration, and the
    locale \<^verbatim>\<open>bounded_interp\<close> that of the interpreter towards the calls; \<^verbatim>\<open>Evm_Safety\<close> interprets it on \<^verbatim>\<open>Interpreter_Run\<close>.
    Every call and creation returns, a failed call restores the state, and frames are well typed.
  \<^item> \<^verbatim>\<open>State_Transition\<close> (\<^verbatim>\<open>core/state_transition.go\<close>, \<^verbatim>\<open>core/gaspool.go\<close>, \<^verbatim>\<open>core/state_processor.go\<close>, \<^verbatim>\<open>core/types\<close>): gas is
    bought, the message is executed and settled, and a receipt is made. No message panics or creates balance, and a
    failed call costs the fee and nothing else.
  \<^item> \<^verbatim>\<open>Ethermint_Work\<close> (\<^verbatim>\<open>ethermint/ethereum/pending.go\<close>, \<^verbatim>\<open>consensus/ethash\<close>): the work of a block. Over any deliveries
    the receipts match the transactions and the total balance never grows; a transaction whose value is not covered
    crashes the node.

  \<^bold>\<open>Bounds and fuel.\<close> The loop of the interpreter and the calls nested in it share a bound on the number of iterations.
  \<^verbatim>\<open>vm_Call\<close> and \<^verbatim>\<open>vm_Create\<close> start with one more than their gas: every iteration that continues pays gas, and a nested
  call gets less gas than its caller has left, so the bound is never met (\<^verbatim>\<open>vm_calls_return\<close>), and any larger one gives
  the same result (\<^verbatim>\<open>bound_is_immaterial\<close>). Other loops are structural or have a measure. Code and payloads are shorter
  than 2 to the 62 bytes (\<^verbatim>\<open>code_ok\<close>) and the sum of all balances is below 2 to the 256 (\<^verbatim>\<open>evm_ok\<close>), which the operations
  keep. The total power of a validator set is below 2 to the 62 (\<^verbatim>\<open>powers_ok\<close>).

  \<^bold>\<open>Parameters.\<close> Signing, signature recovery, hashing, JSON, the hashes of tries, the code and storage behind a hash, the
  author of a header and the hashes of earlier blocks are fields of \<^verbatim>\<open>crypto_env\<close>, \<^verbatim>\<open>pv_env\<close>, \<^verbatim>\<open>state_env\<close>, \<^verbatim>\<open>crypto_fns\<close>,
  \<^verbatim>\<open>json_hash\<close> and \<^verbatim>\<open>chain_env\<close>. What is assumed of them are the sizes of results (\<^verbatim>\<open>crypto_ok\<close>), the form of printed
  hashes (\<^verbatim>\<open>hex_hashes\<close>), and unforgeability where a theorem is about forgery. Each such theorem has a witness with
  concrete functions. Blocks from the EIP 158 fork on are those of \<^verbatim>\<open>block_invariant\<close> (\<^verbatim>\<open>deletes_empty\<close>).

  \<^bold>\<open>Idealisations.\<close> Allocation never fails: growing the memory of a frame and making a slice of slices always succeed.
  Slices are values, so the signature that \<^verbatim>\<open>ecrecover\<close> appends to is a copy, while the code may write into the spare
  capacity of its input. A signer restarts between operations and what it saved is what it loads; a crash between
  signing and saving is not an event. \<^verbatim>\<open>pv_Reset\<close> and \<^verbatim>\<open>ModifyLastHeight\<close> are modelled, but they are tools of the operator that
  overwrite what was signed last, and so they are not among the events of a run of the signer.

  \<^bold>\<open>Not modelled.\<close> The consensus reactor, the peer-to-peer networks, the mempool and the transaction pool are concurrent
  loops over locks, timers and connections around the sequential parts above. The trie, the key-value stores and the
  import of blocks are storage; the world state uses the trie as a map. \<^verbatim>\<open>commit\<close> of the work writes to that storage;
  of it the balance fork is modelled (\<^verbatim>\<open>accountBalanceFork_conserves\<close>). The stream decoder of RLP and the reflection of
  both encoders dispatch on Go types. Tracing, printing, JSON rendering, remote procedure calls, consoles, the light
  clients, the proof-of-work engine and the command line tools do not take part in a decision.
\<close>

end
